(* ===== verification/Prelude.thy ===== *)
theory Prelude
  imports Complex_Main "HOL-Library.Log_Nat" "HOL-Library.Sublist"
begin

text \<open>
  What the components share: the result type of fallible code, fixed-width integers with their
  wrap-around written out, the decimal printing and reading of the C++ standard library
  (\<open>std::to_string\<close>, the digit loops of the parsers), and generic facts on lists and maps.

  Conventions of the development:
  \<^item> a C++ byte string (\<open>std::string\<close>, a vector of \<open>std::byte\<close>) is a \<^typ>\<open>char list\<close>: a
    \<^typ>\<open>char\<close> is one octet;
  \<^item> an unsigned integer is a \<^typ>\<open>nat\<close>, a signed one an \<^typ>\<open>int\<close>; every operation that can
    leave the type's range is wrapped explicitly by \<open>u32\<close>, \<open>u64\<close>, \<open>i32\<close> or \<open>i64\<close>;
  \<^item> code that throws returns a sum, \<^term>\<open>Inl\<close> for the exception.
\<close>

section \<open>Collections of facts\<close>

named_theorems width_simps \<open>facts that remove a wrap-around whose argument is in range\<close>
named_theorems result_simps \<open>case analysis of fallible results\<close>

section \<open>Fallible results\<close>

text \<open>Sequencing of two steps of which the first may throw.\<close>

definition rbind :: "'e + 'a \<Rightarrow> ('a \<Rightarrow> 'e + 'b) \<Rightarrow> 'e + 'b" where
  "rbind r f = (case r of Inl e \<Rightarrow> Inl e | Inr x \<Rightarrow> f x)"

lemma rbind_Inl [simp]: "rbind (Inl e) f = Inl e"
  by (simp add: rbind_def)

lemma rbind_Inr [simp]: "rbind (Inr x) f = f x"
  by (simp add: rbind_def)

lemma rbind_eq_Inr [result_simps]:
  "rbind r f = Inr y \<longleftrightarrow> (\<exists>x. r = Inr x \<and> f x = Inr y)"
  by (cases r) auto

lemma rbind_eq_Inl [result_simps]:
  "rbind r f = Inl e \<longleftrightarrow> r = Inl e \<or> (\<exists>x. r = Inr x \<and> f x = Inl e)"
  by (cases r) auto

lemma rbind_cong [fundef_cong]:
  "r = r' \<Longrightarrow> (\<And>x. r' = Inr x \<Longrightarrow> f x = f' x) \<Longrightarrow> rbind r f = rbind r' f'"
  by (cases r') auto

text \<open>A check that returns early with a reason when it fails.\<close>

definition ensure :: "bool \<Rightarrow> 'e \<Rightarrow> 'e + unit" where
  "ensure b e = (if b then Inr () else Inl e)"

lemma ensure_simps [simp]:
  "ensure True e = Inr ()" "ensure False e = Inl e" "ensure b e = Inr u \<longleftrightarrow> b"
  "ensure b e = Inl e' \<longleftrightarrow> \<not> b \<and> e = e'"
  by (simp_all add: ensure_def)

section \<open>Fixed-width integers\<close>

definition u32 :: "nat \<Rightarrow> nat" where
  "u32 n = n mod 2 ^ 32"

definition u64 :: "nat \<Rightarrow> nat" where
  "u64 n = n mod 2 ^ 64"

text \<open>Conversion of a signed integer to an unsigned type: the value modulo the type's size.\<close>

definition u32_of_int :: "int \<Rightarrow> nat" where
  "u32_of_int n = nat (n mod 2 ^ 32)"

definition u64_of_int :: "int \<Rightarrow> nat" where
  "u64_of_int n = nat (n mod 2 ^ 64)"

text \<open>Conversion to a signed type: the representative in two's complement.\<close>

definition i32 :: "int \<Rightarrow> int" where
  "i32 n = (n + 2 ^ 31) mod 2 ^ 32 - 2 ^ 31"

definition i64 :: "int \<Rightarrow> int" where
  "i64 n = (n + 2 ^ 63) mod 2 ^ 64 - 2 ^ 63"

definition i32_range :: "int \<Rightarrow> bool" where
  "i32_range n \<longleftrightarrow> - 2147483648 \<le> n \<and> n \<le> 2147483647"

definition i64_range :: "int \<Rightarrow> bool" where
  "i64_range n \<longleftrightarrow> - 9223372036854775808 \<le> n \<and> n \<le> 9223372036854775807"

lemma u32_id [width_simps]: "n < 2 ^ 32 \<Longrightarrow> u32 n = n"
  by (simp add: u32_def)

lemma u64_id [width_simps]: "n < 2 ^ 64 \<Longrightarrow> u64 n = n"
  by (simp add: u64_def)

lemma u32_less [simp]: "u32 n < 2 ^ 32"
  by (simp add: u32_def)

lemma u64_less [simp]: "u64 n < 2 ^ 64"
  by (simp add: u64_def)

lemma u64_le [simp]: "u64 n \<le> n"
  by (simp add: u64_def)

lemma i32_id [width_simps]: "i32_range n \<Longrightarrow> i32 n = n"
  by (simp add: i32_def i32_range_def)

lemma i64_id [width_simps]: "i64_range n \<Longrightarrow> i64 n = n"
  by (simp add: i64_def i64_range_def)

lemma i32_in_range [simp]: "i32_range (i32 n)"
  unfolding i32_range_def i32_def by (simp add: algebra_simps)

lemma u32_of_int_id [width_simps]: "0 \<le> n \<Longrightarrow> n < 2 ^ 32 \<Longrightarrow> u32_of_int n = nat n"
  by (simp add: u32_of_int_def)

lemma u32_of_int_of_nat [width_simps]: "n < 2 ^ 32 \<Longrightarrow> u32_of_int (int n) = n"
  by (simp add: u32_of_int_def)

lemma u32_of_int_less [simp]: "u32_of_int n < 2 ^ 32"
  by (simp add: u32_of_int_def nat_less_iff)

text \<open>A 32-bit value carried through the signed type of the same width comes back unchanged.\<close>

lemma u32_of_i32 [width_simps]: "n < 2 ^ 32 \<Longrightarrow> u32_of_int (i32 (int n)) = n"
proof -
  assume n: "n < 2 ^ 32"
  have "i32 (int n) mod 2 ^ 32 = int n mod 2 ^ 32"
    unfolding i32_def by (simp add: mod_diff_left_eq)
  also have "\<dots> = int n" using n by simp
  finally show ?thesis by (simp add: u32_of_int_def)
qed

section \<open>Decimal digits\<close>

definition is_digit :: "char \<Rightarrow> bool" where
  "is_digit c \<longleftrightarrow> 48 \<le> (of_char c :: nat) \<and> (of_char c :: nat) \<le> 57"

definition digit_val :: "char \<Rightarrow> nat" where
  "digit_val c = of_char c - 48"

definition digit_char :: "nat \<Rightarrow> char" where
  "digit_char d = char_of (48 + d)"

lemma of_digit_char [simp]: "d < 10 \<Longrightarrow> (of_char (digit_char d) :: nat) = 48 + d"
  by (simp add: digit_char_def of_char_of)

lemma digit_char_is_digit [simp]: "d < 10 \<Longrightarrow> is_digit (digit_char d)"
  by (simp add: is_digit_def)

lemma digit_val_digit_char [simp]: "d < 10 \<Longrightarrow> digit_val (digit_char d) = d"
  by (simp add: digit_val_def)

lemma digit_char_1: "digit_char (Suc 0) = CHR ''1''"
  by code_simp

lemma digit_char_2: "digit_char (Suc (Suc 0)) = CHR ''2''"
  by code_simp

text \<open>\<open>std::to_string\<close> of an unsigned and of a signed integer.\<close>

fun nat_str :: "nat \<Rightarrow> string" where
  "nat_str n = (if n < 10 then [digit_char n] else nat_str (n div 10) @ [digit_char (n mod 10)])"

declare nat_str.simps [simp del]

definition int_str :: "int \<Rightarrow> string" where
  "int_str n = (if n < 0 then CHR ''-'' # nat_str (nat (- n)) else nat_str (nat n))"

text \<open>The value of a run of decimal digits, most significant first.\<close>

definition dec_val :: "string \<Rightarrow> nat" where
  "dec_val s = foldl (\<lambda>a c. a * 10 + digit_val c) 0 s"

lemma dec_val_Nil [simp]: "dec_val [] = 0"
  by (simp add: dec_val_def)

lemma dec_val_snoc [simp]: "dec_val (s @ [c]) = dec_val s * 10 + digit_val c"
  by (simp add: dec_val_def)

lemma nat_str_digits: "\<forall>c \<in> set (nat_str n). is_digit c"
proof (induction n rule: nat_str.induct)
  case (1 n)
  then show ?case by (subst nat_str.simps) auto
qed

lemma nat_str_not_Nil [simp]: "nat_str n \<noteq> []"
  by (subst nat_str.simps) simp

lemma dec_val_nat_str [simp]: "dec_val (nat_str n) = n"
proof (induction n rule: nat_str.induct)
  case (1 n)
  show ?case
  proof (cases "n < 10")
    case True
    then have "nat_str n = [] @ [digit_char n]"
      by (simp add: nat_str.simps [of n])
    then show ?thesis
      using True by (simp only: dec_val_snoc) simp
  next
    case False
    then have "nat_str n = nat_str (n div 10) @ [digit_char (n mod 10)]"
      by (simp add: nat_str.simps [of n])
    then show ?thesis
      using 1 False by simp
  qed
qed

lemma nat_str_inj: "nat_str m = nat_str n \<Longrightarrow> m = n"
  by (metis dec_val_nat_str)

section \<open>Runs of characters\<close>

text \<open>The loops \<open>while (pos < size && p(s[pos])) ++pos\<close> of the scanners.\<close>

lemma takeWhile_dropWhile_run:
  assumes "\<forall>c \<in> set xs. P c" and "ys = [] \<or> \<not> P (hd ys)"
  shows "takeWhile P (xs @ ys) = xs" and "dropWhile P (xs @ ys) = ys"
  using assms by (auto simp: takeWhile_append dropWhile_append) (cases ys; simp)+

lemma length_dropWhile_le [simp]: "length (dropWhile P s) \<le> length s"
  by (induction s) auto

section \<open>Association lists in insertion order\<close>

text \<open>
  A vector of key/value pairs scanned linearly: the first entry of a key is the one found;
  assignment overwrites the first entry and appends when there is none.
\<close>

fun assoc_find :: "'k \<Rightarrow> ('k \<times> 'v) list \<Rightarrow> 'v option" where
  "assoc_find k [] = None"
| "assoc_find k ((k', v) # kvs) = (if k' = k then Some v else assoc_find k kvs)"

fun assoc_set :: "'k \<Rightarrow> 'v \<Rightarrow> ('k \<times> 'v) list \<Rightarrow> ('k \<times> 'v) list" where
  "assoc_set k v [] = [(k, v)]"
| "assoc_set k v ((k', v') # kvs) = (if k' = k then (k', v) # kvs else (k', v') # assoc_set k v kvs)"

lemma assoc_find_set: "assoc_find k (assoc_set k' v kvs) = (if k = k' then Some v else assoc_find k kvs)"
  by (induction kvs) auto

lemma assoc_find_eq_map_of: "assoc_find k kvs = map_of kvs k"
  by (induction kvs) auto

lemma assoc_set_fresh: "k \<notin> fst ` set kvs \<Longrightarrow> assoc_set k v kvs = kvs @ [(k, v)]"
  by (induction kvs) auto

lemma keys_assoc_set: "fst ` set (assoc_set k v kvs) = insert k (fst ` set kvs)"
  by (induction k v kvs rule: assoc_set.induct) (auto simp: insert_commute)

section \<open>Ordered maps\<close>

text \<open>
  A \<open>std::map\<close> as the association list of its entries in key order, which is the order in which the
  code iterates over it.
\<close>

fun omap_put :: "'k::linorder \<Rightarrow> 'v \<Rightarrow> ('k \<times> 'v) list \<Rightarrow> ('k \<times> 'v) list" where
  "omap_put k v [] = [(k, v)]"
| "omap_put k v ((k', v') # m) =
     (if k < k' then (k, v) # (k', v') # m
      else if k = k' then (k, v) # m
      else (k', v') # omap_put k v m)"

definition omap_at :: "'k \<Rightarrow> ('v \<Rightarrow> 'v) \<Rightarrow> ('k \<times> 'v) list \<Rightarrow> ('k \<times> 'v) list" where
  "omap_at k f m = map (\<lambda>(k', v). (k', if k' = k then f v else v)) m"

definition omap_ok :: "('k::linorder \<times> 'v) list \<Rightarrow> bool" where
  "omap_ok m \<longleftrightarrow> sorted_wrt (<) (map fst m)"

lemma map_of_omap_put: "map_of (omap_put k v m) = (map_of m)(k \<mapsto> v)"
  by (induction k v m rule: omap_put.induct) auto

lemma set_omap_put: "set (omap_put k v m) \<subseteq> insert (k, v) (set m)"
  by (induction k v m rule: omap_put.induct) auto

lemma keys_omap_put: "fst ` set (omap_put k v m) = insert k (fst ` set m)"
  by (induction k v m rule: omap_put.induct) auto

lemma omap_ok_put: "omap_ok m \<Longrightarrow> omap_ok (omap_put k v m)"
proof (induction k v m rule: omap_put.induct)
  case (2 k v k' v' m)
  then show ?case
    using keys_omap_put [of k v m] by (auto simp: omap_ok_def)
qed (simp add: omap_ok_def)

lemma keys_omap_at [simp]: "map fst (omap_at k f m) = map fst m"
  by (simp add: omap_at_def case_prod_beta comp_def)

lemma omap_ok_at [simp]: "omap_ok (omap_at k f m) = omap_ok m"
  by (simp add: omap_ok_def)

lemma map_of_omap_at: "map_of (omap_at k f m) k' = (if k' = k then map_option f (map_of m k) else map_of m k')"
  by (induction m) (auto simp: omap_at_def)

lemma omap_ok_distinct: "omap_ok m \<Longrightarrow> distinct (map fst m)"
  by (simp add: omap_ok_def strict_sorted_iff)

lemma omap_ok_filter: "omap_ok m \<Longrightarrow> omap_ok (filter P m)"
  unfolding omap_ok_def by (induction m) auto

end
