(* ===== verification/Json_Number.thy ===== *)
theory Json_Number
  imports Prelude
begin

text \<open>
  The numbers of the JSON layer (src/vkrelay2/common/util/json.cpp): the C++ \<open>double\<close>, the
  conversions of the standard library the code calls (\<open>std::stod\<close>, \<open>std::llround\<close>,
  \<open>std::floor\<close>, \<open>snprintf("%.17g")\<close>) and the exactness facts the codecs rely on.

  A double is its exact rational value or one of the three special values. The sign of zero is
  not represented: no operation of the source distinguishes the two zeros. \<open>stod\<close> follows IEEE
  round-to-nearest-even and reports overflow and inexact underflow as a range error, as the GNU
  library does. \<open>llround\<close> of a value outside 64 bits is \<open>INT64_MIN\<close>, the result of the x86-64
  conversion instruction.
\<close>

section \<open>Doubles\<close>

datatype dbl = Finite rat | PosInf | NegInf | NotANum

definition round_half_even :: "rat \<Rightarrow> int" where
  "round_half_even x =
     (let f = \<lfloor>x\<rfloor>; d = x - of_int f
      in if d < 1 / 2 then f else if 1 / 2 < d then f + 1 else if even f then f else f + 1)"

text \<open>The binary exponent of a positive rational: \<open>2 ^ e \<le> x < 2 ^ (e + 1)\<close>.\<close>

definition flog2 :: "rat \<Rightarrow> int" where
  "flog2 x =
     (let (p, q) = quotient_of x; e = int (nat (bitlen p)) - int (nat (bitlen q))
      in if 2 powi e \<le> x then e else e - 1)"

definition round_at :: "int \<Rightarrow> rat \<Rightarrow> rat" where
  "round_at e x = of_int (round_half_even (x / 2 powi e)) * 2 powi e"

text \<open>Rounding of a magnitude to 53 bits, with and without the exponent range of a double.\<close>

definition round53 :: "rat \<Rightarrow> rat" where
  "round53 x = (if x = 0 then 0 else round_at (flog2 x - 52) x)"

definition round_double :: "rat \<Rightarrow> rat" where
  "round_double x = (if x = 0 then 0 else round_at (max (flog2 x - 52) (- 1074)) x)"

definition double_of_int :: "int \<Rightarrow> dbl" where
  "double_of_int n = Finite (of_int (sgn n) * round_double (of_int \<bar>n\<bar>))"

section \<open>Text to number\<close>

datatype num_error = InvalidArgument | OutOfRange

definition decimal_value :: "bool \<Rightarrow> string \<Rightarrow> string \<Rightarrow> int \<Rightarrow> num_error + dbl" where
  "decimal_value neg ip fp ex =
     (if ip @ fp = [] then Inl InvalidArgument
      else let x = of_nat (dec_val (ip @ fp)) * 10 powi (ex - int (length fp));
               r = round_double x
           in if 2 powi 1024 \<le> r then Inl OutOfRange
              else if x \<noteq> 0 \<and> round53 x < 2 powi (- 1022) \<and> r \<noteq> x then Inl OutOfRange
              else Inr (Finite (if neg then - r else r)))"

text \<open>
  \<open>std::stod\<close> on the tokens the number scanner produces: an optional minus, digits, an optional
  fraction, an optional exponent. An exponent marker with no digits after it ends the number.
\<close>

definition split_sign :: "string \<Rightarrow> bool \<times> string" where
  "split_sign t = (if t \<noteq> [] \<and> hd t = CHR ''-'' then (True, tl t) else (False, t))"

definition split_fraction :: "string \<Rightarrow> string \<times> string" where
  "split_fraction t =
     (if t \<noteq> [] \<and> hd t = CHR ''.'' then (takeWhile is_digit (tl t), dropWhile is_digit (tl t))
      else ([], t))"

definition exponent_value :: "string \<Rightarrow> int" where
  "exponent_value t =
     (if t \<noteq> [] \<and> hd t \<in> {CHR ''e'', CHR ''E''}
      then if tl t \<noteq> [] \<and> hd (tl t) = CHR ''+'' then int (dec_val (takeWhile is_digit (tl (tl t))))
           else case split_sign (tl t) of (neg, d) \<Rightarrow>
             (if neg then - 1 else 1) * int (dec_val (takeWhile is_digit d))
      else 0)"

definition stod :: "string \<Rightarrow> num_error + dbl" where
  "stod t =
     (case split_sign t of (neg, t1) \<Rightarrow>
      case split_fraction (dropWhile is_digit t1) of (fp, t2) \<Rightarrow>
        decimal_value neg (takeWhile is_digit t1) fp (exponent_value t2))"

section \<open>Number to text and to integer\<close>

definition is_whole :: "dbl \<Rightarrow> bool" where
  "is_whole d = (case d of Finite x \<Rightarrow> x = of_int \<lfloor>x\<rfloor> | _ \<Rightarrow> False)"

definition round_half_away :: "rat \<Rightarrow> int" where
  "round_half_away x = (if 0 \<le> x then \<lfloor>x + 1 / 2\<rfloor> else - \<lfloor>1 / 2 - x\<rfloor>)"

definition llround :: "dbl \<Rightarrow> int" where
  "llround d =
     (case d of
        Finite x \<Rightarrow> if i64_range (round_half_away x) then round_half_away x else - (2 ^ 63)
      | _ \<Rightarrow> - (2 ^ 63))"

text \<open>The decimal exponent of a positive rational.\<close>

definition flog10 :: "rat \<Rightarrow> int" where
  "flog10 x =
     (if 1 \<le> x then int (length (nat_str (nat \<lfloor>x\<rfloor>))) - 1
      else let k = int (length (nat_str (nat \<lfloor>1 / x\<rfloor>))) - 1
           in if 10 powi k = 1 / x then - k else - k - 1)"

definition strip_zeros :: "string \<Rightarrow> string" where
  "strip_zeros s = rev (dropWhile (\<lambda>c. c = CHR ''0'') (rev s))"

definition with_fraction :: "string \<Rightarrow> string \<Rightarrow> string" where
  "with_fraction ip fp = (let f = strip_zeros fp in if f = [] then ip else ip @ CHR ''.'' # f)"

definition exponent_str :: "int \<Rightarrow> string" where
  "exponent_str x =
     CHR ''e'' # (if x < 0 then CHR ''-'' else CHR ''+'') #
     (let ds = nat_str (nat \<bar>x\<bar>) in if length ds < 2 then CHR ''0'' # ds else ds)"

definition fmt_g17_pos :: "rat \<Rightarrow> string" where
  "fmt_g17_pos x =
     (let e = flog10 x;
          m0 = round_half_even (x * 10 powi (16 - e));
          (m, X) = (if m0 = 10 ^ 17 then (10 ^ 16, e + 1) else (m0, e));
          ds = nat_str (nat m)
      in if - 4 \<le> X \<and> X < 17
         then if 0 \<le> X then with_fraction (take (nat X + 1) ds) (drop (nat X + 1) ds)
              else with_fraction ''0'' (replicate (nat (- X) - 1) CHR ''0'' @ ds)
         else with_fraction (take 1 ds) (drop 1 ds) @ exponent_str X)"

definition fmt_g17 :: "dbl \<Rightarrow> string" where
  "fmt_g17 d =
     (case d of
        Finite x \<Rightarrow> if x = 0 then ''0'' else if x < 0 then CHR ''-'' # fmt_g17_pos (- x) else fmt_g17_pos x
      | PosInf \<Rightarrow> ''inf'' | NegInf \<Rightarrow> ''-inf'' | NotANum \<Rightarrow> ''nan'')"

definition dump_number :: "dbl \<Rightarrow> string" where
  "dump_number d =
     (case d of
        Finite x \<Rightarrow> if x = of_int \<lfloor>x\<rfloor> \<and> \<bar>x\<bar> < 10 ^ 15 then int_str \<lfloor>x\<rfloor> else fmt_g17 d
      | _ \<Rightarrow> fmt_g17 d)"

section \<open>Exactness on integers\<close>

lemma round_half_even_of_int [simp]: "round_half_even (of_int n) = n"
  by (simp add: round_half_even_def)

lemma bitlen_le_rat:
  assumes "0 < p"
  shows "2 powi (bitlen p - 1) \<le> (of_int p :: rat)" and "(of_int p :: rat) < 2 powi bitlen p"
proof -
  have b: "0 \<le> bitlen p - 1" "2 ^ nat (bitlen p - 1) \<le> p" "p < 2 ^ nat (bitlen p)"
    using assms bitlen_bounds [of p] bitlen_le_iff_power [of p 0] by auto
  from b(2) have "(of_int (2 ^ nat (bitlen p - 1)) :: rat) \<le> of_int p"
    by (simp only: of_int_le_iff)
  with b(1) show "2 powi (bitlen p - 1) \<le> (of_int p :: rat)"
    by (simp add: power_int_def)
  from b(3) have "(of_int p :: rat) < of_int (2 ^ nat (bitlen p))"
    by (simp only: of_int_less_iff)
  with b(1) show "(of_int p :: rat) < 2 powi bitlen p"
    by (simp add: power_int_def)
qed

lemma flog2_of_nat_le:
  assumes "0 < n" and "n < 2 ^ 53"
  shows "flog2 (of_int n) \<le> 52"
proof -
  have bl: "bitlen n \<le> 53"
    using assms bitlen_le_iff_power [of n 53] by simp
  have "quotient_of (of_int n) = (n, 1)" by simp
  moreover have "bitlen 1 = 1" by (simp add: bitlen_def floorlog_def)
  moreover have "0 \<le> bitlen n" by (simp add: bitlen_nonneg)
  ultimately show ?thesis
    using bl by (simp add: flog2_def Let_def)
qed

lemma round_at_int: "e \<le> 0 \<Longrightarrow> round_at e (of_int n) = of_int n"
proof -
  assume "e \<le> 0"
  then obtain k where e: "e = - int k" by (metis nonpos_int_cases)
  have "(of_int n :: rat) / 2 powi e = of_int (n * 2 ^ k)"
    by (simp add: e power_int_minus field_simps)
  then have "round_at e (of_int n) = of_int (n * 2 ^ k) * 2 powi e"
    by (simp only: round_at_def round_half_even_of_int)
  also have "\<dots> = of_int n"
    by (simp add: e power_int_minus field_simps)
  finally show ?thesis .
qed

lemma round_double_int:
  assumes "0 \<le> n" and "n < 2 ^ 53"
  shows "round_double (of_int n) = of_int n"
proof (cases "n = 0")
  case True
  then show ?thesis by (simp add: round_double_def)
next
  case False
  then have "max (flog2 (of_int n) - 52) (- 1074) \<le> 0"
    using flog2_of_nat_le [of n] assms by simp
  then show ?thesis using False by (simp add: round_double_def round_at_int)
qed

lemma double_of_int_exact:
  assumes "\<bar>n\<bar> < 2 ^ 53"
  shows "double_of_int n = Finite (of_int n)"
proof -
  have "round_double (of_int \<bar>n\<bar>) = of_int \<bar>n\<bar>"
    using round_double_int [of "\<bar>n\<bar>"] assms by simp
  then show ?thesis
    by (simp only: double_of_int_def flip: of_int_mult) (simp add: sgn_mult_abs)
qed

lemma llround_of_int: "i64_range n \<Longrightarrow> llround (Finite (of_int n)) = n"
proof -
  assume n: "i64_range n"
  have "\<lfloor>of_int n + 1 / 2 :: rat\<rfloor> = n" "\<lfloor>1 / 2 - of_int n :: rat\<rfloor> = - n"
    by (simp_all add: floor_eq_iff)
  then have "round_half_away (of_int n) = n"
    by (simp add: round_half_away_def)
  then show ?thesis using n by (simp add: llround_def)
qed

lemma is_whole_of_int [simp]: "is_whole (Finite (of_int n))"
  by (simp add: is_whole_def)

lemma dump_number_int: "\<bar>n\<bar> < 10 ^ 15 \<Longrightarrow> dump_number (Finite (of_int n)) = int_str n"
proof -
  assume "\<bar>n\<bar> < 10 ^ 15"
  then have "(of_int \<bar>n\<bar> :: rat) < of_int (10 ^ 15)" by (simp only: of_int_less_iff)
  then show ?thesis by (simp add: dump_number_def)
qed

lemma int_str_cases:
  "int_str n = (if n < 0 then [CHR ''-''] else []) @ nat_str (nat \<bar>n\<bar>)"
  by (simp add: int_str_def)

lemma decimal_value_exact:
  assumes "ip \<noteq> []" and "x = of_nat (dec_val ip)" and "round_double x = x" and "x < 2 powi 1024"
  shows "decimal_value neg ip [] 0 = Inr (Finite (if neg then - x else x))"
proof -
  have "of_nat (dec_val (ip @ [])) * 10 powi (0 - int (length [])) = x"
    using assms(2) by simp
  then show ?thesis
    using assms(1,3,4) unfolding decimal_value_def Let_def
    by (simp del: power_int_numeral power_int_minus)
qed

lemma stod_digits:
  assumes "ds \<noteq> []" and "\<forall>c \<in> set ds. is_digit c"
  shows "stod ((if neg then [CHR ''-''] else []) @ ds) = decimal_value neg ds [] 0"
proof -
  have "hd ds \<noteq> CHR ''-''"
    using assms hd_in_set [of ds] by (fastforce simp: is_digit_def)
  moreover have "takeWhile is_digit ds = ds" "dropWhile is_digit ds = []"
    using assms(2) by auto
  ultimately show ?thesis
    using assms(1)
    by (cases neg) (simp_all only: stod_def split_sign_def split_fraction_def exponent_value_def
        append.simps list.sel list.distinct if_True if_False simp_thms prod.case)
qed

lemma stod_int_str:
  assumes "\<bar>n\<bar> < 2 ^ 53"
  shows "stod (int_str n) = Inr (Finite (of_int n))"
proof -
  let ?ds = "nat_str (nat \<bar>n\<bar>)"
  have "(of_int \<bar>n\<bar> :: rat) < of_int (2 ^ 53)"
    using assms by (simp only: of_int_less_iff)
  also have "(of_int (2 ^ 53) :: rat) = 2 powi 53" by simp
  also have "\<dots> \<le> 2 powi 1024" by (rule power_int_increasing) simp_all
  finally have lt: "(of_int \<bar>n\<bar> :: rat) < 2 powi 1024" .
  have "stod (int_str n) = decimal_value (n < 0) ?ds [] 0"
    unfolding int_str_cases by (rule stod_digits) (simp_all add: nat_str_digits)
  also have "\<dots> = Inr (Finite (if n < 0 then - of_int \<bar>n\<bar> else of_int \<bar>n\<bar>))"
    using assms by (intro decimal_value_exact lt round_double_int) simp_all
  also have "(if n < 0 then - of_int \<bar>n\<bar> else of_int \<bar>n\<bar>) = (of_int n :: rat)" by simp
  finally show ?thesis .
qed

end
