(* ===== verification/Json.thy ===== *)
theory Json
  imports Json_Number
begin

text \<open>
  The JSON value, parser and serializer of src/vkrelay2/common/util/json.hpp and json.cpp.

  The parser object holds the text and a position; the model's functions take the text that is
  left and return the text that is left after them, so the position is the length of the text
  minus the length of what is left. A failure carries the length that was left, from which
  \<open>json_parse\<close> builds the message with its offset. The recursion of the source descends into the
  text; the model's runs on fuel, and \<open>parse_enough_fuel\<close> shows that the fuel \<open>json_parse\<close> starts
  with is never used up, for any input.
\<close>

section \<open>Values\<close>

datatype jval = JNull | JBool bool | JNum dbl | JStr string
  | JArr "jval list" | JObj "(string \<times> jval) list"

abbreviation JInt :: "int \<Rightarrow> jval" where
  "JInt n \<equiv> JNum (double_of_int n)"

datatype jexc = ParseError string | StdInvalidArgument | StdOutOfRange | FuelExhausted

primrec is_integer :: "jval \<Rightarrow> bool" where
  "is_integer JNull = False"
| "is_integer (JBool b) = False"
| "is_integer (JNum d) = is_whole d"
| "is_integer (JStr s) = False"
| "is_integer (JArr a) = False"
| "is_integer (JObj kvs) = False"

definition as_bool :: "jval \<Rightarrow> jexc + bool" where
  "as_bool v = (case v of JBool b \<Rightarrow> Inr b | _ \<Rightarrow> Inl (ParseError ''value is not a bool''))"

definition as_number :: "jval \<Rightarrow> jexc + dbl" where
  "as_number v = (case v of JNum d \<Rightarrow> Inr d | _ \<Rightarrow> Inl (ParseError ''value is not a number''))"

definition as_int :: "jval \<Rightarrow> jexc + int" where
  "as_int v = rbind (as_number v) (\<lambda>d. Inr (llround d))"

definition as_string :: "jval \<Rightarrow> jexc + string" where
  "as_string v = (case v of JStr s \<Rightarrow> Inr s | _ \<Rightarrow> Inl (ParseError ''value is not a string''))"

definition as_array :: "jval \<Rightarrow> jexc + jval list" where
  "as_array v = (case v of JArr a \<Rightarrow> Inr a | _ \<Rightarrow> Inl (ParseError ''value is not an array''))"

definition as_object :: "jval \<Rightarrow> jexc + (string \<times> jval) list" where
  "as_object v = (case v of JObj kvs \<Rightarrow> Inr kvs | _ \<Rightarrow> Inl (ParseError ''value is not an object''))"

definition json_find :: "jval \<Rightarrow> string \<Rightarrow> jval option" where
  "json_find v key = (case v of JObj kvs \<Rightarrow> assoc_find key kvs | _ \<Rightarrow> None)"

definition json_set :: "jval \<Rightarrow> string \<Rightarrow> jval \<Rightarrow> jval" where
  "json_set v key w = (case v of JObj kvs \<Rightarrow> JObj (assoc_set key w kvs) | _ \<Rightarrow> JObj [(key, w)])"

text \<open>A fresh object on which \<open>set\<close> is called for each pair in turn, as the encoders do.\<close>

definition obj_of :: "(string \<times> jval) list \<Rightarrow> jval" where
  "obj_of kvs = foldl (\<lambda>b (k, v). json_set b k v) (JObj []) kvs"

section \<open>Characters\<close>

abbreviation DQUOTE :: char where "DQUOTE \<equiv> CHR 0x22"
abbreviation BSLASH :: char where "BSLASH \<equiv> CHR 0x5C"

definition is_ws :: "char \<Rightarrow> bool" where
  "is_ws c \<longleftrightarrow> c = CHR '' '' \<or> c = CHR 0x09 \<or> c = CHR 0x0A \<or> c = CHR 0x0D"

definition skip_ws :: "string \<Rightarrow> string" where
  "skip_ws s = dropWhile is_ws s"

text \<open>At the end of the text \<open>peek\<close> returns the NUL character.\<close>

definition peek :: "string \<Rightarrow> char" where
  "peek s = (case s of [] \<Rightarrow> CHR 0x00 | c # _ \<Rightarrow> c)"

text \<open>
  The bytes of a code point. The source ORs a lead marker with bits below it; the two never
  overlap for a code point the parser builds, so the sums below are the same bytes.
\<close>

definition encode_utf8 :: "nat \<Rightarrow> string" where
  "encode_utf8 cp =
     (if cp \<le> 0x7F then [char_of cp]
      else if cp \<le> 0x7FF then [char_of (0xC0 + cp div 64), char_of (0x80 + cp mod 64)]
      else if cp \<le> 0xFFFF
      then [char_of (0xE0 + cp div 4096), char_of (0x80 + cp div 64 mod 64), char_of (0x80 + cp mod 64)]
      else [char_of (0xF0 + cp div 262144), char_of (0x80 + cp div 4096 mod 64),
            char_of (0x80 + cp div 64 mod 64), char_of (0x80 + cp mod 64)])"

section \<open>The parser\<close>

datatype perr = Fail nat string | BadNumber | NumberRange | OutOfFuel

type_synonym 'a parsed = "perr + 'a \<times> string"

definition next_char :: "string \<Rightarrow> char parsed" where
  "next_char s = (case s of [] \<Rightarrow> Inl (Fail 0 ''unexpected end of input'') | c # r \<Rightarrow> Inr (c, r))"

definition expect :: "char \<Rightarrow> string \<Rightarrow> unit parsed" where
  "expect c s =
     rbind (next_char s) (\<lambda>(d, r).
       if d \<noteq> c then Inl (Fail (length r) (''expected '' @ [CHR 0x27, c, CHR 0x27])) else Inr ((), r))"

definition hex_val :: "char \<Rightarrow> nat option" where
  "hex_val c =
     (let n = of_char c :: nat
      in if 48 \<le> n \<and> n \<le> 57 then Some (n - 48)
         else if 97 \<le> n \<and> n \<le> 102 then Some (n - 97 + 10)
         else if 65 \<le> n \<and> n \<le> 70 then Some (n - 65 + 10)
         else None)"

text \<open>The loop of \<open>parse_hex4\<close>: \<open>k\<close> digits are left, \<open>v\<close> is the value so far.\<close>

fun parse_hexn :: "nat \<Rightarrow> nat \<Rightarrow> string \<Rightarrow> nat parsed" where
  "parse_hexn 0 v s = Inr (v, s)"
| "parse_hexn (Suc k) v s =
     rbind (next_char s) (\<lambda>(c, r).
       case hex_val c of
         None \<Rightarrow> Inl (Fail (length r) (''invalid '' @ [BSLASH] @ ''u hex digit''))
       | Some d \<Rightarrow> parse_hexn k (16 * v + d) r)"

definition parse_hex4 :: "string \<Rightarrow> nat parsed" where
  "parse_hex4 s = parse_hexn 4 0 s"

text \<open>The single-character escapes of \<open>parse_string\<close>.\<close>

definition simple_escape :: "char \<Rightarrow> char option" where
  "simple_escape e =
     (if e = DQUOTE then Some DQUOTE else if e = BSLASH then Some BSLASH
      else if e = CHR ''/'' then Some (CHR ''/'') else if e = CHR ''b'' then Some (CHR 0x08)
      else if e = CHR ''f'' then Some (CHR 0x0C) else if e = CHR ''n'' then Some (CHR 0x0A)
      else if e = CHR ''r'' then Some (CHR 0x0D) else if e = CHR ''t'' then Some (CHR 0x09)
      else None)"

text \<open>
  The code point after \<open>\u\<close>: a high surrogate takes the escape of a low one with it. The second
  \<open>next\<close> of the source's condition runs only when the first character was a backslash.
\<close>

definition parse_low_surrogate :: "string \<Rightarrow> nat parsed" where
  "parse_low_surrogate s =
     rbind (next_char s) (\<lambda>(b, r1).
       if b \<noteq> BSLASH then Inl (Fail (length r1) ''expected low surrogate escape'')
       else rbind (next_char r1) (\<lambda>(u, r2).
         if u \<noteq> CHR ''u'' then Inl (Fail (length r2) ''expected low surrogate escape'')
         else rbind (parse_hex4 r2) (\<lambda>(low, r3).
           if low < 0xDC00 \<or> 0xDFFF < low then Inl (Fail (length r3) ''invalid low surrogate'')
           else Inr (low, r3))))"

definition parse_unicode :: "string \<Rightarrow> nat parsed" where
  "parse_unicode s =
     rbind (parse_hex4 s) (\<lambda>(cp, r).
       if 0xD800 \<le> cp \<and> cp \<le> 0xDBFF
       then rbind (parse_low_surrogate r) (\<lambda>(low, r1).
              Inr (0x10000 + (cp - 0xD800) * 1024 + (low - 0xDC00), r1))
       else Inr (cp, r))"

lemma parse_hexn_length: "parse_hexn k v s = Inr (x, r) \<Longrightarrow> length r + k = length s"
  by (induction k v s rule: parse_hexn.induct)
    (auto simp: result_simps next_char_def split: option.splits list.splits)

lemma parse_hex4_length: "parse_hex4 s = Inr (x, r) \<Longrightarrow> length r < length s"
  using parse_hexn_length by (fastforce simp: parse_hex4_def)

lemma next_char_length: "next_char s = Inr (c, r) \<Longrightarrow> length s = Suc (length r)"
  by (auto simp: next_char_def split: list.splits)

lemma parse_low_surrogate_length: "parse_low_surrogate s = Inr (x, r) \<Longrightarrow> length r < length s"
  by (auto simp: parse_low_surrogate_def result_simps split: if_splits
      dest!: next_char_length parse_hex4_length)

lemma parse_unicode_length: "parse_unicode s = Inr (x, r) \<Longrightarrow> length r < length s"
  by (auto simp: parse_unicode_def result_simps split: if_splits
      dest!: parse_hex4_length parse_low_surrogate_length)

function parse_chars :: "string \<Rightarrow> string parsed" where
  "parse_chars s =
     rbind (next_char s) (\<lambda>(c, r).
       if c = DQUOTE then Inr ([], r)
       else if c = BSLASH
       then rbind (next_char r) (\<lambda>(e, r1).
              case simple_escape e of
                Some b \<Rightarrow> rbind (parse_chars r1) (\<lambda>(out, r2). Inr (b # out, r2))
              | None \<Rightarrow>
                  if e = CHR ''u''
                  then rbind (parse_unicode r1) (\<lambda>(cp, r2).
                         rbind (parse_chars r2) (\<lambda>(out, r3). Inr (encode_utf8 cp @ out, r3)))
                  else Inl (Fail (length r1) ''invalid escape sequence''))
       else rbind (parse_chars r) (\<lambda>(out, r1). Inr (c # out, r1)))"
  by pat_completeness auto
termination
  by (relation "measure length")
    (auto dest!: next_char_length parse_unicode_length)

declare parse_chars.simps [simp del]

definition parse_string :: "string \<Rightarrow> string parsed" where
  "parse_string s = rbind (expect DQUOTE s) (\<lambda>(_, r). parse_chars r)"

definition parse_bool :: "string \<Rightarrow> jval parsed" where
  "parse_bool s =
     (if take 4 s = ''true'' then Inr (JBool True, drop 4 s)
      else if take 5 s = ''false'' then Inr (JBool False, drop 5 s)
      else Inl (Fail (length s) ''invalid literal''))"

definition parse_null :: "string \<Rightarrow> jval parsed" where
  "parse_null s =
     (if take 4 s = ''null'' then Inr (JNull, drop 4 s) else Inl (Fail (length s) ''invalid literal''))"

text \<open>The scanner of \<open>parse_number\<close>: the characters taken and what is left.\<close>

definition scan_digits :: "string \<Rightarrow> string \<times> string" where
  "scan_digits s = (takeWhile is_digit s, dropWhile is_digit s)"

definition scan_opt :: "char set \<Rightarrow> string \<Rightarrow> string \<times> string" where
  "scan_opt cs s = (if peek s \<in> cs \<and> s \<noteq> [] then ([hd s], tl s) else ([], s))"

definition scan_fraction :: "string \<Rightarrow> string \<times> string" where
  "scan_fraction s =
     (if peek s = CHR ''.''
      then let (t, r) = scan_digits (tl s) in (CHR ''.'' # t, r)
      else ([], s))"

definition scan_exponent :: "string \<Rightarrow> string \<times> string" where
  "scan_exponent s =
     (if peek s = CHR ''e'' \<or> peek s = CHR ''E''
      then let (t1, r1) = scan_opt {CHR ''+'', CHR ''-''} (tl s); (t2, r2) = scan_digits r1
           in (hd s # t1 @ t2, r2)
      else ([], s))"

definition scan_number :: "string \<Rightarrow> string \<times> string" where
  "scan_number s =
     (let (t1, s1) = scan_opt {CHR ''-''} s;
          (t2, s2) = scan_digits s1;
          (t3, s3) = scan_fraction s2;
          (t4, s4) = scan_exponent s3
      in (t1 @ t2 @ t3 @ t4, s4))"

definition parse_number :: "string \<Rightarrow> jval parsed" where
  "parse_number s =
     (let (token, r) = scan_number s
      in if token = [] \<or> token = ''-'' then Inl (Fail (length r) ''invalid number'')
         else case stod token of
                Inl InvalidArgument \<Rightarrow> Inl BadNumber
              | Inl OutOfRange \<Rightarrow> Inl NumberRange
              | Inr d \<Rightarrow> Inr (JNum d, r))"

fun parse_value :: "nat \<Rightarrow> string \<Rightarrow> jval parsed"
and parse_object :: "nat \<Rightarrow> string \<Rightarrow> jval parsed"
and parse_members :: "nat \<Rightarrow> string \<Rightarrow> ((string \<times> jval) list) parsed"
and parse_array :: "nat \<Rightarrow> string \<Rightarrow> jval parsed"
and parse_elems :: "nat \<Rightarrow> string \<Rightarrow> (jval list) parsed"
where
  "parse_value 0 s = Inl OutOfFuel"
| "parse_value (Suc n) s =
     (let s = skip_ws s; c = peek s
      in if c = CHR ''{'' then parse_object n s
         else if c = CHR ''['' then parse_array n s
         else if c = DQUOTE then rbind (parse_string s) (\<lambda>(str, r). Inr (JStr str, r))
         else if c = CHR ''t'' \<or> c = CHR ''f'' then parse_bool s
         else if c = CHR ''n'' then parse_null s
         else if c = CHR ''-'' \<or> is_digit c then parse_number s
         else Inl (Fail (length s) ''unexpected character''))"
| "parse_object 0 s = Inl OutOfFuel"
| "parse_object (Suc n) s =
     rbind (expect (CHR ''{'') s) (\<lambda>(_, r).
       let r = skip_ws r
       in if peek r = CHR ''}'' then Inr (JObj [], tl r)
          else rbind (parse_members n r) (\<lambda>(kvs, r). Inr (JObj kvs, r)))"
| "parse_members 0 s = Inl OutOfFuel"
| "parse_members (Suc n) s =
     (let s = skip_ws s
      in if peek s \<noteq> DQUOTE then Inl (Fail (length s) ''expected object key string'')
         else rbind (parse_string s) (\<lambda>(key, r1).
              rbind (expect (CHR '':'') (skip_ws r1)) (\<lambda>(_, r2).
              rbind (parse_value n r2) (\<lambda>(v, r3).
              rbind (next_char (skip_ws r3)) (\<lambda>(c, r4).
                if c = CHR '','' then rbind (parse_members n r4) (\<lambda>(kvs, r5). Inr ((key, v) # kvs, r5))
                else if c = CHR ''}'' then Inr ([(key, v)], r4)
                else Inl (Fail (length r4) (''expected '' @ [CHR 0x27, CHR '','', CHR 0x27] @ '' or '' @
                       [CHR 0x27, CHR ''}'', CHR 0x27] @ '' in object'')))))))"
| "parse_array 0 s = Inl OutOfFuel"
| "parse_array (Suc n) s =
     rbind (expect (CHR ''['') s) (\<lambda>(_, r).
       let r = skip_ws r
       in if peek r = CHR '']'' then Inr (JArr [], tl r)
          else rbind (parse_elems n r) (\<lambda>(vs, r). Inr (JArr vs, r)))"
| "parse_elems 0 s = Inl OutOfFuel"
| "parse_elems (Suc n) s =
     rbind (parse_value n s) (\<lambda>(v, r1).
     rbind (next_char (skip_ws r1)) (\<lambda>(c, r2).
       if c = CHR '','' then rbind (parse_elems n r2) (\<lambda>(vs, r3). Inr (v # vs, r3))
       else if c = CHR '']'' then Inr ([v], r2)
       else Inl (Fail (length r2) (''expected '' @ [CHR 0x27, CHR '','', CHR 0x27] @ '' or '' @
              [CHR 0x27, CHR '']'', CHR 0x27] @ '' in array''))))"

definition parse_fuel :: "string \<Rightarrow> nat" where
  "parse_fuel s = 3 * length s + 3"

definition parse_document :: "string \<Rightarrow> perr + jval" where
  "parse_document text =
     (let s = skip_ws text
      in rbind (parse_value (parse_fuel s) s) (\<lambda>(v, r).
           let r = skip_ws r
           in if r \<noteq> [] then Inl (Fail (length r) ''trailing characters after JSON value'') else Inr v))"

definition json_parse :: "string \<Rightarrow> jexc + jval" where
  "json_parse text =
     (case parse_document text of
        Inr v \<Rightarrow> Inr v
      | Inl (Fail left msg) \<Rightarrow>
          Inl (ParseError (''json parse error at offset '' @ nat_str (length text - left) @ '': '' @ msg))
      | Inl BadNumber \<Rightarrow> Inl StdInvalidArgument
      | Inl NumberRange \<Rightarrow> Inl StdOutOfRange
      | Inl OutOfFuel \<Rightarrow> Inl FuelExhausted)"

section \<open>The serializer\<close>

definition hex_digit :: "nat \<Rightarrow> char" where
  "hex_digit d = (if d < 10 then char_of (48 + d) else char_of (87 + d))"

definition escape_char :: "char \<Rightarrow> string" where
  "escape_char c =
     (if c = DQUOTE then [BSLASH, DQUOTE] else if c = BSLASH then [BSLASH, BSLASH]
      else if c = CHR 0x08 then [BSLASH, CHR ''b''] else if c = CHR 0x0C then [BSLASH, CHR ''f'']
      else if c = CHR 0x0A then [BSLASH, CHR ''n''] else if c = CHR 0x0D then [BSLASH, CHR ''r'']
      else if c = CHR 0x09 then [BSLASH, CHR ''t'']
      else if (of_char c :: nat) < 0x20
      then [BSLASH, CHR ''u'', CHR ''0'', CHR ''0'', hex_digit (of_char c div 16), hex_digit (of_char c mod 16)]
      else [c])"

definition escape_string :: "string \<Rightarrow> string" where
  "escape_string s = [DQUOTE] @ concat (map escape_char s) @ [DQUOTE]"

definition pad :: "int \<Rightarrow> nat \<Rightarrow> string" where
  "pad indent depth = (if 0 < indent then replicate (nat indent * depth) (CHR '' '') else [])"

definition newline :: "int \<Rightarrow> string" where
  "newline indent = (if 0 < indent then [CHR 0x0A] else [])"

fun dump_to :: "int \<Rightarrow> nat \<Rightarrow> jval \<Rightarrow> string"
and dump_elems :: "int \<Rightarrow> nat \<Rightarrow> jval list \<Rightarrow> string"
and dump_members :: "int \<Rightarrow> nat \<Rightarrow> (string \<times> jval) list \<Rightarrow> string"
where
  "dump_to i d JNull = ''null''"
| "dump_to i d (JBool b) = (if b then ''true'' else ''false'')"
| "dump_to i d (JNum x) = dump_number x"
| "dump_to i d (JStr s) = escape_string s"
| "dump_to i d (JArr vs) =
     (if vs = [] then ''[]'' else ''['' @ newline i @ dump_elems i d vs @ pad i d @ '']'')"
| "dump_to i d (JObj kvs) =
     (if kvs = [] then ''{}'' else ''{'' @ newline i @ dump_members i d kvs @ pad i d @ ''}'')"
| "dump_elems i d [] = []"
| "dump_elems i d (v # vs) =
     pad i (d + 1) @ dump_to i (d + 1) v @ (if vs \<noteq> [] then '','' else []) @ newline i @ dump_elems i d vs"
| "dump_members i d [] = []"
| "dump_members i d (kv # kvs) =
     pad i (d + 1) @ escape_string (fst kv) @ (if 0 < i then '': '' else '':'') @ dump_to i (d + 1) (snd kv) @
     (if kvs \<noteq> [] then '','' else []) @ newline i @ dump_members i d kvs"

definition json_dump :: "int \<Rightarrow> jval \<Rightarrow> string" where
  "json_dump indent v = dump_to indent 0 v"

end
