(* ===== verification/Json_Correct.thy ===== *)
theory Json_Correct
  imports Json
begin

text \<open>
  What holds of the JSON layer: the parser returns for every text (it consumes at least one
  character per value, so the fuel of \<open>json_parse\<close> is enough), and a value whose numbers are whole
  and below \<open>10 ^ 15\<close> comes back unchanged from printing and parsing, with any bytes in its
  strings and any indentation. \<open>json_find\<close> and \<open>json_set\<close> are a keyed store, the interface
  \<open>keyed_store\<close> on which the message codecs rest.
\<close>

section \<open>Consumption and fuel\<close>

lemma skip_ws_length [simp]: "length (skip_ws s) \<le> length s"
  by (simp add: skip_ws_def)

lemma expect_length: "expect c s = Inr (u, r) \<Longrightarrow> length s = Suc (length r)"
  by (auto simp: expect_def result_simps next_char_length split: if_splits)

lemma parse_chars_length: "parse_chars s = Inr (x, r) \<Longrightarrow> length r < length s"
proof (induction s arbitrary: x r rule: length_induct)
  case (1 s)
  have ih: "length r < length t" if "parse_chars t = Inr (x, r)" "length t < length s" for t x r
    using 1(1) that by blast
  show ?case
    using 1(2) unfolding parse_chars.simps [of s]
    by (auto simp: result_simps split: if_splits option.splits
        dest!: next_char_length parse_unicode_length dest: ih)
qed

lemma parse_string_length: "parse_string s = Inr (x, r) \<Longrightarrow> length r < length s"
  by (auto simp: parse_string_def result_simps dest!: expect_length parse_chars_length)

lemma parse_bool_length: "parse_bool s = Inr (x, r) \<Longrightarrow> length r < length s"
  by (cases s) (auto simp: parse_bool_def split: if_splits)

lemma parse_null_length: "parse_null s = Inr (x, r) \<Longrightarrow> length r < length s"
  by (cases s) (auto simp: parse_null_def split: if_splits)

lemma peek_eq: "c \<noteq> CHR 0x00 \<Longrightarrow> peek s = c \<longleftrightarrow> (\<exists>r. s = c # r)"
  by (cases s) (auto simp: peek_def)

lemma scan_digits_append: "scan_digits s = (t, r) \<Longrightarrow> s = t @ r"
  by (auto simp: scan_digits_def)

lemma scan_opt_append: "scan_opt cs s = (t, r) \<Longrightarrow> s = t @ r"
  by (cases s) (auto simp: scan_opt_def peek_def split: if_splits)

lemma scan_fraction_append: "scan_fraction s = (t, r) \<Longrightarrow> s = t @ r"
  by (auto simp: scan_fraction_def peek_eq split: if_splits prod.splits dest!: scan_digits_append)

lemma scan_exponent_append: "scan_exponent s = (t, r) \<Longrightarrow> s = t @ r"
  by (auto simp: scan_exponent_def peek_eq split: if_splits prod.splits
      dest!: scan_digits_append scan_opt_append)

lemma scan_number_append: "scan_number s = (t, r) \<Longrightarrow> s = t @ r"
  by (auto simp: scan_number_def split: prod.splits dest!: scan_digits_append scan_opt_append
      scan_fraction_append scan_exponent_append)

lemma parse_number_length: "parse_number s = Inr (x, r) \<Longrightarrow> length r < length s"
  by (auto simp: parse_number_def Let_def split: prod.splits if_splits sum.splits num_error.splits
      dest!: scan_number_append)

lemmas leaf_length = next_char_length expect_length parse_string_length parse_bool_length
  parse_null_length parse_number_length

lemma ws_length:
  "next_char (skip_ws s) = Inr (c, r) \<Longrightarrow> length r < length s"
  "expect d (skip_ws s) = Inr (u, r) \<Longrightarrow> length r < length s"
  "parse_string (skip_ws s) = Inr (x, r) \<Longrightarrow> length r < length s"
  using skip_ws_length [of s] by (auto dest!: leaf_length simp del: skip_ws_length)

lemma tl_ws_length: "length (tl (skip_ws s)) \<le> length s"
  using skip_ws_length [of s] by (simp del: skip_ws_length)

lemma next_char_fuel [simp]: "next_char s \<noteq> Inl OutOfFuel"
  by (simp add: next_char_def split: list.splits)

lemma expect_fuel [simp]: "expect c s \<noteq> Inl OutOfFuel"
  by (auto simp: expect_def result_simps split: if_splits)

lemma parse_hexn_fuel [simp]: "parse_hexn k v s \<noteq> Inl OutOfFuel"
  by (induction k v s rule: parse_hexn.induct) (auto simp: result_simps split: option.splits)

lemma parse_low_surrogate_fuel [simp]: "parse_low_surrogate s \<noteq> Inl OutOfFuel"
  by (auto simp: parse_low_surrogate_def parse_hex4_def result_simps split: if_splits)

lemma parse_unicode_fuel [simp]: "parse_unicode s \<noteq> Inl OutOfFuel"
  by (auto simp: parse_unicode_def parse_hex4_def result_simps split: if_splits)

lemma parse_chars_fuel [simp]: "parse_chars s \<noteq> Inl OutOfFuel"
proof (induction s rule: parse_chars.induct)
  case (1 s)
  then show ?case
    apply (subst parse_chars.simps)
    apply (auto simp: result_simps split: if_splits option.splits)
    done
qed

lemma parse_string_fuel [simp]: "parse_string s \<noteq> Inl OutOfFuel"
  by (auto simp: parse_string_def result_simps)

lemma parse_literal_fuel [simp]: "parse_bool s \<noteq> Inl OutOfFuel" "parse_null s \<noteq> Inl OutOfFuel"
  by (auto simp: parse_bool_def parse_null_def)

lemma parse_number_fuel [simp]: "parse_number s \<noteq> Inl OutOfFuel"
  by (auto simp: parse_number_def Let_def split: prod.splits if_splits sum.splits num_error.splits)

lemma parse_length_all:
  "(\<forall>s v r. parse_value n s = Inr (v, r) \<longrightarrow> length r < length s) \<and>
   (\<forall>s v r. parse_object n s = Inr (v, r) \<longrightarrow> length r < length s) \<and>
   (\<forall>s v r. parse_members n s = Inr (v, r) \<longrightarrow> length r < length s) \<and>
   (\<forall>s v r. parse_array n s = Inr (v, r) \<longrightarrow> length r < length s) \<and>
   (\<forall>s v r. parse_elems n s = Inr (v, r) \<longrightarrow> length r < length s)"
proof (induction n)
  case 0
  show ?case by simp
next
  case (Suc n)
  have ih: "parse_value n s = Inr (v, r) \<Longrightarrow> length r < length s"
    "parse_object n s = Inr (v, r) \<Longrightarrow> length r < length s"
    "parse_members n s = Inr (kvs, r) \<Longrightarrow> length r < length s"
    "parse_array n s = Inr (v, r) \<Longrightarrow> length r < length s"
    "parse_elems n s = Inr (vs, r) \<Longrightarrow> length r < length s" for s v r kvs vs
    using Suc by blast+
  have ws: "length r < length (skip_ws s) \<Longrightarrow> length r < length s" for r s
    using skip_ws_length [of s] by linarith
  show ?case
  proof (intro conjI allI impI)
    fix s v r
    assume "parse_value (Suc n) s = Inr (v, r)"
    then have "length r < length (skip_ws s)"
      by (auto simp: Let_def result_simps split: if_splits dest: ih leaf_length)
    then show "length r < length s" by (rule ws)
  next
    fix s v r
    assume "parse_object (Suc n) s = Inr (v, r)"
    then obtain r1 where r1: "length s = Suc (length r1)"
      and r: "r = tl (skip_ws r1) \<or> length r < length (skip_ws r1)"
      by (auto simp: Let_def result_simps split: if_splits dest: ih leaf_length)
    with tl_ws_length [of r1] ws [of r r1] show "length r < length s" by auto
  next
    fix s v r
    assume "parse_members (Suc n) s = Inr (v, r)"
    then show "length r < length s"
      by (fastforce simp: Let_def result_simps split: if_splits dest!: ws_length ih(1,3,5))
  next
    fix s v r
    assume "parse_array (Suc n) s = Inr (v, r)"
    then obtain r1 where r1: "length s = Suc (length r1)"
      and r: "r = tl (skip_ws r1) \<or> length r < length (skip_ws r1)"
      by (auto simp: Let_def result_simps split: if_splits dest: ih leaf_length)
    with tl_ws_length [of r1] ws [of r r1] show "length r < length s" by auto
  next
    fix s v r
    assume "parse_elems (Suc n) s = Inr (v, r)"
    then show "length r < length s"
      by (fastforce simp: Let_def result_simps split: if_splits dest!: ws_length ih(1,3,5))
qed
qed

lemmas parse_length = parse_length_all [THEN conjunct1, rule_format]
  parse_length_all [THEN conjunct2, THEN conjunct1, rule_format]
  parse_length_all [THEN conjunct2, THEN conjunct2, THEN conjunct1, rule_format]
  parse_length_all [THEN conjunct2, THEN conjunct2, THEN conjunct2, THEN conjunct1, rule_format]
  parse_length_all [THEN conjunct2, THEN conjunct2, THEN conjunct2, THEN conjunct2, rule_format]

lemma parse_fuel_all:
  "(\<forall>s. 3 * length s + 3 \<le> n \<longrightarrow> parse_value n s \<noteq> Inl OutOfFuel) \<and>
   (\<forall>s. 3 * length s + 2 \<le> n \<longrightarrow> parse_object n s \<noteq> Inl OutOfFuel) \<and>
   (\<forall>s. 3 * length s + 4 \<le> n \<longrightarrow> parse_members n s \<noteq> Inl OutOfFuel) \<and>
   (\<forall>s. 3 * length s + 2 \<le> n \<longrightarrow> parse_array n s \<noteq> Inl OutOfFuel) \<and>
   (\<forall>s. 3 * length s + 4 \<le> n \<longrightarrow> parse_elems n s \<noteq> Inl OutOfFuel)"
proof (induction n)
  case 0
  show ?case by simp
next
  case (Suc n)
  have ih: "parse_value n s = Inl OutOfFuel \<Longrightarrow> n < 3 * length s + 3"
    "parse_object n s = Inl OutOfFuel \<Longrightarrow> n < 3 * length s + 2"
    "parse_members n s = Inl OutOfFuel \<Longrightarrow> n < 3 * length s + 4"
    "parse_array n s = Inl OutOfFuel \<Longrightarrow> n < 3 * length s + 2"
    "parse_elems n s = Inl OutOfFuel \<Longrightarrow> n < 3 * length s + 4" for s
    using Suc not_le by blast+
  show ?case
  proof (intro conjI allI impI notI)
    fix s
    assume le: "3 * length s + 3 \<le> Suc n" and "parse_value (Suc n) s = Inl OutOfFuel"
    then have "n < 3 * length (skip_ws s) + 2"
      by (auto simp: Let_def result_simps split: if_splits dest: ih)
    with le skip_ws_length [of s] show False by linarith
  next
    fix s
    assume le: "3 * length s + 2 \<le> Suc n" and "parse_object (Suc n) s = Inl OutOfFuel"
    then obtain r1 where "length s = Suc (length r1)" "n < 3 * length (skip_ws r1) + 4"
      by (auto simp: Let_def result_simps split: if_splits dest: leaf_length ih)
    with le skip_ws_length [of r1] show False by linarith
  next
    fix s
    assume le: "3 * length s + 4 \<le> Suc n" and "parse_members (Suc n) s = Inl OutOfFuel"
    then obtain r where "length r < length s" "n < 3 * length r + 4"
      by (fastforce simp: Let_def result_simps split: if_splits dest!: ws_length ih parse_length)
    with le show False by linarith
  next
    fix s
    assume le: "3 * length s + 2 \<le> Suc n" and "parse_array (Suc n) s = Inl OutOfFuel"
    then obtain r1 where "length s = Suc (length r1)" "n < 3 * length (skip_ws r1) + 4"
      by (auto simp: Let_def result_simps split: if_splits dest: leaf_length ih)
    with le skip_ws_length [of r1] show False by linarith
  next
    fix s
    assume le: "3 * length s + 4 \<le> Suc n" and "parse_elems (Suc n) s = Inl OutOfFuel"
    then have "n < 3 * length s + 3 \<or> (\<exists>r. length r < length s \<and> n < 3 * length r + 4)"
      by (fastforce simp: Let_def result_simps split: if_splits dest!: ws_length ih parse_length)
    with le show False by auto
  qed
qed

lemma parse_enough_fuel: "parse_document text \<noteq> Inl OutOfFuel"
  using parse_fuel_all [of "parse_fuel (skip_ws text)"]
  by (auto simp: parse_document_def parse_fuel_def Let_def result_simps split: if_splits)

section \<open>Failure positions\<close>

lemma next_char_fail: "next_char s = Inl (Fail l m) \<Longrightarrow> l \<le> length s"
  by (auto simp: next_char_def split: list.splits)

lemma expect_fail: "expect c s = Inl (Fail l m) \<Longrightarrow> l \<le> length s"
  by (auto simp: expect_def result_simps split: if_splits dest: next_char_fail next_char_length)

lemma parse_hexn_fail: "parse_hexn k v s = Inl (Fail l m) \<Longrightarrow> l \<le> length s"
proof (induction k v s rule: parse_hexn.induct)
  case (2 k v s)
  then show ?case
    by (fastforce simp: result_simps split: option.splits dest: next_char_fail next_char_length)
qed simp

lemma parse_hex4_fail: "parse_hex4 s = Inl (Fail l m) \<Longrightarrow> l \<le> length s"
  by (simp add: parse_hex4_def parse_hexn_fail)

lemma parse_low_surrogate_fail: "parse_low_surrogate s = Inl (Fail l m) \<Longrightarrow> l \<le> length s"
proof -
  assume "parse_low_surrogate s = Inl (Fail l m)"
  then show ?thesis
    unfolding parse_low_surrogate_def
    by (auto simp: rbind_def split: if_splits sum.splits
        dest!: next_char_fail next_char_length parse_hex4_fail parse_hex4_length)
qed

lemma parse_unicode_fail: "parse_unicode s = Inl (Fail l m) \<Longrightarrow> l \<le> length s"
  by (auto simp: parse_unicode_def rbind_def split: if_splits sum.splits
      dest: parse_hex4_fail dest!: parse_low_surrogate_fail parse_hex4_length)

lemma parse_chars_fail: "parse_chars s = Inl (Fail l m) \<Longrightarrow> l \<le> length s"
proof (induction s arbitrary: l m rule: length_induct)
  case (1 s)
  have ih: "l \<le> length t" if "parse_chars t = Inl (Fail l m)" "length t < length s" for t l m
    using 1(1) that by blast
  show ?case
    using 1(2) unfolding parse_chars.simps [of s]
    by (auto simp: result_simps split: if_splits option.splits
        dest!: next_char_fail next_char_length parse_unicode_fail parse_unicode_length dest: ih)
qed

lemma parse_string_fail: "parse_string s = Inl (Fail l m) \<Longrightarrow> l \<le> length s"
  by (auto simp: parse_string_def result_simps dest!: expect_fail expect_length parse_chars_fail)

lemma parse_atom_fail:
  "parse_bool s = Inl (Fail l m) \<Longrightarrow> l \<le> length s" "parse_null s = Inl (Fail l m) \<Longrightarrow> l \<le> length s"
  "parse_number s = Inl (Fail l m) \<Longrightarrow> l \<le> length s"
  by (auto simp: parse_bool_def parse_null_def parse_number_def Let_def
      split: if_splits prod.splits sum.splits num_error.splits dest!: scan_number_append)

lemmas leaf_fail = next_char_fail expect_fail parse_string_fail parse_atom_fail

lemma ws_fail:
  "next_char (skip_ws s) = Inl (Fail l m) \<Longrightarrow> l \<le> length s"
  "expect d (skip_ws s) = Inl (Fail l m) \<Longrightarrow> l \<le> length s"
  "parse_string (skip_ws s) = Inl (Fail l m) \<Longrightarrow> l \<le> length s"
  using skip_ws_length [of s] leaf_fail(1) [of "skip_ws s" l m] leaf_fail(2) [of d "skip_ws s" l m]
    leaf_fail(3) [of "skip_ws s" l m]
  by (auto simp del: skip_ws_length)

lemma parse_fail_all:
  "(\<forall>s l m. parse_value n s = Inl (Fail l m) \<longrightarrow> l \<le> length s) \<and>
   (\<forall>s l m. parse_object n s = Inl (Fail l m) \<longrightarrow> l \<le> length s) \<and>
   (\<forall>s l m. parse_members n s = Inl (Fail l m) \<longrightarrow> l \<le> length s) \<and>
   (\<forall>s l m. parse_array n s = Inl (Fail l m) \<longrightarrow> l \<le> length s) \<and>
   (\<forall>s l m. parse_elems n s = Inl (Fail l m) \<longrightarrow> l \<le> length s)"
proof (induction n)
  case 0
  show ?case by simp
next
  case (Suc n)
  have ih: "parse_value n s = Inl (Fail l m) \<Longrightarrow> l \<le> length s"
    "parse_object n s = Inl (Fail l m) \<Longrightarrow> l \<le> length s"
    "parse_members n s = Inl (Fail l m) \<Longrightarrow> l \<le> length s"
    "parse_array n s = Inl (Fail l m) \<Longrightarrow> l \<le> length s"
    "parse_elems n s = Inl (Fail l m) \<Longrightarrow> l \<le> length s" for s l m
    using Suc by blast+
  have ws: "l \<le> length (skip_ws s) \<Longrightarrow> l \<le> length s" for l s
    using skip_ws_length [of s] by linarith
  show ?case
  proof (intro conjI allI impI)
    fix s l m
    assume "parse_value (Suc n) s = Inl (Fail l m)"
    then have "l \<le> length (skip_ws s)"
      by (auto simp: Let_def result_simps split: if_splits dest: ih leaf_fail)
    then show "l \<le> length s" by (rule ws)
  next
    fix s l m
    assume "parse_object (Suc n) s = Inl (Fail l m)"
    then show "l \<le> length s"
      by (auto simp: Let_def result_simps split: if_splits dest!: ih(3) expect_fail expect_length ws)
  next
    fix s l m
    assume "parse_members (Suc n) s = Inl (Fail l m)"
    then show "l \<le> length s"
      by (auto simp: Let_def result_simps split: if_splits
          dest!: ih(1,3) ws_fail ws_length parse_length)
  next
    fix s l m
    assume "parse_array (Suc n) s = Inl (Fail l m)"
    then show "l \<le> length s"
      by (auto simp: Let_def result_simps split: if_splits dest!: ih(5) expect_fail expect_length ws)
  next
    fix s l m
    assume "parse_elems (Suc n) s = Inl (Fail l m)"
    then show "l \<le> length s"
      by (auto simp: Let_def result_simps split: if_splits
          dest!: ih(1,5) ws_fail ws_length parse_length)
  qed
qed

lemma parse_document_fail: "parse_document s = Inl (Fail l m) \<Longrightarrow> l \<le> length s"
proof -
  assume "parse_document s = Inl (Fail l m)"
  then consider "parse_value (parse_fuel (skip_ws s)) (skip_ws s) = Inl (Fail l m)"
    | v r where "parse_value (parse_fuel (skip_ws s)) (skip_ws s) = Inr (v, r)" "l = length (skip_ws r)"
    by (auto simp: parse_document_def Let_def result_simps split: if_splits)
  then have "l \<le> length (skip_ws s)"
  proof cases
    case 1
    then show ?thesis using parse_fail_all by blast
  next
    case (2 v r)
    then show ?thesis using parse_length(1) [OF 2(1)] skip_ws_length [of r] by linarith
  qed
  then show ?thesis using skip_ws_length [of s] by linarith
qed

section \<open>Printing then parsing\<close>

lemma next_char_Cons [simp]: "next_char (c # s) = Inr (c, s)"
  by (simp add: next_char_def)

lemma hex_val_hex_digit: "d < 16 \<Longrightarrow> hex_val (hex_digit d) = Some d"
  by (auto simp: hex_val_def hex_digit_def Let_def)

lemma simple_escapes [simp]:
  "simple_escape DQUOTE = Some DQUOTE" "simple_escape BSLASH = Some BSLASH"
  "simple_escape (CHR ''b'') = Some (CHR 0x08)" "simple_escape (CHR ''f'') = Some (CHR 0x0C)"
  "simple_escape (CHR ''n'') = Some (CHR 0x0A)" "simple_escape (CHR ''r'') = Some (CHR 0x0D)"
  "simple_escape (CHR ''t'') = Some (CHR 0x09)" "simple_escape (CHR ''u'') = None"
  by (simp_all add: simple_escape_def)

lemma escape_char_cases:
  obtains (plain) "escape_char c = [c]" "c \<noteq> DQUOTE" "c \<noteq> BSLASH"
  | (simple) e where "escape_char c = [BSLASH, e]" "simple_escape e = Some c"
  | (hex) "escape_char c = [BSLASH, CHR ''u'', CHR ''0'', CHR ''0'', hex_digit (of_char c div 16),
        hex_digit (of_char c mod 16)]" "(of_char c :: nat) < 32"
proof (cases "c \<in> {DQUOTE, BSLASH, CHR 0x08, CHR 0x0C, CHR 0x0A, CHR 0x0D, CHR 0x09}")
  case True
  then have "\<exists>e. escape_char c = [BSLASH, e] \<and> simple_escape e = Some c"
    by (elim insertE emptyE) (simp_all add: escape_char_def)
  then show thesis using that(2) by blast
next
  case False
  then show thesis
    using that(1,3) by (cases "(of_char c :: nat) < 32") (simp_all add: escape_char_def)
qed

lemma parse_hex4_unfold: "parse_hex4 s = parse_hexn (Suc (Suc (Suc (Suc 0)))) 0 s"
  by (simp add: parse_hex4_def numeral_eq_Suc)

lemma parse_unicode_hex:
  assumes "n < 256"
  shows "parse_unicode (CHR ''0'' # CHR ''0'' # hex_digit (n div 16) # hex_digit (n mod 16) # t) = Inr (n, t)"
proof -
  have "parse_hex4 (CHR ''0'' # CHR ''0'' # hex_digit (n div 16) # hex_digit (n mod 16) # t) =
      Inr (16 * (n div 16) + n mod 16, t)"
    using assms
    by (simp add: parse_hex4_unfold hex_val_hex_digit hex_val_def [of "CHR ''0''"] del: mult_div_mod_eq)
  then show ?thesis using assms by (simp add: parse_unicode_def)
qed

lemma parse_chars_escape:
  "parse_chars (escape_char c @ t) = rbind (parse_chars t) (\<lambda>(out, r). Inr (c # out, r))"
proof (cases c rule: escape_char_cases)
  case plain
  then show ?thesis by (simp add: parse_chars.simps [of "c # t"])
next
  case (simple e)
  then show ?thesis by (simp add: parse_chars.simps [of "BSLASH # e # t"])
next
  case hex
  have "encode_utf8 (of_char c) = [c]"
    using hex(2) by (simp add: encode_utf8_def)
  with hex show ?thesis
    by (simp add: parse_chars.simps [of "BSLASH # CHR ''u'' # _"] parse_unicode_hex)
qed

lemma parse_chars_escaped:
  "parse_chars (concat (map escape_char s) @ DQUOTE # rest) = Inr (s, rest)"
proof (induction s)
  case Nil
  show ?case by (simp add: parse_chars.simps)
next
  case (Cons c s)
  then show ?case by (simp add: parse_chars_escape)
qed

lemma parse_string_escape_string: "parse_string (escape_string s @ rest) = Inr (s, rest)"
  by (simp add: parse_string_def escape_string_def expect_def parse_chars_escaped)




text \<open>The values that print exactly: every number is whole and below \<open>10 ^ 15\<close> in magnitude.\<close>

fun json_exact :: "jval \<Rightarrow> bool" where
  "json_exact JNull = True"
| "json_exact (JBool b) = True"
| "json_exact (JNum d) = (case d of Finite x \<Rightarrow> x = of_int \<lfloor>x\<rfloor> \<and> \<bar>x\<bar> < 10 ^ 15 | _ \<Rightarrow> False)"
| "json_exact (JStr s) = True"
| "json_exact (JArr vs) = (\<forall>v \<in> set vs. json_exact v)"
| "json_exact (JObj kvs) = (\<forall>kv \<in> set kvs. json_exact (snd kv))"

text \<open>The text after a number does not continue it.\<close>

definition ends_number :: "string \<Rightarrow> bool" where
  "ends_number r \<longleftrightarrow> \<not> is_digit (peek r) \<and> peek r \<notin> {CHR ''.'', CHR ''e'', CHR ''E''}"

lemma json_exact_num: "json_exact (JNum d) \<Longrightarrow> \<exists>n. d = Finite (of_int n) \<and> \<bar>n\<bar> < 10 ^ 15"
proof -
  assume "json_exact (JNum d)"
  then obtain x where d: "d = Finite x" and x: "x = of_int \<lfloor>x\<rfloor>" "\<bar>x\<bar> < 10 ^ 15"
    by (auto split: dbl.splits)
  from x have "of_int \<bar>\<lfloor>x\<rfloor>\<bar> < (of_int (10 ^ 15) :: rat)" by simp
  then have "\<bar>\<lfloor>x\<rfloor>\<bar> < 10 ^ 15" by (simp only: of_int_less_iff)
  with d x show ?thesis by blast
qed

lemma ends_number_simps [simp]: "ends_number []" "ends_number (c # s) \<longleftrightarrow> \<not> is_digit c \<and> c \<notin> {CHR ''.'', CHR ''e'', CHR ''E''}"
  by (auto simp: ends_number_def peek_def is_digit_def)

lemma is_digit_simps [simp]: "\<not> is_digit CHR ''-''" "\<not> is_digit CHR '',''" "\<not> is_digit CHR '']''"
   "\<not> is_digit CHR ''}''" "\<not> is_digit CHR 0x0A" "\<not> is_digit CHR '' ''"
  "\<not> is_digit CHR ''{''" "\<not> is_digit CHR ''[''" "\<not> is_digit DQUOTE" "\<not> is_digit CHR ''t''" "\<not> is_digit CHR ''f''" "\<not> is_digit CHR ''n''"
  by (auto simp: is_digit_def)

lemma peek_Cons [simp]: "peek (c # s) = c"
  by (simp add: peek_def)

lemma scan_number_digits:
  assumes "ds \<noteq> []" and "\<forall>c \<in> set ds. is_digit c" and "ends_number rest"
  shows "scan_number ((if neg then [CHR ''-''] else []) @ ds @ rest) =
    ((if neg then [CHR ''-''] else []) @ ds, rest)"
proof -
  have run: "takeWhile is_digit (ds @ rest) = ds" "dropWhile is_digit (ds @ rest) = rest"
    using assms(2,3) by (intro takeWhile_dropWhile_run; cases rest; simp)+
  have tail: "scan_fraction rest = ([], rest)" "scan_exponent rest = ([], rest)"
    using assms(3) by (auto simp: scan_fraction_def scan_exponent_def ends_number_def)
  have "hd (ds @ rest) \<noteq> CHR ''-''" "peek (ds @ rest) = hd (ds @ rest)"
    using assms(1,2) by (cases ds; auto)+
  with run tail assms(1) show ?thesis
    by (cases neg) (simp_all add: scan_number_def scan_opt_def scan_digits_def)
qed

lemma parse_number_int_str:
  assumes "\<bar>n\<bar> < 10 ^ 15" and "ends_number rest"
  shows "parse_number (int_str n @ rest) = Inr (JNum (Finite (of_int n)), rest)"
proof -
  have "scan_number (int_str n @ rest) = (int_str n, rest)"
    unfolding int_str_cases append_assoc
    by (rule scan_number_digits) (simp_all add: nat_str_digits assms(2))
  moreover have "int_str n \<noteq> []" "int_str n \<noteq> ''-''"
    using nat_str_digits [of "nat n"] by (auto simp: int_str_def)
  moreover have "stod (int_str n) = Inr (Finite (of_int n))"
    using assms(1) by (intro stod_int_str) simp
  ultimately show ?thesis by (simp add: parse_number_def)
qed

lemma int_str_hd: "\<exists>c t. int_str n = c # t \<and> (c = CHR ''-'' \<or> is_digit c)"
  using nat_str_digits [of "nat n"] nat_str_not_Nil [of "nat n"]
  by (cases "nat_str (nat n)") (auto simp: int_str_def)

lemma is_digit_distinct:
  "is_digit c \<Longrightarrow> c \<noteq> CHR ''{'' \<and> c \<noteq> CHR ''['' \<and> c \<noteq> DQUOTE \<and> c \<noteq> CHR ''t'' \<and> c \<noteq> CHR ''f'' \<and>
    c \<noteq> CHR ''n'' \<and> c \<noteq> CHR '']'' \<and> \<not> is_ws c"
  by (auto simp: is_ws_def is_digit_def)

section \<open>White space\<close>

definition all_ws :: "string \<Rightarrow> bool" where
  "all_ws w \<longleftrightarrow> (\<forall>c \<in> set w. is_ws c)"

lemma all_ws_simps [simp]: "all_ws (pad i d)" "all_ws (newline i)" "all_ws (w @ w') \<longleftrightarrow> all_ws w \<and> all_ws w'" "all_ws []"
  by (auto simp: all_ws_def pad_def newline_def is_ws_def)

lemma skip_ws_append: "all_ws w \<Longrightarrow> skip_ws (w @ s) = skip_ws s"
  by (auto simp: all_ws_def skip_ws_def)

lemma skip_ws_idem [simp]: "skip_ws (skip_ws s) = skip_ws s"
  by (simp add: skip_ws_def)

lemma skip_ws_Cons [simp]: "\<not> is_ws c \<Longrightarrow> skip_ws (c # s) = c # s"
  by (simp add: skip_ws_def)

lemma parse_skip_ws:
  "parse_value n (skip_ws s) = parse_value n s"
  "parse_elems n (skip_ws s) = parse_elems n s"
  "parse_members n (skip_ws s) = parse_members n s"
proof -
  show v: "parse_value n (skip_ws s) = parse_value n s" for n by (cases n) simp_all
  show "parse_elems n (skip_ws s) = parse_elems n s" by (cases n) (simp_all add: v)
  show "parse_members n (skip_ws s) = parse_members n s" by (cases n) simp_all
qed

lemma parse_ws_append:
  "all_ws w \<Longrightarrow> parse_value n (w @ s) = parse_value n s"
  "all_ws w \<Longrightarrow> parse_elems n (w @ s) = parse_elems n s"
  "all_ws w \<Longrightarrow> parse_members n (w @ s) = parse_members n s"
  using skip_ws_append parse_skip_ws by metis+

section \<open>The round trip\<close>

lemma dump_to_hd:
  assumes "json_exact v"
  shows "\<exists>c t. dump_to i d v = c # t \<and> \<not> is_ws c \<and> c \<noteq> CHR '']''"
proof (cases v)
  case (JNum x)
  then obtain n where "x = Finite (of_int n)" "\<bar>n\<bar> < 10 ^ 15"
    using assms json_exact_num by blast
  then have "dump_to i d v = int_str n" using JNum by (simp add: dump_number_int)
  moreover obtain c t where "int_str n = c # t" "c = CHR ''-'' \<or> is_digit c"
    using int_str_hd by blast
  moreover have "\<not> is_ws CHR ''-''" by (simp add: is_ws_def)
  ultimately show ?thesis using is_digit_distinct [of c] by force
qed (auto simp: is_ws_def escape_string_def)

lemma skip_ws_dump:
  "json_exact v \<Longrightarrow> skip_ws (dump_to i d v @ r) = dump_to i d v @ r \<and> peek (dump_to i d v @ r) \<noteq> CHR '']''"
  using dump_to_hd [of v i d] by fastforce

lemma skip_close: "\<not> is_ws c \<Longrightarrow> skip_ws (newline i @ pad i d @ c # r) = c # r"
  by (simp add: skip_ws_append)

lemma not_ws [simp]: "\<not> is_ws DQUOTE" "\<not> is_ws CHR ''{''" "\<not> is_ws CHR ''[''" "\<not> is_ws CHR ''}''"
  "\<not> is_ws CHR '']''" "\<not> is_ws CHR '',''" "\<not> is_ws CHR '':''" 
  by (simp_all add: is_ws_def)

lemma expect_Cons [simp]: "expect c (c # s) = Inr ((), s)"
  by (simp add: expect_def)

lemma ends_number_close: "c \<in> {CHR '']'', CHR ''}''} \<Longrightarrow> ends_number (newline i @ pad i d @ c # r)"
  by (cases "nat i * d") (auto simp: newline_def pad_def)

lemma parse_dump_elem:
  assumes v: "\<And>n r. ends_number r \<Longrightarrow> 3 * length (dump_to i (d + 1) v @ r) + 3 \<le> n \<Longrightarrow>
      parse_value n (dump_to i (d + 1) v @ r) = Inr (v, r)"
    and vs: "\<And>n. vs \<noteq> [] \<Longrightarrow> 3 * length (dump_elems i d vs @ pad i d @ CHR '']'' # rest) + 4 \<le> n \<Longrightarrow>
      parse_elems n (dump_elems i d vs @ pad i d @ CHR '']'' # rest) = Inr (vs, rest)"
    and n: "3 * length (dump_elems i d (v # vs) @ pad i d @ CHR '']'' # rest) + 4 \<le> n"
  shows "parse_elems n (dump_elems i d (v # vs) @ pad i d @ CHR '']'' # rest) = Inr (v # vs, rest)"
proof -
  obtain k where k: "n = Suc k" using n by (cases n) auto
  show ?thesis
  proof (cases "vs = []")
    case True
    let ?r = "newline i @ pad i d @ CHR '']'' # rest"
    have "parse_value k (dump_to i (d + 1) v @ ?r) = Inr (v, ?r)"
      using n by (intro v ends_number_close) (simp_all add: k True)
    then show ?thesis
      by (simp add: k True parse_ws_append skip_close)
  next
    case False
    let ?r = "newline i @ dump_elems i d vs @ pad i d @ CHR '']'' # rest"
    have "parse_value k (dump_to i (d + 1) v @ CHR '','' # ?r) = Inr (v, CHR '','' # ?r)"
      using n by (intro v) (simp_all add: k False)
    moreover have "parse_elems k ?r = Inr (vs, rest)"
      using n by (simp add: parse_ws_append vs False k)
    ultimately show ?thesis
      by (simp add: k False parse_ws_append)
  qed
qed

lemma parse_dump_member:
  assumes v: "\<And>n r. ends_number r \<Longrightarrow> 3 * length (dump_to i (d + 1) (snd kv) @ r) + 3 \<le> n \<Longrightarrow>
      parse_value n (dump_to i (d + 1) (snd kv) @ r) = Inr (snd kv, r)"
    and kvs: "\<And>n. kvs \<noteq> [] \<Longrightarrow> 3 * length (dump_members i d kvs @ pad i d @ CHR ''}'' # rest) + 4 \<le> n \<Longrightarrow>
      parse_members n (dump_members i d kvs @ pad i d @ CHR ''}'' # rest) = Inr (kvs, rest)"
    and n: "3 * length (dump_members i d (kv # kvs) @ pad i d @ CHR ''}'' # rest) + 4 \<le> n"
  shows "parse_members n (dump_members i d (kv # kvs) @ pad i d @ CHR ''}'' # rest) = Inr (kv # kvs, rest)"
proof -
  obtain k where k: "n = Suc k" using n by (cases n) auto
  have key: "peek (escape_string x @ s) = DQUOTE" "skip_ws (escape_string x @ s) = escape_string x @ s" for x s
    by (simp_all add: escape_string_def)
  let ?sp = "if 0 < i then [CHR '' ''] else []"
  have sp: "all_ws ?sp" "(if 0 < i then '': '' else '':'') = CHR '':'' # ?sp"
    by (simp_all add: all_ws_def is_ws_def)
  show ?thesis
  proof (cases "kvs = []")
    case True
    let ?r = "newline i @ pad i d @ CHR ''}'' # rest"
    have "parse_value k (dump_to i (d + 1) (snd kv) @ ?r) = Inr (snd kv, ?r)"
      using n by (intro v ends_number_close) (simp_all add: k True)
    then show ?thesis
      by (simp add: k True parse_ws_append skip_close sp skip_ws_append key parse_string_escape_string
        del: if_split)
  next
    case False
    let ?r = "newline i @ dump_members i d kvs @ pad i d @ CHR ''}'' # rest"
    have "parse_value k (dump_to i (d + 1) (snd kv) @ CHR '','' # ?r) = Inr (snd kv, CHR '','' # ?r)"
      using n by (intro v) (simp_all add: k False)
    moreover have "parse_members k ?r = Inr (kvs, rest)"
      using n by (simp add: parse_ws_append kvs False k)
    ultimately show ?thesis
      by (simp add: k False parse_ws_append sp skip_ws_append key parse_string_escape_string del: if_split)
  qed
qed

lemma parse_dump_array:
  assumes vs: "\<And>n. 3 * length (dump_elems i d vs @ pad i d @ CHR '']'' # rest) + 4 \<le> n \<Longrightarrow>
      parse_elems n (dump_elems i d vs @ pad i d @ CHR '']'' # rest) = Inr (vs, rest)"
    and ex: "vs \<noteq> []" "\<forall>v \<in> set vs. json_exact v"
    and n: "3 * length (dump_to i d (JArr vs) @ rest) + 3 \<le> n"
  shows "parse_value n (dump_to i d (JArr vs) @ rest) = Inr (JArr vs, rest)"
proof -
  obtain k where k: "n = Suc (Suc k)" using n ex by (cases n; cases "n - 1") auto
  let ?r = "newline i @ dump_elems i d vs @ pad i d @ CHR '']'' # rest"
  have "parse_elems k (skip_ws ?r) = Inr (vs, rest)"
    using n ex by (simp add: parse_skip_ws parse_ws_append vs k)
  moreover have "peek (skip_ws ?r) \<noteq> CHR '']''"
    using ex by (cases vs) (simp_all add: skip_ws_append skip_ws_dump)
  ultimately show ?thesis
    using ex by (simp add: k)
qed

lemma parse_dump_object:
  assumes kvs: "\<And>n. 3 * length (dump_members i d kvs @ pad i d @ CHR ''}'' # rest) + 4 \<le> n \<Longrightarrow>
      parse_members n (dump_members i d kvs @ pad i d @ CHR ''}'' # rest) = Inr (kvs, rest)"
    and ex: "kvs \<noteq> []"
    and n: "3 * length (dump_to i d (JObj kvs) @ rest) + 3 \<le> n"
  shows "parse_value n (dump_to i d (JObj kvs) @ rest) = Inr (JObj kvs, rest)"
proof -
  obtain k where k: "n = Suc (Suc k)" using n ex by (cases n; cases "n - 1") auto
  let ?r = "newline i @ dump_members i d kvs @ pad i d @ CHR ''}'' # rest"
  have "parse_members k (skip_ws ?r) = Inr (kvs, rest)"
    using n ex by (simp add: parse_skip_ws parse_ws_append kvs k)
  moreover have "peek (skip_ws ?r) \<noteq> CHR ''}''"
    using ex by (cases kvs) (simp_all add: skip_ws_append escape_string_def)
  ultimately show ?thesis
    using ex by (simp add: k)
qed

lemma parse_dump_atom:
  assumes "json_exact v" "ends_number rest" "\<nexists>vs. v = JArr vs \<and> vs \<noteq> []" "\<nexists>kvs. v = JObj kvs \<and> kvs \<noteq> []"
    and n: "3 * length (dump_to i d v @ rest) + 3 \<le> n"
  shows "parse_value n (dump_to i d v @ rest) = Inr (v, rest)"
proof -
  obtain k where k: "n = Suc (Suc k)" using n by (cases n; cases "n - 1") auto
  have nws: "\<not> is_ws CHR ''t''" "\<not> is_ws CHR ''f''" "\<not> is_ws CHR ''n''" by (simp_all add: is_ws_def)
  show ?thesis
  proof (cases v)
    case (JNum x)
    then obtain m where x: "x = Finite (of_int m)" "\<bar>m\<bar> < 10 ^ 15"
      using assms json_exact_num by blast
    obtain c t where c: "int_str m = c # t" "c = CHR ''-'' \<or> is_digit c"
      using int_str_hd by blast
    moreover have "\<not> is_ws CHR ''-''" by (simp add: is_ws_def)
    moreover have "parse_number (int_str m @ rest) = Inr (JNum (Finite (of_int m)), rest)"
      using x assms(2) by (simp add: parse_number_int_str)
    ultimately show ?thesis
      using JNum x is_digit_distinct [of c] by (auto simp: dump_number_int k)
  next
    case (JStr s)
    have "peek (escape_string s @ rest) = DQUOTE" "skip_ws (escape_string s @ rest) = escape_string s @ rest"
      by (simp_all add: escape_string_def)
    then show ?thesis using JStr by (simp add: k parse_string_escape_string)
  qed (use assms nws in \<open>auto simp: k parse_bool_def parse_null_def\<close>)
qed

lemma parse_value_dump:
  "json_exact v \<Longrightarrow> ends_number rest \<Longrightarrow> 3 * length (dump_to i d v @ rest) + 3 \<le> n \<Longrightarrow>
    parse_value n (dump_to i d v @ rest) = Inr (v, rest)"
  "\<forall>v \<in> set vs. json_exact v \<Longrightarrow> vs \<noteq> [] \<Longrightarrow>
    3 * length (dump_elems i d vs @ pad i d @ CHR '']'' # rest) + 4 \<le> n \<Longrightarrow>
    parse_elems n (dump_elems i d vs @ pad i d @ CHR '']'' # rest) = Inr (vs, rest)"
  "\<forall>kv \<in> set kvs. json_exact (snd kv) \<Longrightarrow> kvs \<noteq> [] \<Longrightarrow>
    3 * length (dump_members i d kvs @ pad i d @ CHR ''}'' # rest) + 4 \<le> n \<Longrightarrow>
    parse_members n (dump_members i d kvs @ pad i d @ CHR ''}'' # rest) = Inr (kvs, rest)"
proof (induction i d v and i d vs and i d kvs arbitrary: rest n and rest n and rest n
    rule: dump_to_dump_elems_dump_members.induct)
  case (5 i d vs)
  show ?case
  proof (cases "vs = []")
    case True
    with 5 show ?thesis by (intro parse_dump_atom) auto
  next
    case False
    with 5 show ?thesis by (intro parse_dump_array) auto
  qed
next
  case (6 i d kvs)
  show ?case
  proof (cases "kvs = []")
    case True
    with 6 show ?thesis by (intro parse_dump_atom) auto
  next
    case False
    with 6 show ?thesis by (intro parse_dump_object) auto
  qed
next
  case (8 i d v vs)
  show ?case using 8(1) 8(2) 8(3,5) by (intro parse_dump_elem) auto
next
  case (10 i d kv kvs)
  show ?case using 10(1) 10(2) 10(3,5) by (intro parse_dump_member) auto
qed (simp_all del: dump_to.simps add: parse_dump_atom)

lemma json_parse_dump: "json_exact v \<Longrightarrow> json_parse (json_dump i v) = Inr v"
proof -
  assume v: "json_exact v"
  have "parse_value (parse_fuel (dump_to i 0 v)) (dump_to i 0 v @ []) = Inr (v, [])"
    using v by (intro parse_value_dump) (simp_all add: parse_fuel_def)
  moreover have "skip_ws (dump_to i 0 v) = dump_to i 0 v" "skip_ws [] = []"
    using skip_ws_dump [OF v, of i 0 "[]"] by (simp_all add: skip_ws_def)
  ultimately show ?thesis
    by (simp add: json_parse_def parse_document_def json_dump_def Let_def)
qed

text \<open>C11: Printing a value and parsing the text gives the value back, for every value whose numbers are
  whole and below \<open>10 ^ 15\<close> in magnitude, whatever bytes its strings hold and whatever the indentation
  (the claim of the header of json.hpp that any byte string round-trips).\<close>

theorem json_roundtrip: "json_exact v \<Longrightarrow> json_parse (json_dump indent v) = Inr v"
  by (rule json_parse_dump)

theorem json_roundtrip_witness:
  "json_parse (json_dump 2 (JObj [(''k'', JArr [JNum (Finite 7), JStr [CHR 0x01, DQUOTE], JBool True]), ([], JNull)])) =
     Inr (JObj [(''k'', JArr [JNum (Finite 7), JStr [CHR 0x01, DQUOTE], JBool True]), ([], JNull)])"
  by (rule json_roundtrip) simp

text \<open>C19: Parsing returns for every text: a value, a \<open>ParseError\<close> whose message is the documented one
  with an offset inside the text, or the exception of \<open>std::stod\<close>; the recursion never runs out
  of the fuel it starts with.\<close>

theorem json_parse_total:
  "case json_parse s of
     Inr v \<Rightarrow> True
   | Inl (ParseError m) \<Rightarrow> \<exists>offset msg. offset \<le> length s \<and>
       parse_document s = Inl (Fail (length s - offset) msg) \<and>
       m = ''json parse error at offset '' @ nat_str offset @ '': '' @ msg
   | Inl FuelExhausted \<Rightarrow> False
   | Inl e \<Rightarrow> True"
proof (cases "parse_document s")
  case (Inl e)
  then show ?thesis
  proof (cases e)
    case (Fail l m)
    then have "l \<le> length s" using Inl parse_document_fail by blast
    then show ?thesis
      using Inl Fail by (auto simp: json_parse_def intro!: exI [of _ "length s - l"] exI [of _ m])
  qed (use Inl parse_enough_fuel [of s] in \<open>simp_all add: json_parse_def\<close>)
qed (simp add: json_parse_def)

section \<open>Objects as keyed stores\<close>

text \<open>
  What the codecs rely on: a store that starts empty, where a lookup sees the last assignment of
  its key and no other assignment changes it.
\<close>

locale keyed_store =
  fixes empty :: 's
    and find :: "'s \<Rightarrow> 'k \<Rightarrow> 'v option"
    and put :: "'s \<Rightarrow> 'k \<Rightarrow> 'v \<Rightarrow> 's"
  assumes find_empty: "find empty k = None"
    and find_put: "find (put s k v) k' = (if k' = k then Some v else find s k')"
begin

definition puts :: "('k \<times> 'v) list \<Rightarrow> 's \<Rightarrow> 's" where
  "puts kvs s = foldl (\<lambda>s (k, v). put s k v) s kvs"

lemma find_puts: "find (puts kvs s) k = (case map_of (rev kvs) k of None \<Rightarrow> find s k | Some v \<Rightarrow> Some v)"
  by (induction kvs rule: rev_induct) (auto simp: puts_def find_put)

lemma find_puts_distinct:
  assumes "distinct (map fst kvs)"
  shows "find (puts kvs empty) k = map_of kvs k"
proof -
  have "map_of (rev kvs) = map_of kvs"
    using assms map_of_inject_set [of "rev kvs" kvs] by (simp add: rev_map [symmetric])
  then show ?thesis by (simp add: find_puts find_empty split: option.splits)
qed

end

interpretation jobj: keyed_store "JObj []" json_find json_set
  by unfold_locales (simp_all add: json_find_def json_set_def assoc_find_set split: jval.splits)

lemma obj_of_puts: "obj_of kvs = jobj.puts kvs (JObj [])"
  by (simp add: obj_of_def jobj.puts_def)

text \<open>With distinct keys the encoders' calls of \<open>set\<close> append in order, and a lookup finds what was set.\<close>

lemma json_find_obj_of: "distinct (map fst kvs) \<Longrightarrow> json_find (obj_of kvs) k = map_of kvs k"
  by (simp add: obj_of_puts jobj.find_puts_distinct)

lemma obj_of_eq: "distinct (map fst kvs) \<Longrightarrow> obj_of kvs = JObj kvs"
proof (induction kvs rule: rev_induct)
  case (snoc kv kvs)
  then have "obj_of kvs = JObj kvs" "fst kv \<notin> fst ` set kvs" by auto
  then show ?case
    by (cases kv) (simp add: obj_of_def json_set_def assoc_set_fresh)
qed (simp add: obj_of_def)

lemma json_exact_obj_of:
  "distinct (map fst kvs) \<Longrightarrow> \<forall>kv \<in> set kvs. json_exact (snd kv) \<Longrightarrow> json_exact (obj_of kvs)"
  by (simp add: obj_of_eq)

lemma json_exact_int: "\<bar>n\<bar> < 10 ^ 15 \<Longrightarrow> json_exact (JInt n)"
proof -
  assume n: "\<bar>n\<bar> < 10 ^ 15"
  then have "(of_int \<bar>n\<bar> :: rat) < of_int (10 ^ 15)" by (simp only: of_int_less_iff)
  with n show ?thesis by (simp add: double_of_int_exact)
qed

lemma JInt_whole:
  "\<bar>n\<bar> < 2 ^ 53 \<Longrightarrow> is_whole (double_of_int n)" "\<bar>n\<bar> < 2 ^ 53 \<Longrightarrow> llround (double_of_int n) = n"
proof -
  have "i64_range n" if "\<bar>n\<bar> < 2 ^ 53" using that by (simp add: i64_range_def abs_less_iff)
  then show "\<bar>n\<bar> < 2 ^ 53 \<Longrightarrow> is_whole (double_of_int n)" "\<bar>n\<bar> < 2 ^ 53 \<Longrightarrow> llround (double_of_int n) = n"
    by (simp_all add: double_of_int_exact llround_of_int)
qed

section \<open>Codecs\<close>

text \<open>
  The contract of an encoder and its decoder on the values in \<open>ok\<close>: decoding what was encoded
  gives the value back. Two values of \<open>ok\<close> are then never confused on the wire, and a codec can
  be stacked on another one whose domain holds what the first one produces.
\<close>

locale codec =
  fixes enc :: "'a \<Rightarrow> 'b" and dec :: "'b \<Rightarrow> 'e + 'a" and ok :: "'a \<Rightarrow> bool"
  assumes dec_enc: "ok x \<Longrightarrow> dec (enc x) = Inr x"
begin

lemma enc_inj: "ok x \<Longrightarrow> ok y \<Longrightarrow> enc x = enc y \<longleftrightarrow> x = y"
  by (metis dec_enc sum.inject(2))

end

locale codec_stack = lower: codec enc1 dec1 ok1 + upper: codec enc2 dec2 ok2
  for enc1 :: "'b \<Rightarrow> 'c" and dec1 :: "'c \<Rightarrow> 'e + 'b" and ok1 :: "'b \<Rightarrow> bool"
    and enc2 :: "'a \<Rightarrow> 'b" and dec2 :: "'b \<Rightarrow> 'e + 'a" and ok2 :: "'a \<Rightarrow> bool" +
  assumes fits: "ok2 x \<Longrightarrow> ok1 (enc2 x)"
begin

lemma stack_roundtrip: "ok2 x \<Longrightarrow> rbind (dec1 (enc1 (enc2 x))) dec2 = Inr x"
  by (simp add: fits lower.dec_enc upper.dec_enc)

end

interpretation json_text: codec "json_dump i" json_parse json_exact for i
  by unfold_locales (rule json_parse_dump)

end
