(* ===== verification/Gpu.thy ===== *)
theory Gpu
  imports Json_Correct
begin

text \<open>
  GPU adapters, the selector grammar and the selection rule (src/vkrelay2/common/protocol/gpu.hpp
  and gpu.cpp). The theorems show what a selection returns on every branch, and that the grammar
  rejects everything but one kind of text with a reason: an index too large for an \<open>int\<close>, where
  \<open>std::stoi\<close> throws out of \<open>parse_selector\<close>.
\<close>

section \<open>Adapters\<close>

datatype gpu_device_type = Discrete | Integrated | Cpu | Virtual | Other

primrec gpu_type_to_string :: "gpu_device_type \<Rightarrow> string" where
  "gpu_type_to_string Discrete = ''discrete''"
| "gpu_type_to_string Integrated = ''integrated''"
| "gpu_type_to_string Cpu = ''cpu''"
| "gpu_type_to_string Virtual = ''virtual''"
| "gpu_type_to_string Other = ''other''"

record gpu_device =
  gd_index :: int
  gd_name :: string
  gd_vendor_id :: nat
  gd_device_id :: nat
  gd_type :: gpu_device_type
  gd_api_version :: string
  gd_driver_name :: string
  gd_luid :: string
  gd_usable :: bool
  gd_reason :: string
  gd_roles :: "string list"
  gd_default_high_performance :: bool
  gd_default_integrated :: bool

definition default_gpu_device :: gpu_device where
  "default_gpu_device = \<lparr>gd_index = 0, gd_name = [], gd_vendor_id = 0, gd_device_id = 0, gd_type = Other,
     gd_api_version = [], gd_driver_name = [], gd_luid = [], gd_usable = False, gd_reason = [], gd_roles = [],
     gd_default_high_performance = False, gd_default_integrated = False\<rparr>"

definition probe_mocked :: "gpu_device list" where
  "probe_mocked =
     [\<lparr>gd_index = 0, gd_name = ''NVIDIA T1200 Laptop GPU'', gd_vendor_id = 0x10de, gd_device_id = 0x1f99,
       gd_type = Discrete, gd_api_version = ''1.3.280'', gd_driver_name = ''NVIDIA proprietary (mock)'',
       gd_luid = ''0x00000000000a1b2c'', gd_usable = True, gd_reason = ''ok'',
       gd_roles = [''top-level-present'', ''readback-composite''],
       gd_default_high_performance = True, gd_default_integrated = False\<rparr>,
      \<lparr>gd_index = 1, gd_name = ''Intel(R) UHD Graphics'', gd_vendor_id = 0x8086, gd_device_id = 0x9a60,
       gd_type = Integrated, gd_api_version = ''1.3.280'', gd_driver_name = ''Intel (mock)'',
       gd_luid = ''0x00000000000a1b2d'', gd_usable = True, gd_reason = ''ok'',
       gd_roles = [''top-level-present'', ''readback-composite''],
       gd_default_high_performance = False, gd_default_integrated = True\<rparr>,
      \<lparr>gd_index = 2, gd_name = ''AMD Radeon 610M'', gd_vendor_id = 0x1002, gd_device_id = 0x164e,
       gd_type = Integrated, gd_api_version = ''1.3.280'', gd_driver_name = ''AMD (mock)'',
       gd_luid = ''0x00000000000a1b2e'', gd_usable = True, gd_reason = ''ok'',
       gd_roles = [''top-level-present'', ''readback-composite''],
       gd_default_high_performance = False, gd_default_integrated = False\<rparr>]"

section \<open>Text\<close>

definition to_lower_char :: "char \<Rightarrow> char" where
  "to_lower_char c = (if 65 \<le> (of_char c :: nat) \<and> (of_char c :: nat) \<le> 90 then char_of (of_char c + 32 :: nat) else c)"

definition to_lower :: "string \<Rightarrow> string" where
  "to_lower s = map to_lower_char s"

fun hex_digits :: "nat \<Rightarrow> string" where
  "hex_digits n = (if n < 16 then [hex_digit n] else hex_digits (n div 16) @ [hex_digit (n mod 16)])"

declare hex_digits.simps [simp del]

definition hex_str :: "nat \<Rightarrow> nat \<Rightarrow> string" where
  "hex_str v width = (let ds = hex_digits v in ''0x'' @ replicate (width - length ds) CHR ''0'' @ ds)"

fun hex_value :: "nat \<Rightarrow> string \<Rightarrow> nat option" where
  "hex_value v [] = Some v"
| "hex_value v (c # cs) = (case hex_val c of None \<Rightarrow> None | Some d \<Rightarrow> hex_value (16 * v + d) cs)"

definition parse_hex_u32 :: "string \<Rightarrow> nat option" where
  "parse_hex_u32 s =
     (if s = [] then None
      else let body = (if 2 < length s \<and> s ! 0 = CHR ''0'' \<and> (s ! 1 = CHR ''x'' \<or> s ! 1 = CHR ''X'') then drop 2 s else s)
           in if body = [] \<or> 8 < length body then None else hex_value 0 body)"

fun join :: "char \<Rightarrow> string list \<Rightarrow> string" where
  "join sep [] = []"
| "join sep [x] = x"
| "join sep (x # y # ys) = x @ sep # join sep (y # ys)"

definition format_gpu :: "gpu_device \<Rightarrow> string" where
  "format_gpu d =
     (let def = (if gd_default_high_performance d then ''high-performance''
                 else if gd_default_integrated d then ''integrated'' else ''none'');
          nl = [CHR 0x0A]; dq = [DQUOTE]
      in ''['' @ int_str (gd_index d) @ ''] usable='' @ (if gd_usable d then ''yes'' else ''no'') @ '' default='' @ def @
         '' type='' @ gpu_type_to_string (gd_type d) @ nl @
         ''    name='' @ dq @ gd_name d @ dq @ '' vendor='' @ hex_str (gd_vendor_id d) 4 @
         '' device='' @ hex_str (gd_device_id d) 4 @ nl @
         ''    api='' @ gd_api_version d @ '' driver='' @ dq @ gd_driver_name d @ dq @ '' luid='' @ gd_luid d @ nl @
         (if \<not> gd_usable d then ''    reason='' @ gd_reason d @ nl else []) @
         ''    roles='' @ join CHR '','' (gd_roles d) @ nl)"

definition format_gpu_list :: "gpu_device list \<Rightarrow> string" where
  "format_gpu_list ds =
     (if ds = [] then ''(no Vulkan adapters reported)'' @ [CHR 0x0A] else concat (map format_gpu ds))"

section \<open>Selectors\<close>

datatype selector_kind = SAuto | SHighPerformance | SIntegrated | SVendor | SDevice | SLuid | SIndex | SName

record gpu_selector =
  sel_kind :: selector_kind
  sel_vendor_id :: nat
  sel_device_id :: nat
  sel_luid :: string
  sel_index :: int
  sel_name :: string
  sel_raw :: string

definition fresh_selector :: "string \<Rightarrow> gpu_selector" where
  "fresh_selector s = \<lparr>sel_kind = SAuto, sel_vendor_id = 0, sel_device_id = 0, sel_luid = [], sel_index = 0,
     sel_name = [], sel_raw = s\<rparr>"

text \<open>A parse succeeds, fails with a reason, or leaves by the exception of \<open>std::stoi\<close>.\<close>

datatype selector_parse = SelOk gpu_selector | SelError string | SelThrow

definition parse_selector :: "string \<Rightarrow> selector_parse" where
  "parse_selector s =
     (let sel = fresh_selector s; lower = to_lower s
      in if lower = ''auto'' then SelOk (sel\<lparr>sel_kind := SAuto\<rparr>)
         else if lower = ''high-performance'' then SelOk (sel\<lparr>sel_kind := SHighPerformance\<rparr>)
         else if lower = ''integrated'' then SelOk (sel\<lparr>sel_kind := SIntegrated\<rparr>)
         else if take 7 lower = ''vendor:''
         then (case parse_hex_u32 (drop 7 s) of
                 None \<Rightarrow> SelError ''vendor selector requires a hex vendor id, e.g. vendor:0x8086''
               | Some v \<Rightarrow> SelOk (sel\<lparr>sel_kind := SVendor, sel_vendor_id := v\<rparr>))
         else if take 7 lower = ''device:''
         then (let body = drop 7 s; vend = takeWhile (\<lambda>c. c \<noteq> CHR '':'') body;
                   rest = dropWhile (\<lambda>c. c \<noteq> CHR '':'') body
               in case (rest, parse_hex_u32 vend, parse_hex_u32 (tl rest)) of
                    (_ # _, Some v, Some d) \<Rightarrow> SelOk (sel\<lparr>sel_kind := SDevice, sel_vendor_id := v, sel_device_id := d\<rparr>)
                  | _ \<Rightarrow> SelError ''device selector requires hex vendor:device, e.g. device:0x1002:0x164e'')
         else if take 5 lower = ''luid:''
         then (if drop 5 s = [] then SelError ''luid selector requires a value''
               else SelOk (sel\<lparr>sel_kind := SLuid, sel_luid := drop 5 s\<rparr>))
         else if take 6 lower = ''index:''
         then (let body = drop 6 s
               in if body = [] \<or> \<not> list_all is_digit body
                  then SelError ''index selector requires a non-negative integer''
                  else if dec_val body > 2147483647 then SelThrow
                  else SelOk (sel\<lparr>sel_kind := SIndex, sel_index := int (dec_val body)\<rparr>))
         else if take 5 lower = ''name:''
         then (if drop 5 s = [] then SelError ''name selector requires a substring''
               else SelOk (sel\<lparr>sel_kind := SName, sel_name := drop 5 s\<rparr>))
         else SelError (''unknown GPU selector '' @ [CHR 0x27] @ s @ [CHR 0x27]))"

definition selector_is_unstable :: "gpu_selector \<Rightarrow> bool" where
  "selector_is_unstable sel \<longleftrightarrow> sel_kind sel = SIndex"

section \<open>Selection\<close>

definition first_usable :: "gpu_device list \<Rightarrow> (gpu_device \<Rightarrow> bool) \<Rightarrow> gpu_device option" where
  "first_usable ds p = List.find (\<lambda>d. gd_usable d \<and> p d) ds"

definition or_else :: "'a option \<Rightarrow> 'a option \<Rightarrow> 'a option" where
  "or_else a b = (case a of None \<Rightarrow> b | Some x \<Rightarrow> Some x)"

definition select_device :: "gpu_device list \<Rightarrow> gpu_selector \<Rightarrow> gpu_device option \<times> string" where
  "select_device ds sel =
     (let no_match = ''no usable adapter matched selector '' @ [CHR 0x27] @ sel_raw sel @ [CHR 0x27];
          report = (\<lambda>chosen. case chosen of
             None \<Rightarrow> (None, no_match)
           | Some d \<Rightarrow> (Some d, ''selected '' @ gd_name d @ '' (index '' @ int_str (gd_index d) @ '')''))
      in case sel_kind sel of
           SAuto \<Rightarrow> report (or_else (first_usable ds gd_default_high_performance) (first_usable ds (\<lambda>d. True)))
         | SHighPerformance \<Rightarrow>
             report (or_else (first_usable ds gd_default_high_performance) (first_usable ds (\<lambda>d. gd_type d = Discrete)))
         | SIntegrated \<Rightarrow> report (first_usable ds (\<lambda>d. gd_type d = Integrated))
         | SVendor \<Rightarrow> report (first_usable ds (\<lambda>d. gd_vendor_id d = sel_vendor_id sel))
         | SDevice \<Rightarrow> report (first_usable ds (\<lambda>d. gd_vendor_id d = sel_vendor_id sel \<and> gd_device_id d = sel_device_id sel))
         | SLuid \<Rightarrow> report (first_usable ds (\<lambda>d. to_lower (gd_luid d) = to_lower (sel_luid sel)))
         | SIndex \<Rightarrow>
             (case List.find (\<lambda>d. gd_index d = sel_index sel) ds of
                None \<Rightarrow> report None
              | Some d \<Rightarrow>
                  if \<not> gd_usable d
                  then (None, ''device at index '' @ int_str (sel_index sel) @ '' is not usable: '' @ gd_reason d)
                  else report (Some d))
         | SName \<Rightarrow> report (first_usable ds (\<lambda>d. sublist (to_lower (sel_name sel)) (to_lower (gd_name d)))))"

section \<open>What a selection returns\<close>

definition selector_matches :: "gpu_selector \<Rightarrow> gpu_device \<Rightarrow> bool" where
  "selector_matches sel d =
     (case sel_kind sel of
        SAuto \<Rightarrow> True
      | SHighPerformance \<Rightarrow> gd_default_high_performance d \<or> gd_type d = Discrete
      | SIntegrated \<Rightarrow> gd_type d = Integrated
      | SVendor \<Rightarrow> gd_vendor_id d = sel_vendor_id sel
      | SDevice \<Rightarrow> gd_vendor_id d = sel_vendor_id sel \<and> gd_device_id d = sel_device_id sel
      | SLuid \<Rightarrow> to_lower (gd_luid d) = to_lower (sel_luid sel)
      | SIndex \<Rightarrow> gd_index d = sel_index sel
      | SName \<Rightarrow> sublist (to_lower (sel_name sel)) (to_lower (gd_name d)))"

lemma find_first: "List.find P xs = Some x \<Longrightarrow> x \<in> set xs \<and> P x"
  by (induction xs) (auto split: if_splits)

lemma find_None: "List.find P xs = None \<longleftrightarrow> (\<forall>x \<in> set xs. \<not> P x)"
  by (induction xs) auto

lemma first_usable_Some: "first_usable ds p = Some d \<Longrightarrow> d \<in> set ds \<and> gd_usable d \<and> p d"
  by (auto simp: first_usable_def dest: find_first)

lemma first_usable_None: "first_usable ds p = None \<longleftrightarrow> (\<forall>d \<in> set ds. gd_usable d \<longrightarrow> \<not> p d)"
  by (auto simp: first_usable_def find_None)

text \<open>Selecting an adapter returns a usable adapter of the list that matches the selector, or none;
  it returns none only if no usable adapter of the list matches, except that an index selector
  looks only at the first adapter with that index.\<close>

theorem select_device_spec:
  "case fst (select_device ds sel) of
     Some d \<Rightarrow> d \<in> set ds \<and> gd_usable d \<and> selector_matches sel d
   | None \<Rightarrow> if sel_kind sel = SIndex
             then (case List.find (\<lambda>d. gd_index d = sel_index sel) ds of None \<Rightarrow> True | Some d \<Rightarrow> \<not> gd_usable d)
             else list_all (\<lambda>d. \<not> (gd_usable d \<and> selector_matches sel d)) ds"
  by (cases "sel_kind sel")
    (auto simp: select_device_def Let_def or_else_def selector_matches_def list_all_iff first_usable_None
      split: option.splits dest: first_usable_Some find_first)

text \<open>C25: The selector grammar answers every text with a selector or a reason, except an index selector
  whose digits exceed the range of \<open>int\<close>: there the exception of \<open>std::stoi\<close> leaves
  \<open>parse_selector\<close>, which its callers do not expect.\<close>

theorem parse_selector_throws_iff:
  "parse_selector s = SelThrow \<longleftrightarrow>
     take 6 (to_lower s) = ''index:'' \<and> drop 6 s \<noteq> [] \<and> list_all is_digit (drop 6 s) \<and> 2147483647 < dec_val (drop 6 s)"
proof -
  have "take 6 (to_lower s) = ''index:'' \<Longrightarrow> to_lower s \<noteq> ''auto'' \<and> to_lower s \<noteq> ''high-performance'' \<and>
      to_lower s \<noteq> ''integrated'' \<and> take 7 (to_lower s) \<noteq> ''vendor:'' \<and> take 7 (to_lower s) \<noteq> ''device:'' \<and>
      take 5 (to_lower s) \<noteq> ''luid:''"
    by (cases "to_lower s") auto
  then show ?thesis
    by (auto simp: parse_selector_def Let_def split: option.splits list.splits)
qed

end
