(* ===== verification/Display_Layout.thy ===== *)
theory Display_Layout
  imports Prelude "HOL-Library.List_Lexorder" "HOL-Library.Char_ord"
begin

text \<open>
  The immutable display topology (src/vkrelay2/common/display/display_layout.hpp and .cpp):
  monitors and the virtual desktop, validation, the guest/host coordinate transforms, the choice
  of a monitor for a rectangle, and the placement of windows. The JSON codec of the same source
  files is in Display_Codec.thy.

  A 32-bit field is an \<^typ>\<open>int\<close>; \<open>rect_typed\<close> and \<open>layout_typed\<close> say that the fields are in the range of
  their C++ types. The source computes edges in 64 bits, where no sum of two 32-bit values
  overflows, so the model computes them in \<^typ>\<open>int\<close>; every narrowing cast is an \<open>i32\<close>. Strings are
  compared bytewise, as \<open>std::string\<close> does.
\<close>

section \<open>Data\<close>

definition kDisplayLayoutSchemaVersion :: nat where "kDisplayLayoutSchemaVersion = 1"
definition kMaxDisplayMonitors :: nat where "kMaxDisplayMonitors = 32"
definition kMaxVirtualDisplayAxis :: int where "kMaxVirtualDisplayAxis = 16384"
definition kMaxVirtualDisplayPixels :: int where "kMaxVirtualDisplayPixels = 64 * 1024 * 1024"
definition kMaxSnapshotIdBytes :: nat where "kMaxSnapshotIdBytes = 128"
definition kMaxMonitorIdBytes :: nat where "kMaxMonitorIdBytes = 256"
definition kMaxDeviceNameBytes :: nat where "kMaxDeviceNameBytes = 512"

record point_i32 =
  px :: int
  py :: int

record rect_i32 =
  rx :: int
  ry :: int
  rw :: int
  rh :: int

datatype display_rotation = Identity | Rotate90 | Rotate180 | Rotate270
datatype output_model = SingleCanvas | PerMonitorOutputs

record monitor_desc =
  stable_id :: string
  device_name :: string
  bounds :: rect_i32
  work :: rect_i32
  dpi_x :: nat
  dpi_y :: nat
  rotation :: display_rotation
  primary :: bool

record display_layout =
  schema_version :: nat
  snapshot_id :: string
  virtual_bounds :: rect_i32
  primary_monitor_id :: string
  monitors :: "monitor_desc list"

record guest_display_state =
  g_snapshot_id :: string
  actual_root_width :: nat
  actual_root_height :: nat
  g_output_model :: output_model

definition rect_typed :: "rect_i32 \<Rightarrow> bool" where
  "rect_typed r \<longleftrightarrow> i32_range (rx r) \<and> i32_range (ry r) \<and> i32_range (rw r) \<and> i32_range (rh r)"

definition monitor_typed :: "monitor_desc \<Rightarrow> bool" where
  "monitor_typed m \<longleftrightarrow> rect_typed (bounds m) \<and> rect_typed (work m) \<and> dpi_x m < 2 ^ 32 \<and> dpi_y m < 2 ^ 32"

definition layout_typed :: "display_layout \<Rightarrow> bool" where
  "layout_typed l \<longleftrightarrow> schema_version l < 2 ^ 32 \<and> rect_typed (virtual_bounds l) \<and> list_all monitor_typed (monitors l)"

section \<open>Rectangles\<close>

record edges64 =
  e_left :: int
  e_top :: int
  e_right :: int
  e_bottom :: int

definition edges :: "rect_i32 \<Rightarrow> edges64 option" where
  "edges r =
     (if rw r \<le> 0 \<or> rh r \<le> 0 then None
      else if rx r + rw r \<le> 2147483647 \<and> ry r + rh r \<le> 2147483647
      then Some \<lparr>e_left = rx r, e_top = ry r, e_right = rx r + rw r, e_bottom = ry r + rh r\<rparr>
      else None)"

definition contains_rect :: "rect_i32 \<Rightarrow> rect_i32 \<Rightarrow> bool" where
  "contains_rect outer inner =
     (case (edges outer, edges inner) of
        (Some out, Some i) \<Rightarrow> e_left out \<le> e_left i \<and> e_top out \<le> e_top i \<and>
          e_right i \<le> e_right out \<and> e_bottom i \<le> e_bottom out
      | _ \<Rightarrow> False)"

definition contains_point :: "rect_i32 \<Rightarrow> point_i32 \<Rightarrow> bool" where
  "contains_point r p =
     (case edges r of
        Some e \<Rightarrow> e_left e \<le> px p \<and> px p < e_right e \<and> e_top e \<le> py p \<and> py p < e_bottom e
      | None \<Rightarrow> False)"

definition intersection_area :: "rect_i32 \<Rightarrow> rect_i32 \<Rightarrow> nat" where
  "intersection_area a b =
     (case (edges a, edges b) of
        (Some ae, Some be) \<Rightarrow>
          let w = min (e_right ae) (e_right be) - max (e_left ae) (e_left be);
              h = min (e_bottom ae) (e_bottom be) - max (e_top ae) (e_top be)
          in if w \<le> 0 \<or> h \<le> 0 then 0 else nat w * nat h
      | _ \<Rightarrow> 0)"

definition u64_max :: nat where "u64_max = 2 ^ 64 - 1"

definition manhattan_gap :: "rect_i32 \<Rightarrow> rect_i32 \<Rightarrow> nat" where
  "manhattan_gap a b =
     (case (edges a, edges b) of
        (Some ae, Some be) \<Rightarrow>
          let dx = (if e_right ae < e_left be then e_left be - e_right ae
                    else if e_right be < e_left ae then e_left ae - e_right be else 0);
              dy = (if e_bottom ae < e_top be then e_top be - e_bottom ae
                    else if e_bottom be < e_top ae then e_top ae - e_bottom be else 0)
          in nat dx + nat dy
      | _ \<Rightarrow> u64_max)"

definition preferred :: "monitor_desc \<Rightarrow> monitor_desc \<Rightarrow> bool" where
  "preferred candidate current =
     (if primary candidate \<noteq> primary current then primary candidate
      else stable_id candidate < stable_id current)"

definition bounded_string :: "string \<Rightarrow> nat \<Rightarrow> bool \<Rightarrow> bool" where
  "bounded_string s cap allow_empty \<longleftrightarrow>
     (allow_empty \<or> s \<noteq> []) \<and> length s \<le> cap \<and> CHR 0x00 \<notin> set s"

section \<open>Validation\<close>

type_synonym bounds_key = "int \<times> int \<times> int \<times> int"

definition bounds_key :: "rect_i32 \<Rightarrow> bounds_key" where
  "bounds_key r = (rx r, ry r, rw r, rh r)"

text \<open>What the loop over the monitors accumulates.\<close>

record scan =
  s_ids :: "string list"
  s_bounds :: "bounds_key list"
  s_primary_count :: nat
  s_union :: edges64

definition scan_init :: scan where
  "scan_init = \<lparr>s_ids = [], s_bounds = [], s_primary_count = 0,
     s_union = \<lparr>e_left = 2 ^ 63 - 1, e_top = 2 ^ 63 - 1, e_right = - (2 ^ 63), e_bottom = - (2 ^ 63)\<rparr>\<rparr>"

definition coordinate_cap :: string where
  "coordinate_cap = ''(-2147483648..2147483647)''"

definition validate_monitor :: "string \<Rightarrow> scan \<Rightarrow> monitor_desc \<Rightarrow> string + scan" where
  "validate_monitor primary_id st m =
     rbind (ensure (bounded_string (stable_id m) kMaxMonitorIdBytes False)
              ''monitor stable_id is empty or exceeds 256 bytes'') (\<lambda>_.
     rbind (ensure (bounded_string (device_name m) kMaxDeviceNameBytes True)
              ''monitor device_name exceeds 512 bytes'') (\<lambda>_.
     rbind (ensure (stable_id m \<notin> set (s_ids st))
              (''display layout contains duplicate monitor stable_id: '' @ stable_id m)) (\<lambda>_.
     rbind (ensure (bounds_key (bounds m) \<notin> set (s_bounds st))
              ''display layout contains exact-bounds mirrored monitors; deduplicate first'') (\<lambda>_.
     case edges (bounds m) of
       None \<Rightarrow> Inl (''monitor bounds are non-positive or violate the signed-32 coordinate cap '' @
                 coordinate_cap @ '': '' @ stable_id m)
     | Some e \<Rightarrow>
     rbind (ensure (edges (work m) \<noteq> None \<and> contains_rect (bounds m) (work m))
              (''monitor work area is non-positive or not contained in monitor bounds: '' @ stable_id m)) (\<lambda>_.
     rbind (ensure (\<not> (dpi_x m = 0 \<or> dpi_y m = 0))
              (''monitor DPI metadata must be positive: '' @ stable_id m)) (\<lambda>_.
     rbind (ensure (\<not> (primary m \<and> stable_id m \<noteq> primary_id))
              ''primary monitor flag and primary_monitor_id disagree'') (\<lambda>_.
     Inr \<lparr>s_ids = stable_id m # s_ids st, s_bounds = bounds_key (bounds m) # s_bounds st,
          s_primary_count = s_primary_count st + (if primary m then 1 else 0),
          s_union = \<lparr>e_left = min (e_left (s_union st)) (e_left e), e_top = min (e_top (s_union st)) (e_top e),
             e_right = max (e_right (s_union st)) (e_right e),
             e_bottom = max (e_bottom (s_union st)) (e_bottom e)\<rparr>\<rparr>)))))))"

fun validate_monitors :: "string \<Rightarrow> scan \<Rightarrow> monitor_desc list \<Rightarrow> string + scan" where
  "validate_monitors primary_id st [] = Inr st"
| "validate_monitors primary_id st (m # ms) =
     rbind (validate_monitor primary_id st m) (\<lambda>st'. validate_monitors primary_id st' ms)"

definition validate_display_layout :: "display_layout \<Rightarrow> string + unit" where
  "validate_display_layout l =
     rbind (ensure (schema_version l = kDisplayLayoutSchemaVersion)
              ''unsupported display layout schema_version (supported value: 1)'') (\<lambda>_.
     rbind (ensure (bounded_string (snapshot_id l) kMaxSnapshotIdBytes False)
              ''display layout snapshot_id is empty or exceeds 128 bytes'') (\<lambda>_.
     rbind (ensure (monitors l \<noteq> []) ''display layout contains no monitors'') (\<lambda>_.
     rbind (ensure (length (monitors l) \<le> kMaxDisplayMonitors)
              ''display layout monitor cap exceeded (maximum: 32)'') (\<lambda>_.
     rbind (ensure (edges (virtual_bounds l) \<noteq> None)
              (''display layout virtual bounds are non-positive or violate the signed-32 coordinate cap '' @
               coordinate_cap)) (\<lambda>_.
     rbind (ensure (rw (virtual_bounds l) \<le> kMaxVirtualDisplayAxis \<and> rh (virtual_bounds l) \<le> kMaxVirtualDisplayAxis)
              ''display layout axis cap exceeded (maximum: 16384 physical pixels)'') (\<lambda>_.
     rbind (ensure (rw (virtual_bounds l) * rh (virtual_bounds l) \<le> kMaxVirtualDisplayPixels)
              ''display layout area cap exceeded (maximum: 67108864 physical pixels)'') (\<lambda>_.
     rbind (ensure (bounded_string (primary_monitor_id l) kMaxMonitorIdBytes False)
              ''display layout primary_monitor_id is empty or exceeds 256 bytes'') (\<lambda>_.
     rbind (validate_monitors (primary_monitor_id l) scan_init (monitors l)) (\<lambda>st.
     rbind (ensure (s_primary_count st = 1 \<and> primary_monitor_id l \<in> set (s_ids st))
              ''display layout must contain exactly one primary monitor'') (\<lambda>_.
     let u = s_union st; w = e_right u - e_left u; h = e_bottom u - e_top u
     in rbind (ensure (0 < w \<and> w \<le> 2147483647 \<and> 0 < h \<and> h \<le> 2147483647)
              ''display layout monitor union violates the signed-32 dimension cap (maximum: 2147483647)'') (\<lambda>_.
        ensure (\<lparr>rx = i32 (e_left u), ry = i32 (e_top u), rw = i32 w, rh = i32 h\<rparr> = virtual_bounds l)
              ''display layout virtual bounds do not equal the exact monitor union'')))))))))))"

definition validate_guest_display_state :: "guest_display_state \<Rightarrow> string + unit" where
  "validate_guest_display_state g =
     rbind (ensure (bounded_string (g_snapshot_id g) kMaxSnapshotIdBytes False)
              ''guest display snapshot_id is empty or exceeds 128 bytes'') (\<lambda>_.
     rbind (ensure (\<not> (actual_root_width g = 0 \<or> actual_root_height g = 0))
              ''guest display root dimensions must be positive'') (\<lambda>_.
     rbind (ensure (int (actual_root_width g) \<le> kMaxVirtualDisplayAxis \<and> int (actual_root_height g) \<le> kMaxVirtualDisplayAxis)
              ''guest display axis cap exceeded (maximum: 16384 physical pixels)'') (\<lambda>_.
     ensure (int (actual_root_width g * actual_root_height g) \<le> kMaxVirtualDisplayPixels)
              ''guest display area cap exceeded (maximum: 67108864 physical pixels)'')))"

definition validate_guest_display_state_against_layout :: "guest_display_state \<Rightarrow> display_layout \<Rightarrow> string + unit" where
  "validate_guest_display_state_against_layout g l =
     (case validate_display_layout l of
        Inl reason \<Rightarrow> Inl (''pinned display layout is invalid: '' @ reason)
      | Inr _ \<Rightarrow>
          rbind (validate_guest_display_state g) (\<lambda>_.
          rbind (ensure (g_snapshot_id g = snapshot_id l)
                   ''sidecar display snapshot ID does not match the worker session snapshot'') (\<lambda>_.
          ensure (actual_root_width g = u32_of_int (rw (virtual_bounds l)) \<and>
                  actual_root_height g = u32_of_int (rh (virtual_bounds l)))
                   ''observed guest root dimensions do not match the pinned virtual bounds'')))"

section \<open>Coordinate transforms\<close>

definition host_to_guest :: "display_layout \<Rightarrow> point_i32 \<Rightarrow> point_i32 option" where
  "host_to_guest l host =
     (let x = px host - rx (virtual_bounds l); y = py host - ry (virtual_bounds l)
      in if i32_range x \<and> i32_range y then Some \<lparr>px = x, py = y\<rparr> else None)"

definition guest_to_host :: "display_layout \<Rightarrow> point_i32 \<Rightarrow> point_i32 option" where
  "guest_to_host l guest =
     (let x = px guest + rx (virtual_bounds l); y = py guest + ry (virtual_bounds l)
      in if i32_range x \<and> i32_range y then Some \<lparr>px = x, py = y\<rparr> else None)"

definition rect_host_to_guest :: "display_layout \<Rightarrow> rect_i32 \<Rightarrow> rect_i32 option" where
  "rect_host_to_guest l r =
     (case host_to_guest l \<lparr>px = rx r, py = ry r\<rparr> of
        None \<Rightarrow> None
      | Some p \<Rightarrow> let g = \<lparr>rx = px p, ry = py p, rw = rw r, rh = rh r\<rparr>
                  in if edges g \<noteq> None then Some g else None)"

definition rect_guest_to_host :: "display_layout \<Rightarrow> rect_i32 \<Rightarrow> rect_i32 option" where
  "rect_guest_to_host l r =
     (case guest_to_host l \<lparr>px = rx r, py = ry r\<rparr> of
        None \<Rightarrow> None
      | Some p \<Rightarrow> let h = \<lparr>rx = px p, ry = py p, rw = rw r, rh = rh r\<rparr>
                  in if edges h \<noteq> None then Some h else None)"

section \<open>Choosing a monitor\<close>

definition find_monitor_by_id :: "display_layout \<Rightarrow> string \<Rightarrow> monitor_desc option" where
  "find_monitor_by_id l i = List.find (\<lambda>m. stable_id m = i) (monitors l)"

definition find_monitor_containing :: "display_layout \<Rightarrow> point_i32 \<Rightarrow> monitor_desc option" where
  "find_monitor_containing l p =
     foldl (\<lambda>best m. if contains_point (bounds m) p \<and>
                        (case best of None \<Rightarrow> True | Some b \<Rightarrow> preferred m b)
                     then Some m else best) None (monitors l)"

text \<open>The loops that keep the best monitor so far with its score.\<close>

definition keep_larger :: "(monitor_desc \<Rightarrow> nat) \<Rightarrow> monitor_desc option \<times> nat \<Rightarrow> monitor_desc \<Rightarrow> monitor_desc option \<times> nat" where
  "keep_larger score st m =
     (case st of (best, best_area) \<Rightarrow>
        let area = score m
        in if area > best_area \<or> (area = best_area \<and> area > 0 \<and>
               (case best of None \<Rightarrow> True | Some b \<Rightarrow> preferred m b))
           then (Some m, area) else (best, best_area))"

definition find_monitor_largest_intersection :: "display_layout \<Rightarrow> rect_i32 \<Rightarrow> monitor_desc option" where
  "find_monitor_largest_intersection l r =
     (case foldl (keep_larger (\<lambda>m. intersection_area (bounds m) r)) (None, 0) (monitors l) of
        (best, best_area) \<Rightarrow> if best_area = 0 then None else best)"

definition find_monitor_work_largest_intersection :: "display_layout \<Rightarrow> rect_i32 \<Rightarrow> monitor_desc option" where
  "find_monitor_work_largest_intersection l r =
     (case foldl (keep_larger (\<lambda>m. intersection_area (work m) r)) (None, 0) (monitors l) of
        (best, best_area) \<Rightarrow> if best_area = 0 then None else best)"

definition keep_nearer :: "rect_i32 \<Rightarrow> monitor_desc option \<times> nat \<Rightarrow> monitor_desc \<Rightarrow> monitor_desc option \<times> nat" where
  "keep_nearer r st m =
     (case st of (best, best_gap) \<Rightarrow>
        let gap = manhattan_gap (bounds m) r
        in if gap < best_gap \<or> (gap = best_gap \<and> (case best of None \<Rightarrow> True | Some b \<Rightarrow> preferred m b))
           then (Some m, gap) else (best, best_gap))"

definition find_monitor_nearest :: "display_layout \<Rightarrow> rect_i32 \<Rightarrow> monitor_desc option" where
  "find_monitor_nearest l r = fst (foldl (keep_nearer r) (None, u64_max) (monitors l))"

section \<open>Placement\<close>

definition clamp_axis_to :: "int \<Rightarrow> int \<Rightarrow> int \<Rightarrow> int \<Rightarrow> int" where
  "clamp_axis_to origin sz low high =
     (if sz \<ge> high - low then i32 low else i32 (max low (min origin (high - sz))))"

definition clamp_rect_to_monitor_work :: "rect_i32 \<Rightarrow> monitor_desc \<Rightarrow> rect_i32" where
  "clamp_rect_to_monitor_work r m =
     (case edges (work m) of
        None \<Rightarrow> r
      | Some w \<Rightarrow>
          if rw r \<le> 0 \<or> rh r \<le> 0 then r
          else \<lparr>rx = clamp_axis_to (rx r) (rw r) (e_left w) (e_right w),
                ry = clamp_axis_to (ry r) (rh r) (e_top w) (e_bottom w), rw = rw r, rh = rh r\<rparr>)"

definition clamp_axis_or :: "int \<Rightarrow> int \<Rightarrow> int \<Rightarrow> int \<Rightarrow> int \<Rightarrow> int \<Rightarrow> int" where
  "clamp_axis_or origin sz work_low work_high desktop_low desktop_high =
     (if sz > work_high - work_low then clamp_axis_to origin sz desktop_low desktop_high
      else clamp_axis_to origin sz work_low work_high)"

definition clamp_rect_to_monitor_work_or_virtual :: "rect_i32 \<Rightarrow> monitor_desc \<Rightarrow> rect_i32 \<Rightarrow> rect_i32" where
  "clamp_rect_to_monitor_work_or_virtual r m vb =
     (case (edges (work m), edges vb) of
        (Some w, Some d) \<Rightarrow>
          if rw r \<le> 0 \<or> rh r \<le> 0 then r
          else \<lparr>rx = clamp_axis_or (rx r) (rw r) (e_left w) (e_right w) (e_left d) (e_right d),
                ry = clamp_axis_or (ry r) (rh r) (e_top w) (e_bottom w) (e_top d) (e_bottom d),
                rw = rw r, rh = rh r\<rparr>
      | _ \<Rightarrow> r)"

datatype placement_mode = Preserve | CenterPrimary | CenterOwner

text \<open>C++ integer division truncates towards zero.\<close>

definition half_trunc :: "int \<Rightarrow> int" where
  "half_trunc n = (if n < 0 then - ((- n) div 2) else n div 2)"

definition placement_monitor :: "display_layout \<Rightarrow> rect_i32 \<Rightarrow> placement_mode \<Rightarrow> rect_i32 option \<Rightarrow> monitor_desc option" where
  "placement_monitor l desired_host mode owner_host =
     (case mode of
        CenterPrimary \<Rightarrow> find_monitor_by_id l (primary_monitor_id l)
      | _ \<Rightarrow>
          let r = (if mode = CenterOwner then the owner_host else desired_host)
          in case find_monitor_largest_intersection l r of
               Some m \<Rightarrow> Some m
             | None \<Rightarrow> find_monitor_nearest l r)"

definition center_on :: "rect_i32 \<Rightarrow> rect_i32 \<Rightarrow> rect_i32 option" where
  "center_on anchor r =
     (let x = rx anchor + half_trunc (rw anchor - rw r); y = ry anchor + half_trunc (rh anchor - rh r)
      in if i32_range x \<and> i32_range y then Some (r\<lparr>rx := x, ry := y\<rparr>) else None)"

definition recover_guest_window ::
  "display_layout \<Rightarrow> rect_i32 \<Rightarrow> placement_mode \<Rightarrow> rect_i32 option \<Rightarrow> (rect_i32 \<times> monitor_desc) option" where
  "recover_guest_window l desired_host mode owner_host =
     (case placement_monitor l desired_host mode owner_host of
        None \<Rightarrow> None
      | Some m \<Rightarrow>
          (case (if mode = Preserve then Some desired_host
                 else center_on (if mode = CenterOwner then the owner_host else work m) desired_host) of
             None \<Rightarrow> None
           | Some candidate \<Rightarrow>
               (case rect_host_to_guest l (clamp_rect_to_monitor_work_or_virtual candidate m (virtual_bounds l)) of
                  None \<Rightarrow> None
                | Some placed \<Rightarrow> Some (placed, m))))"

definition place_guest_window ::
  "display_layout \<Rightarrow> rect_i32 \<Rightarrow> placement_mode \<Rightarrow> rect_i32 option \<Rightarrow> (rect_i32 \<times> monitor_desc) option" where
  "place_guest_window l desired_guest mode owner_guest =
     (if rw desired_guest \<le> 0 \<or> rh desired_guest \<le> 0 \<or> (mode = CenterOwner \<and> owner_guest = None) then None
      else case rect_guest_to_host l desired_guest of
        None \<Rightarrow> None
      | Some desired_host \<Rightarrow>
          (case (case owner_guest of None \<Rightarrow> Some None
                 | Some g \<Rightarrow> map_option Some (rect_guest_to_host l g)) of
             None \<Rightarrow> None
           | Some owner_host \<Rightarrow>
               (case (if mode = Preserve
                      then find_monitor_work_largest_intersection l (desired_host\<lparr>rh := 1\<rparr>) else None) of
                  Some reachable \<Rightarrow> Some (desired_guest, reachable)
                | None \<Rightarrow> recover_guest_window l desired_host mode owner_host)))"

definition monitor_work_placement :: "monitor_desc \<Rightarrow> rect_i32" where
  "monitor_work_placement m =
     \<lparr>rx = i32 (rx (work m) - rx (bounds m)), ry = i32 (ry (work m) - ry (bounds m)), rw = rw (work m), rh = rh (work m)\<rparr>"

fun dedup_insert :: "monitor_desc \<Rightarrow> monitor_desc list \<Rightarrow> monitor_desc list" where
  "dedup_insert m [] = [m]"
| "dedup_insert m (e # es) =
     (if bounds e = bounds m then (if preferred m e then m # es else e # es)
      else e # dedup_insert m es)"

definition deduplicate_mirrored_monitors :: "monitor_desc list \<Rightarrow> monitor_desc list" where
  "deduplicate_mirrored_monitors ms = sort_key stable_id (foldl (\<lambda>res m. dedup_insert m res) [] ms)"

end
