(* ===== verification/Display_Correct.thy ===== *)
theory Display_Correct
  imports Display_Layout
begin

text \<open>
  What holds of the display layout: validation accepts exactly the layouts that satisfy
  \<open>layout_ok\<close>, the guest and host coordinate transforms are inverse to each other, the monitor
  searches return an optimal monitor, and placement keeps the size of a window and leaves its top
  row reachable whenever the window fits the work area it is placed on.
\<close>

section \<open>What validation accepts\<close>

definition monitor_ok :: "string \<Rightarrow> monitor_desc \<Rightarrow> bool" where
  "monitor_ok primary_id m \<longleftrightarrow>
     bounded_string (stable_id m) kMaxMonitorIdBytes False \<and> bounded_string (device_name m) kMaxDeviceNameBytes True \<and>
     contains_rect (bounds m) (work m) \<and> 0 < dpi_x m \<and> 0 < dpi_y m \<and>
     (primary m \<longrightarrow> stable_id m = primary_id)"

definition x_end :: "rect_i32 \<Rightarrow> int" where "x_end r = rx r + rw r"
definition y_end :: "rect_i32 \<Rightarrow> int" where "y_end r = ry r + rh r"

definition exact_union :: "rect_i32 \<Rightarrow> rect_i32 list \<Rightarrow> bool" where
  "exact_union u rs \<longleftrightarrow>
     rx u = Min (rx ` set rs) \<and> ry u = Min (ry ` set rs) \<and>
     x_end u = Max (x_end ` set rs) \<and> y_end u = Max (y_end ` set rs)"

definition layout_ok :: "display_layout \<Rightarrow> bool" where
  "layout_ok l \<longleftrightarrow>
     schema_version l = kDisplayLayoutSchemaVersion \<and>
     bounded_string (snapshot_id l) kMaxSnapshotIdBytes False \<and>
     bounded_string (primary_monitor_id l) kMaxMonitorIdBytes False \<and>
     monitors l \<noteq> [] \<and> length (monitors l) \<le> kMaxDisplayMonitors \<and>
     rw (virtual_bounds l) \<in> {1..kMaxVirtualDisplayAxis} \<and> rh (virtual_bounds l) \<in> {1..kMaxVirtualDisplayAxis} \<and>
     rw (virtual_bounds l) * rh (virtual_bounds l) \<le> kMaxVirtualDisplayPixels \<and>
     (\<forall>m \<in> set (monitors l). monitor_ok (primary_monitor_id l) m) \<and>
     distinct (map stable_id (monitors l)) \<and> distinct (map bounds (monitors l)) \<and>
     (\<exists>m \<in> set (monitors l). primary m) \<and>
     exact_union (virtual_bounds l) (map bounds (monitors l))"

definition rect_ok :: "rect_i32 \<Rightarrow> bool" where
  "rect_ok r \<longleftrightarrow> 0 < rw r \<and> 0 < rh r \<and> x_end r \<le> 2147483647 \<and> y_end r \<le> 2147483647"

lemma edges_eq:
  "edges r = (if rect_ok r then Some \<lparr>e_left = rx r, e_top = ry r, e_right = x_end r, e_bottom = y_end r\<rparr> else None)"
  by (auto simp: edges_def rect_ok_def x_end_def y_end_def)

lemma contains_rect_iff:
  "contains_rect a b \<longleftrightarrow> rect_ok a \<and> rect_ok b \<and>
     rx a \<le> rx b \<and> ry a \<le> ry b \<and> x_end b \<le> x_end a \<and> y_end b \<le> y_end a"
  by (auto simp: contains_rect_def edges_eq)

lemma bounds_key_inj [simp]: "bounds_key a = bounds_key b \<longleftrightarrow> a = b"
  by (cases a; cases b) (simp add: bounds_key_def)

definition scan_step :: "scan \<Rightarrow> monitor_desc \<Rightarrow> scan" where
  "scan_step st m =
     \<lparr>s_ids = stable_id m # s_ids st, s_bounds = bounds_key (bounds m) # s_bounds st,
      s_primary_count = s_primary_count st + (if primary m then 1 else 0),
      s_union = \<lparr>e_left = min (e_left (s_union st)) (rx (bounds m)), e_top = min (e_top (s_union st)) (ry (bounds m)),
         e_right = max (e_right (s_union st)) (x_end (bounds m)),
         e_bottom = max (e_bottom (s_union st)) (y_end (bounds m))\<rparr>\<rparr>"

lemma validate_monitor_Inr:
  "validate_monitor pid st m = Inr st' \<longleftrightarrow>
     monitor_ok pid m \<and> stable_id m \<notin> set (s_ids st) \<and> bounds_key (bounds m) \<notin> set (s_bounds st) \<and>
     st' = scan_step st m"
  by (auto simp: validate_monitor_def result_simps monitor_ok_def contains_rect_iff scan_step_def edges_eq
      split: option.splits if_splits)

lemma scan_step_sel [simp]:
  "s_ids (scan_step st m) = stable_id m # s_ids st"
  "s_bounds (scan_step st m) = bounds_key (bounds m) # s_bounds st"
  by (simp_all add: scan_step_def)

lemma validate_monitors_Inr:
  "validate_monitors pid st ms = Inr st' \<longleftrightarrow>
     (\<forall>m \<in> set ms. monitor_ok pid m) \<and> distinct (map stable_id ms) \<and> distinct (map bounds ms) \<and>
     (\<forall>m \<in> set ms. stable_id m \<notin> set (s_ids st) \<and> bounds_key (bounds m) \<notin> set (s_bounds st)) \<and>
     st' = foldl scan_step st ms"
proof (induction ms arbitrary: st)
  case (Cons m ms)
  show ?case
    unfolding validate_monitors.simps result_simps validate_monitor_Inr Cons.IH
    by (auto simp: image_iff)
qed auto

lemma scan_foldl:
  "s_ids (foldl scan_step st ms) = rev (map stable_id ms) @ s_ids st"
  "s_primary_count (foldl scan_step st ms) = s_primary_count st + length (filter primary ms)"
  "s_union (foldl scan_step st ms) =
     \<lparr>e_left = foldl min (e_left (s_union st)) (map (\<lambda>m. rx (bounds m)) ms),
      e_top = foldl min (e_top (s_union st)) (map (\<lambda>m. ry (bounds m)) ms),
      e_right = foldl max (e_right (s_union st)) (map (\<lambda>m. x_end (bounds m)) ms),
      e_bottom = foldl max (e_bottom (s_union st)) (map (\<lambda>m. y_end (bounds m)) ms)\<rparr>"
  by (induction ms arbitrary: st) (auto simp: scan_step_def)

lemma foldl_min_max:
  fixes a :: int
  shows "xs \<noteq> [] \<Longrightarrow> \<forall>x \<in> set xs. x \<le> a \<Longrightarrow> foldl min a xs = Min (set xs)"
    and "xs \<noteq> [] \<Longrightarrow> \<forall>x \<in> set xs. a \<le> x \<Longrightarrow> foldl max a xs = Max (set xs)"
proof -
  have mn: "foldl min a xs = Min (insert a (set xs))" for a :: int and xs
    by (induction xs rule: rev_induct) (auto simp: min.commute insert_commute)
  have mx: "foldl max a xs = Max (insert a (set xs))" for a :: int and xs
    by (induction xs rule: rev_induct) (auto simp: max.commute insert_commute)
  show "xs \<noteq> [] \<Longrightarrow> \<forall>x \<in> set xs. x \<le> a \<Longrightarrow> foldl min a xs = Min (set xs)"
    by (simp add: mn min_absorb2 Min_le_iff ex_in_conv) 
  show "xs \<noteq> [] \<Longrightarrow> \<forall>x \<in> set xs. a \<le> x \<Longrightarrow> foldl max a xs = Max (set xs)"
    by (simp add: mx max_absorb2 Max_ge_iff ex_in_conv)
qed

lemma one_primary:
  assumes "distinct (map stable_id ms)" and "\<forall>m \<in> set ms. primary m \<longrightarrow> stable_id m = pid"
  shows "length (filter primary ms) = 1 \<and> pid \<in> stable_id ` set ms \<longleftrightarrow> (\<exists>m \<in> set ms. primary m)"
  using assms
proof (induction ms)
  case (Cons m ms)
  have "\<forall>x \<in> set ms. \<not> primary x" if "primary m"
  proof
    fix x
    assume "x \<in> set ms"
    then show "\<not> primary x" using that Cons.prems by (auto simp: image_iff)
  qed
  then have "primary m \<Longrightarrow> filter primary ms = []"
    by (simp add: filter_empty_conv)
  then show ?case
    using Cons by (cases "primary m") (auto simp: image_iff)
qed simp


lemma union_of_monitors:
  assumes "layout_typed l" and "monitors l \<noteq> []"
    and ok: "\<forall>m \<in> set (monitors l). monitor_ok pid m"
  defines "u \<equiv> s_union (foldl scan_step scan_init (monitors l))"
  shows "e_left u = Min (rx ` bounds ` set (monitors l))" "e_top u = Min (ry ` bounds ` set (monitors l))"
    "e_right u = Max (x_end ` bounds ` set (monitors l))" "e_bottom u = Max (y_end ` bounds ` set (monitors l))"
    "i32_range (e_left u)" "i32_range (e_top u)" "e_right u \<le> 2147483647" "e_bottom u \<le> 2147483647"
    "e_left u < e_right u" "e_top u < e_bottom u"
proof -
  let ?B = "bounds ` set (monitors l)"
  have b: "i32_range (rx r) \<and> i32_range (ry r) \<and> rect_ok r" if "r \<in> ?B" for r
    using assms(1) ok that
    by (auto simp: layout_typed_def list_all_iff monitor_typed_def rect_typed_def monitor_ok_def contains_rect_iff)
  have fin: "finite ?B" "?B \<noteq> {}" using assms(2) by auto
  have wide: "rx r \<le> 2 ^ 63 - 1 \<and> ry r \<le> 2 ^ 63 - 1 \<and> - (2 ^ 63) \<le> x_end r \<and> - (2 ^ 63) \<le> y_end r" if "r \<in> ?B" for r
    using b [OF that] by (simp add: i32_range_def rect_ok_def x_end_def y_end_def)
  show l: "e_left u = Min (rx ` ?B)"
    using assms(2) wide by (simp add: u_def scan_foldl scan_init_def foldl_min_max image_image)
  show t: "e_top u = Min (ry ` ?B)"
    using assms(2) wide by (simp add: u_def scan_foldl scan_init_def foldl_min_max image_image)
  show r: "e_right u = Max (x_end ` ?B)"
    using assms(2) wide by (simp add: u_def scan_foldl scan_init_def foldl_min_max image_image)
  show bt: "e_bottom u = Max (y_end ` ?B)"
    using assms(2) wide by (simp add: u_def scan_foldl scan_init_def foldl_min_max image_image)
  have mem: "Min (rx ` ?B) \<in> rx ` ?B" "Min (ry ` ?B) \<in> ry ` ?B" "Max (x_end ` ?B) \<in> x_end ` ?B"
    "Max (y_end ` ?B) \<in> y_end ` ?B"
    using fin by (simp_all add: Min_in Max_in)
  show "i32_range (e_left u)" "i32_range (e_top u)" "e_right u \<le> 2147483647" "e_bottom u \<le> 2147483647"
    using mem b unfolding l t r bt rect_ok_def by (metis (no_types, lifting) imageE)+
  obtain q where q: "q \<in> ?B" using fin(2) ex_in_conv [of ?B] by metis
  have "e_left u \<le> rx q" "x_end q \<le> e_right u" "e_top u \<le> ry q" "y_end q \<le> e_bottom u"
    using q fin unfolding l t r bt by simp_all
  then show "e_left u < e_right u" "e_top u < e_bottom u"
    using b [OF q] by (simp_all add: rect_ok_def x_end_def y_end_def)
qed

lemma validate_iff:
  assumes "layout_typed l"
  shows "validate_display_layout l = Inr () \<longleftrightarrow> layout_ok l"
proof (cases "monitors l \<noteq> [] \<and> (\<forall>m \<in> set (monitors l). monitor_ok (primary_monitor_id l) m)")
  case False
  then show ?thesis
    by (auto simp: validate_display_layout_def layout_ok_def result_simps validate_monitors_Inr Let_def)
next
  case True
  define u where "u = s_union (foldl scan_step scan_init (monitors l))"
  note un = union_of_monitors [OF assms conjunct1 [OF True] conjunct2 [OF True], folded u_def]
  let ?v = "virtual_bounds l"
  have eq: "\<lparr>rx = i32 (e_left u), ry = i32 (e_top u), rw = i32 (e_right u - e_left u), rh = i32 (e_bottom u - e_top u)\<rparr> = ?v
      \<longleftrightarrow> exact_union ?v (map bounds (monitors l))"
    if "e_right u - e_left u \<le> 2147483647" "e_bottom u - e_top u \<le> 2147483647"
  proof -
    have "i32_range (e_right u - e_left u)" "i32_range (e_bottom u - e_top u)"
      using that un(9,10) by (simp_all add: i32_range_def)
    then have "\<lparr>rx = i32 (e_left u), ry = i32 (e_top u), rw = i32 (e_right u - e_left u), rh = i32 (e_bottom u - e_top u)\<rparr>
        = \<lparr>rx = e_left u, ry = e_top u, rw = e_right u - e_left u, rh = e_bottom u - e_top u\<rparr>"
      using un(5,6) by (simp add: i32_id)
    then show ?thesis
      by (cases ?v) (auto simp: exact_union_def x_end_def y_end_def un(1-4) image_comp)
  qed
  have small: "e_right u - e_left u \<le> 2147483647 \<and> e_bottom u - e_top u \<le> 2147483647"
    if "exact_union ?v (map bounds (monitors l))" "rw ?v \<le> kMaxVirtualDisplayAxis" "rh ?v \<le> kMaxVirtualDisplayAxis"
    using that un(1-4) by (simp add: exact_union_def x_end_def y_end_def kMaxVirtualDisplayAxis_def image_comp)
  have box: "edges ?v \<noteq> None" if "exact_union ?v (map bounds (monitors l))"
    using that un(1-4,7-10) by (simp add: exact_union_def edges_eq rect_ok_def x_end_def y_end_def image_comp)
  let ?ms = "monitors l"
  have V: "validate_display_layout l = Inr () \<longleftrightarrow>
      schema_version l = kDisplayLayoutSchemaVersion \<and> bounded_string (snapshot_id l) kMaxSnapshotIdBytes False \<and>
      length ?ms \<le> kMaxDisplayMonitors \<and> edges ?v \<noteq> None \<and>
      (rw ?v \<le> kMaxVirtualDisplayAxis \<and> rh ?v \<le> kMaxVirtualDisplayAxis) \<and>
      rw ?v * rh ?v \<le> kMaxVirtualDisplayPixels \<and> bounded_string (primary_monitor_id l) kMaxMonitorIdBytes False \<and>
      distinct (map stable_id ?ms) \<and> distinct (map bounds ?ms) \<and>
      (length (filter primary ?ms) = 1 \<and> primary_monitor_id l \<in> stable_id ` set ?ms) \<and>
      (e_right u - e_left u \<le> 2147483647 \<and> e_bottom u - e_top u \<le> 2147483647) \<and>
      \<lparr>rx = i32 (e_left u), ry = i32 (e_top u), rw = i32 (e_right u - e_left u), rh = i32 (e_bottom u - e_top u)\<rparr> = ?v"
    using True un(9,10)
    by (simp add: validate_display_layout_def result_simps validate_monitors_Inr Let_def scan_foldl(1,2) u_def scan_init_def)
  have P: "distinct (map stable_id ?ms) \<Longrightarrow>
      (length (filter primary ?ms) = 1 \<and> primary_monitor_id l \<in> stable_id ` set ?ms) \<longleftrightarrow> (\<exists>m \<in> set ?ms. primary m)"
    using True by (intro one_primary) (auto simp: monitor_ok_def)
  have pos: "edges ?v \<noteq> None \<Longrightarrow> 0 < rw ?v \<and> 0 < rh ?v"
    by (simp add: edges_eq rect_ok_def split: if_splits)
  show ?thesis
  proof
    assume "validate_display_layout l = Inr ()"
    then show "layout_ok l"
      unfolding V layout_ok_def using True P eq pos by auto
  next
    assume "layout_ok l"
    then show "validate_display_layout l = Inr ()"
      unfolding V layout_ok_def using P eq small box by auto
  qed
qed


section \<open>Transforms\<close>

definition point_typed :: "point_i32 \<Rightarrow> bool" where
  "point_typed p \<longleftrightarrow> i32_range (px p) \<and> i32_range (py p)"

lemma point_transforms_inverse:
  assumes "point_typed h" and "point_typed g"
  shows "host_to_guest l h = Some g \<longleftrightarrow> guest_to_host l g = Some h"
  using assms by (cases h; cases g) (auto simp: host_to_guest_def guest_to_host_def point_typed_def Let_def)

lemma rect_guest_to_host_Some:
  "rect_guest_to_host l g = Some h \<longleftrightarrow>
     h = g\<lparr>rx := rx g + rx (virtual_bounds l), ry := ry g + ry (virtual_bounds l)\<rparr> \<and>
     i32_range (rx h) \<and> i32_range (ry h) \<and> rect_ok h"
  by (cases h; cases g) (auto simp: rect_guest_to_host_def guest_to_host_def Let_def edges_eq split: if_splits)

lemma rect_host_to_guest_Some:
  "rect_host_to_guest l h = Some g \<longleftrightarrow>
     g = h\<lparr>rx := rx h - rx (virtual_bounds l), ry := ry h - ry (virtual_bounds l)\<rparr> \<and>
     i32_range (rx g) \<and> i32_range (ry g) \<and> rect_ok g"
  by (cases h; cases g) (auto simp: rect_host_to_guest_def host_to_guest_def Let_def edges_eq split: if_splits)

lemma rect_transforms_inverse:
  assumes "rect_typed h" "rect_ok h" and "rect_typed g" "rect_ok g"
  shows "rect_host_to_guest l h = Some g \<longleftrightarrow> rect_guest_to_host l g = Some h"
  using assms by (cases h; cases g) (auto simp: rect_host_to_guest_Some rect_guest_to_host_Some rect_typed_def)

section \<open>The searches\<close>

lemma keep_larger_best:
  assumes "foldl (keep_larger f) (None, 0) ms = (best, a)"
  shows "(\<forall>m \<in> set ms. f m \<le> a) \<and> (case best of None \<Rightarrow> a = 0 | Some m \<Rightarrow> m \<in> set ms \<and> f m = a)"
  using assms
proof (induction ms arbitrary: best a rule: rev_induct)
  case (snoc m ms)
  obtain b a0 where st: "foldl (keep_larger f) (None, 0) ms = (b, a0)" by force
  then have ih: "(\<forall>m \<in> set ms. f m \<le> a0) \<and> (case b of None \<Rightarrow> a0 = 0 | Some m \<Rightarrow> m \<in> set ms \<and> f m = a0)"
    using snoc.IH by simp
  have "(best, a) = keep_larger f (b, a0) m" using st snoc.prems by simp
  with ih show ?case
    by (fastforce simp: keep_larger_def Let_def split: if_splits option.splits)
qed simp

lemma largest_intersection:
  assumes "find_monitor_largest_intersection l r = res"
  shows "case res of None \<Rightarrow> \<forall>m \<in> set (monitors l). intersection_area (bounds m) r = 0
    | Some m \<Rightarrow> m \<in> set (monitors l) \<and> 0 < intersection_area (bounds m) r \<and>
        (\<forall>m' \<in> set (monitors l). intersection_area (bounds m') r \<le> intersection_area (bounds m) r)"
proof -
  obtain b a where st: "foldl (keep_larger (\<lambda>m. intersection_area (bounds m) r)) (None, 0) (monitors l) = (b, a)"
    by force
  show ?thesis
    using assms keep_larger_best [OF st] st
    by (auto simp: find_monitor_largest_intersection_def split: option.splits if_splits)
qed

lemma work_largest_intersection:
  assumes "find_monitor_work_largest_intersection l r = res"
  shows "case res of None \<Rightarrow> \<forall>m \<in> set (monitors l). intersection_area (work m) r = 0
    | Some m \<Rightarrow> m \<in> set (monitors l) \<and> 0 < intersection_area (work m) r \<and>
        (\<forall>m' \<in> set (monitors l). intersection_area (work m') r \<le> intersection_area (work m) r)"
proof -
  obtain b a where st: "foldl (keep_larger (\<lambda>m. intersection_area (work m) r)) (None, 0) (monitors l) = (b, a)"
    by force
  show ?thesis
    using assms keep_larger_best [OF st] st
    by (auto simp: find_monitor_work_largest_intersection_def split: option.splits if_splits)
qed

lemma keep_nearer_best:
  assumes "foldl (keep_nearer r) (None, k) ms = (best, g)"
    and "\<forall>m \<in> set ms. manhattan_gap (bounds m) r \<le> k"
  shows "(\<forall>m \<in> set ms. g \<le> manhattan_gap (bounds m) r) \<and>
    (case best of None \<Rightarrow> ms = [] \<and> g = k | Some m \<Rightarrow> m \<in> set ms \<and> manhattan_gap (bounds m) r = g)"
  using assms
proof (induction ms arbitrary: best g rule: rev_induct)
  case (snoc m ms)
  obtain b g0 where st: "foldl (keep_nearer r) (None, k) ms = (b, g0)" by force
  then have ih: "(\<forall>m \<in> set ms. g0 \<le> manhattan_gap (bounds m) r) \<and>
    (case b of None \<Rightarrow> ms = [] \<and> g0 = k | Some m \<Rightarrow> m \<in> set ms \<and> manhattan_gap (bounds m) r = g0)"
    using snoc.IH snoc.prems(2) by simp
  have "(best, g) = keep_nearer r (b, g0) m" using st snoc.prems(1) by simp
  with ih snoc.prems(2) show ?case
    by (fastforce simp: keep_nearer_def Let_def split: if_splits option.splits)
qed simp

lemma manhattan_gap_le: "rect_typed a \<Longrightarrow> rect_typed b \<Longrightarrow> manhattan_gap a b \<le> u64_max"
  by (auto simp: manhattan_gap_def edges_eq Let_def u64_max_def rect_typed_def i32_range_def rect_ok_def x_end_def y_end_def)

lemma monitor_nearest:
  assumes "layout_typed l" "rect_typed r" "find_monitor_nearest l r = res"
  shows "case res of None \<Rightarrow> monitors l = []
    | Some m \<Rightarrow> m \<in> set (monitors l) \<and>
        (\<forall>m' \<in> set (monitors l). manhattan_gap (bounds m) r \<le> manhattan_gap (bounds m') r)"
proof -
  obtain b g where st: "foldl (keep_nearer r) (None, u64_max) (monitors l) = (b, g)" by force
  have "\<forall>m \<in> set (monitors l). manhattan_gap (bounds m) r \<le> u64_max"
    using assms(1,2) by (auto simp: layout_typed_def list_all_iff monitor_typed_def manhattan_gap_le)
  from keep_nearer_best [OF st this] show ?thesis
    using assms(3) st by (auto simp: find_monitor_nearest_def split: option.splits)
qed

section \<open>Clamping\<close>

lemma clamp_axis_to_inside:
  assumes "sz \<le> high - low" "0 < sz" "i32_range low" "high \<le> 2147483647"
  shows "low \<le> clamp_axis_to origin sz low high \<and> clamp_axis_to origin sz low high + sz \<le> high"
proof -
  have "i32_range (max low (min origin (high - sz)))"
    using assms by (auto simp: i32_range_def)
  then show ?thesis using assms by (auto simp: clamp_axis_to_def i32_id)
qed

lemma clamp_inside_work:
  assumes "rect_typed (work m)" "rect_ok (work m)" "rect_ok vb"
    and "0 < rw r" "rw r \<le> rw (work m)" "0 < rh r" "rh r \<le> rh (work m)"
  shows "contains_rect (work m) (clamp_rect_to_monitor_work_or_virtual r m vb)"
    and "contains_rect (work m) (clamp_rect_to_monitor_work r m)"
proof -
  let ?w = "work m"
  have ax: "rx ?w \<le> clamp_axis_to (rx r) (rw r) (rx ?w) (x_end ?w) \<and>
      clamp_axis_to (rx r) (rw r) (rx ?w) (x_end ?w) + rw r \<le> x_end ?w"
    using assms by (intro clamp_axis_to_inside) (auto simp: x_end_def rect_typed_def rect_ok_def)
  have ay: "ry ?w \<le> clamp_axis_to (ry r) (rh r) (ry ?w) (y_end ?w) \<and>
      clamp_axis_to (ry r) (rh r) (ry ?w) (y_end ?w) + rh r \<le> y_end ?w"
    using assms by (intro clamp_axis_to_inside) (auto simp: y_end_def rect_typed_def rect_ok_def)
  have le: "\<not> rw r > x_end ?w - rx ?w" "\<not> rh r > y_end ?w - ry ?w"
    using assms by (auto simp: x_end_def y_end_def)
  show "contains_rect (work m) (clamp_rect_to_monitor_work_or_virtual r m vb)"
    "contains_rect (work m) (clamp_rect_to_monitor_work r m)"
    using assms le ax ay
    by (auto simp: clamp_rect_to_monitor_work_or_virtual_def clamp_rect_to_monitor_work_def edges_eq
        clamp_axis_or_def contains_rect_iff rect_ok_def x_end_def y_end_def)
qed

lemma clamp_size [simp]:
  "rw (clamp_rect_to_monitor_work_or_virtual r m vb) = rw r" "rh (clamp_rect_to_monitor_work_or_virtual r m vb) = rh r"
  by (auto simp: clamp_rect_to_monitor_work_or_virtual_def split: option.splits)

lemma top_row_reachable:
  assumes "contains_rect w h"
  shows "0 < intersection_area w (h\<lparr>rh := 1\<rparr>)"
  using assms
  by (auto simp: contains_rect_iff intersection_area_def edges_eq Let_def rect_ok_def x_end_def y_end_def)

section \<open>Placement\<close>

lemma layout_ok_monitor:
  assumes "layout_ok l" "m \<in> set (monitors l)"
  shows "rect_ok (work m)" "rect_ok (bounds m)" "contains_rect (bounds m) (work m)"
  using assms by (auto simp: layout_ok_def monitor_ok_def contains_rect_iff)

lemma placement_monitor_mem:
  assumes "layout_typed l" "rect_typed dh" "\<forall>r. oh = Some r \<longrightarrow> rect_typed r" "mode = CenterOwner \<Longrightarrow> oh \<noteq> None"
    and "placement_monitor l dh mode oh = Some m"
  shows "m \<in> set (monitors l)"
proof (cases mode)
  case CenterPrimary
  then show ?thesis
    using assms(5) by (auto simp: placement_monitor_def find_monitor_by_id_def find_Some_iff)
next
  case CenterOwner
  then obtain r where r: "oh = Some r" "rect_typed r" using assms(3,4) by auto
  show ?thesis
    using assms(5) CenterOwner r largest_intersection [of l r] monitor_nearest [OF assms(1) r(2)]
    by (auto simp: placement_monitor_def split: option.splits)
next
  case Preserve
  then show ?thesis
    using assms(5) largest_intersection [of l dh] monitor_nearest [OF assms(1,2)]
    by (auto simp: placement_monitor_def split: option.splits)
qed

lemma rect_guest_host_guest:
  assumes "rect_host_to_guest l h = Some p" "rect_ok h" "i32_range (rx h)" "i32_range (ry h)"
  shows "rect_guest_to_host l p = Some h"
  using assms by (cases h; cases p) (auto simp: rect_host_to_guest_Some rect_guest_to_host_Some)

lemma recover_inside:
  assumes l: "layout_typed l" "layout_ok l" and m: "m \<in> set (monitors l)"
    and c: "0 < rw c" "rw c \<le> rw (work m)" "0 < rh c" "rh c \<le> rh (work m)"
    and p: "rect_host_to_guest l (clamp_rect_to_monitor_work_or_virtual c m (virtual_bounds l)) = Some p"
  shows "\<exists>h. rect_guest_to_host l p = Some h \<and> 0 < intersection_area (work m) (h\<lparr>rh := 1\<rparr>) \<and> contains_rect (work m) h"
proof -
  let ?h = "clamp_rect_to_monitor_work_or_virtual c m (virtual_bounds l)"
  have w: "rect_typed (work m)" "rect_ok (work m)"
    using l m layout_ok_monitor by (auto simp: layout_typed_def list_all_iff monitor_typed_def)
  have "validate_display_layout l = Inr ()" using l validate_iff by blast
  then have vb: "rect_ok (virtual_bounds l)"
    by (auto simp: validate_display_layout_def result_simps edges_eq split: if_splits)
  have inside: "contains_rect (work m) ?h"
    using w vb c by (intro clamp_inside_work)
  then have "rect_ok ?h" "i32_range (rx ?h)" "i32_range (ry ?h)"
    using w by (auto simp: contains_rect_iff rect_typed_def i32_range_def rect_ok_def x_end_def y_end_def)
  then have "rect_guest_to_host l p = Some ?h"
    using p rect_guest_host_guest by blast
  then show ?thesis using inside top_row_reachable by blast
qed

lemma place_cases:
  assumes "place_guest_window l d mode owner = Some (p, m)"
  obtains (reach) dh where "rect_guest_to_host l d = Some dh" "p = d" "mode = Preserve"
      "find_monitor_work_largest_intersection l (dh\<lparr>rh := 1\<rparr>) = Some m"
    | (recover) dh oh c where "0 < rw d" "0 < rh d" "rect_guest_to_host l d = Some dh"
      "mode = CenterOwner \<Longrightarrow> oh \<noteq> None" "owner = None \<and> oh = None \<or> (\<exists>g r. owner = Some g \<and> oh = Some r \<and> rect_guest_to_host l g = Some r)"
      "placement_monitor l dh mode oh = Some m" "rw c = rw dh" "rh c = rh dh"
      "rect_host_to_guest l (clamp_rect_to_monitor_work_or_virtual c m (virtual_bounds l)) = Some p"
proof -
  obtain dh where dh: "rect_guest_to_host l d = Some dh" and pos: "0 < rw d" "0 < rh d"
    and no: "\<not> (mode = CenterOwner \<and> owner = None)"
    using assms by (auto simp: place_guest_window_def split: if_splits option.splits)
  obtain oh where oh: "(case owner of None \<Rightarrow> Some None | Some g \<Rightarrow> map_option Some (rect_guest_to_host l g)) = Some oh"
    using assms by (auto simp: place_guest_window_def dh split: if_splits option.splits)
  have oh2: "owner = None \<and> oh = None \<or> (\<exists>g r. owner = Some g \<and> oh = Some r \<and> rect_guest_to_host l g = Some r)"
    using oh by (auto split: option.splits)
  show thesis
  proof (cases "if mode = Preserve then find_monitor_work_largest_intersection l (dh\<lparr>rh := 1\<rparr>) else None")
    case (Some q)
    then show thesis
      using assms oh dh pos no by (intro reach) (auto simp: place_guest_window_def split: if_splits)
  next
    case None
    then have rec: "recover_guest_window l dh mode oh = Some (p, m)"
      using assms oh dh pos no by (auto simp: place_guest_window_def split: if_splits)
    show thesis
    proof (rule recover [OF pos dh _ oh2])
      show "mode = CenterOwner \<Longrightarrow> oh \<noteq> None" using no oh2 by auto
      show "placement_monitor l dh mode oh = Some m"
        using rec by (auto simp: recover_guest_window_def split: option.splits)
      let ?c = "the (if mode = Preserve then Some dh
                 else center_on (if mode = CenterOwner then the oh else work m) dh)"
      show "rw ?c = rw dh" "rh ?c = rh dh"
        "rect_host_to_guest l (clamp_rect_to_monitor_work_or_virtual ?c m (virtual_bounds l)) = Some p"
        using rec by (auto simp: recover_guest_window_def center_on_def Let_def split: option.splits if_splits)
    qed
  qed
qed

lemma placed_reachable:
  assumes l: "layout_typed l" "layout_ok l" and d: "rect_typed d" "\<forall>g. owner = Some g \<longrightarrow> rect_typed g"
    and p: "place_guest_window l d mode owner = Some (p, m)"
  shows "m \<in> set (monitors l) \<and> rw p = rw d \<and> rh p = rh d \<and>
    (rw d \<le> rw (work m) \<and> rh d \<le> rh (work m) \<longrightarrow>
      (\<exists>h. rect_guest_to_host l p = Some h \<and> 0 < intersection_area (work m) (h\<lparr>rh := 1\<rparr>) \<and>
        (mode = Preserve \<and> p = d \<or> contains_rect (work m) h)))"
  using p
proof (cases rule: place_cases)
  case (reach dh)
  then show ?thesis using work_largest_intersection [of l "dh\<lparr>rh := 1\<rparr>"] by auto
next
  case (recover dh oh c)
  have typed: "rect_typed r'" if "rect_guest_to_host l r = Some r'" "rect_typed r" for r r'
    using that by (auto simp: rect_guest_to_host_Some rect_typed_def)
  have m: "m \<in> set (monitors l)"
    using l(1) recover d typed by (intro placement_monitor_mem [of l dh oh mode m]) auto
  have sz: "rw dh = rw d" "rh dh = rh d" using recover(3) by (auto simp: rect_guest_to_host_Some)
  have psz: "rw p = rw d" "rh p = rh d"
    using recover(7-9) sz by (auto simp: rect_host_to_guest_Some)
  show ?thesis
    using m psz recover_inside [OF l m _ _ _ _ recover(9)] recover(1,2,7,8) sz by auto
qed


section \<open>Mirrored monitors\<close>

lemma preferred_trans: "preferred a b \<Longrightarrow> preferred b c \<Longrightarrow> preferred a c"
  by (auto simp: preferred_def split: if_splits)

lemma preferred_irrefl [simp]: "\<not> preferred m m"
  by (simp add: preferred_def)

definition represents :: "monitor_desc list \<Rightarrow> monitor_desc list \<Rightarrow> bool" where
  "represents res ms \<longleftrightarrow>
     set res \<subseteq> set ms \<and> distinct (map bounds res) \<and>
     (\<forall>m \<in> set ms. \<exists>e \<in> set res. bounds e = bounds m \<and> \<not> preferred m e)"

lemma dedup_insert_bounds: "bounds ` set (dedup_insert m es) = insert (bounds m) (bounds ` set es)"
  by (induction es) auto

lemma dedup_insert_props:
  assumes "distinct (map bounds es)"
  shows "distinct (map bounds (dedup_insert m es))" "set (dedup_insert m es) \<subseteq> insert m (set es)"
    "\<exists>e \<in> set (dedup_insert m es). bounds e = bounds m \<and> \<not> preferred m e"
    "\<forall>x \<in> set es. \<exists>e \<in> set (dedup_insert m es). bounds e = bounds x \<and> (e = x \<or> preferred e x)"
  using assms by (induction es) (auto simp: dedup_insert_bounds split: if_splits)

lemma dedup_represents: "represents (foldl (\<lambda>res m. dedup_insert m res) [] ms) ms"
proof (induction ms rule: rev_induct)
  case Nil
  show ?case by (simp add: represents_def)
next
  case (snoc m ms)
  let ?r = "foldl (\<lambda>res m. dedup_insert m res) [] ms"
  have d: "distinct (map bounds ?r)" "set ?r \<subseteq> set ms" using snoc by (auto simp: represents_def)
  note ins = dedup_insert_props [OF d(1), of m]
  have "\<exists>e \<in> set (dedup_insert m ?r). bounds e = bounds x \<and> \<not> preferred x e" if "x \<in> set ms" for x
  proof -
    obtain e where e: "e \<in> set ?r" "bounds e = bounds x" "\<not> preferred x e"
      using snoc \<open>x \<in> set ms\<close> by (auto simp: represents_def)
    then obtain e' where "e' \<in> set (dedup_insert m ?r)" "bounds e' = bounds e" "e' = e \<or> preferred e' e"
      using ins(4) by blast
    then show ?thesis using e preferred_trans by metis
  qed
  then show ?case using ins d by (auto simp: represents_def)
qed

text \<open>De-duplicating mirrored monitors keeps one monitor of the input for every distinct bounds
  rectangle, no two with the same bounds, in the order of their stable ids; the one kept is never
  beaten by another monitor with the same bounds (primary first, then the smaller stable id).\<close>

theorem deduplicate_spec:
  "set (deduplicate_mirrored_monitors ms) \<subseteq> set ms \<and>
   distinct (map bounds (deduplicate_mirrored_monitors ms)) \<and>
   sorted (map stable_id (deduplicate_mirrored_monitors ms)) \<and>
   (\<forall>m \<in> set ms. \<exists>e \<in> set (deduplicate_mirrored_monitors ms). bounds e = bounds m \<and> \<not> preferred m e)"
proof -
  let ?r = "foldl (\<lambda>res m. dedup_insert m res) [] ms"
  have "distinct (map bounds (sort_key stable_id ?r))"
    using dedup_represents [of ms] unfolding represents_def distinct_map
    by (simp add: inj_on_def)
  then show ?thesis
    using dedup_represents [of ms] by (auto simp: represents_def deduplicate_mirrored_monitors_def)
qed

section \<open>Concrete layouts\<close>

definition landscape :: monitor_desc where
  "landscape = \<lparr>stable_id = ''A'', device_name = ''A'', bounds = \<lparr>rx = 0, ry = 0, rw = 1920, rh = 1080\<rparr>,
     work = \<lparr>rx = 0, ry = 0, rw = 1920, rh = 1040\<rparr>, dpi_x = 96, dpi_y = 96, rotation = Identity, primary = True\<rparr>"

definition portrait :: monitor_desc where
  "portrait = \<lparr>stable_id = ''B'', device_name = ''B'', bounds = \<lparr>rx = 1920, ry = 0, rw = 1080, rh = 1920\<rparr>,
     work = \<lparr>rx = 1920, ry = 0, rw = 1080, rh = 1880\<rparr>, dpi_x = 96, dpi_y = 96, rotation = Rotate90, primary = False\<rparr>"

definition desk :: display_layout where
  "desk = \<lparr>schema_version = 1, snapshot_id = ''s1'', virtual_bounds = \<lparr>rx = 0, ry = 0, rw = 3000, rh = 1920\<rparr>,
     primary_monitor_id = ''A'', monitors = [landscape, portrait]\<rparr>"

lemmas desk_simps = desk_def landscape_def portrait_def 

lemma desk_typed: "layout_typed desk"
  by (simp add: desk_simps layout_typed_def monitor_typed_def rect_typed_def i32_range_def)

lemma desk_valid: "validate_display_layout desk = Inr ()"
  by (simp add: desk_simps validate_display_layout_def validate_monitor_def scan_init_def
     kDisplayLayoutSchemaVersion_def kMaxDisplayMonitors_def kMaxVirtualDisplayAxis_def kMaxVirtualDisplayPixels_def
     kMaxSnapshotIdBytes_def kMaxMonitorIdBytes_def kMaxDeviceNameBytes_def bounded_string_def edges_def bounds_key_def
     contains_rect_def i32_def)

theorem deduplicate_spec_witness:
  "landscape \<in> set [portrait, landscape] \<and>
   (\<exists>e \<in> set (deduplicate_mirrored_monitors [portrait, landscape]). bounds e = bounds landscape \<and> \<not> preferred landscape e)"
  using deduplicate_spec [of "[portrait, landscape]"] by simp

text \<open>C21: Validation accepts a layout whose fields are in the range of their C++ types exactly when the
  layout satisfies \<open>layout_ok\<close>: bounded strings, one to 32 monitors, positive capped desktop size,
  distinct ids and distinct bounds, every work area inside its monitor, exactly one primary monitor
  and it is the named one, and a virtual desktop that is the exact bounding box of the monitors.\<close>

theorem validate_spec: "layout_typed l \<Longrightarrow> validate_display_layout l = Inr () \<longleftrightarrow> layout_ok l"
  by (rule validate_iff)

theorem validate_spec_witness: "layout_typed desk \<and> layout_ok desk"
  using validate_spec [OF desk_typed] desk_typed desk_valid by simp

text \<open>The host-to-guest and guest-to-host transforms of points are inverse to each other: one maps
  a point to another iff the other maps it back, including the points where either is refused
  because the result leaves the signed 32-bit range.\<close>

theorem transforms_inverse:
  assumes "point_typed h" and "point_typed g"
  shows "host_to_guest l h = Some g \<longleftrightarrow> guest_to_host l g = Some h"
  using assms by (rule point_transforms_inverse)

theorem transforms_inverse_witness:
  "host_to_guest (desk\<lparr>virtual_bounds := \<lparr>rx = - 1080, ry = 0, rw = 3000, rh = 1920\<rparr>\<rparr>) \<lparr>px = - 1000, py = 7\<rparr> =
     Some \<lparr>px = 80, py = 7\<rparr>"
proof -
  let ?l = "desk\<lparr>virtual_bounds := \<lparr>rx = - 1080, ry = 0, rw = 3000, rh = 1920\<rparr>\<rparr>"
  have "point_typed \<lparr>px = - 1000, py = 7\<rparr>" "point_typed \<lparr>px = 80, py = 7\<rparr>"
    by (simp_all add: point_typed_def i32_range_def)
  from transforms_inverse [OF this, of ?l] show ?thesis
    by (simp add: guest_to_host_def i32_range_def)
qed

text \<open>C22: Placing a guest window on a valid layout selects a monitor of the layout and keeps the window's
  size. If the window is no larger than that monitor's work area, at least a pixel of the top row of
  the placed window is in the work area; and the whole window is inside the work area, except that
  the mode Preserve may leave the position as it was asked for.\<close>

theorem placement_reachable:
  assumes "layout_typed l" and "validate_display_layout l = Inr ()"
    and "rect_typed d" and "\<forall>g. owner = Some g \<longrightarrow> rect_typed g"
    and "place_guest_window l d mode owner = Some (p, m)"
  shows "m \<in> set (monitors l) \<and> rw p = rw d \<and> rh p = rh d \<and>
    (rw d \<le> rw (work m) \<and> rh d \<le> rh (work m) \<longrightarrow>
      (\<exists>h. rect_guest_to_host l p = Some h \<and> 0 < intersection_area (work m) (h\<lparr>rh := 1\<rparr>) \<and>
        (mode = Preserve \<and> p = d \<or> contains_rect (work m) h)))"
  using assms validate_iff by (intro placed_reachable) auto

lemmas place_eval = desk_simps place_guest_window_def rect_guest_to_host_def guest_to_host_def i32_range_def edges_def
  find_monitor_work_largest_intersection_def keep_larger_def intersection_area_def recover_guest_window_def
  placement_monitor_def find_monitor_largest_intersection_def find_monitor_nearest_def keep_nearer_def
  manhattan_gap_def u64_max_def clamp_rect_to_monitor_work_or_virtual_def clamp_axis_or_def clamp_axis_to_def i32_def
  rect_host_to_guest_def host_to_guest_def

theorem placement_reachable_witness:
  "place_guest_window desk \<lparr>rx = 100, ry = 1500, rw = 300, rh = 200\<rparr> Preserve None =
     Some (\<lparr>rx = 100, ry = 840, rw = 300, rh = 200\<rparr>, landscape) \<and>
   (\<exists>h. rect_guest_to_host desk \<lparr>rx = 100, ry = 840, rw = 300, rh = 200\<rparr> = Some h \<and>
      0 < intersection_area (work landscape) (h\<lparr>rh := 1\<rparr>) \<and> contains_rect (work landscape) h)"
proof -
  have e: "place_guest_window desk \<lparr>rx = 100, ry = 1500, rw = 300, rh = 200\<rparr> Preserve None =
     Some (\<lparr>rx = 100, ry = 840, rw = 300, rh = 200\<rparr>, landscape)"
    by (simp add: place_eval)
  have t: "rect_typed \<lparr>rx = 100, ry = 1500, rw = 300, rh = 200\<rparr>"
    by (simp add: rect_typed_def i32_range_def)
  show ?thesis
    using e placement_reachable [OF desk_typed desk_valid t _ e] by (simp add: landscape_def)
qed

lemma intersection_zero_sub:
  assumes "intersection_area a b = 0" "contains_rect a a'" "rect_ok b" "0 < k" "k \<le> rh b"
  shows "intersection_area a' (b\<lparr>rh := k\<rparr>) = 0"
  using assms
  by (auto simp: intersection_area_def edges_eq contains_rect_iff Let_def rect_ok_def x_end_def y_end_def split: if_splits)

lemma clamp_too_wide:
  assumes "rect_typed h" "rect_ok (work m)" "rect_ok vb" "0 < rw h" "0 < rh h" "rw (work m) < rw h"
    and "rx vb \<le> rx h" "x_end h \<le> x_end vb" "ry (work m) \<le> ry h" "y_end h \<le> y_end (work m)"
  shows "clamp_rect_to_monitor_work_or_virtual h m vb = h"
proof -
  have r: "i32 (rx h) = rx h" "i32 (ry h) = ry h" using assms(1) by (auto simp: rect_typed_def i32_id)
  have e: "rw vb \<le> rw h \<Longrightarrow> rx vb = rx h" "rh (work m) \<le> rh h \<Longrightarrow> ry (work m) = ry h"
    using assms(7-10) by (auto simp: x_end_def y_end_def)
  have "clamp_axis_or (rx h) (rw h) (rx (work m)) (x_end (work m)) (rx vb) (x_end vb) = rx h"
    using assms(6-8) r(1) e(1) by (cases "rw vb \<le> rw h") (simp_all add: clamp_axis_or_def clamp_axis_to_def x_end_def)
  moreover have "clamp_axis_or (ry h) (rh h) (ry (work m)) (y_end (work m)) (ry vb) (y_end vb) = ry h"
    using assms(9,10) r(2) e(2) by (cases "rh (work m) \<le> rh h") (simp_all add: clamp_axis_or_def clamp_axis_to_def y_end_def)
  ultimately show ?thesis
    using assms by (simp add: clamp_rect_to_monitor_work_or_virtual_def edges_eq)
qed

text \<open>C23: Recovery can leave a window in a hole. On every valid layout, take a window that is on the
  virtual desktop but meets no monitor, that is wider than the work area of its nearest monitor, and
  whose rows are rows of that work area. The mode Preserve selects that monitor and returns the
  position unchanged, so the window still meets no monitor, although the header promises that
  recovery never lands in such a hole.\<close>

theorem placement_can_land_in_a_hole:
  assumes "layout_typed l" and "validate_display_layout l = Inr ()" and "rect_typed d" and "rect_guest_to_host l d = Some h"
    and "\<forall>m'\<in>set (monitors l). intersection_area (bounds m') h = 0" and "find_monitor_nearest l h = Some m"
    and "rw (work m) < rw h" and "rx (virtual_bounds l) \<le> rx h" and "x_end h \<le> x_end (virtual_bounds l)"
    and "ry (work m) \<le> ry h" and "y_end h \<le> y_end (work m)"
  shows "place_guest_window l d Preserve None = Some (d, m) \<and> m \<in> set (monitors l)"
proof -
  have h: "rect_ok h" "rw h = rw d" "rh h = rh d" "i32_range (rx h)" "i32_range (ry h)"
    using assms(4) by (auto simp: rect_guest_to_host_Some)
  then have ht: "rect_typed h" using assms(3) by (simp add: rect_typed_def)
  have lok: "layout_ok l" using assms(1,2) validate_iff by blast
  have m: "m \<in> set (monitors l)" using monitor_nearest [OF assms(1) ht assms(6)] by simp
  have vb: "rect_ok (virtual_bounds l)"
    using assms(2) by (auto simp: validate_display_layout_def result_simps edges_eq split: if_splits)
  have "\<forall>m'\<in>set (monitors l). intersection_area (work m') (h\<lparr>rh := 1\<rparr>) = 0"
    using assms(5) layout_ok_monitor(3) [OF lok] h(1) by (auto intro!: intersection_zero_sub simp: rect_ok_def)
  then have none: "find_monitor_work_largest_intersection l (h\<lparr>rh := 1\<rparr>) = None"
    using work_largest_intersection [of l "h\<lparr>rh := 1\<rparr>"] by (cases "find_monitor_work_largest_intersection l (h\<lparr>rh := 1\<rparr>)") auto
  have "find_monitor_largest_intersection l h = None"
    using assms(5) largest_intersection [of l h] by (cases "find_monitor_largest_intersection l h") auto
  then have pm: "placement_monitor l h Preserve None = Some m" by (simp add: placement_monitor_def assms(6))
  have "clamp_rect_to_monitor_work_or_virtual h m (virtual_bounds l) = h"
    using assms(7-11) ht h(1) vb layout_ok_monitor(1) [OF lok m] by (intro clamp_too_wide) (auto simp: rect_ok_def)
  moreover have "rect_host_to_guest l h = Some d"
  proof -
    have vt: "i32_range (rw (virtual_bounds l))" "i32_range (rh (virtual_bounds l))"
      using assms(1) by (auto simp: layout_typed_def rect_typed_def)
    have "y_end (work m) \<le> y_end (bounds m)" using layout_ok_monitor(3) [OF lok m] by (simp add: contains_rect_iff)
    also have "\<dots> \<le> y_end (virtual_bounds l)" using lok m by (auto simp: layout_ok_def exact_union_def)
    finally have "y_end h \<le> y_end (virtual_bounds l)" using assms(11) by simp
    then have "rect_ok d"
      using assms(4,9) h vt by (auto simp: rect_guest_to_host_Some rect_ok_def x_end_def y_end_def i32_range_def)
    then show ?thesis using rect_transforms_inverse [OF ht h(1) assms(3)] assms(4) by blast
  qed
  ultimately show ?thesis
    using none pm m h(1-3) by (simp add: place_guest_window_def assms(4) recover_guest_window_def rect_ok_def)
qed

theorem placement_can_land_in_a_hole_witness:
  "place_guest_window desk \<lparr>rx = 500, ry = 1500, rw = 1200, rh = 100\<rparr> Preserve None =
     Some (\<lparr>rx = 500, ry = 1500, rw = 1200, rh = 100\<rparr>, portrait) \<and>
   list_all (\<lambda>m. intersection_area (bounds m) \<lparr>rx = 500, ry = 1500, rw = 1200, rh = 100\<rparr> = 0) (monitors desk)"
proof -
  let ?d = "\<lparr>rx = 500, ry = 1500, rw = 1200, rh = 100\<rparr>"
  have a: "rect_typed ?d" "rect_guest_to_host desk ?d = Some ?d" "list_all (\<lambda>m. intersection_area (bounds m) ?d = 0) (monitors desk)"
    "find_monitor_nearest desk ?d = Some portrait"
    by (simp_all add: place_eval rect_typed_def)
  then show ?thesis
    using placement_can_land_in_a_hole [OF desk_typed desk_valid a(1,2) _ a(4)]
    by (simp add: list_all_iff x_end_def y_end_def desk_simps)
qed

end
