(* ===== verification/Display_Codec.thy ===== *)
theory Display_Codec
  imports Display_Correct Json_Correct
begin

text \<open>
  The JSON codec of the display layout and of the guest display state
  (src/vkrelay2/common/display/display_layout.cpp). A decoded field is absent, valid, malformed with
  a reason, or of an unsupported schema; the fields of a result that is not valid are not
  represented. \<open>std::sort\<close> by stable id is \<open>sort_key\<close>: the ids of a valid layout are distinct, and for
  those the sorted order is unique.
\<close>

section \<open>Field readers\<close>

datatype jtype = TNull | TBool | TNumber | TString | TArray | TObject

primrec jtype_of :: "jval \<Rightarrow> jtype" where
  "jtype_of JNull = TNull"
| "jtype_of (JBool b) = TBool"
| "jtype_of (JNum d) = TNumber"
| "jtype_of (JStr s) = TString"
| "jtype_of (JArr vs) = TArray"
| "jtype_of (JObj kvs) = TObject"

definition required :: "jval \<Rightarrow> string \<Rightarrow> jtype \<Rightarrow> jval option" where
  "required obj name ty =
     (case json_find obj name of None \<Rightarrow> None | Some v \<Rightarrow> if jtype_of v = ty then Some v else None)"

definition quoted_name :: "string \<Rightarrow> string" where
  "quoted_name name = [CHR 0x27] @ name @ [CHR 0x27]"

text \<open>Every \<open>required\<close> call runs, and each failing one overwrites the reason: the last one stays.\<close>

fun required_reason :: "jval \<Rightarrow> (string \<times> jtype) list \<Rightarrow> string \<Rightarrow> string" where
  "required_reason obj [] reason = reason"
| "required_reason obj ((name, ty) # rs) reason =
     required_reason obj rs
       (if required obj name ty = None
        then ''display layout field '' @ quoted_name name @ '' is missing or has the wrong type'' else reason)"

definition exact_int :: "jval \<Rightarrow> string \<Rightarrow> (int \<Rightarrow> bool) \<Rightarrow> string \<Rightarrow> string + int" where
  "exact_int obj name in_range cap =
     (case json_find obj name of
        Some (JNum d) \<Rightarrow>
          if is_whole d
          then if in_range (llround d) then Inr (llround d)
               else Inl (''display layout field '' @ quoted_name name @ '' exceeds '' @ cap @ '' range'')
          else Inl (''display layout field '' @ quoted_name name @ '' is not an integer'')
      | _ \<Rightarrow> Inl (''display layout field '' @ quoted_name name @ '' is not an integer''))"

definition exact_i32 :: "jval \<Rightarrow> string \<Rightarrow> string + int" where
  "exact_i32 obj name = exact_int obj name i32_range ''signed-32''"

definition exact_u32 :: "jval \<Rightarrow> string \<Rightarrow> string + nat" where
  "exact_u32 obj name =
     rbind (exact_int obj name (\<lambda>n. 0 \<le> n \<and> n \<le> 4294967295) ''unsigned-32'') (\<lambda>n. Inr (nat n))"

definition rect_to_json :: "rect_i32 \<Rightarrow> jval" where
  "rect_to_json r =
     obj_of [(''x'', JInt (rx r)), (''y'', JInt (ry r)), (''width'', JInt (rw r)), (''height'', JInt (rh r))]"

definition decode_rect :: "jval \<Rightarrow> string + rect_i32" where
  "decode_rect v =
     rbind (ensure (jtype_of v = TObject) ''display layout rectangle is not an object'') (\<lambda>_.
     rbind (exact_i32 v ''x'') (\<lambda>x. rbind (exact_i32 v ''y'') (\<lambda>y.
     rbind (exact_i32 v ''width'') (\<lambda>w. rbind (exact_i32 v ''height'') (\<lambda>h.
     Inr \<lparr>rx = x, ry = y, rw = w, rh = h\<rparr>)))))"

primrec rotation_name :: "display_rotation \<Rightarrow> string" where
  "rotation_name Identity = ''identity''"
| "rotation_name Rotate90 = ''rotate90''"
| "rotation_name Rotate180 = ''rotate180''"
| "rotation_name Rotate270 = ''rotate270''"

definition decode_rotation :: "string \<Rightarrow> display_rotation option" where
  "decode_rotation s =
     (if s = ''identity'' then Some Identity else if s = ''rotate90'' then Some Rotate90
      else if s = ''rotate180'' then Some Rotate180 else if s = ''rotate270'' then Some Rotate270 else None)"

primrec output_model_name :: "output_model \<Rightarrow> string" where
  "output_model_name PerMonitorOutputs = ''per_monitor_outputs''"
| "output_model_name SingleCanvas = ''single_canvas''"

definition decode_output_model :: "string \<Rightarrow> output_model option" where
  "decode_output_model s =
     (if s = ''single_canvas'' then Some SingleCanvas
      else if s = ''per_monitor_outputs'' then Some PerMonitorOutputs else None)"

section \<open>Layouts\<close>

definition monitor_to_json :: "monitor_desc \<Rightarrow> jval" where
  "monitor_to_json m =
     obj_of [(''stable_id'', JStr (stable_id m)), (''device_name'', JStr (device_name m)),
       (''bounds'', rect_to_json (bounds m)), (''work'', rect_to_json (work m)),
       (''dpi_x'', JInt (int (dpi_x m))), (''dpi_y'', JInt (int (dpi_y m))),
       (''rotation'', JStr (rotation_name (rotation m))), (''primary'', JBool (primary m))]"

definition display_layout_to_json :: "display_layout \<Rightarrow> jval" where
  "display_layout_to_json l =
     obj_of [(''schema_version'', JInt (i32 (int (schema_version l)))), (''snapshot_id'', JStr (snapshot_id l)),
       (''virtual_bounds'', rect_to_json (virtual_bounds l)), (''primary_monitor_id'', JStr (primary_monitor_id l)),
       (''monitors'', JArr (map monitor_to_json (sort_key stable_id (monitors l))))]"

datatype layout_decode = LayoutAbsent | LayoutValid display_layout | LayoutMalformed string | LayoutUnsupported string

definition str_of :: "jval \<Rightarrow> string" where
  "str_of v = (case v of JStr s \<Rightarrow> s | _ \<Rightarrow> [])"

definition bool_of :: "jval \<Rightarrow> bool" where
  "bool_of v = (case v of JBool b \<Rightarrow> b | _ \<Rightarrow> False)"

definition arr_of :: "jval \<Rightarrow> jval list" where
  "arr_of v = (case v of JArr vs \<Rightarrow> vs | _ \<Rightarrow> [])"

definition decode_monitor :: "jval \<Rightarrow> string + monitor_desc" where
  "decode_monitor item =
     rbind (ensure (jtype_of item = TObject) ''display layout monitor entry is not an object'') (\<lambda>_.
     case (required item ''stable_id'' TString, required item ''device_name'' TString,
           required item ''bounds'' TObject, required item ''work'' TObject,
           required item ''rotation'' TString, required item ''primary'' TBool) of
       (Some i, Some dev, Some b, Some w, Some rot, Some prim) \<Rightarrow>
         rbind (decode_rect b) (\<lambda>b.
         rbind (decode_rect w) (\<lambda>w.
         rbind (exact_u32 item ''dpi_x'') (\<lambda>dx.
         rbind (exact_u32 item ''dpi_y'') (\<lambda>dy.
         case decode_rotation (str_of rot) of
           None \<Rightarrow> Inl ''display layout monitor rotation is invalid''
         | Some r \<Rightarrow>
             Inr \<lparr>stable_id = str_of i, device_name = str_of dev, bounds = b, work = w, dpi_x = dx, dpi_y = dy,
                  rotation = r, primary = bool_of prim\<rparr>))))
     | _ \<Rightarrow> Inl (required_reason item [(''stable_id'', TString), (''device_name'', TString), (''bounds'', TObject),
              (''work'', TObject), (''rotation'', TString), (''primary'', TBool)] []))"

fun decode_monitors :: "jval list \<Rightarrow> string + monitor_desc list" where
  "decode_monitors [] = Inr []"
| "decode_monitors (v # vs) = rbind (decode_monitor v) (\<lambda>m. rbind (decode_monitors vs) (\<lambda>ms. Inr (m # ms)))"

definition decode_layout_body :: "jval \<Rightarrow> nat \<Rightarrow> string + display_layout" where
  "decode_layout_body v schema =
     (case (required v ''snapshot_id'' TString, required v ''virtual_bounds'' TObject,
            required v ''primary_monitor_id'' TString, required v ''monitors'' TArray) of
        (Some snap, Some vb, Some prim, Some mons) \<Rightarrow>
          rbind (decode_rect vb) (\<lambda>vb.
          rbind (ensure (length (arr_of mons) \<le> kMaxDisplayMonitors) ''display layout monitor cap exceeded (maximum: 32)'') (\<lambda>_.
          rbind (decode_monitors (arr_of mons)) (\<lambda>ms.
          let l = \<lparr>schema_version = schema, snapshot_id = str_of snap, virtual_bounds = vb,
                   primary_monitor_id = str_of prim, monitors = ms\<rparr>
          in rbind (validate_display_layout l) (\<lambda>_. Inr l))))
      | _ \<Rightarrow> Inl (required_reason v [(''snapshot_id'', TString), (''virtual_bounds'', TObject),
               (''primary_monitor_id'', TString), (''monitors'', TArray)] []))"

definition decode_display_layout_field :: "jval \<Rightarrow> string \<Rightarrow> layout_decode" where
  "decode_display_layout_field parent field_name =
     (case json_find parent field_name of
        None \<Rightarrow> LayoutAbsent
      | Some v \<Rightarrow>
          if jtype_of v \<noteq> TObject then LayoutMalformed ''display layout field is present but not an object''
          else case json_find v ''schema_version'' of
            Some (JNum d) \<Rightarrow>
              if \<not> is_whole d then LayoutMalformed ''display layout schema_version is missing or not an integer''
              else if llround d \<noteq> int kDisplayLayoutSchemaVersion then LayoutUnsupported ''unsupported display layout schema_version''
              else (case decode_layout_body v (u32_of_int (llround d)) of
                      Inl reason \<Rightarrow> LayoutMalformed reason
                    | Inr l \<Rightarrow> LayoutValid l)
          | _ \<Rightarrow> LayoutMalformed ''display layout schema_version is missing or not an integer'')"

section \<open>Guest display state\<close>

datatype guest_decode = GuestAbsent | GuestValid guest_display_state | GuestMalformed string

definition guest_display_state_to_json :: "guest_display_state \<Rightarrow> jval" where
  "guest_display_state_to_json g =
     obj_of [(''snapshot_id'', JStr (g_snapshot_id g)), (''actual_root_width'', JInt (int (actual_root_width g))),
       (''actual_root_height'', JInt (int (actual_root_height g))),
       (''output_model'', JStr (output_model_name (g_output_model g)))]"

definition decode_guest_body :: "jval \<Rightarrow> string + guest_display_state" where
  "decode_guest_body v =
     rbind (ensure (jtype_of v = TObject) ''guest display state is present but not an object'') (\<lambda>_.
     case (required v ''snapshot_id'' TString, required v ''output_model'' TString) of
       (Some snap, Some model) \<Rightarrow>
         rbind (exact_u32 v ''actual_root_width'') (\<lambda>w.
         rbind (exact_u32 v ''actual_root_height'') (\<lambda>h.
         case decode_output_model (str_of model) of
           None \<Rightarrow> Inl ''guest display output_model is invalid''
         | Some om \<Rightarrow>
             let g = \<lparr>g_snapshot_id = str_of snap, actual_root_width = w, actual_root_height = h, g_output_model = om\<rparr>
             in rbind (validate_guest_display_state g) (\<lambda>_. Inr g)))
     | _ \<Rightarrow> Inl (required_reason v [(''snapshot_id'', TString), (''output_model'', TString)] []))"

definition decode_guest_display_state_field :: "jval \<Rightarrow> string \<Rightarrow> guest_decode" where
  "decode_guest_display_state_field parent field_name =
     (case json_find parent field_name of
        None \<Rightarrow> GuestAbsent
      | Some v \<Rightarrow> (case decode_guest_body v of Inl reason \<Rightarrow> GuestMalformed reason | Inr g \<Rightarrow> GuestValid g))"

section \<open>Round trips\<close>

lemma jtype_obj_of [simp]: "distinct (map fst kvs) \<Longrightarrow> jtype_of (obj_of kvs) = TObject"
  by (simp add: obj_of_eq)

lemma exact_i32_int: "json_find v k = Some (JInt n) \<Longrightarrow> i32_range n \<Longrightarrow> exact_i32 v k = Inr n"
proof -
  assume f: "json_find v k = Some (JInt n)" and r: "i32_range n"
  then have "\<bar>n\<bar> < 2 ^ 53" by (simp add: i32_range_def abs_less_iff)
  then show ?thesis using f r by (simp add: exact_i32_def exact_int_def JInt_whole)
qed

lemma exact_u32_int: "json_find v k = Some (JInt (int n)) \<Longrightarrow> n < 2 ^ 32 \<Longrightarrow> exact_u32 v k = Inr n"
proof -
  assume f: "json_find v k = Some (JInt (int n))" and r: "n < 2 ^ 32"
  then have "\<bar>int n\<bar> < 2 ^ 53" by simp
  then show ?thesis using f r by (simp add: exact_u32_def exact_int_def JInt_whole)
qed

lemma decode_rect_to_json: "rect_typed r \<Longrightarrow> decode_rect (rect_to_json r) = Inr r"
  by (cases r) (simp add: decode_rect_def rect_to_json_def exact_i32_int json_find_obj_of rect_typed_def)

lemma jtype_rect_to_json [simp]: "jtype_of (rect_to_json r) = TObject"
  by (simp add: rect_to_json_def)

lemma decode_rotation_name [simp]: "decode_rotation (rotation_name r) = Some r"
  by (cases r) (simp_all add: decode_rotation_def)

lemma decode_output_model_name [simp]: "decode_output_model (output_model_name m) = Some m"
  by (cases m) (simp_all add: decode_output_model_def)

lemma decode_monitor_to_json: "monitor_typed m \<Longrightarrow> decode_monitor (monitor_to_json m) = Inr m"
  by (cases m) (simp add: decode_monitor_def monitor_to_json_def required_def json_find_obj_of monitor_typed_def
      decode_rect_to_json exact_u32_int str_of_def bool_of_def)

lemma decode_monitors_to_json: "list_all monitor_typed ms \<Longrightarrow> decode_monitors (map monitor_to_json ms) = Inr ms"
  by (induction ms) (simp_all add: decode_monitor_to_json)

definition sorted_layout :: "display_layout \<Rightarrow> display_layout" where
  "sorted_layout l = l\<lparr>monitors := sort_key stable_id (monitors l)\<rparr>"

lemma layout_typed_sorted [simp]: "layout_typed (sorted_layout l) \<longleftrightarrow> layout_typed l"
  by (simp add: layout_typed_def sorted_layout_def list_all_iff)

lemma distinct_map_sort: "distinct (map f (sort_key k xs)) \<longleftrightarrow> distinct (map f xs)"
  by (simp add: distinct_map)

lemma layout_ok_sorted: "layout_ok (sorted_layout l) \<longleftrightarrow> layout_ok l"
  unfolding layout_ok_def sorted_layout_def exact_union_def
  by (auto simp: distinct_map_sort simp flip: length_greater_0_conv)

lemma layout_field_roundtrip:
  assumes "layout_typed l" and "validate_display_layout l = Inr ()"
    and f: "json_find parent f = Some (display_layout_to_json l)"
  shows "decode_display_layout_field parent f = LayoutValid (sorted_layout l)"
proof -
  have ok: "layout_ok l" using assms validate_iff by blast
  then have sv: "schema_version l = 1" and len: "length (monitors l) \<le> kMaxDisplayMonitors"
    by (simp_all add: layout_ok_def kDisplayLayoutSchemaVersion_def)
  have val: "validate_display_layout (sorted_layout l) = Inr ()"
    using ok assms(1) validate_iff [of "sorted_layout l"] by (simp add: layout_ok_sorted)
  have ms: "decode_monitors (map monitor_to_json (sort_key stable_id (monitors l))) = Inr (sort_key stable_id (monitors l))"
    using assms(1) by (intro decode_monitors_to_json) (simp add: layout_typed_def list_all_iff)
  have eq: "\<lparr>schema_version = 1, snapshot_id = snapshot_id l, virtual_bounds = virtual_bounds l,
      primary_monitor_id = primary_monitor_id l, monitors = sort_key stable_id (monitors l)\<rparr> = sorted_layout l"
    using sv by (cases l) (simp add: sorted_layout_def)
  have body: "decode_layout_body (display_layout_to_json l) 1 = Inr (sorted_layout l)"
    using assms(1) len val
    by (simp add: decode_layout_body_def display_layout_to_json_def required_def json_find_obj_of decode_rect_to_json
        layout_typed_def str_of_def arr_of_def ms eq [simplified] Let_def)
  have one: "is_whole (double_of_int 1)" "llround (double_of_int 1) = 1"
    using JInt_whole [of 1] by simp_all
  have fs: "json_find (display_layout_to_json l) ''schema_version'' = Some (JInt 1)"
    "jtype_of (display_layout_to_json l) = TObject"
    by (simp_all add: display_layout_to_json_def json_find_obj_of sv i32_def)
  show ?thesis
    using f fs one body by (simp add: decode_display_layout_field_def kDisplayLayoutSchemaVersion_def u32_of_int_def)
qed

lemma exact_i32_range: "i32_range n \<Longrightarrow> json_exact (JInt n)"
  by (rule json_exact_int) (simp add: i32_range_def abs_less_iff)

lemma exact_u32_range: "n < 2 ^ 32 \<Longrightarrow> json_exact (JInt (int n))"
  by (rule json_exact_int) simp

lemma rect_json_exact: "rect_typed r \<Longrightarrow> json_exact (rect_to_json r)"
  unfolding rect_to_json_def
  by (rule json_exact_obj_of) (simp_all add: rect_typed_def exact_i32_range del: json_exact.simps)

lemma monitor_json_exact: "monitor_typed m \<Longrightarrow> json_exact (monitor_to_json m)"
  unfolding monitor_to_json_def
  by (rule json_exact_obj_of)
    (simp_all add: monitor_typed_def exact_u32_range rect_json_exact del: json_exact.simps(3))

lemma layout_json_exact: "layout_typed l \<Longrightarrow> json_exact (display_layout_to_json l)"
  unfolding display_layout_to_json_def
  by (rule json_exact_obj_of)
    (auto simp: layout_typed_def list_all_iff exact_i32_range rect_json_exact monitor_json_exact simp del: json_exact.simps(3))

lemma guest_state_roundtrip:
  assumes "validate_guest_display_state g = Inr ()"
    and f: "json_find parent f = Some (guest_display_state_to_json g)"
  shows "decode_guest_display_state_field parent f = GuestValid g"
proof -
  have "actual_root_width g < 2 ^ 32" "actual_root_height g < 2 ^ 32"
    using assms(1) by (auto simp: validate_guest_display_state_def result_simps kMaxVirtualDisplayAxis_def)
  then have "decode_guest_body (guest_display_state_to_json g) = Inr g"
    using assms(1)
    by (cases g) (simp add: decode_guest_body_def guest_display_state_to_json_def required_def json_find_obj_of
        exact_u32_int str_of_def)
  then show ?thesis using f by (simp add: decode_guest_display_state_field_def)
qed

text \<open>C24: A valid layout survives its JSON codec: written into any object and printed and parsed as text,
  the field decodes as valid with the monitors in the order of their stable ids.\<close>

theorem display_layout_roundtrip:
  assumes "layout_typed l" and "validate_display_layout l = Inr ()"
  shows "rbind (json_parse (json_dump i (obj_of [(f, display_layout_to_json l)])))
      (\<lambda>v. Inr (decode_display_layout_field v f)) = Inr (LayoutValid (sorted_layout l))"
proof -
  let ?o = "obj_of [(f, display_layout_to_json l)]"
  have "json_exact ?o"
    using assms(1) by (intro json_exact_obj_of) (simp_all add: layout_json_exact)
  moreover have "decode_display_layout_field ?o f = LayoutValid (sorted_layout l)"
    using assms by (intro layout_field_roundtrip) (simp_all add: json_find_obj_of)
  ultimately show ?thesis by (simp add: json_parse_dump)
qed

theorem display_layout_roundtrip_witness:
  "rbind (json_parse (json_dump 0 (obj_of [(''display_layout'', display_layout_to_json desk)])))
      (\<lambda>v. Inr (decode_display_layout_field v ''display_layout'')) = Inr (LayoutValid (sorted_layout desk))"
  by (rule display_layout_roundtrip [OF desk_typed desk_valid])

end
