(* ===== verification/Messages.thy ===== *)
theory Messages
  imports Gpu Display_Codec
begin

text \<open>
  The control-plane message catalog (src/vkrelay2/common/protocol/messages.hpp and messages.cpp): the
  message types and their names, the JSON envelope, and the body of every message with its
  tolerant decoder. Every struct is a record whose fields carry a prefix of the struct's name. The
  interpretations of \<open>codec\<close> at the end show, for each struct, on which values its decoder inverts
  its encoder.
\<close>

section \<open>Tolerant readers\<close>

definition get_string :: "jval \<Rightarrow> string \<Rightarrow> string \<Rightarrow> string" where
  "get_string obj key fallback = (case json_find obj key of Some (JStr s) \<Rightarrow> s | _ \<Rightarrow> fallback)"

definition get_i64 :: "jval \<Rightarrow> string \<Rightarrow> int \<Rightarrow> int" where
  "get_i64 obj key fallback =
     (case json_find obj key of Some (JNum d) \<Rightarrow> if is_whole d then llround d else fallback | _ \<Rightarrow> fallback)"

definition get_int :: "jval \<Rightarrow> string \<Rightarrow> int \<Rightarrow> int" where
  "get_int obj key fallback =
     (case json_find obj key of Some (JNum d) \<Rightarrow> if is_whole d then i32 (llround d) else fallback | _ \<Rightarrow> fallback)"

definition get_bool :: "jval \<Rightarrow> string \<Rightarrow> bool \<Rightarrow> bool" where
  "get_bool obj key fallback = (case json_find obj key of Some (JBool b) \<Rightarrow> b | _ \<Rightarrow> fallback)"

section \<open>Message types and the envelope\<close>

definition kProtocolVersion :: int where "kProtocolVersion = 1"

datatype message_type = Hello | HelloAck | Error | GpuListRequest | GpuListResponse | GpuSelectRequest
  | GpuSelectResponse | WorkerHello | WorkerAck | Heartbeat | LaunchSession | SessionStarted | AppHello | AppAck
  | SidecarHello | SidecarAck | CloseSession | SessionClosed | Unknown

primrec message_type_name :: "message_type \<Rightarrow> string" where
  "message_type_name Hello = ''hello''"
| "message_type_name HelloAck = ''hello_ack''"
| "message_type_name Error = ''error''"
| "message_type_name GpuListRequest = ''gpu_list_request''"
| "message_type_name GpuListResponse = ''gpu_list_response''"
| "message_type_name GpuSelectRequest = ''gpu_select_request''"
| "message_type_name GpuSelectResponse = ''gpu_select_response''"
| "message_type_name WorkerHello = ''worker_hello''"
| "message_type_name WorkerAck = ''worker_ack''"
| "message_type_name Heartbeat = ''heartbeat''"
| "message_type_name LaunchSession = ''launch_session''"
| "message_type_name SessionStarted = ''session_started''"
| "message_type_name AppHello = ''app_hello''"
| "message_type_name AppAck = ''app_ack''"
| "message_type_name SidecarHello = ''sidecar_hello''"
| "message_type_name SidecarAck = ''sidecar_ack''"
| "message_type_name CloseSession = ''close_session''"
| "message_type_name SessionClosed = ''session_closed''"
| "message_type_name Unknown = ''unknown''"

definition message_types :: "message_type list" where
  "message_types = [Hello, HelloAck, Error, GpuListRequest, GpuListResponse, GpuSelectRequest, GpuSelectResponse,
     WorkerHello, WorkerAck, Heartbeat, LaunchSession, SessionStarted, CloseSession, SessionClosed, AppHello, AppAck,
     SidecarHello, SidecarAck]"

text \<open>The chain of string comparisons of the source: the first type with that name, else \<open>Unknown\<close>.\<close>

definition message_type_from_string :: "string \<Rightarrow> message_type" where
  "message_type_from_string name =
     (case List.find (\<lambda>t. message_type_name t = name) message_types of Some t \<Rightarrow> t | None \<Rightarrow> Unknown)"

definition encode_message :: "message_type \<Rightarrow> jval \<Rightarrow> string" where
  "encode_message ty body = json_dump 0 (obj_of [(''type'', JStr (message_type_name ty)), (''body'', body)])"

text \<open>The text of the exception that \<open>try_parse\<close> catches; \<open>std::stod\<close> throws with its own name.\<close>

definition what :: "jexc \<Rightarrow> string" where
  "what e = (case e of ParseError m \<Rightarrow> m | _ \<Rightarrow> ''stod'')"

definition decode_message :: "string \<Rightarrow> string + message_type \<times> jval" where
  "decode_message payload =
     (case json_parse payload of
        Inl e \<Rightarrow> Inl (what e)
      | Inr v \<Rightarrow>
          if jtype_of v \<noteq> TObject then Inl ''message is not a JSON object''
          else case json_find v ''type'' of
                 Some (JStr name) \<Rightarrow>
                   Inr (message_type_from_string name,
                        case json_find v ''body'' of Some b \<Rightarrow> b | None \<Rightarrow> JObj [])
               | _ \<Rightarrow> Inl (''message missing string '' @ quoted_name ''type''))"

section \<open>Handshake\<close>

record client_hello =
  ch_protocol_version :: int
  ch_app_instance_id :: string
  ch_gpu_selector :: string
  ch_display_backend :: string
  ch_graphics_frontend :: string

definition client_hello_to_body :: "client_hello \<Rightarrow> jval" where
  "client_hello_to_body h =
     obj_of [(''protocol_version'', JInt (ch_protocol_version h)), (''app_instance_id'', JStr (ch_app_instance_id h)),
       (''gpu_selector'', JStr (ch_gpu_selector h)), (''display_backend'', JStr (ch_display_backend h)),
       (''graphics_frontend'', JStr (ch_graphics_frontend h))]"

definition client_hello_from_body :: "jval \<Rightarrow> client_hello" where
  "client_hello_from_body b =
     \<lparr>ch_protocol_version = get_int b ''protocol_version'' 0, ch_app_instance_id = get_string b ''app_instance_id'' [],
      ch_gpu_selector = get_string b ''gpu_selector'' ''auto'',
      ch_display_backend = get_string b ''display_backend'' ''auto'',
      ch_graphics_frontend = get_string b ''graphics_frontend'' ''auto''\<rparr>"

record host_display =
  hd_work_w :: int
  hd_work_h :: int
  hd_dpi :: int

record server_hello =
  sh_protocol_version :: int
  sh_supervisor_session_id :: string
  sh_worker_id :: string
  sh_worker_backend :: string
  sh_host_display :: host_display
  sh_display_layout :: layout_decode

definition layout_fields :: "layout_decode \<Rightarrow> (string \<times> jval) list" where
  "layout_fields d = (case d of LayoutValid l \<Rightarrow> [(''display_layout'', display_layout_to_json l)] | _ \<Rightarrow> [])"

definition server_hello_to_body :: "server_hello \<Rightarrow> jval" where
  "server_hello_to_body h =
     obj_of ([(''protocol_version'', JInt (sh_protocol_version h)),
        (''supervisor_session_id'', JStr (sh_supervisor_session_id h)), (''worker_id'', JStr (sh_worker_id h)),
        (''worker_backend'', JStr (sh_worker_backend h))] @
       (if 0 < hd_work_w (sh_host_display h) \<or> 0 < hd_work_h (sh_host_display h) \<or> 0 < hd_dpi (sh_host_display h)
        then [(''host_work_w'', JInt (hd_work_w (sh_host_display h))),
              (''host_work_h'', JInt (hd_work_h (sh_host_display h))), (''host_dpi'', JInt (hd_dpi (sh_host_display h)))]
        else []) @
       layout_fields (sh_display_layout h))"

definition server_hello_from_body :: "jval \<Rightarrow> server_hello" where
  "server_hello_from_body b =
     \<lparr>sh_protocol_version = get_int b ''protocol_version'' 0,
      sh_supervisor_session_id = get_string b ''supervisor_session_id'' [], sh_worker_id = get_string b ''worker_id'' [],
      sh_worker_backend = get_string b ''worker_backend'' ''mock'',
      sh_host_display = \<lparr>hd_work_w = get_int b ''host_work_w'' 0, hd_work_h = get_int b ''host_work_h'' 0,
        hd_dpi = get_int b ''host_dpi'' 0\<rparr>,
      sh_display_layout = decode_display_layout_field b ''display_layout''\<rparr>"

record error_msg =
  em_code :: string
  em_message :: string

definition error_msg_to_body :: "error_msg \<Rightarrow> jval" where
  "error_msg_to_body e = obj_of [(''code'', JStr (em_code e)), (''message'', JStr (em_message e))]"

definition error_msg_from_body :: "jval \<Rightarrow> error_msg" where
  "error_msg_from_body b = \<lparr>em_code = get_string b ''code'' [], em_message = get_string b ''message'' []\<rparr>"

section \<open>Adapters\<close>

definition gpu_type_from_string :: "string \<Rightarrow> gpu_device_type" where
  "gpu_type_from_string s =
     (if s = ''discrete'' then Discrete else if s = ''integrated'' then Integrated
      else if s = ''cpu'' then Cpu else if s = ''virtual'' then Virtual else Other)"

definition gpu_device_to_json :: "gpu_device \<Rightarrow> jval" where
  "gpu_device_to_json d =
     obj_of [(''index'', JInt (gd_index d)), (''name'', JStr (gd_name d)), (''vendor_id'', JInt (int (gd_vendor_id d))),
       (''device_id'', JInt (int (gd_device_id d))), (''type'', JStr (gpu_type_to_string (gd_type d))),
       (''api_version'', JStr (gd_api_version d)), (''driver_name'', JStr (gd_driver_name d)), (''luid'', JStr (gd_luid d)),
       (''usable'', JBool (gd_usable d)), (''reason'', JStr (gd_reason d)), (''roles'', JArr (map JStr (gd_roles d))),
       (''default_high_performance'', JBool (gd_default_high_performance d)),
       (''default_integrated'', JBool (gd_default_integrated d))]"

definition gpu_device_from_json :: "jval \<Rightarrow> gpu_device" where
  "gpu_device_from_json v =
     \<lparr>gd_index = get_int v ''index'' 0, gd_name = get_string v ''name'' [],
      gd_vendor_id = u32_of_int (get_i64 v ''vendor_id'' 0), gd_device_id = u32_of_int (get_i64 v ''device_id'' 0),
      gd_type = gpu_type_from_string (get_string v ''type'' ''other''), gd_api_version = get_string v ''api_version'' [],
      gd_driver_name = get_string v ''driver_name'' [], gd_luid = get_string v ''luid'' [],
      gd_usable = get_bool v ''usable'' False, gd_reason = get_string v ''reason'' [],
      gd_roles = (case json_find v ''roles'' of
                    Some (JArr rs) \<Rightarrow> List.map_filter (\<lambda>r. case r of JStr s \<Rightarrow> Some s | _ \<Rightarrow> None) rs
                  | _ \<Rightarrow> []),
      gd_default_high_performance = get_bool v ''default_high_performance'' False,
      gd_default_integrated = get_bool v ''default_integrated'' False\<rparr>"

definition gpu_list_to_body :: "gpu_device list \<Rightarrow> bool \<Rightarrow> jval" where
  "gpu_list_to_body ds is_real = obj_of [(''devices'', JArr (map gpu_device_to_json ds)), (''real'', JBool is_real)]"

definition gpu_list_marked_mock :: "jval \<Rightarrow> bool" where
  "gpu_list_marked_mock b = (case json_find b ''real'' of Some (JBool r) \<Rightarrow> \<not> r | _ \<Rightarrow> False)"

definition gpu_list_from_body :: "jval \<Rightarrow> gpu_device list" where
  "gpu_list_from_body b = (case json_find b ''devices'' of Some (JArr vs) \<Rightarrow> map gpu_device_from_json vs | _ \<Rightarrow> [])"

definition gpu_select_request_to_body :: "string \<Rightarrow> jval" where
  "gpu_select_request_to_body selector = obj_of [(''selector'', JStr selector)]"

definition gpu_select_request_from_body :: "jval \<Rightarrow> string" where
  "gpu_select_request_from_body b = get_string b ''selector'' ''auto''"

record gpu_select_response =
  gsr_ok :: bool
  gsr_device :: gpu_device
  gsr_reason :: string

definition gpu_select_response_to_body :: "gpu_select_response \<Rightarrow> jval" where
  "gpu_select_response_to_body r =
     obj_of [(''ok'', JBool (gsr_ok r)), (''reason'', JStr (gsr_reason r)), (''device'', gpu_device_to_json (gsr_device r))]"

definition gpu_select_response_from_body :: "jval \<Rightarrow> gpu_select_response" where
  "gpu_select_response_from_body b =
     \<lparr>gsr_ok = get_bool b ''ok'' False,
      gsr_device = (case json_find b ''device'' of Some d \<Rightarrow> gpu_device_from_json d | None \<Rightarrow> default_gpu_device),
      gsr_reason = get_string b ''reason'' []\<rparr>"

section \<open>Worker registration\<close>

record worker_hello =
  wh_worker_id :: string
  wh_token :: string
  wh_data_plane_port :: int
  wh_sidecar_plane_port :: int

definition worker_hello_to_body :: "worker_hello \<Rightarrow> jval" where
  "worker_hello_to_body h =
     obj_of [(''worker_id'', JStr (wh_worker_id h)), (''token'', JStr (wh_token h)),
       (''data_plane_port'', JInt (wh_data_plane_port h)), (''sidecar_plane_port'', JInt (wh_sidecar_plane_port h))]"

definition worker_hello_from_body :: "jval \<Rightarrow> worker_hello" where
  "worker_hello_from_body b =
     \<lparr>wh_worker_id = get_string b ''worker_id'' [], wh_token = get_string b ''token'' [],
      wh_data_plane_port = get_int b ''data_plane_port'' 0, wh_sidecar_plane_port = get_int b ''sidecar_plane_port'' 0\<rparr>"

record worker_ack =
  wa_ok :: bool
  wa_reason :: string
  wa_display_layout :: layout_decode

definition worker_ack_to_body :: "worker_ack \<Rightarrow> jval" where
  "worker_ack_to_body a =
     obj_of ([(''ok'', JBool (wa_ok a)), (''reason'', JStr (wa_reason a))] @ layout_fields (wa_display_layout a))"

definition worker_ack_from_body :: "jval \<Rightarrow> worker_ack" where
  "worker_ack_from_body b =
     \<lparr>wa_ok = get_bool b ''ok'' False, wa_reason = get_string b ''reason'' [],
      wa_display_layout = decode_display_layout_field b ''display_layout''\<rparr>"

record heartbeat =
  hb_worker_id :: string
  hb_seq :: int

definition heartbeat_to_body :: "heartbeat \<Rightarrow> jval" where
  "heartbeat_to_body h = obj_of [(''worker_id'', JStr (hb_worker_id h)), (''seq'', JInt (hb_seq h))]"

definition heartbeat_from_body :: "jval \<Rightarrow> heartbeat" where
  "heartbeat_from_body b = \<lparr>hb_worker_id = get_string b ''worker_id'' [], hb_seq = get_i64 b ''seq'' 0\<rparr>"

section \<open>Sessions\<close>

record launch_session =
  ls_app_instance_id :: string
  ls_gpu_selector :: string
  ls_display_backend :: string
  ls_graphics_frontend :: string
  ls_profile_enabled :: bool
  ls_op_trace_enabled :: bool
  ls_input_trace_enabled :: bool
  ls_display_snapshot_id :: string

definition launch_session_to_body :: "launch_session \<Rightarrow> jval" where
  "launch_session_to_body s =
     obj_of ([(''app_instance_id'', JStr (ls_app_instance_id s)), (''gpu_selector'', JStr (ls_gpu_selector s)),
        (''display_backend'', JStr (ls_display_backend s)), (''graphics_frontend'', JStr (ls_graphics_frontend s)),
        (''profile_enabled'', JBool (ls_profile_enabled s)), (''op_trace_enabled'', JBool (ls_op_trace_enabled s)),
        (''input_trace_enabled'', JBool (ls_input_trace_enabled s))] @
       (if ls_display_snapshot_id s \<noteq> [] then [(''display_snapshot_id'', JStr (ls_display_snapshot_id s))] else []))"

definition launch_session_from_body :: "jval \<Rightarrow> launch_session" where
  "launch_session_from_body b =
     \<lparr>ls_app_instance_id = get_string b ''app_instance_id'' [], ls_gpu_selector = get_string b ''gpu_selector'' ''auto'',
      ls_display_backend = get_string b ''display_backend'' ''auto'',
      ls_graphics_frontend = get_string b ''graphics_frontend'' ''auto'',
      ls_profile_enabled = get_bool b ''profile_enabled'' False, ls_op_trace_enabled = get_bool b ''op_trace_enabled'' False,
      ls_input_trace_enabled = get_bool b ''input_trace_enabled'' False,
      ls_display_snapshot_id = get_string b ''display_snapshot_id'' []\<rparr>"

record session_started =
  ss_worker_id :: string
  ss_data_plane_host :: string
  ss_data_plane_port :: int
  ss_app_token :: string
  ss_sidecar_plane_host :: string
  ss_sidecar_plane_port :: int
  ss_sidecar_token :: string
  ss_op_trace_path :: string
  ss_display_snapshot_id :: string

definition session_started_to_body :: "session_started \<Rightarrow> jval" where
  "session_started_to_body s =
     obj_of ([(''worker_id'', JStr (ss_worker_id s)), (''data_plane_host'', JStr (ss_data_plane_host s)),
        (''data_plane_port'', JInt (ss_data_plane_port s)), (''app_token'', JStr (ss_app_token s)),
        (''sidecar_plane_host'', JStr (ss_sidecar_plane_host s)), (''sidecar_plane_port'', JInt (ss_sidecar_plane_port s)),
        (''sidecar_token'', JStr (ss_sidecar_token s)), (''op_trace_path'', JStr (ss_op_trace_path s))] @
       (if ss_display_snapshot_id s \<noteq> [] then [(''display_snapshot_id'', JStr (ss_display_snapshot_id s))] else []))"

definition session_started_from_body :: "jval \<Rightarrow> session_started" where
  "session_started_from_body b =
     \<lparr>ss_worker_id = get_string b ''worker_id'' [], ss_data_plane_host = get_string b ''data_plane_host'' [],
      ss_data_plane_port = get_int b ''data_plane_port'' 0, ss_app_token = get_string b ''app_token'' [],
      ss_sidecar_plane_host = get_string b ''sidecar_plane_host'' [],
      ss_sidecar_plane_port = get_int b ''sidecar_plane_port'' 0, ss_sidecar_token = get_string b ''sidecar_token'' [],
      ss_op_trace_path = get_string b ''op_trace_path'' [], ss_display_snapshot_id = get_string b ''display_snapshot_id'' []\<rparr>"

record close_session =
  cs_worker_id :: string
  cs_app_token :: string

definition close_session_to_body :: "close_session \<Rightarrow> jval" where
  "close_session_to_body s = obj_of [(''worker_id'', JStr (cs_worker_id s)), (''app_token'', JStr (cs_app_token s))]"

definition close_session_from_body :: "jval \<Rightarrow> close_session" where
  "close_session_from_body b = \<lparr>cs_worker_id = get_string b ''worker_id'' [], cs_app_token = get_string b ''app_token'' []\<rparr>"

record session_closed =
  sc_worker_id :: string
  sc_accepted :: bool
  sc_reason :: string

definition session_closed_to_body :: "session_closed \<Rightarrow> jval" where
  "session_closed_to_body s =
     obj_of [(''worker_id'', JStr (sc_worker_id s)), (''accepted'', JBool (sc_accepted s)), (''reason'', JStr (sc_reason s))]"

definition session_closed_from_body :: "jval \<Rightarrow> session_closed" where
  "session_closed_from_body b =
     \<lparr>sc_worker_id = get_string b ''worker_id'' [], sc_accepted = get_bool b ''accepted'' False,
      sc_reason = get_string b ''reason'' []\<rparr>"

section \<open>Data and sidecar planes\<close>

definition app_hello_to_body :: "string \<Rightarrow> jval" where
  "app_hello_to_body app_token = obj_of [(''app_token'', JStr app_token)]"

definition app_hello_from_body :: "jval \<Rightarrow> string" where
  "app_hello_from_body b = get_string b ''app_token'' []"

record app_ack =
  aa_ok :: bool
  aa_reason :: string

definition app_ack_to_body :: "app_ack \<Rightarrow> jval" where
  "app_ack_to_body a = obj_of [(''ok'', JBool (aa_ok a)), (''reason'', JStr (aa_reason a))]"

definition app_ack_from_body :: "jval \<Rightarrow> app_ack" where
  "app_ack_from_body b = \<lparr>aa_ok = get_bool b ''ok'' False, aa_reason = get_string b ''reason'' []\<rparr>"

record sidecar_hello =
  sch_protocol_version :: int
  sch_sidecar_token :: string

definition sidecar_hello_to_body :: "sidecar_hello \<Rightarrow> jval" where
  "sidecar_hello_to_body h =
     obj_of [(''protocol_version'', JInt (sch_protocol_version h)), (''sidecar_token'', JStr (sch_sidecar_token h))]"

definition sidecar_hello_from_body :: "jval \<Rightarrow> sidecar_hello" where
  "sidecar_hello_from_body b =
     \<lparr>sch_protocol_version = get_int b ''protocol_version'' 0, sch_sidecar_token = get_string b ''sidecar_token'' []\<rparr>"

record sidecar_ack =
  sa_ok :: bool
  sa_reason :: string
  sa_display_layout :: layout_decode

definition sidecar_ack_to_body :: "sidecar_ack \<Rightarrow> jval" where
  "sidecar_ack_to_body a =
     obj_of ([(''ok'', JBool (sa_ok a)), (''reason'', JStr (sa_reason a))] @
       (case sa_display_layout a of
          LayoutValid l \<Rightarrow> if validate_display_layout l = Inr () then layout_fields (LayoutValid l) else []
        | _ \<Rightarrow> []))"

definition sidecar_ack_from_body :: "jval \<Rightarrow> sidecar_ack" where
  "sidecar_ack_from_body b =
     \<lparr>sa_ok = get_bool b ''ok'' False, sa_reason = get_string b ''reason'' [],
      sa_display_layout = decode_display_layout_field b ''display_layout''\<rparr>"

end
