(* ===== verification/Messages_Correct.thy ===== *)
theory Messages_Correct
  imports Messages
begin

text \<open>
  Round trips of the control-plane messages. Each struct's decoder inverts its encoder on the values
  its fields can carry exactly: 32-bit integers, a heartbeat sequence below \<open>10 ^ 15\<close>, a host display
  that is unknown or positive somewhere, a layout that is absent or valid and in wire order. Every
  encoded body is printable exactly, so the envelope and the text layer stack on top.
\<close>

section \<open>Readers\<close>

lemma get_string_Some: "json_find b k = Some (JStr s) \<Longrightarrow> get_string b k d = s"
  by (simp add: get_string_def)

lemma get_string_None: "json_find b k = None \<Longrightarrow> get_string b k d = d"
  by (simp add: get_string_def)

lemma get_bool_Some: "json_find b k = Some (JBool v) \<Longrightarrow> get_bool b k d = v"
  by (simp add: get_bool_def)

lemma get_i64_Some: "json_find b k = Some (JInt n) \<Longrightarrow> \<bar>n\<bar> < 10 ^ 15 \<Longrightarrow> get_i64 b k d = n"
  using JInt_whole [of n] by (simp add: get_i64_def)

lemma get_int_Some: "json_find b k = Some (JInt n) \<Longrightarrow> i32_range n \<Longrightarrow> get_int b k d = n"
proof -
  assume f: "json_find b k = Some (JInt n)" and r: "i32_range n"
  then have "\<bar>n\<bar> < 2 ^ 53" by (simp add: i32_range_def abs_less_iff)
  then show ?thesis using f r by (simp add: get_int_def JInt_whole i32_id)
qed

lemma get_int_None: "json_find b k = None \<Longrightarrow> get_int b k d = d"
  by (simp add: get_int_def)

lemmas readers = get_string_Some get_string_None get_bool_Some get_i64_Some get_int_Some get_int_None json_find_obj_of

definition layout_field_ok :: "layout_decode \<Rightarrow> bool" where
  "layout_field_ok d =
     (case d of
        LayoutAbsent \<Rightarrow> True
      | LayoutValid l \<Rightarrow> layout_typed l \<and> validate_display_layout l = Inr () \<and> sorted (map stable_id (monitors l))
      | _ \<Rightarrow> False)"

lemma sorted_layout_id: "sorted (map stable_id (monitors l)) \<Longrightarrow> sorted_layout l = l"
  by (simp add: sorted_layout_def sort_key_id_if_sorted)

lemma layout_field_decodes:
  assumes "layout_field_ok d" and "json_find b ''display_layout'' = map_of (layout_fields d) ''display_layout''"
  shows "decode_display_layout_field b ''display_layout'' = d"
proof (cases d)
  case LayoutAbsent
  then show ?thesis using assms(2) by (simp add: layout_fields_def decode_display_layout_field_def)
next
  case (LayoutValid l)
  then have "json_find b ''display_layout'' = Some (display_layout_to_json l)"
    using assms(2) by (simp add: layout_fields_def)
  then show ?thesis
    using assms(1) LayoutValid layout_field_roundtrip [of l b "''display_layout''"]
    by (simp add: layout_field_ok_def sorted_layout_id)
qed (use assms(1) in \<open>simp_all add: layout_field_ok_def\<close>)

lemma map_of_layout_fields: "k \<noteq> ''display_layout'' \<Longrightarrow> map_of (layout_fields d) k = None"
  by (auto simp: layout_fields_def split: layout_decode.splits)

section \<open>Bodies\<close>

definition client_hello_ok :: "client_hello \<Rightarrow> bool" where
  "client_hello_ok h \<longleftrightarrow> i32_range (ch_protocol_version h)"

definition host_display_ok :: "host_display \<Rightarrow> bool" where
  "host_display_ok d \<longleftrightarrow> i32_range (hd_work_w d) \<and> i32_range (hd_work_h d) \<and> i32_range (hd_dpi d) \<and>
     (0 < hd_work_w d \<or> 0 < hd_work_h d \<or> 0 < hd_dpi d \<or> d = \<lparr>hd_work_w = 0, hd_work_h = 0, hd_dpi = 0\<rparr>)"

definition server_hello_ok :: "server_hello \<Rightarrow> bool" where
  "server_hello_ok h \<longleftrightarrow> i32_range (sh_protocol_version h) \<and> host_display_ok (sh_host_display h) \<and>
     layout_field_ok (sh_display_layout h)"

definition gpu_device_ok :: "gpu_device \<Rightarrow> bool" where
  "gpu_device_ok d \<longleftrightarrow> i32_range (gd_index d) \<and> gd_vendor_id d < 2 ^ 32 \<and> gd_device_id d < 2 ^ 32"

definition worker_hello_ok :: "worker_hello \<Rightarrow> bool" where
  "worker_hello_ok h \<longleftrightarrow> i32_range (wh_data_plane_port h) \<and> i32_range (wh_sidecar_plane_port h)"

definition heartbeat_ok :: "heartbeat \<Rightarrow> bool" where
  "heartbeat_ok h \<longleftrightarrow> \<bar>hb_seq h\<bar> < 10 ^ 15"

definition session_started_ok :: "session_started \<Rightarrow> bool" where
  "session_started_ok s \<longleftrightarrow> i32_range (ss_data_plane_port s) \<and> i32_range (ss_sidecar_plane_port s)"

lemma client_hello_rt: "client_hello_ok h \<Longrightarrow> client_hello_from_body (client_hello_to_body h) = h"
  by (cases h) (simp add: client_hello_from_body_def client_hello_to_body_def client_hello_ok_def readers)

lemma server_hello_find:
  "json_find (server_hello_to_body h) k =
     (map_of [(''protocol_version'', JInt (sh_protocol_version h)),
        (''supervisor_session_id'', JStr (sh_supervisor_session_id h)), (''worker_id'', JStr (sh_worker_id h)),
        (''worker_backend'', JStr (sh_worker_backend h))] ++
      map_of (if 0 < hd_work_w (sh_host_display h) \<or> 0 < hd_work_h (sh_host_display h) \<or> 0 < hd_dpi (sh_host_display h)
        then [(''host_work_w'', JInt (hd_work_w (sh_host_display h))),
              (''host_work_h'', JInt (hd_work_h (sh_host_display h))), (''host_dpi'', JInt (hd_dpi (sh_host_display h)))]
        else []) ++ map_of (layout_fields (sh_display_layout h))) k"
  unfolding server_hello_to_body_def
  by (subst json_find_obj_of)
    (auto simp: layout_fields_def map_add_def split: layout_decode.splits option.splits)

lemma server_hello_rt: "server_hello_ok h \<Longrightarrow> server_hello_from_body (server_hello_to_body h) = h"
proof -
  assume ok: "server_hello_ok h"
  let ?b = "server_hello_to_body h"
  have "decode_display_layout_field ?b ''display_layout'' = sh_display_layout h"
    using ok by (intro layout_field_decodes) (auto simp: server_hello_ok_def server_hello_find map_add_def split: option.splits)
  moreover have "get_int ?b ''host_work_w'' 0 = hd_work_w (sh_host_display h)"
    "get_int ?b ''host_work_h'' 0 = hd_work_h (sh_host_display h)" "get_int ?b ''host_dpi'' 0 = hd_dpi (sh_host_display h)"
    using ok
    by (cases "0 < hd_work_w (sh_host_display h) \<or> 0 < hd_work_h (sh_host_display h) \<or> 0 < hd_dpi (sh_host_display h)";
        simp add: server_hello_ok_def host_display_ok_def server_hello_find map_of_layout_fields map_add_def readers)+
  moreover have "get_int ?b ''protocol_version'' 0 = sh_protocol_version h"
    "get_string ?b ''supervisor_session_id'' [] = sh_supervisor_session_id h" "get_string ?b ''worker_id'' [] = sh_worker_id h"
    "get_string ?b ''worker_backend'' ''mock'' = sh_worker_backend h"
    using ok by (simp_all add: server_hello_ok_def server_hello_find map_of_layout_fields map_add_def readers)
  ultimately show ?thesis by (cases h; cases "sh_host_display h") (simp add: server_hello_from_body_def)
qed

lemma error_msg_rt: "error_msg_from_body (error_msg_to_body e) = e"
  by (cases e) (simp add: error_msg_from_body_def error_msg_to_body_def readers)

lemma gpu_type_rt [simp]: "gpu_type_from_string (gpu_type_to_string t) = t"
  by (cases t) (simp_all add: gpu_type_from_string_def)

lemma map_filter_JStr: "List.map_filter (\<lambda>r. case r of JStr s \<Rightarrow> Some s | _ \<Rightarrow> None) (map JStr ss) = ss"
  by (induction ss) (simp_all add: List.map_filter_simps)

lemma gpu_device_rt: "gpu_device_ok d \<Longrightarrow> gpu_device_from_json (gpu_device_to_json d) = d"
  by (cases d) (simp add: gpu_device_from_json_def gpu_device_to_json_def gpu_device_ok_def readers map_filter_JStr
      u32_of_int_of_nat)

lemma gpu_list_rt: "list_all gpu_device_ok ds \<Longrightarrow> gpu_list_from_body (gpu_list_to_body ds r) = ds"
  by (induction ds) (simp_all add: gpu_list_from_body_def gpu_list_to_body_def json_find_obj_of gpu_device_rt)

lemma gpu_list_marked: "gpu_list_marked_mock (gpu_list_to_body ds r) \<longleftrightarrow> \<not> r"
  by (simp add: gpu_list_marked_mock_def gpu_list_to_body_def json_find_obj_of)

lemma gpu_select_request_rt: "gpu_select_request_from_body (gpu_select_request_to_body s) = s"
  by (simp add: gpu_select_request_from_body_def gpu_select_request_to_body_def readers)

lemma gpu_select_response_rt:
  "gpu_device_ok (gsr_device r) \<Longrightarrow> gpu_select_response_from_body (gpu_select_response_to_body r) = r"
  by (cases r) (simp add: gpu_select_response_from_body_def gpu_select_response_to_body_def readers gpu_device_rt)

lemma worker_hello_rt: "worker_hello_ok h \<Longrightarrow> worker_hello_from_body (worker_hello_to_body h) = h"
  by (cases h) (simp add: worker_hello_from_body_def worker_hello_to_body_def worker_hello_ok_def readers)

lemma ack_find:
  "json_find (obj_of ((''ok'', JBool ok) # (''reason'', JStr r) # layout_fields d)) k =
     (map_of [(''ok'', JBool ok), (''reason'', JStr r)] ++ map_of (layout_fields d)) k"
  by (subst json_find_obj_of) (auto simp: layout_fields_def map_add_def split: layout_decode.splits option.splits)

lemma worker_ack_rt: "layout_field_ok (wa_display_layout a) \<Longrightarrow> worker_ack_from_body (worker_ack_to_body a) = a"
proof -
  assume ok: "layout_field_ok (wa_display_layout a)"
  have "decode_display_layout_field (worker_ack_to_body a) ''display_layout'' = wa_display_layout a"
    using ok by (intro layout_field_decodes) (auto simp: worker_ack_to_body_def ack_find map_add_def split: option.splits)
  then show ?thesis
    by (cases a) (simp add: worker_ack_from_body_def worker_ack_to_body_def ack_find map_add_def map_of_layout_fields readers)
qed

lemma sidecar_ack_rt: "layout_field_ok (sa_display_layout a) \<Longrightarrow> sidecar_ack_from_body (sidecar_ack_to_body a) = a"
proof -
  assume ok: "layout_field_ok (sa_display_layout a)"
  then have body: "sidecar_ack_to_body a =
      obj_of ([(''ok'', JBool (sa_ok a)), (''reason'', JStr (sa_reason a))] @ layout_fields (sa_display_layout a))"
    by (auto simp: sidecar_ack_to_body_def layout_field_ok_def layout_fields_def split: layout_decode.splits)
  have "decode_display_layout_field (sidecar_ack_to_body a) ''display_layout'' = sa_display_layout a"
    using ok by (intro layout_field_decodes) (auto simp: body ack_find map_add_def split: option.splits)
  moreover have "get_bool (sidecar_ack_to_body a) ''ok'' False = sa_ok a"
    "get_string (sidecar_ack_to_body a) ''reason'' [] = sa_reason a"
    by (simp_all add: body ack_find map_add_def map_of_layout_fields readers)
  ultimately show ?thesis by (cases a) (simp add: sidecar_ack_from_body_def)
qed

lemma heartbeat_rt: "heartbeat_ok h \<Longrightarrow> heartbeat_from_body (heartbeat_to_body h) = h"
  by (cases h) (simp add: heartbeat_from_body_def heartbeat_to_body_def heartbeat_ok_def readers)

lemma launch_session_rt: "launch_session_from_body (launch_session_to_body s) = s"
  by (cases s; cases "ls_display_snapshot_id s = []")
    (simp_all add: launch_session_from_body_def launch_session_to_body_def readers)

lemma session_started_rt: "session_started_ok s \<Longrightarrow> session_started_from_body (session_started_to_body s) = s"
  by (cases s; cases "ss_display_snapshot_id s = []")
    (simp_all add: session_started_from_body_def session_started_to_body_def session_started_ok_def readers)

lemma close_session_rt: "close_session_from_body (close_session_to_body s) = s"
  by (cases s) (simp add: close_session_from_body_def close_session_to_body_def readers)

lemma session_closed_rt: "session_closed_from_body (session_closed_to_body s) = s"
  by (cases s) (simp add: session_closed_from_body_def session_closed_to_body_def readers)

lemma app_hello_rt: "app_hello_from_body (app_hello_to_body s) = s"
  by (simp add: app_hello_from_body_def app_hello_to_body_def readers)

lemma app_ack_rt: "app_ack_from_body (app_ack_to_body a) = a"
  by (cases a) (simp add: app_ack_from_body_def app_ack_to_body_def readers)

lemma sidecar_hello_rt: "i32_range (sch_protocol_version h) \<Longrightarrow> sidecar_hello_from_body (sidecar_hello_to_body h) = h"
  by (cases h) (simp add: sidecar_hello_from_body_def sidecar_hello_to_body_def readers)

section \<open>The envelope\<close>

lemma message_type_rt: "message_type_from_string (message_type_name t) = t"
  by (cases t) (simp_all add: message_type_from_string_def message_types_def)

lemma decode_encode_message:
  assumes "json_exact b"
  shows "decode_message (encode_message t b) = Inr (t, b)"
proof -
  let ?o = "obj_of [(''type'', JStr (message_type_name t)), (''body'', b)]"
  have "json_exact ?o" using assms by (intro json_exact_obj_of) auto
  then have "json_parse (encode_message t b) = Inr ?o"
    by (simp add: encode_message_def json_parse_dump)
  then show ?thesis
    by (simp add: decode_message_def json_find_obj_of message_type_rt)
qed

interpretation envelope: codec "\<lambda>(t, b). encode_message t b" decode_message "\<lambda>(t, b). json_exact b"
  by unfold_locales (auto simp: decode_encode_message)

lemma exact_simple [simp]: "json_exact (JStr s)" "json_exact (JBool c)"
  by simp_all

lemma exact_body:
  "distinct (map fst kvs) \<Longrightarrow> list_all (\<lambda>kv. json_exact (snd kv)) kvs \<Longrightarrow> json_exact (obj_of kvs)"
  by (rule json_exact_obj_of) (simp_all add: list_all_iff)

lemma client_hello_exact: "client_hello_ok h \<Longrightarrow> json_exact (client_hello_to_body h)"
  unfolding client_hello_to_body_def client_hello_ok_def
  by (rule exact_body) (simp_all add: exact_i32_range del: json_exact.simps(3))

lemma error_msg_exact: "json_exact (error_msg_to_body e)"
  unfolding error_msg_to_body_def by (rule exact_body) simp_all

lemma gpu_device_exact: "gpu_device_ok d \<Longrightarrow> json_exact (gpu_device_to_json d)"
  unfolding gpu_device_to_json_def gpu_device_ok_def
  by (rule exact_body) (simp_all add: exact_i32_range exact_u32_range del: json_exact.simps(3))

lemma server_hello_exact:
  assumes "server_hello_ok h"
  shows "json_exact (server_hello_to_body h)"
  unfolding server_hello_to_body_def
  using assms
  by (intro exact_body; cases "sh_display_layout h")
    (auto simp: server_hello_ok_def host_display_ok_def layout_fields_def exact_i32_range layout_field_ok_def
      layout_json_exact simp del: json_exact.simps(3))

lemma session_started_exact: "session_started_ok s \<Longrightarrow> json_exact (session_started_to_body s)"
  unfolding session_started_to_body_def session_started_ok_def
  by (rule exact_body) (simp_all add: exact_i32_range del: json_exact.simps(3))

lemma launch_session_exact: "json_exact (launch_session_to_body s)"
  unfolding launch_session_to_body_def by (rule exact_body) simp_all

lemma worker_hello_exact: "worker_hello_ok h \<Longrightarrow> json_exact (worker_hello_to_body h)"
  unfolding worker_hello_to_body_def worker_hello_ok_def
  by (rule exact_body) (simp_all add: exact_i32_range del: json_exact.simps(3))

section \<open>Codecs of the structs\<close>

interpretation client_hello: codec client_hello_to_body "\<lambda>b. Inr (client_hello_from_body b)" client_hello_ok
  by unfold_locales (simp add: client_hello_rt)

interpretation server_hello: codec server_hello_to_body "\<lambda>b. Inr (server_hello_from_body b)" server_hello_ok
  by unfold_locales (simp add: server_hello_rt)

interpretation gpu_device: codec gpu_device_to_json "\<lambda>v. Inr (gpu_device_from_json v)" gpu_device_ok
  by unfold_locales (simp add: gpu_device_rt)

interpretation session_started: codec session_started_to_body "\<lambda>b. Inr (session_started_from_body b)" session_started_ok
  by unfold_locales (simp add: session_started_rt)

interpretation hello_text: codec_stack "json_dump i" json_parse json_exact
    server_hello_to_body "\<lambda>b. Inr (server_hello_from_body b)" server_hello_ok for i
  by unfold_locales (rule server_hello_exact)

text \<open>Every message sent in the envelope is decoded as the same type with the same body, for each of
  the nineteen types and every body that prints exactly; unknown names are the only ones that
  decode as \<open>Unknown\<close>.\<close>

theorem message_envelope_roundtrip:
  "(json_exact body \<longrightarrow> decode_message (encode_message t body) = Inr (t, body)) \<and>
   (message_type_from_string name = Unknown \<longleftrightarrow> name \<notin> message_type_name ` set message_types)"
proof (intro conjI impI)
  show "json_exact body \<Longrightarrow> decode_message (encode_message t body) = Inr (t, body)"
    by (rule decode_encode_message)
  have "t \<in> set message_types \<Longrightarrow> t \<noteq> Unknown" for t by (auto simp: message_types_def)
  then show "message_type_from_string name = Unknown \<longleftrightarrow> name \<notin> message_type_name ` set message_types"
    by (auto simp: message_type_from_string_def find_None split: option.splits dest: find_first)
qed

theorem message_envelope_roundtrip_witness:
  "decode_message (encode_message Hello (JObj [(''protocol_version'', JNum (Finite 1))])) =
     Inr (Hello, JObj [(''protocol_version'', JNum (Finite 1))])"
  using message_envelope_roundtrip [of "JObj [(''protocol_version'', JNum (Finite 1))]" Hello] by simp

text \<open>C26: The decoder of every control-plane struct inverts its encoder: unconditionally for the structs
  of strings and flags, and on 32-bit fields, heartbeat sequences below \<open>10 ^ 15\<close>, host displays that
  are unknown or positive, and layouts that are absent or valid and in wire order for the others.\<close>

theorem struct_roundtrips:
  "(client_hello_ok ch \<longrightarrow> client_hello_from_body (client_hello_to_body ch) = ch) \<and>
   (server_hello_ok sh \<longrightarrow> server_hello_from_body (server_hello_to_body sh) = sh) \<and>
   error_msg_from_body (error_msg_to_body em) = em \<and>
   (list_all gpu_device_ok ds \<longrightarrow> gpu_list_from_body (gpu_list_to_body ds r) = ds) \<and>
   (gpu_list_marked_mock (gpu_list_to_body ds r) \<longleftrightarrow> \<not> r) \<and>
   gpu_select_request_from_body (gpu_select_request_to_body sel) = sel \<and>
   (gpu_device_ok (gsr_device resp) \<longrightarrow> gpu_select_response_from_body (gpu_select_response_to_body resp) = resp) \<and>
   (worker_hello_ok wh \<longrightarrow> worker_hello_from_body (worker_hello_to_body wh) = wh) \<and>
   (layout_field_ok (wa_display_layout wa) \<longrightarrow> worker_ack_from_body (worker_ack_to_body wa) = wa) \<and>
   (heartbeat_ok hb \<longrightarrow> heartbeat_from_body (heartbeat_to_body hb) = hb) \<and>
   launch_session_from_body (launch_session_to_body ls) = ls \<and>
   (session_started_ok ss \<longrightarrow> session_started_from_body (session_started_to_body ss) = ss) \<and>
   close_session_from_body (close_session_to_body cs) = cs \<and>
   session_closed_from_body (session_closed_to_body sc) = sc \<and>
   app_hello_from_body (app_hello_to_body token) = token \<and>
   app_ack_from_body (app_ack_to_body aa) = aa \<and>
   (i32_range (sch_protocol_version sch) \<longrightarrow> sidecar_hello_from_body (sidecar_hello_to_body sch) = sch) \<and>
   (layout_field_ok (sa_display_layout sa) \<longrightarrow> sidecar_ack_from_body (sidecar_ack_to_body sa) = sa)"
  by (intro conjI impI client_hello_rt server_hello_rt error_msg_rt gpu_list_rt gpu_list_marked gpu_select_request_rt
      gpu_select_response_rt worker_hello_rt worker_ack_rt heartbeat_rt launch_session_rt session_started_rt
      close_session_rt session_closed_rt app_hello_rt app_ack_rt sidecar_hello_rt sidecar_ack_rt)

theorem struct_roundtrips_witness:
  "client_hello_from_body (client_hello_to_body \<lparr>ch_protocol_version = 1, ch_app_instance_id = ''app'',
      ch_gpu_selector = ''auto'', ch_display_backend = ''x11'', ch_graphics_frontend = ''vulkan''\<rparr>) =
     \<lparr>ch_protocol_version = 1, ch_app_instance_id = ''app'', ch_gpu_selector = ''auto'', ch_display_backend = ''x11'',
      ch_graphics_frontend = ''vulkan''\<rparr>"
  using struct_roundtrips [of "\<lparr>ch_protocol_version = 1, ch_app_instance_id = ''app'', ch_gpu_selector = ''auto'',
      ch_display_backend = ''x11'', ch_graphics_frontend = ''vulkan''\<rparr>"]
  by (simp add: client_hello_ok_def i32_range_def)

end
