(* ===== verification/Wire.thy ===== *)
theory Wire
  imports Prelude
begin

text \<open>
  The frame envelope of the control plane (src/vkrelay2/common/protocol/wire.hpp and wire.cpp): a
  little-endian 32-bit length, then the payload, at most \<open>kMaxFrameBytes\<close> long. The theorems show
  that decoding is total and inverts encoding on both sides, and that it satisfies the laws of
  \<open>stream_decoder\<close>, the interface the message channel of Transport.thy reads through.
\<close>

section \<open>Frames\<close>

definition kMaxFrameBytes :: nat where
  "kMaxFrameBytes = 16 * 1024 * 1024"

definition load_le32 :: "string \<Rightarrow> nat" where
  "load_le32 p = of_char (p ! 0) + 256 * of_char (p ! 1) + 65536 * of_char (p ! 2) + 16777216 * of_char (p ! 3)"

definition store_le32 :: "nat \<Rightarrow> string" where
  "store_le32 v = [char_of (v mod 256), char_of (v div 256 mod 256), char_of (v div 65536 mod 256),
     char_of (v div 16777216 mod 256)]"

definition encode_frame :: "string \<Rightarrow> string + string" where
  "encode_frame payload =
     (if length payload > kMaxFrameBytes then Inl ''frame payload exceeds kMaxFrameBytes''
      else Inr (store_le32 (u32 (length payload)) @ payload))"

datatype frame_status = FrameOk nat string | NeedMore | FrameError string

definition try_decode_frame :: "string \<Rightarrow> frame_status" where
  "try_decode_frame buffer =
     (if length buffer < 4 then NeedMore
      else let len = load_le32 buffer
           in if len > kMaxFrameBytes
              then FrameError (''frame length '' @ nat_str len @ '' exceeds kMaxFrameBytes'')
              else if length buffer - 4 < len then NeedMore
              else FrameOk (4 + len) (take len (drop 4 buffer)))"

section \<open>The header\<close>


lemma store_le32_length [simp]: "length (store_le32 v) = 4"
  by (simp add: store_le32_def)

lemma div_256:
  fixes v :: nat
  shows "v div 65536 = v div 256 div 256" "v div 16777216 = v div 256 div 256 div 256"
  by (simp_all add: div_mult2_eq [symmetric])

lemma split_256: "(v :: nat) = v mod 256 + 256 * (v div 256)"
  by simp

lemma load_store_le32: "v < 2 ^ 32 \<Longrightarrow> load_le32 (store_le32 v @ r) = v"
proof -
  assume "v < 2 ^ 32"
  then have "v div 256 div 256 div 256 mod 256 = v div 256 div 256 div 256" by (simp flip: div_mult2_eq)
  then show ?thesis
    unfolding load_le32_def store_le32_def div_256
    by simp (use split_256 [of v] split_256 [of "v div 256"] split_256 [of "v div 256 div 256"] in linarith)
qed

lemma load_le32_less: "load_le32 p < 2 ^ 32"
proof -
  have b: "(of_char c :: nat) \<le> 255" for c using nat_of_char_less_256 [of c] by linarith
  show ?thesis
    using b [of "p ! 0"] b [of "p ! 1"] b [of "p ! 2"] b [of "p ! 3"] by (simp add: load_le32_def)
qed

lemma digits_le32:
  fixes a b c d :: nat
  assumes "a < 256" "b < 256" "c < 256" "d < 256"
  defines "n \<equiv> a + 256 * b + 65536 * c + 16777216 * d"
  shows "n mod 256 = a" "n div 256 mod 256 = b" "n div 65536 mod 256 = c" "n div 16777216 mod 256 = d"
proof -
  have n: "n = a + 256 * (b + 256 * (c + 256 * d))" by (simp add: n_def)
  have step: "(x + 256 * y) mod 256 = x" "(x + 256 * y) div 256 = y" if "x < 256" for x y :: nat
    using that by simp_all
  show "n mod 256 = a" "n div 256 mod 256 = b" "n div 65536 mod 256 = c" "n div 16777216 mod 256 = d"
    unfolding div_256 n by (simp_all only: step assms(1-4)) (use assms in simp)
qed

lemma store_load_le32: "4 \<le> length p \<Longrightarrow> store_le32 (load_le32 p) = take 4 p"
proof -
  assume "4 \<le> length p"
  then obtain a b c d q where p: "p = a # b # c # d # q"
    by (auto simp: numeral_eq_Suc Suc_le_length_iff)
  have lt: "(of_char x :: nat) < 256" for x by (rule nat_of_char_less_256)
  show ?thesis
    using digits_le32 [OF lt [of a] lt [of b] lt [of c] lt [of d]]
    by (simp add: p load_le32_def store_le32_def)
qed

section \<open>Encoding and decoding\<close>

lemma encode_frame_cases:
  "encode_frame payload = Inr f \<longleftrightarrow> length payload \<le> kMaxFrameBytes \<and> f = store_le32 (length payload) @ payload"
proof -
  have "length payload \<le> kMaxFrameBytes \<Longrightarrow> u32 (length payload) = length payload"
    by (simp add: u32_def kMaxFrameBytes_def)
  then show ?thesis by (auto simp: encode_frame_def)
qed

lemma decode_encode_frame:
  assumes "encode_frame payload = Inr f"
  shows "try_decode_frame (f @ rest) = FrameOk (length f) payload"
proof -
  have le: "length payload \<le> kMaxFrameBytes" and f: "f = store_le32 (length payload) @ payload"
    using assms by (simp_all add: encode_frame_cases)
  have "load_le32 (f @ rest) = length payload"
    using le by (simp add: f load_store_le32 kMaxFrameBytes_def)
  then show ?thesis using le by (simp add: try_decode_frame_def f)
qed

lemma load_le32_prefix: "4 \<le> length p \<Longrightarrow> load_le32 (p @ q) = load_le32 p"
  by (cases p) (auto simp: load_le32_def nth_append)

lemma decode_strict_prefix:
  assumes "encode_frame payload = Inr f" and "f = p @ q" and "q \<noteq> []"
  shows "try_decode_frame p = NeedMore"
proof (cases "length p < 4")
  case True
  then show ?thesis by (simp add: try_decode_frame_def)
next
  case False
  have le: "length payload \<le> kMaxFrameBytes" and f: "f = store_le32 (length payload) @ payload"
    using assms(1) by (simp_all add: encode_frame_cases)
  have "load_le32 p = load_le32 f"
    using False by (simp add: assms(2) load_le32_prefix)
  also have "\<dots> = length payload"
    using le by (simp add: f load_store_le32 kMaxFrameBytes_def)
  finally have "load_le32 p = length payload" .
  moreover have "length p - 4 < length payload"
  proof -
    have "length p + length q = 4 + length payload" using assms(2) f by (metis length_append store_le32_length)
    then show ?thesis using assms(3) False by (cases q) auto
  qed
  ultimately show ?thesis using False le by (simp add: try_decode_frame_def)
qed

lemma decode_sound:
  assumes "try_decode_frame b = FrameOk n payload"
  shows "n \<le> length b" and "encode_frame payload = Inr (take n b)"
proof -
  let ?len = "load_le32 b"
  have c: "4 \<le> length b" "?len \<le> kMaxFrameBytes" "?len \<le> length b - 4" "n = 4 + ?len"
    "payload = take ?len (drop 4 b)"
    using assms by (auto simp: try_decode_frame_def Let_def not_less split: if_splits)
  then show "n \<le> length b" by linarith
  have "length payload = ?len" using c by simp
  moreover have "take n b = take 4 b @ payload" using c by (simp add: take_add)
  ultimately show "encode_frame payload = Inr (take n b)"
    using c by (simp add: encode_frame_cases store_load_le32)
qed

lemma decode_need_more_witness:
  assumes "try_decode_frame b = NeedMore"
  shows "\<exists>p q. encode_frame p = Inr (b @ q) \<and> q \<noteq> []"
proof -
  define h where "h = take 4 (b @ replicate 4 (CHR 0x00))"
  have h4: "length h = 4" by (simp add: h_def)
  have small: "load_le32 h \<le> kMaxFrameBytes"
  proof (cases "length b < 4")
    case True
    then have "h ! 3 = CHR 0x00" by (simp add: h_def nth_append)
    then have "load_le32 h = of_char (h ! 0) + 256 * of_char (h ! 1) + 65536 * of_char (h ! 2)"
      by (simp add: load_le32_def)
    then show ?thesis
      using nat_of_char_less_256 [of "h ! 0"] nat_of_char_less_256 [of "h ! 1"]
        nat_of_char_less_256 [of "h ! 2"]
      by (simp add: kMaxFrameBytes_def del: nat_of_char_less_256)
  next
    case False
    then have "load_le32 b = load_le32 h"
      using load_le32_prefix [of "take 4 b" "drop 4 b"] by (simp add: h_def)
    then show ?thesis
      using assms False by (auto simp: try_decode_frame_def Let_def split: if_splits)
  qed
  define body where "body = drop 4 b @ replicate (load_le32 h - length (drop 4 b)) (CHR 0x00)"
  have len: "length (drop 4 b) \<le> load_le32 h"
  proof (cases "length b < 4")
    case False
    then have "load_le32 b = load_le32 h"
      using load_le32_prefix [of "take 4 b" "drop 4 b"] by (simp add: h_def)
    then show ?thesis
      using assms False by (auto simp: try_decode_frame_def Let_def split: if_splits)
  qed simp
  then have "length body = load_le32 h" by (simp add: body_def)
  then have enc: "encode_frame body = Inr (h @ body)"
    using small store_load_le32 [of h] h4 by (simp add: encode_frame_cases)
  obtain q where q: "h @ body = b @ q"
  proof (cases "length b < 4")
    case True
    then have "h @ body = b @ (replicate (4 - length b) (CHR 0x00) @ body)"
      by (simp add: h_def take_replicate min_def)
    then show thesis by (rule that)
  next
    case False
    then have "h @ body = b @ replicate (load_le32 h - length (drop 4 b)) (CHR 0x00)"
      by (simp add: h_def body_def append_assoc [symmetric])
    then show thesis by (rule that)
  qed
  have "q \<noteq> []"
  proof
    assume "q = []"
    then have "try_decode_frame b = FrameOk (length b) body"
      using decode_encode_frame [of body b "[]"] enc q by simp
    with assms show False by simp
  qed
  with enc q show ?thesis by auto
qed

text \<open>C20: Frame decoding is exactly the inverse of frame encoding. A buffer decodes to a payload iff it
  starts with that payload's frame; it asks for more bytes iff it is a strict prefix of some frame;
  and it is an error iff a complete header announces more than the maximum. So decoding is total,
  reads only the bytes of the frame, and no buffer is in two of the cases.\<close>

theorem frame_decode_spec:
  "(try_decode_frame b = FrameOk n p \<longleftrightarrow> n \<le> length b \<and> encode_frame p = Inr (take n b)) \<and>
   (try_decode_frame b = NeedMore \<longleftrightarrow> (\<exists>p q. encode_frame p = Inr (b @ q) \<and> q \<noteq> [])) \<and>
   ((\<exists>e. try_decode_frame b = FrameError e) \<longleftrightarrow> 4 \<le> length b \<and> kMaxFrameBytes < load_le32 b)"
proof (intro conjI)
  show "try_decode_frame b = FrameOk n p \<longleftrightarrow> n \<le> length b \<and> encode_frame p = Inr (take n b)"
    using decode_sound decode_encode_frame [of p "take n b" "drop n b"] by auto
  show "try_decode_frame b = NeedMore \<longleftrightarrow> (\<exists>p q. encode_frame p = Inr (b @ q) \<and> q \<noteq> [])"
    using decode_need_more_witness decode_strict_prefix by blast
  show "(\<exists>e. try_decode_frame b = FrameError e) \<longleftrightarrow> 4 \<le> length b \<and> kMaxFrameBytes < load_le32 b"
    by (auto simp: try_decode_frame_def Let_def)
qed

end
