(* ===== verification/Transport.thy ===== *)
theory Transport
  imports Messages_Correct Wire
begin

text \<open>
  The message channel over a byte stream and the opening handshake
  (src/vkrelay2/common/transport/transport.hpp and transport.cpp), with the id allocator of
  src/vkrelay2/common/protocol/ids.cpp.

  A connection is the list of what its reads will return (chunks of any size, the end of the
  stream, an error) and of what its writes will do. The channel adds the leftover buffer. A call
  returns, throws, or is still blocked in a read when the list is used up, so a statement about a
  result is also a statement that the call returns.
\<close>

section \<open>Programs\<close>

datatype exc = TransportError string | FrameExc string | StdOutOfRangeExc

datatype ('s, 'a) run = Ret 'a 's | Raise exc 's | Blocked 's

type_synonym ('s, 'a) prog = "'s \<Rightarrow> ('s, 'a) run"

definition ret :: "'a \<Rightarrow> ('s, 'a) prog" where
  "ret x = (\<lambda>s. Ret x s)"

definition raise_exc :: "exc \<Rightarrow> ('s, 'a) prog" where
  "raise_exc e = (\<lambda>s. Raise e s)"

definition seq :: "('s, 'a) prog \<Rightarrow> ('a \<Rightarrow> ('s, 'b) prog) \<Rightarrow> ('s, 'b) prog" where
  "seq p f = (\<lambda>s. case p s of Ret x s' \<Rightarrow> f x s' | Raise e s' \<Rightarrow> Raise e s' | Blocked s' \<Rightarrow> Blocked s')"

lemma seq_apply [simp]:
  "seq p f s = (case p s of Ret x s' \<Rightarrow> f x s' | Raise e s' \<Rightarrow> Raise e s' | Blocked s' \<Rightarrow> Blocked s')"
  by (simp add: seq_def)

lemma ret_apply [simp]: "ret x s = Ret x s"
  by (simp add: ret_def)

lemma raise_apply [simp]: "raise_exc e s = Raise e s"
  by (simp add: raise_exc_def)

section \<open>The channel\<close>

datatype read_result = Data string | Eof | ReadError string

record channel =
  ch_buffer :: string
  ch_reads :: "read_result list"
  ch_write_plan :: "string option list"
  ch_written :: string

text \<open>\<open>write_all\<close>: the next entry of the plan is an error to throw, or the bytes are written.\<close>

definition write_all :: "string \<Rightarrow> (channel, unit) prog" where
  "write_all bytes ch =
     (case ch_write_plan ch of
        Some e # rest \<Rightarrow> Raise (TransportError e) (ch\<lparr>ch_write_plan := rest\<rparr>)
      | None # rest \<Rightarrow> Ret () (ch\<lparr>ch_write_plan := rest, ch_written := ch_written ch @ bytes\<rparr>)
      | [] \<Rightarrow> Ret () (ch\<lparr>ch_written := ch_written ch @ bytes\<rparr>))"

definition send :: "message_type \<Rightarrow> jval \<Rightarrow> (channel, unit) prog" where
  "send ty body =
     (case encode_frame (encode_message ty body) of
        Inl e \<Rightarrow> raise_exc (FrameExc e)
      | Inr frame \<Rightarrow> write_all frame)"

text \<open>
  One turn of the loop of \<open>recv\<close> on what is buffered: a frame was complete and its message is
  good or malformed (its bytes are erased in both cases), more bytes are needed, or the stream is
  unusable.
\<close>

datatype 'm decode_step = Got nat 'm | BadPayload nat string | More | BadStream string

definition decode_step :: "string \<Rightarrow> (message_type \<times> jval) decode_step" where
  "decode_step buffer =
     (case try_decode_frame buffer of
        FrameOk consumed payload \<Rightarrow>
          (case decode_message payload of
             Inl e \<Rightarrow> BadPayload consumed (''malformed message: '' @ e)
           | Inr m \<Rightarrow> Got consumed m)
      | FrameError e \<Rightarrow> BadStream (''framing error: '' @ e)
      | NeedMore \<Rightarrow> More)"

text \<open>
  The loop over a decoder: \<open>None\<close> is the clean end of the stream, \<open>eof\<close> the error at an
  unclean one. The end of the stream and a read error stay, as a later read would meet them again.
\<close>

fun recv_loop :: "string \<Rightarrow> (string \<Rightarrow> 'm decode_step) \<Rightarrow> string \<Rightarrow> read_result list \<Rightarrow> (string \<times> read_result list, 'm option) run" where
  "recv_loop eof dec buffer [] =
     (case dec buffer of
        Got n m \<Rightarrow> Ret (Some m) (drop n buffer, [])
      | BadPayload n e \<Rightarrow> Raise (TransportError e) (drop n buffer, [])
      | BadStream e \<Rightarrow> Raise (TransportError e) (buffer, [])
      | More \<Rightarrow> Blocked (buffer, []))"
| "recv_loop eof dec buffer (r # rs) =
     (case dec buffer of
        Got n m \<Rightarrow> Ret (Some m) (drop n buffer, r # rs)
      | BadPayload n e \<Rightarrow> Raise (TransportError e) (drop n buffer, r # rs)
      | BadStream e \<Rightarrow> Raise (TransportError e) (buffer, r # rs)
      | More \<Rightarrow>
          (case r of
             Data d \<Rightarrow> recv_loop eof dec (buffer @ d) rs
           | Eof \<Rightarrow> if buffer = [] then Ret None (buffer, r # rs)
                    else Raise (TransportError eof) (buffer, r # rs)
           | ReadError e \<Rightarrow> Raise (TransportError e) (buffer, r # rs)))"

definition with_reads :: "channel \<Rightarrow> (string \<times> read_result list, 'a) run \<Rightarrow> (channel, 'a) run" where
  "with_reads ch r =
     (case r of
        Ret x (b, rs) \<Rightarrow> Ret x (ch\<lparr>ch_buffer := b, ch_reads := rs\<rparr>)
      | Raise e (b, rs) \<Rightarrow> Raise e (ch\<lparr>ch_buffer := b, ch_reads := rs\<rparr>)
      | Blocked (b, rs) \<Rightarrow> Blocked (ch\<lparr>ch_buffer := b, ch_reads := rs\<rparr>))"

definition recv :: "(channel, (message_type \<times> jval) option) prog" where
  "recv ch = with_reads ch (recv_loop ''connection closed mid-frame'' decode_step (ch_buffer ch) (ch_reads ch))"

section \<open>The handshake\<close>

record id_allocator =
  ids_session :: string
  ids_next :: nat

definition next_worker_id :: "id_allocator \<Rightarrow> string \<times> id_allocator" where
  "next_worker_id ids = (''wkr-'' @ nat_str (ids_next ids), ids\<lparr>ids_next := u64 (ids_next ids + 1)\<rparr>)"

record endpoint =
  ep_channel :: channel
  ep_ids :: id_allocator

definition on_channel :: "(channel, 'a) prog \<Rightarrow> (endpoint, 'a) prog" where
  "on_channel p ep =
     (case p (ep_channel ep) of
        Ret x ch \<Rightarrow> Ret x (ep\<lparr>ep_channel := ch\<rparr>)
      | Raise e ch \<Rightarrow> Raise e (ep\<lparr>ep_channel := ch\<rparr>)
      | Blocked ch \<Rightarrow> Blocked (ep\<lparr>ep_channel := ch\<rparr>))"

record accepted_session =
  as_client :: client_hello
  as_server :: server_hello

definition send_error :: "string \<Rightarrow> string \<Rightarrow> (channel, unit) prog" where
  "send_error code msg = send Error (error_msg_to_body \<lparr>em_code = code, em_message = msg\<rparr>)"

text \<open>An error is reported to the client before the exception leaves the handshake.\<close>

definition reject :: "string \<Rightarrow> string \<Rightarrow> string \<Rightarrow> (endpoint, 'a) prog" where
  "reject code msg diagnostic = seq (on_channel (send_error code msg)) (\<lambda>_. raise_exc (TransportError diagnostic))"

definition check_layout :: "layout_decode \<Rightarrow> (endpoint, unit) prog" where
  "check_layout d =
     (case d of
        LayoutAbsent \<Rightarrow> ret ()
      | LayoutValid l \<Rightarrow>
          (case validate_display_layout l of
             Inr _ \<Rightarrow> ret ()
           | Inl reason \<Rightarrow> reject ''display_layout_invalid'' reason (''handshake: invalid produced display layout: '' @ reason))
      | LayoutMalformed reason \<Rightarrow>
          reject ''display_layout_unavailable'' reason (''handshake: display layout unavailable: '' @ reason)
      | LayoutUnsupported reason \<Rightarrow>
          reject ''display_layout_unavailable'' reason (''handshake: display layout unavailable: '' @ reason))"

definition mint_server_hello :: "string \<Rightarrow> host_display \<Rightarrow> layout_decode \<Rightarrow> (endpoint, server_hello) prog" where
  "mint_server_hello worker_backend display layout ep =
     (let (wid, ids') = next_worker_id (ep_ids ep)
      in Ret \<lparr>sh_protocol_version = kProtocolVersion, sh_supervisor_session_id = ids_session (ep_ids ep), sh_worker_id = wid,
              sh_worker_backend = worker_backend, sh_host_display = display, sh_display_layout = layout\<rparr>
             (ep\<lparr>ep_ids := ids'\<rparr>))"

definition server_handshake :: "string \<Rightarrow> host_display \<Rightarrow> layout_decode \<Rightarrow> (endpoint, accepted_session) prog" where
  "server_handshake worker_backend display layout =
     seq (on_channel recv) (\<lambda>m.
       case m of
         None \<Rightarrow> raise_exc (TransportError ''client closed before handshake'')
       | Some (ty, body) \<Rightarrow>
           if ty \<noteq> Hello then reject ''expected_hello'' ''first message must be hello'' ''handshake: expected hello''
           else let client = client_hello_from_body body
                in if ch_protocol_version client \<noteq> kProtocolVersion
                   then reject ''version_mismatch''
                          (''server speaks protocol '' @ int_str kProtocolVersion @ '', client sent '' @
                           int_str (ch_protocol_version client))
                          ''handshake: protocol version mismatch''
                   else seq (check_layout layout) (\<lambda>_.
                        seq (mint_server_hello worker_backend display layout) (\<lambda>server.
                        seq (on_channel (send HelloAck (server_hello_to_body server))) (\<lambda>_.
                        ret \<lparr>as_client = client, as_server = server\<rparr>))))"

definition client_handshake :: "client_hello \<Rightarrow> (channel, server_hello) prog" where
  "client_handshake hello =
     seq (send Hello (client_hello_to_body hello)) (\<lambda>_.
     seq recv (\<lambda>m.
       case m of
         None \<Rightarrow> raise_exc (TransportError ''server closed during handshake'')
       | Some (ty, body) \<Rightarrow>
           if ty = Error
           then (let err = error_msg_from_body body
                 in raise_exc (TransportError (''handshake rejected: '' @ em_code err @ '' ('' @ em_message err @ '')'')))
           else if ty \<noteq> HelloAck then raise_exc (TransportError ''handshake: expected hello_ack'')
           else let server = server_hello_from_body body
                in if sh_protocol_version server \<noteq> kProtocolVersion
                   then raise_exc (TransportError ''handshake: server protocol version mismatch'')
                   else ret server))"

end
