(* ===== verification/Transport_Correct.thy ===== *)
theory Transport_Correct
  imports Transport
begin

text \<open>
  What holds of the message channel and the handshake. \<open>stream_codec\<close> is what the receive loop
  needs of a framing: a complete frame decodes whatever follows it, a strict prefix asks for more.
  Under these laws the loop delivers the frames of the stream one by one however the stream is cut
  into chunks; the interpretation on the wire format and the message envelope carries this over to
  \<open>MessageChannel\<close>, and the handshake theorems follow.
\<close>

section \<open>Receiving under the stream laws\<close>

locale stream_codec =
  fixes enc :: "'m \<Rightarrow> string option" and dec :: "string \<Rightarrow> 'm decode_step"
  assumes dec_frame: "enc m = Some f \<Longrightarrow> dec (f @ r) = Got (length f) m"
    and dec_prefix: "enc m = Some (p @ q) \<Longrightarrow> q \<noteq> [] \<Longrightarrow> dec p = More"
    and dec_empty: "dec [] = More"
begin

lemma recv_message:
  assumes "enc m = Some f" and "buffer @ concat ds = f @ rest"
  shows "\<exists>b' ds'. recv_loop eof dec buffer (map Data ds @ tail) = Ret (Some m) (b', map Data ds' @ tail) \<and> b' @ concat ds' = rest"
  using assms(2)
proof (induction ds arbitrary: buffer)
  case Nil
  then have "dec buffer = Got (length f) m" using dec_frame [OF assms(1), of rest] by simp
  then have "recv_loop eof dec buffer (map Data [] @ tail) = Ret (Some m) (rest, tail)"
    using Nil by (cases tail) simp_all
  then show ?case by (intro exI [of _ rest] exI [of _ "[]"]) simp
next
  case (Cons d ds)
  obtain us where "buffer = f @ us \<and> us @ concat (d # ds) = rest \<or> buffer @ us = f \<and> concat (d # ds) = us @ rest"
    using append_eq_append_conv2 [THEN iffD1, OF Cons.prems] by blast
  then consider (whole) r where "buffer = f @ r" "r @ concat (d # ds) = rest"
    | (part) q where "f = buffer @ q" "q \<noteq> []"
    by (cases "us = []") auto
  then show ?case
  proof cases
    case whole
    then have "recv_loop eof dec buffer (map Data (d # ds) @ tail) = Ret (Some m) (r, map Data (d # ds) @ tail)"
      using dec_frame [OF assms(1), of r] by simp
    then show ?thesis using whole by blast
  next
    case part
    then have "dec buffer = More" using assms(1) dec_prefix by blast
    then have "recv_loop eof dec buffer (map Data (d # ds) @ tail) = recv_loop eof dec (buffer @ d) (map Data ds @ tail)"
      by simp
    then show ?thesis using Cons.IH [of "buffer @ d"] Cons.prems by simp
  qed
qed

lemma recv_end:
  assumes "concat ds = []"
  shows "\<exists>rs. recv_loop eof dec [] (map Data ds @ Eof # tail) = Ret None ([], rs)"
  using assms by (induction ds) (simp_all add: dec_empty)

end

section \<open>The channel satisfies the laws\<close>

definition message_frame :: "message_type \<times> jval \<Rightarrow> string option" where
  "message_frame m =
     (case encode_frame (encode_message (fst m) (snd m)) of
        Inr f \<Rightarrow> if json_exact (snd m) then Some f else None
      | Inl _ \<Rightarrow> None)"

lemma message_frame_Some:
  "message_frame (t, b) = Some f \<longleftrightarrow> json_exact b \<and> encode_frame (encode_message t b) = Inr f"
  by (auto simp: message_frame_def split: sum.splits)

interpretation chan: stream_codec message_frame decode_step
proof
  fix m f r
  assume "message_frame m = Some f"
  then show "decode_step (f @ r) = Got (length f) m"
    by (cases m) (auto simp: message_frame_Some decode_step_def decode_encode_message dest: decode_encode_frame [of _ f r])
next
  fix m p q
  assume "message_frame m = Some (p @ q)" "q \<noteq> []"
  then show "decode_step p = More"
    by (cases m) (auto simp: message_frame_Some decode_step_def decode_strict_prefix)
next
  show "decode_step [] = More"
    by (simp add: decode_step_def try_decode_frame_def)
qed

lemma recv_delivers:
  assumes "message_frame m = Some f" and "ch_buffer ch @ concat ds = f @ rest" and "ch_reads ch = map Data ds @ tail"
  shows "\<exists>ch' ds'. recv ch = Ret (Some m) ch' \<and> ch_reads ch' = map Data ds' @ tail \<and> ch_buffer ch' @ concat ds' = rest \<and>
    ch_write_plan ch' = ch_write_plan ch \<and> ch_written ch' = ch_written ch"
  using chan.recv_message [OF assms(1,2), of "''connection closed mid-frame''" tail] assms(3) by (auto simp: recv_def with_reads_def)

section \<open>Streams of messages\<close>

primrec send_all :: "(message_type \<times> jval) list \<Rightarrow> (channel, unit) prog" where
  "send_all [] = ret ()"
| "send_all (m # ms) = seq (send (fst m) (snd m)) (\<lambda>_. send_all ms)"

primrec recv_n :: "nat \<Rightarrow> (channel, (message_type \<times> jval) list) prog" where
  "recv_n 0 = ret []"
| "recv_n (Suc n) =
     seq recv (\<lambda>m. case m of None \<Rightarrow> ret [] | Some x \<Rightarrow> seq (recv_n n) (\<lambda>xs. ret (x # xs)))"

lemma send_Ret:
  "send t b ch = Ret u ch' \<Longrightarrow> \<exists>f. encode_frame (encode_message t b) = Inr f \<and> ch_written ch' = ch_written ch @ f"
  by (auto simp: send_def write_all_def raise_exc_def split: sum.splits list.splits option.splits)

lemma send_all_written:
  assumes "send_all ms ch = Ret u ch'" and "list_all (\<lambda>m. json_exact (snd m)) ms"
  shows "\<exists>fs. list_all2 (\<lambda>m f. message_frame m = Some f) ms fs \<and> ch_written ch' = ch_written ch @ concat fs"
  using assms
proof (induction ms arbitrary: ch)
  case (Cons m ms)
  obtain t b where m: "m = (t, b)" by (cases m)
  obtain ch1 where s: "send t b ch = Ret () ch1" and r: "send_all ms ch1 = Ret u ch'"
    using Cons.prems(1) m by (cases "send t b ch") (auto simp: seq_def)
  from s obtain f where f: "encode_frame (encode_message t b) = Inr f" "ch_written ch1 = ch_written ch @ f"
    using send_Ret by blast
  obtain fs where fs: "list_all2 (\<lambda>m f. message_frame m = Some f) ms fs" "ch_written ch' = ch_written ch1 @ concat fs"
    using Cons.IH [OF r] Cons.prems(2) by auto
  show ?case
    using f fs Cons.prems(2) m by (intro exI [of _ "f # fs"]) (simp add: message_frame_Some)
qed simp

lemma recv_n_delivers:
  assumes "list_all2 (\<lambda>m f. message_frame m = Some f) ms fs"
    and "ch_buffer ch @ concat ds = concat fs" and "ch_reads ch = map Data ds @ Eof # tail"
  shows "\<exists>ch'. recv_n (length ms) ch = Ret ms ch' \<and> (\<exists>ch''. recv ch' = Ret None ch'')"
  using assms
proof (induction ms fs arbitrary: ch ds rule: list_all2_induct)
  case Nil
  then have "\<exists>rs. recv_loop ''connection closed mid-frame'' decode_step [] (map Data ds @ Eof # tail) = Ret None ([], rs)"
    by (intro chan.recv_end) simp
  then show ?case using Nil by (auto simp: recv_def with_reads_def)
next
  case (Cons m ms f fs)
  obtain ch1 ds1 where r: "recv ch = Ret (Some m) ch1" and "ch_reads ch1 = map Data ds1 @ Eof # tail"
    "ch_buffer ch1 @ concat ds1 = concat fs"
    using recv_delivers [OF Cons.hyps(1), of ch ds "concat fs" "Eof # tail"] Cons.prems by auto
  then obtain ch' ch'' where "recv_n (length ms) ch1 = Ret ms ch'" "recv ch' = Ret None ch''"
    using Cons.IH [of ch1 ds1] by blast
  with r show ?case by auto
qed

text \<open>C9: The channel delivers exactly the messages sent, in order, however the byte stream is cut into
  chunks: after any sequence of successful sends of printable bodies, a peer that reads the written
  bytes in any chunking receives the same messages one by one and then a clean end of stream.\<close>

theorem channel_delivers:
  assumes "send_all ms ch0 = Ret u ch1" and "ch_written ch0 = []" and "list_all (\<lambda>m. json_exact (snd m)) ms"
    and "concat chunks = ch_written ch1"
    and "ch_buffer peer = []" and "ch_reads peer = map Data chunks @ [Eof]"
  shows "\<exists>peer'. recv_n (length ms) peer = Ret ms peer' \<and> (\<exists>peer''. recv peer' = Ret None peer'')"
proof -
  obtain fs where "list_all2 (\<lambda>m f. message_frame m = Some f) ms fs" "ch_written ch1 = concat fs"
    using send_all_written [OF assms(1,3)] assms(2) by auto
  then show ?thesis using recv_n_delivers [of ms fs peer chunks "[]"] assms(4-6) by simp
qed

definition empty_channel :: channel where
  "empty_channel = \<lparr>ch_buffer = [], ch_reads = [], ch_write_plan = [], ch_written = []\<rparr>"

definition frame_of :: "message_type \<Rightarrow> jval \<Rightarrow> string" where
  "frame_of t b = store_le32 (length (encode_message t b)) @ encode_message t b"

lemma encode_frame_of: "length (encode_message t b) \<le> kMaxFrameBytes \<Longrightarrow> encode_frame (encode_message t b) = Inr (frame_of t b)"
  by (simp add: encode_frame_cases frame_of_def)

lemma send_plan_free:
  "length (encode_message t b) \<le> kMaxFrameBytes \<Longrightarrow> ch_write_plan ch = [] \<Longrightarrow>
     send t b ch = Ret () (ch\<lparr>ch_written := ch_written ch @ frame_of t b\<rparr>)"
  by (simp add: send_def encode_frame_of write_all_def)

lemma message_frame_of: "length (encode_message t b) \<le> kMaxFrameBytes \<Longrightarrow> json_exact b \<Longrightarrow> message_frame (t, b) = Some (frame_of t b)"
  by (simp add: message_frame_Some encode_frame_of)

theorem channel_delivers_witness:
  "\<exists>peer'. recv_n 1 (empty_channel\<lparr>ch_reads := map (\<lambda>c. Data [c]) (frame_of Hello (JObj [])) @ [Eof]\<rparr>) =
     Ret [(Hello, JObj [])] peer'"
proof -
  have len: "length (encode_message Hello (JObj [])) \<le> kMaxFrameBytes"
    by (simp add: encode_message_def obj_of_def json_set_def json_dump_def newline_def pad_def escape_string_def
        escape_char_def kMaxFrameBytes_def)
  have s: "send_all [(Hello, JObj [])] empty_channel = Ret () (empty_channel\<lparr>ch_written := frame_of Hello (JObj [])\<rparr>)"
    using send_plan_free [OF len, of empty_channel] by (simp add: empty_channel_def)
  show ?thesis
    using channel_delivers [OF s, of "map (\<lambda>c. [c]) (frame_of Hello (JObj []))"
        "empty_channel\<lparr>ch_reads := map (\<lambda>c. Data [c]) (frame_of Hello (JObj [])) @ [Eof]\<rparr>"]
    by (auto simp: empty_channel_def comp_def)
qed

section \<open>The handshake\<close>

text \<open>The hello the server mints.\<close>

definition minted :: "id_allocator \<Rightarrow> string \<Rightarrow> host_display \<Rightarrow> layout_decode \<Rightarrow> server_hello" where
  "minted ids backend display layout =
     \<lparr>sh_protocol_version = kProtocolVersion, sh_supervisor_session_id = ids_session ids,
      sh_worker_id = ''wkr-'' @ nat_str (ids_next ids), sh_worker_backend = backend, sh_host_display = display,
      sh_display_layout = layout\<rparr>"

lemma on_channel_Ret: "p (ep_channel ep) = Ret x ch \<Longrightarrow> on_channel p ep = Ret x (ep\<lparr>ep_channel := ch\<rparr>)"
  by (simp add: on_channel_def)

lemma on_channel_recv:
  assumes "message_frame m = Some f" and "ch_buffer (ep_channel ep) = []" and "concat ds = f"
    and "ch_reads (ep_channel ep) = map Data ds @ tail"
  shows "\<exists>ch'. on_channel recv ep = Ret (Some m) (ep\<lparr>ep_channel := ch'\<rparr>) \<and>
    ch_write_plan ch' = ch_write_plan (ep_channel ep) \<and> ch_written ch' = ch_written (ep_channel ep)"
  using recv_delivers [OF assms(1), of "ep_channel ep" ds "[]" tail] assms(2-4) by (auto simp: on_channel_def)

lemma check_layout_ok: "layout_field_ok d \<Longrightarrow> check_layout d = ret ()"
  by (auto simp: check_layout_def layout_field_ok_def split: layout_decode.splits)

lemma server_accepts:
  assumes h: "client_hello_ok h" "ch_protocol_version h = kProtocolVersion"
    and d: "layout_field_ok layout"
    and fits: "length (encode_message Hello (client_hello_to_body h)) \<le> kMaxFrameBytes"
      "length (encode_message HelloAck (server_hello_to_body (minted (ep_ids ep) backend display layout))) \<le> kMaxFrameBytes"
    and ch: "ch_buffer (ep_channel ep) = []" "ch_write_plan (ep_channel ep) = []"
      "concat up = frame_of Hello (client_hello_to_body h)" "ch_reads (ep_channel ep) = map Data up @ rest"
  shows "\<exists>ep'. server_handshake backend display layout ep =
      Ret \<lparr>as_client = h, as_server = minted (ep_ids ep) backend display layout\<rparr> ep' \<and>
    ch_written (ep_channel ep') =
      ch_written (ep_channel ep) @ frame_of HelloAck (server_hello_to_body (minted (ep_ids ep) backend display layout))"
proof -
  let ?sh = "minted (ep_ids ep) backend display layout"
  have "message_frame (Hello, client_hello_to_body h) = Some (frame_of Hello (client_hello_to_body h))"
    using h fits(1) by (intro message_frame_of client_hello_exact)
  then obtain ch' where r: "on_channel recv ep = Ret (Some (Hello, client_hello_to_body h)) (ep\<lparr>ep_channel := ch'\<rparr>)"
    and w: "ch_write_plan ch' = []" "ch_written ch' = ch_written (ep_channel ep)"
    using on_channel_recv [of "(Hello, client_hello_to_body h)" _ ep up rest] ch by auto
  obtain ep1 where m: "mint_server_hello backend display layout (ep\<lparr>ep_channel := ch'\<rparr>) = Ret ?sh ep1" "ep_channel ep1 = ch'"
    by (simp add: mint_server_hello_def next_worker_id_def minted_def Let_def)
  have s: "send HelloAck (server_hello_to_body ?sh) ch' =
      Ret () (ch'\<lparr>ch_written := ch_written ch' @ frame_of HelloAck (server_hello_to_body ?sh)\<rparr>)"
    using fits(2) w by (intro send_plan_free)
  have s': "on_channel (send HelloAck (server_hello_to_body ?sh)) ep1 = Ret ()
      (ep1\<lparr>ep_channel := ch'\<lparr>ch_written := ch_written ch' @ frame_of HelloAck (server_hello_to_body ?sh)\<rparr>\<rparr>)"
    using s m(2) by (intro on_channel_Ret) simp
  have "server_handshake backend display layout ep =
      Ret \<lparr>as_client = h, as_server = ?sh\<rparr>
        (ep1\<lparr>ep_channel := ch'\<lparr>ch_written := ch_written ch' @ frame_of HelloAck (server_hello_to_body ?sh)\<rparr>\<rparr>)"
    unfolding server_handshake_def using h d
    by (simp add: r client_hello_rt check_layout_ok m(1) s')
  then show ?thesis using w by auto
qed

lemma client_completes:
  assumes "length (encode_message Hello (client_hello_to_body h)) \<le> kMaxFrameBytes"
    and "length (encode_message t b) \<le> kMaxFrameBytes" "json_exact b"
    and "ch_buffer c = []" "ch_write_plan c = []" "concat down = frame_of t b" "ch_reads c = map Data down @ rest"
  shows "\<exists>c'. seq (send Hello (client_hello_to_body h)) (\<lambda>_. recv) c = Ret (Some (t, b)) c' \<and>
    ch_written c' = ch_written c @ frame_of Hello (client_hello_to_body h)"
proof -
  let ?c1 = "c\<lparr>ch_written := ch_written c @ frame_of Hello (client_hello_to_body h)\<rparr>"
  have "send Hello (client_hello_to_body h) c = Ret () ?c1"
    using assms(1,5) by (intro send_plan_free)
  moreover have "\<exists>c'. recv ?c1 = Ret (Some (t, b)) c' \<and> ch_written c' = ch_written ?c1"
    using recv_delivers [OF message_frame_of [OF assms(2,3)], of ?c1 down "[]" rest] assms(4-7) by auto
  ultimately show ?thesis by auto
qed

lemma client_handshake_seq:
  assumes "seq (send Hello (client_hello_to_body h)) (\<lambda>_. recv) c = Ret (Some (t, b)) c'"
  shows "client_handshake h c =
    (if t = Error
     then Raise (TransportError (''handshake rejected: '' @ em_code (error_msg_from_body b) @ '' ('' @
            em_message (error_msg_from_body b) @ '')'')) c'
     else if t \<noteq> HelloAck then Raise (TransportError ''handshake: expected hello_ack'') c'
     else if sh_protocol_version (server_hello_from_body b) \<noteq> kProtocolVersion
     then Raise (TransportError ''handshake: server protocol version mismatch'') c'
     else Ret (server_hello_from_body b) c')"
proof -
  obtain c1 where "send Hello (client_hello_to_body h) c = Ret () c1" "recv c1 = Ret (Some (t, b)) c'"
    using assms by (auto simp: seq_def split: run.splits)
  then show ?thesis by (simp add: client_handshake_def Let_def)
qed

text \<open>C17: The two sides of the handshake agree. A server that reads the bytes the client writes, in any
  chunking, accepts a client of its protocol version, records exactly the hello the client sent and
  answers with one frame; a client that reads that frame, in any chunking, returns exactly the
  hello the server recorded, the display layout included.\<close>

theorem handshake_agrees:
  fixes ep backend display layout
  defines "sh \<equiv> minted (ep_ids ep) backend display layout"
  assumes h: "client_hello_ok h" "ch_protocol_version h = kProtocolVersion"
    and d: "host_display_ok display" "layout_field_ok layout"
    and fits: "length (encode_message Hello (client_hello_to_body h)) \<le> kMaxFrameBytes"
      "length (encode_message HelloAck (server_hello_to_body sh)) \<le> kMaxFrameBytes"
    and up: "concat up = frame_of Hello (client_hello_to_body h)" "ep_channel ep = empty_channel\<lparr>ch_reads := map Data up @ rest\<rparr>"
    and down: "concat down = frame_of HelloAck (server_hello_to_body sh)"
  shows "\<exists>ep' c'. server_handshake backend display layout ep = Ret \<lparr>as_client = h, as_server = sh\<rparr> ep' \<and>
    ch_written (ep_channel ep') = concat down \<and>
    client_handshake h (empty_channel\<lparr>ch_reads := map Data down @ rest'\<rparr>) = Ret sh c' \<and> ch_written c' = concat up"
proof -
  have ok: "server_hello_ok sh"
    using d by (simp add: sh_def minted_def server_hello_ok_def kProtocolVersion_def i32_range_def)
  obtain ep' where ep': "server_handshake backend display layout ep = Ret \<lparr>as_client = h, as_server = sh\<rparr> ep'"
      "ch_written (ep_channel ep') = frame_of HelloAck (server_hello_to_body sh)"
    using server_accepts [OF h d(2) fits(1) fits(2) [unfolded sh_def], of up rest] up
    by (auto simp: sh_def empty_channel_def)
  obtain c' where c': "seq (send Hello (client_hello_to_body h)) (\<lambda>_. recv) (empty_channel\<lparr>ch_reads := map Data down @ rest'\<rparr>) =
      Ret (Some (HelloAck, server_hello_to_body sh)) c'" "ch_written c' = frame_of Hello (client_hello_to_body h)"
    using client_completes [OF fits server_hello_exact [OF ok], of "empty_channel\<lparr>ch_reads := map Data down @ rest'\<rparr>" down rest'] down
    by (auto simp: empty_channel_def)
  have "client_handshake h (empty_channel\<lparr>ch_reads := map Data down @ rest'\<rparr>) = Ret sh c'"
    using client_handshake_seq [OF c'(1)] by (simp add: server_hello_rt ok) (simp add: sh_def minted_def)
  then show ?thesis using ep' c'(2) up down by auto
qed

definition demo_hello :: "int \<Rightarrow> client_hello" where
  "demo_hello v = \<lparr>ch_protocol_version = v, ch_app_instance_id = ''app'', ch_gpu_selector = ''auto'',
     ch_display_backend = ''auto'', ch_graphics_frontend = ''auto''\<rparr>"

definition demo_endpoint :: "string \<Rightarrow> endpoint" where
  "demo_endpoint bytes = \<lparr>ep_channel = empty_channel\<lparr>ch_reads := map Data (map (\<lambda>c. [c]) bytes) @ []\<rparr>,
     ep_ids = \<lparr>ids_session = ''sup-1-1'', ids_next = 1\<rparr>\<rparr>"

definition no_display :: host_display where
  "no_display = \<lparr>hd_work_w = 0, hd_work_h = 0, hd_dpi = 0\<rparr>"

lemma nat_str_small [simp]: "n < 10 \<Longrightarrow> nat_str n = [digit_char n]"
  by (simp add: nat_str.simps)

lemma dump_small_int: "0 \<le> n \<Longrightarrow> n < 10 \<Longrightarrow> dump_number (double_of_int n) = [digit_char (nat n)]"
proof -
  assume "0 \<le> n" "n < 10"
  then have "double_of_int n = Finite (of_int n)" by (intro double_of_int_exact) simp
  with \<open>0 \<le> n\<close> \<open>n < 10\<close> show ?thesis by (simp add: dump_number_int int_str_def)
qed

lemmas dump_eval = encode_message_def obj_of_def json_set_def json_dump_def newline_def pad_def escape_string_def
  escape_char_def kMaxFrameBytes_def dump_small_int

lemma demo_hello_fits: "v \<in> {1, 2} \<Longrightarrow> length (encode_message Hello (client_hello_to_body (demo_hello v))) \<le> kMaxFrameBytes"
  by (auto simp: client_hello_to_body_def demo_hello_def dump_eval)

lemma demo_hello_ok: "v \<in> {1, 2} \<Longrightarrow> client_hello_ok (demo_hello v)"
  by (auto simp: client_hello_ok_def demo_hello_def i32_range_def)

theorem handshake_agrees_witness:
  "\<exists>sh ep' c'. server_handshake ''real'' no_display LayoutAbsent
       (demo_endpoint (frame_of Hello (client_hello_to_body (demo_hello 1)))) =
       Ret \<lparr>as_client = demo_hello 1, as_server = sh\<rparr> ep' \<and> sh_worker_id sh = ''wkr-1'' \<and>
     client_handshake (demo_hello 1) (empty_channel\<lparr>ch_reads := map Data [ch_written (ep_channel ep')] @ []\<rparr>) = Ret sh c'"
proof -
  let ?ep = "demo_endpoint (frame_of Hello (client_hello_to_body (demo_hello 1)))"
  let ?sh = "minted (ep_ids ?ep) ''real'' no_display LayoutAbsent"
  have fits: "length (encode_message HelloAck (server_hello_to_body ?sh)) \<le> kMaxFrameBytes"
    by (simp add: demo_endpoint_def minted_def no_display_def server_hello_to_body_def layout_fields_def kProtocolVersion_def
        digit_char_def dump_eval)
  have "sh_worker_id ?sh = ''wkr-1''"
    by (simp add: minted_def demo_endpoint_def digit_char_def) code_simp
  moreover have "host_display_ok no_display" "layout_field_ok LayoutAbsent" "ch_protocol_version (demo_hello 1) = kProtocolVersion"
    by (simp_all add: host_display_ok_def no_display_def i32_range_def layout_field_ok_def demo_hello_def kProtocolVersion_def)
  ultimately show ?thesis
    using handshake_agrees [of "demo_hello 1" no_display LayoutAbsent ?ep "''real''"
        "map (\<lambda>c. [c]) (frame_of Hello (client_hello_to_body (demo_hello 1)))" "[]"
        "[frame_of HelloAck (server_hello_to_body ?sh)]" "[]"] demo_hello_ok [of 1] demo_hello_fits [of 1] fits
    by (auto simp: demo_endpoint_def comp_def)
qed

text \<open>A client of another protocol version is refused in a way both sides see: the server sends a
  typed error naming both versions and throws without minting a worker id, and the client, reading
  that error in any chunking, throws with the same text.\<close>

theorem handshake_version_mismatch:
  fixes h
  defines "msg \<equiv> ''server speaks protocol '' @ int_str kProtocolVersion @ '', client sent '' @ int_str (ch_protocol_version h)"
  defines "reply \<equiv> error_msg_to_body \<lparr>em_code = ''version_mismatch'', em_message = msg\<rparr>"
  assumes h: "client_hello_ok h" "ch_protocol_version h \<noteq> kProtocolVersion"
    and fits: "length (encode_message Hello (client_hello_to_body h)) \<le> kMaxFrameBytes"
      "length (encode_message Error reply) \<le> kMaxFrameBytes"
    and up: "concat up = frame_of Hello (client_hello_to_body h)" "ep_channel ep = empty_channel\<lparr>ch_reads := map Data up @ rest\<rparr>"
    and down: "concat down = frame_of Error reply"
  shows "\<exists>ep' c'. server_handshake backend display layout ep =
      Raise (TransportError ''handshake: protocol version mismatch'') ep' \<and>
    ep_ids ep' = ep_ids ep \<and> ch_written (ep_channel ep') = concat down \<and>
    client_handshake h (empty_channel\<lparr>ch_reads := map Data down @ rest'\<rparr>) =
      Raise (TransportError (''handshake rejected: version_mismatch ('' @ msg @ '')'')) c'"
proof -
  have "message_frame (Hello, client_hello_to_body h) = Some (frame_of Hello (client_hello_to_body h))"
    using h fits(1) by (intro message_frame_of client_hello_exact)
  then obtain ch' where r: "on_channel recv ep = Ret (Some (Hello, client_hello_to_body h)) (ep\<lparr>ep_channel := ch'\<rparr>)"
    and w: "ch_write_plan ch' = []" "ch_written ch' = []"
    using on_channel_recv [of "(Hello, client_hello_to_body h)" _ ep up rest] up by (auto simp: empty_channel_def)
  have s: "send_error ''version_mismatch'' msg ch' = Ret () (ch'\<lparr>ch_written := frame_of Error reply\<rparr>)"
    using send_plan_free [OF fits(2), of ch'] w by (simp add: send_error_def reply_def)
  then have s': "on_channel (send_error ''version_mismatch'' msg) (ep\<lparr>ep_channel := ch'\<rparr>) =
      Ret () (ep\<lparr>ep_channel := ch'\<lparr>ch_written := frame_of Error reply\<rparr>\<rparr>)"
    by (simp add: on_channel_def)
  have srv: "server_handshake backend display layout ep =
      Raise (TransportError ''handshake: protocol version mismatch'') (ep\<lparr>ep_channel := ch'\<lparr>ch_written := frame_of Error reply\<rparr>\<rparr>)"
    unfolding server_handshake_def using h s' by (simp add: r client_hello_rt reject_def msg_def)
  obtain c' where c': "seq (send Hello (client_hello_to_body h)) (\<lambda>_. recv) (empty_channel\<lparr>ch_reads := map Data down @ rest'\<rparr>) =
      Ret (Some (Error, reply)) c'"
    using client_completes [OF fits, of "empty_channel\<lparr>ch_reads := map Data down @ rest'\<rparr>" down rest'] down
    by (auto simp: empty_channel_def reply_def error_msg_exact)
  show ?thesis
    using srv client_handshake_seq [OF c'] down by (auto simp: reply_def error_msg_rt)
qed

theorem handshake_version_mismatch_witness:
  "\<exists>ep' c'. server_handshake ''real'' no_display LayoutAbsent
       (demo_endpoint (frame_of Hello (client_hello_to_body (demo_hello 2)))) =
       Raise (TransportError ''handshake: protocol version mismatch'') ep' \<and>
     client_handshake (demo_hello 2) (empty_channel\<lparr>ch_reads := map Data [ch_written (ep_channel ep')] @ []\<rparr>) =
       Raise (TransportError (''handshake rejected: version_mismatch (server speaks protocol '' @ int_str 1 @
         '', client sent '' @ int_str 2 @ '')'')) c'"
proof -
  let ?msg = "''server speaks protocol '' @ int_str kProtocolVersion @ '', client sent '' @ int_str (ch_protocol_version (demo_hello 2))"
  let ?reply = "error_msg_to_body \<lparr>em_code = ''version_mismatch'', em_message = ?msg\<rparr>"
  have fits: "length (encode_message Error ?reply) \<le> kMaxFrameBytes"
    by (simp add: error_msg_to_body_def demo_hello_def kProtocolVersion_def int_str_def digit_char_def dump_eval)
  have "ch_protocol_version (demo_hello 2) \<noteq> kProtocolVersion" by (simp add: demo_hello_def kProtocolVersion_def)
  then show ?thesis
    using handshake_version_mismatch [of "demo_hello 2" "map (\<lambda>c. [c]) (frame_of Hello (client_hello_to_body (demo_hello 2)))"
        "demo_endpoint (frame_of Hello (client_hello_to_body (demo_hello 2)))" "[]" "[frame_of Error ?reply]" "''real''"
        no_display LayoutAbsent "[]"] demo_hello_ok [of 2] demo_hello_fits [of 2] fits
    by (auto simp: demo_endpoint_def demo_hello_def kProtocolVersion_def comp_def)
qed

end
