(* ===== verification/Control.thy ===== *)
theory Control
  imports Transport_Correct
begin

text \<open>
  The control session of the supervisor (src/vkrelay2/common/control/control_service.hpp and
  control_service.cpp): the handshake with the advertised display snapshot, then the request loop.

  The session launcher and the snapshot provider are abstract classes of the source; here they
  are records of functions over a state \<open>'w\<close> of their implementation, and \<open>None\<close> is the null
  pointer. The state keeps the requests handed to the launcher, so that statements can speak about
  them. Logging is not represented. The request loop terminates on every finite input because each
  message takes at least its four header bytes.
\<close>

section \<open>Interfaces\<close>

record session_info =
  si_worker_id :: string
  si_data_plane_host :: string
  si_data_plane_port :: int
  si_app_token :: string
  si_sidecar_plane_host :: string
  si_sidecar_plane_port :: int
  si_sidecar_token :: string
  si_op_trace_path :: string
  si_display_snapshot_id :: string

record launch_request =
  lr_app_instance_id :: string
  lr_gpu_selector :: string
  lr_display_backend :: string
  lr_graphics_frontend :: string
  lr_profile_enabled :: bool
  lr_op_trace_enabled :: bool
  lr_input_trace_enabled :: bool
  lr_display_layout :: "display_layout option"

record 'w launcher =
  l_launch_session :: "launch_request \<Rightarrow> 'w \<Rightarrow> (string + session_info) \<times> 'w"
  l_close_session :: "string \<Rightarrow> string \<Rightarrow> string \<Rightarrow> 'w \<Rightarrow> (bool \<times> string) \<times> 'w"

record 'w snapshot_provider =
  sp_capture_for_handshake :: "'w \<Rightarrow> layout_decode \<times> 'w"
  sp_resolve_copy :: "string \<Rightarrow> 'w \<Rightarrow> string + display_layout"

record 'w service =
  sv_devices :: "gpu_device list"
  sv_devices_real :: bool
  sv_launcher :: "'w launcher option"
  sv_worker_backend :: string
  sv_host_display :: host_display
  sv_display_snapshots :: "'w snapshot_provider option"

record 'w control =
  c_endpoint :: endpoint
  c_world :: 'w
  c_launches :: "launch_request list"

section \<open>Combinators\<close>

definition on_endpoint :: "(endpoint, 'a) prog \<Rightarrow> ('w control, 'a) prog" where
  "on_endpoint p c =
     (case p (c_endpoint c) of
        Ret x ep \<Rightarrow> Ret x (c\<lparr>c_endpoint := ep\<rparr>)
      | Raise e ep \<Rightarrow> Raise e (c\<lparr>c_endpoint := ep\<rparr>)
      | Blocked ep \<Rightarrow> Blocked (c\<lparr>c_endpoint := ep\<rparr>))"

definition c_send :: "message_type \<Rightarrow> jval \<Rightarrow> ('w control, unit) prog" where
  "c_send ty body = on_endpoint (on_channel (send ty body))"

definition c_send_error :: "string \<Rightarrow> string \<Rightarrow> ('w control, unit) prog" where
  "c_send_error code msg = on_endpoint (on_channel (send_error code msg))"

definition catch_exc :: "('s, 'a) prog \<Rightarrow> (exc \<Rightarrow> ('s, 'a) prog) \<Rightarrow> ('s, 'a) prog" where
  "catch_exc p h s = (case p s of Raise e s' \<Rightarrow> h e s' | r \<Rightarrow> r)"

definition exc_what :: "exc \<Rightarrow> string" where
  "exc_what e = (case e of TransportError m \<Rightarrow> m | FrameExc m \<Rightarrow> m | StdOutOfRangeExc \<Rightarrow> ''stoi'')"

section \<open>Requests\<close>

definition select_response :: "'w service \<Rightarrow> string \<Rightarrow> ('w control, gpu_select_response) prog" where
  "select_response sv selector =
     (case parse_selector selector of
        SelThrow \<Rightarrow> raise_exc StdOutOfRangeExc
      | SelError e \<Rightarrow> ret \<lparr>gsr_ok = False, gsr_device = default_gpu_device, gsr_reason = e\<rparr>
      | SelOk sel \<Rightarrow>
          (case select_device (sv_devices sv) sel of
             (None, reason) \<Rightarrow> ret \<lparr>gsr_ok = False, gsr_device = default_gpu_device, gsr_reason = reason\<rparr>
           | (Some d, reason) \<Rightarrow> ret \<lparr>gsr_ok = True, gsr_device = d, gsr_reason = reason\<rparr>))"

definition started_of :: "session_info \<Rightarrow> session_started" where
  "started_of i =
     \<lparr>ss_worker_id = si_worker_id i, ss_data_plane_host = si_data_plane_host i, ss_data_plane_port = si_data_plane_port i,
      ss_app_token = si_app_token i, ss_sidecar_plane_host = si_sidecar_plane_host i,
      ss_sidecar_plane_port = si_sidecar_plane_port i, ss_sidecar_token = si_sidecar_token i,
      ss_op_trace_path = si_op_trace_path i, ss_display_snapshot_id = si_display_snapshot_id i\<rparr>"

definition call_launch :: "'w launcher \<Rightarrow> launch_request \<Rightarrow> ('w control, string + session_info) prog" where
  "call_launch l r c =
     (case l_launch_session l r (c_world c) of
        (res, w) \<Rightarrow> Ret res (c\<lparr>c_world := w, c_launches := c_launches c @ [r]\<rparr>))"

text \<open>The body of the \<open>try\<close> block and its handler: a launch that throws and a reply that throws end
  in the same error message.\<close>

definition launch_and_reply :: "'w launcher \<Rightarrow> launch_request \<Rightarrow> ('w control, unit) prog" where
  "launch_and_reply l r =
     seq (call_launch l r) (\<lambda>res.
       case res of
         Inl e \<Rightarrow> c_send_error ''launch_failed'' e
       | Inr i \<Rightarrow>
           catch_exc (c_send SessionStarted (session_started_to_body (started_of i)))
             (\<lambda>e. c_send_error ''launch_failed'' (exc_what e)))"

definition request_of :: "accepted_session \<Rightarrow> launch_session \<Rightarrow> display_layout option \<Rightarrow> launch_request" where
  "request_of ses req layout =
     \<lparr>lr_app_instance_id = ch_app_instance_id (as_client ses), lr_gpu_selector = ls_gpu_selector req,
      lr_display_backend = ls_display_backend req, lr_graphics_frontend = ls_graphics_frontend req,
      lr_profile_enabled = ls_profile_enabled req, lr_op_trace_enabled = ls_op_trace_enabled req,
      lr_input_trace_enabled = ls_input_trace_enabled req, lr_display_layout = layout\<rparr>"

definition handle_launch :: "'w service \<Rightarrow> accepted_session \<Rightarrow> launch_session \<Rightarrow> ('w control, unit) prog" where
  "handle_launch sv ses req =
     (case sv_launcher sv of
        None \<Rightarrow> c_send_error ''launch_unsupported'' ''this endpoint cannot launch worker sessions''
      | Some l \<Rightarrow>
          if ls_app_instance_id req \<noteq> [] \<and> ls_app_instance_id req \<noteq> ch_app_instance_id (as_client ses)
          then c_send_error ''app_identity_mismatch''
                 ''launch_session app_instance_id does not match the handshake identity''
          else (case sv_display_snapshots sv of
                  None \<Rightarrow> launch_and_reply l (request_of ses req None)
                | Some sp \<Rightarrow>
                    if ls_display_snapshot_id req = []
                    then c_send_error ''display_snapshot_required''
                           ''launch_session must name the snapshot returned by the host-display query''
                    else (\<lambda>c. case sp_resolve_copy sp (ls_display_snapshot_id req) (c_world c) of
                            Inl reason \<Rightarrow> c_send_error ''display_snapshot_not_found'' reason c
                          | Inr layout \<Rightarrow> launch_and_reply l (request_of ses req (Some layout)) c)))"

definition handle_close :: "'w service \<Rightarrow> accepted_session \<Rightarrow> close_session \<Rightarrow> ('w control, unit) prog" where
  "handle_close sv ses req =
     (let reply = (\<lambda>accepted reason. c_send SessionClosed
            (session_closed_to_body \<lparr>sc_worker_id = cs_worker_id req, sc_accepted = accepted, sc_reason = reason\<rparr>))
      in case sv_launcher sv of
           None \<Rightarrow> reply False ''this endpoint cannot close worker sessions''
         | Some l \<Rightarrow>
             if cs_worker_id req = [] \<or> cs_app_token req = []
             then reply False ''close_session requires worker_id and app_token''
             else (\<lambda>c. case l_close_session l (ch_app_instance_id (as_client ses)) (cs_worker_id req) (cs_app_token req)
                          (c_world c) of
                     ((accepted, reason), w) \<Rightarrow> reply accepted reason (c\<lparr>c_world := w\<rparr>)))"

definition handle_message :: "'w service \<Rightarrow> accepted_session \<Rightarrow> message_type \<Rightarrow> jval \<Rightarrow> ('w control, unit) prog" where
  "handle_message sv ses ty body =
     (case ty of
        GpuListRequest \<Rightarrow> c_send GpuListResponse (gpu_list_to_body (sv_devices sv) (sv_devices_real sv))
      | GpuSelectRequest \<Rightarrow>
          seq (select_response sv (gpu_select_request_from_body body)) (\<lambda>resp.
            c_send GpuSelectResponse (gpu_select_response_to_body resp))
      | Heartbeat \<Rightarrow> ret ()
      | LaunchSession \<Rightarrow> handle_launch sv ses (launch_session_from_body body)
      | CloseSession \<Rightarrow> handle_close sv ses (close_session_from_body body)
      | _ \<Rightarrow> c_send_error ''unsupported_request'' (''unsupported message: '' @ message_type_name ty))"

section \<open>The loop\<close>

definition read_bytes :: "read_result \<Rightarrow> nat" where
  "read_bytes r = (case r of Data d \<Rightarrow> length d | _ \<Rightarrow> 0)"

definition pending :: "channel \<Rightarrow> nat" where
  "pending ch = length (ch_buffer ch) + sum_list (map read_bytes (ch_reads ch))"

definition c_pending :: "'w control \<Rightarrow> nat" where
  "c_pending c = pending (ep_channel (c_endpoint c))"

lemma decode_step_Got: "decode_step b = Got n m \<Longrightarrow> 4 \<le> n \<and> n \<le> length b"
proof -
  assume "decode_step b = Got n m"
  then obtain p where p: "try_decode_frame b = FrameOk n p"
    by (auto simp: decode_step_def split: frame_status.splits sum.splits)
  then have "n \<le> length b" "4 \<le> n"
    using decode_sound(1) by (auto simp: try_decode_frame_def Let_def split: if_splits)
  then show ?thesis by simp
qed

lemma recv_loop_consumes:
  "recv_loop eof decode_step b rs = Ret (Some m) (b', rs') \<Longrightarrow>
    length b' + sum_list (map read_bytes rs') < length b + sum_list (map read_bytes rs)"
proof (induction eof decode_step b rs rule: recv_loop.induct)
  case (1 eof buffer)
  then show ?case using decode_step_Got [of buffer] by (auto split: decode_step.splits)
next
  case (2 eof buffer r rs)
  show ?case
  proof (cases "decode_step buffer")
    case (Got n x)
    then show ?thesis using 2(2) decode_step_Got [OF Got] by auto
  next
    case More
    then show ?thesis using 2 by (cases r) (auto simp: read_bytes_def split: if_splits)
  qed (use 2(2) in auto)
qed

lemma recv_consumes: "recv ch = Ret (Some m) ch' \<Longrightarrow> pending ch' < pending ch"
  by (auto simp: recv_def with_reads_def pending_def split: run.splits dest!: recv_loop_consumes)

text \<open>Everything but \<open>recv\<close> leaves the input of the channel alone, however it ends.\<close>

definition run_state :: "('s, 'a) run \<Rightarrow> 's" where
  "run_state r = (case r of Ret _ s \<Rightarrow> s | Raise _ s \<Rightarrow> s | Blocked s \<Rightarrow> s)"

lemma run_state_simps [simp]: "run_state (Ret x s) = s" "run_state (Raise e s) = s" "run_state (Blocked s) = s"
  by (simp_all add: run_state_def)

lemma send_keeps: "pending (run_state (send ty b ch)) = pending ch"
  by (auto simp: send_def write_all_def pending_def split: sum.splits list.splits option.splits)

lemma c_pending_lift:
  "c_pending (run_state (on_endpoint (on_channel p) c)) = pending (run_state (p (ep_channel (c_endpoint c))))"
  by (cases "p (ep_channel (c_endpoint c))") (simp_all add: on_endpoint_def on_channel_def c_pending_def)

lemma c_send_keeps:
  "c_pending (run_state (c_send ty b c)) = c_pending c" "c_pending (run_state (c_send_error code msg c)) = c_pending c"
  by (simp_all only: c_send_def c_send_error_def send_error_def c_pending_lift send_keeps) (simp_all add: c_pending_def)

lemma c_pending_update [simp]:
  "c_pending (c\<lparr>c_world := w\<rparr>) = c_pending c" "c_pending (c\<lparr>c_world := w, c_launches := ls\<rparr>) = c_pending c"
  by (simp_all add: c_pending_def)

lemma catch_keeps:
  assumes "f (run_state (p c)) = x" and "\<And>e c'. f (run_state (h e c')) = f c'"
  shows "f (run_state (catch_exc p h c)) = x"
  using assms by (cases "p c") (auto simp: catch_exc_def)

lemma launch_keeps: "c_pending (run_state (launch_and_reply l r c)) = c_pending c"
proof -
  obtain res w where "l_launch_session l r (c_world c) = (res, w)" by force
  then show ?thesis
    by (cases res) (simp_all add: launch_and_reply_def call_launch_def c_send_keeps catch_keeps)
qed

lemma handle_message_keeps: "c_pending (run_state (handle_message sv ses ty body c)) = c_pending c"
proof (cases ty)
  case GpuSelectRequest
  then show ?thesis
    by (auto simp: handle_message_def select_response_def c_send_keeps split: selector_parse.splits prod.splits option.splits)
next
  case LaunchSession
  then show ?thesis
    by (auto simp: handle_message_def handle_launch_def Let_def c_send_keeps launch_keeps split: option.splits sum.splits)
next
  case CloseSession
  then show ?thesis
    by (auto simp: handle_message_def handle_close_def Let_def c_send_keeps split: option.splits prod.splits)
qed (simp_all add: handle_message_def c_send_keeps)

function serve_loop :: "'w service \<Rightarrow> accepted_session \<Rightarrow> ('w control, unit) prog" where
  "serve_loop sv ses c =
     (case on_endpoint (on_channel recv) c of
        Raise e c' \<Rightarrow> Raise e c'
      | Blocked c' \<Rightarrow> Blocked c'
      | Ret None c' \<Rightarrow> Ret () c'
      | Ret (Some (ty, body)) c' \<Rightarrow>
          (case handle_message sv ses ty body c' of
             Ret _ c'' \<Rightarrow> serve_loop sv ses c''
           | Raise e c'' \<Rightarrow> Raise e c''
           | Blocked c'' \<Rightarrow> Blocked c''))"
  by pat_completeness auto
termination
proof (relation "measure (\<lambda>(sv, ses, c). c_pending c)")
  fix sv :: "'w service" and ses c m c' tb ty body u c''
  assume "on_endpoint (on_channel recv) c = Ret m c'" "m = Some tb" "(ty, body) = tb"
    and h: "handle_message sv ses ty body c' = Ret u c''"
  then have "c_pending c' < c_pending c"
    by (auto simp: on_endpoint_def on_channel_def c_pending_def split: run.splits dest!: recv_consumes)
  moreover have "c_pending c'' = c_pending c'" using handle_message_keeps [of sv ses ty body c'] h by simp
  ultimately show "((sv, ses, c''), (sv, ses, c)) \<in> measure (\<lambda>(sv, ses, c). c_pending c)" by simp
qed simp

declare serve_loop.simps [simp del]

definition effective_host_display :: "host_display \<Rightarrow> layout_decode \<Rightarrow> host_display" where
  "effective_host_display disp d =
     (case d of
        LayoutValid l \<Rightarrow>
          let disp' = disp\<lparr>hd_work_w := rw (virtual_bounds l), hd_work_h := rh (virtual_bounds l)\<rparr>
          in (case find_monitor_by_id l (primary_monitor_id l) of
                Some m \<Rightarrow> if dpi_x m \<le> 2147483647 then disp'\<lparr>hd_dpi := int (dpi_x m)\<rparr> else disp'
              | None \<Rightarrow> disp')
      | _ \<Rightarrow> disp)"

definition capture_layout :: "'w service \<Rightarrow> ('w control, layout_decode) prog" where
  "capture_layout sv c =
     (case sv_display_snapshots sv of
        None \<Rightarrow> Ret LayoutAbsent c
      | Some sp \<Rightarrow> (case sp_capture_for_handshake sp (c_world c) of (d, w) \<Rightarrow> Ret d (c\<lparr>c_world := w\<rparr>)))"

definition serve_session :: "'w service \<Rightarrow> ('w control, string) prog" where
  "serve_session sv =
     seq (capture_layout sv) (\<lambda>layout.
     seq (on_endpoint (server_handshake (sv_worker_backend sv) (effective_host_display (sv_host_display sv) layout) layout)) (\<lambda>ses.
     seq (serve_loop sv ses) (\<lambda>_.
     ret (sh_worker_id (as_server ses)))))"

section \<open>Launches carry the handshake identity\<close>

definition launch_ok :: "'w service \<Rightarrow> accepted_session \<Rightarrow> launch_request \<Rightarrow> bool" where
  "launch_ok sv ses r \<longleftrightarrow> lr_app_instance_id r = ch_app_instance_id (as_client ses) \<and>
     (\<forall>sp. sv_display_snapshots sv = Some sp \<longrightarrow>
        (\<exists>i w l. sp_resolve_copy sp i w = Inr l \<and> lr_display_layout r = Some l))"

lemma lift_launches [simp]: "c_launches (run_state (on_endpoint p c)) = c_launches c"
  by (cases "p (c_endpoint c)") (simp_all add: on_endpoint_def)

lemma c_send_launches:
  "c_launches (run_state (c_send ty b c)) = c_launches c" "c_launches (run_state (c_send_error code msg c)) = c_launches c"
  by (simp_all add: c_send_def c_send_error_def)

lemma launch_and_reply_launches:
  "c_launches (run_state (launch_and_reply l r c)) = c_launches c @ [r]"
proof -
  obtain res w where "l_launch_session l r (c_world c) = (res, w)" by force
  then show ?thesis
    by (cases res) (simp_all add: launch_and_reply_def call_launch_def c_send_launches catch_keeps)
qed

lemma launch_ok_request_of:
  "sv_display_snapshots sv = None \<Longrightarrow> launch_ok sv ses (request_of ses req None)"
  "sv_display_snapshots sv = Some sp \<Longrightarrow> sp_resolve_copy sp i w = Inr l \<Longrightarrow> launch_ok sv ses (request_of ses req (Some l))"
  by (auto simp: launch_ok_def request_of_def)

lemma handle_launch_cases:
  "(\<exists>code msg. handle_launch sv ses req c = c_send_error code msg c) \<or>
   (\<exists>l r. launch_ok sv ses r \<and> handle_launch sv ses req c = launch_and_reply l r c)"
proof (cases "sv_display_snapshots sv")
  case None
  then show ?thesis
    using launch_ok_request_of(1) [of sv ses req] by (auto simp: handle_launch_def split: option.split)
next
  case (Some sp)
  then show ?thesis
    using launch_ok_request_of(2) [of sv sp "ls_display_snapshot_id req" "c_world c" _ ses req]
    by (auto simp: handle_launch_def split: option.split sum.split) blast+
qed

lemma handle_message_launches:
  "\<exists>rs. c_launches (run_state (handle_message sv ses ty body c)) = c_launches c @ rs \<and> list_all (launch_ok sv ses) rs"
proof (cases ty)
  case GpuSelectRequest
  then show ?thesis
    by (auto simp: handle_message_def select_response_def c_send_launches split: selector_parse.splits prod.splits option.splits)
next
  case LaunchSession
  then have "handle_message sv ses ty body c = handle_launch sv ses (launch_session_from_body body) c"
    by (simp add: handle_message_def)
  then show ?thesis
    using handle_launch_cases [of sv ses "launch_session_from_body body" c]
    by (auto simp: c_send_launches launch_and_reply_launches)
next
  case CloseSession
  then show ?thesis
    by (auto simp: handle_message_def handle_close_def Let_def c_send_launches split: option.splits prod.splits)
qed (simp_all add: handle_message_def c_send_launches)

lemma serve_loop_launches:
  "\<exists>rs. c_launches (run_state (serve_loop sv ses c)) = c_launches c @ rs \<and> list_all (launch_ok sv ses) rs"
proof (induction sv ses c rule: serve_loop.induct)
  case (1 sv ses c)
  show ?case
  proof (cases "on_endpoint (on_channel recv) c")
    case (Ret m c')
    have c': "c_launches c' = c_launches c" using lift_launches [of "on_channel recv" c] Ret by simp
    show ?thesis
    proof (cases m)
      case None
      then show ?thesis using Ret c' by (simp add: serve_loop.simps [of sv ses c])
    next
      case (Some tb)
      obtain ty body where tb: "tb = (ty, body)" by (cases tb)
      obtain rs where rs: "c_launches (run_state (handle_message sv ses ty body c')) = c_launches c @ rs"
        "list_all (launch_ok sv ses) rs"
        using handle_message_launches [of sv ses ty body c'] c' by auto
      show ?thesis
      proof (cases "handle_message sv ses ty body c'")
        case (Ret u c'')
        obtain rs' where "c_launches (run_state (serve_loop sv ses c'')) = c_launches c'' @ rs'" "list_all (launch_ok sv ses) rs'"
          using 1 [OF \<open>on_endpoint (on_channel recv) c = run.Ret m c'\<close> Some tb [symmetric] Ret] by blast
        then show ?thesis
          using rs Ret Some tb \<open>on_endpoint (on_channel recv) c = run.Ret m c'\<close>
          by (intro exI [of _ "rs @ rs'"]) (simp add: serve_loop.simps [of sv ses c])
      qed (use rs Some tb Ret in \<open>auto simp: serve_loop.simps [of sv ses c]\<close>)
    qed
  qed (use lift_launches [of "on_channel recv" c] in \<open>auto simp: serve_loop.simps [of sv ses c]\<close>)
qed

text \<open>C18: Every worker launch of a control session carries the application identity of that session's
  handshake, whatever identity the launch request names, and, when the endpoint has a snapshot
  provider, a display layout the provider resolved for it; for any input, launcher and provider.\<close>

theorem launches_bound_to_handshake:
  "\<exists>rs. c_launches (run_state (serve_loop sv ses c)) = c_launches c @ rs \<and> list_all (launch_ok sv ses) rs"
  by (rule serve_loop_launches)

end
