(* ===== verification/Lifecycle.thy ===== *)
theory Lifecycle
  imports Prelude
begin

text \<open>
  The lifecycle of a worker (src/vkrelay2/common/protocol/worker_lifecycle.hpp and
  worker_lifecycle.cpp): its states, the legal transitions, and the append-only history. The lemmas
  show that the history is always a path of legal transitions from \<open>Spawned\<close> to the current state,
  that terminal states are final, and that a history has bounded length.
\<close>

datatype worker_state = Spawned | Handshaking | Running | Draining | Exited | Crashed | Killed

primrec worker_state_name :: "worker_state \<Rightarrow> string" where
  "worker_state_name Spawned = ''Spawned''"
| "worker_state_name Handshaking = ''Handshaking''"
| "worker_state_name Running = ''Running''"
| "worker_state_name Draining = ''Draining''"
| "worker_state_name Exited = ''Exited''"
| "worker_state_name Crashed = ''Crashed''"
| "worker_state_name Killed = ''Killed''"

definition is_terminal :: "worker_state \<Rightarrow> bool" where
  "is_terminal s \<longleftrightarrow> s = Exited \<or> s = Crashed \<or> s = Killed"

definition can_transition :: "worker_state \<Rightarrow> worker_state \<Rightarrow> bool" where
  "can_transition from to =
     (if is_terminal from then False
      else if to = Killed \<or> to = Crashed then True
      else (case from of
              Spawned \<Rightarrow> to = Handshaking
            | Handshaking \<Rightarrow> to = Running
            | Running \<Rightarrow> to = Draining \<or> to = Exited
            | Draining \<Rightarrow> to = Exited
            | _ \<Rightarrow> False))"

record lifecycle =
  lc_state :: worker_state
  lc_history :: "worker_state list"

definition new_lifecycle :: lifecycle where
  "new_lifecycle = \<lparr>lc_state = Spawned, lc_history = [Spawned]\<rparr>"

definition lc_terminal :: "lifecycle \<Rightarrow> bool" where
  "lc_terminal lc = is_terminal (lc_state lc)"

definition transition :: "worker_state \<Rightarrow> lifecycle \<Rightarrow> bool \<times> lifecycle" where
  "transition to lc =
     (if \<not> can_transition (lc_state lc) to then (False, lc)
      else (True, lc\<lparr>lc_state := to, lc_history := lc_history lc @ [to]\<rparr>))"

section \<open>Legal histories\<close>

definition lc_ok :: "lifecycle \<Rightarrow> bool" where
  "lc_ok lc \<longleftrightarrow> lc_history lc \<noteq> [] \<and> hd (lc_history lc) = Spawned \<and> last (lc_history lc) = lc_state lc \<and>
     successively can_transition (lc_history lc)"

lemma lc_ok_new [simp]: "lc_ok new_lifecycle"
  by (simp add: lc_ok_def new_lifecycle_def)

lemma lc_ok_transition: "lc_ok lc \<Longrightarrow> lc_ok (snd (transition to lc))"
  by (auto simp: lc_ok_def transition_def successively_append_iff)

lemma terminal_final: "is_terminal a \<Longrightarrow> \<not> can_transition a b"
  by (simp add: can_transition_def)

lemma transition_terminal: "lc_terminal lc \<Longrightarrow> transition to lc = (False, lc)"
  by (simp add: transition_def terminal_final lc_terminal_def)

text \<open>Every transition moves the state up in this rank, so no state occurs twice in a history.\<close>

primrec state_rank :: "worker_state \<Rightarrow> nat" where
  "state_rank Spawned = 0"
| "state_rank Handshaking = 1"
| "state_rank Running = 2"
| "state_rank Draining = 3"
| "state_rank Exited = 4"
| "state_rank Crashed = 4"
| "state_rank Killed = 4"

lemma can_transition_rank: "can_transition a b \<Longrightarrow> state_rank a < state_rank b"
  by (cases a; cases b) (auto simp: can_transition_def is_terminal_def)

lemma path_rank: "successively can_transition (a # as) \<Longrightarrow> state_rank a + length as \<le> state_rank (last (a # as))"
proof (induction as arbitrary: a)
  case (Cons b as)
  then have "state_rank b + length as \<le> state_rank (last (b # as))" "state_rank a < state_rank b"
    using can_transition_rank by auto
  then show ?case by simp
qed simp

lemma state_rank_le: "state_rank a \<le> 4"
  by (cases a) auto

lemma history_bounded: "lc_ok lc \<Longrightarrow> length (lc_history lc) \<le> 5"
  using path_rank [of "hd (lc_history lc)" "tl (lc_history lc)"] state_rank_le [of "last (lc_history lc)"]
  by (cases "lc_history lc") (auto simp: lc_ok_def)

text \<open>A worker's history, after any sequence of attempted transitions, is a path of legal
  transitions from \<open>Spawned\<close> to its current state, has at most five entries, and never changes
  again once a terminal state is reached.\<close>

theorem lifecycle_history:
  "let lc = fold (\<lambda>to. snd \<circ> transition to) tos new_lifecycle
   in lc_ok lc \<and> length (lc_history lc) \<le> 5 \<and> (lc_terminal lc \<longrightarrow> fold (\<lambda>to. snd \<circ> transition to) tos' lc = lc)"
proof -
  have ok: "lc_ok (fold (\<lambda>to. snd \<circ> transition to) tos lc)" if "lc_ok lc" for lc
    using that by (induction tos arbitrary: lc) (auto simp: lc_ok_transition)
  have fin: "fold (\<lambda>to. snd \<circ> transition to) ts lc = lc" if "lc_terminal lc" for ts lc
    using that by (induction ts) (auto simp: transition_terminal)
  show ?thesis using ok [OF lc_ok_new] history_bounded fin by (simp add: Let_def)
qed

theorem lifecycle_history_witness:
  "let lc = fold (\<lambda>to. snd \<circ> transition to) [Handshaking, Running, Spawned, Killed] new_lifecycle
   in lc_history lc = [Spawned, Handshaking, Running, Killed] \<and>
      fold (\<lambda>to. snd \<circ> transition to) [Exited, Crashed] lc = lc"
  using lifecycle_history [of "[Handshaking, Running, Spawned, Killed]" "[Exited, Crashed]"]
  by (simp add: Let_def new_lifecycle_def transition_def can_transition_def is_terminal_def lc_terminal_def)

end
