(* ===== verification/Supervisor.thy ===== *)
theory Supervisor
  imports Control Lifecycle
begin

text \<open>
  The worker supervisor (src/vkrelay2/windows/supervisor/worker_supervisor.hpp and
  worker_supervisor.cpp): launching workers, their registration with a one-time token, heartbeats,
  the monitor that requests termination and observes exits, authenticated close, and shutdown.

  The supervisor is shared by threads; every access to the session table happens under one mutex, so
  the model is a transition system whose steps are the critical sections. The local state of the
  threads is kept beside the object: a session spawned but not inserted yet (\<open>sup_inflight\<close>) and
  the point each worker connection has reached (\<open>sup_conns\<close>). Sleeping and joining threads is not
  represented. Clock readings, the outcome of spawning a process, the observed process exits and
  the messages a connection delivers are inputs of the steps. A time point is its number of
  nanoseconds; a process is represented by its validity and the number of termination requests.
\<close>

section \<open>Sessions\<close>

definition ms :: "int \<Rightarrow> int" where
  "ms n = n * 1000000"

definition kChannelCloseGraceMs :: int where
  "kChannelCloseGraceMs = 1000"

definition kTerminateEscalateMs :: int where
  "kTerminateEscalateMs = 1000"

definition kLauncherCloseGraceMs :: int where
  "kLauncherCloseGraceMs = 250"

record session =
  se_worker_id :: string
  se_app_instance_id :: string
  se_token :: string
  se_app_token :: string
  se_sidecar_token :: string
  se_gpu_name :: string
  se_op_trace_path :: string
  se_display_layout :: "display_layout option"
  se_data_plane_port :: int
  se_sidecar_plane_port :: int
  se_proc_valid :: bool
  se_terminates :: nat
  se_lifecycle :: lifecycle
  se_last_heartbeat :: int
  se_heartbeats :: int
  se_connected :: bool
  se_channel_closed :: bool
  se_channel_closed_at :: int
  se_termination_requested :: bool
  se_termination_requested_at :: int
  se_launcher_close_requested :: bool
  se_launcher_close_requested_at :: int

abbreviation se_state :: "session \<Rightarrow> worker_state" where
  "se_state s \<equiv> lc_state (se_lifecycle s)"

abbreviation se_terminal :: "session \<Rightarrow> bool" where
  "se_terminal s \<equiv> lc_terminal (se_lifecycle s)"

definition terminate_proc :: "session \<Rightarrow> session" where
  "terminate_proc s = s\<lparr>se_terminates := se_terminates s + 1\<rparr>"

record supervisor_config =
  cfg_worker_path :: string
  cfg_heartbeat_timeout_ms :: int
  cfg_worker_interval_ms :: int
  cfg_worker_count :: int
  cfg_extra_worker_args :: "string list"
  cfg_devices :: "gpu_device list"
  cfg_devices_real :: bool
  cfg_sidecar_plane :: bool

text \<open>The progress of one worker connection in \<open>handle_worker_connection\<close>: waiting for the hello,
  looking for the session of a hello (with the number of attempts made), about to send the
  acknowledgement of a registered worker, serving its heartbeats, or finished.\<close>

datatype conn_state =
    AwaitHello
  | Matching worker_hello nat
  | Acking string worker_ack
  | Serving string
  | Finished

record supervisor =
  sup_config :: supervisor_config
  sup_devices :: "gpu_device list"
  sup_devices_real :: bool
  sup_ids :: id_allocator
  sup_wc_port :: int
  sup_sessions :: "(string \<times> session) list"
  sup_stopping :: bool
  sup_token_counter :: nat
  sup_inflight :: "session list"
  sup_conns :: "conn_state list"

definition new_supervisor :: "supervisor_config \<Rightarrow> string \<Rightarrow> int \<Rightarrow> supervisor" where
  "new_supervisor cfg session_id port =
     \<lparr>sup_config = cfg,
      sup_devices = (if cfg_devices cfg = [] then probe_mocked else cfg_devices cfg),
      sup_devices_real = (cfg_devices cfg \<noteq> [] \<and> cfg_devices_real cfg),
      sup_ids = \<lparr>ids_session = session_id, ids_next = 1\<rparr>, sup_wc_port = port, sup_sessions = [],
      sup_stopping = False, sup_token_counter = 1, sup_inflight = [], sup_conns = []\<rparr>"

definition token_text :: "nat \<Rightarrow> string \<Rightarrow> string" where
  "token_text n wid = ''tok-'' @ nat_str n @ ''-'' @ wid"

definition mint_token :: "string \<Rightarrow> supervisor \<Rightarrow> string \<times> supervisor" where
  "mint_token wid st =
     (token_text (sup_token_counter st) wid, st\<lparr>sup_token_counter := u64 (sup_token_counter st + 1)\<rparr>)"

definition find_by_token :: "string \<Rightarrow> supervisor \<Rightarrow> session option" where
  "find_by_token token st = map_option snd (List.find (\<lambda>kv. se_token (snd kv) = token) (sup_sessions st))"

definition find_by_worker :: "string \<Rightarrow> supervisor \<Rightarrow> session option" where
  "find_by_worker wid st = map_of (sup_sessions st) wid"

definition on_session :: "string \<Rightarrow> (session \<Rightarrow> session) \<Rightarrow> supervisor \<Rightarrow> supervisor" where
  "on_session wid f st = st\<lparr>sup_sessions := omap_at wid f (sup_sessions st)\<rparr>"

section \<open>Launching a worker\<close>

record spawn_args =
  spa_gpu_selector :: string
  spa_heartbeat_count :: int
  spa_app_instance_id :: string
  spa_app_token :: string
  spa_data_plane :: bool
  spa_sidecar_plane :: bool
  spa_profile_enabled :: bool
  spa_op_trace_enabled :: bool
  spa_input_trace_enabled :: bool
  spa_display_layout :: "display_layout option"

record spawn_request =
  sr_argv :: "string list"
  sr_env_overrides :: "(string \<times> string) list"
  sr_new_group :: bool

text \<open>What a launch takes from its environment: the error of spawning a process, if any, the clock
  readings after it and when the launch starts to wait for the worker, and the path of the trace file
  of a worker.\<close>

record spawn_env =
  env_spawn_error :: "spawn_request \<Rightarrow> string option"
  env_now :: int
  env_wait_now :: int
  env_trace_path :: "string \<Rightarrow> string"

definition build_worker_argv ::
  "string \<Rightarrow> int \<Rightarrow> string \<Rightarrow> string \<Rightarrow> gpu_device \<Rightarrow> bool \<Rightarrow> int \<Rightarrow> int \<Rightarrow> bool \<Rightarrow> string \<Rightarrow> bool \<Rightarrow> string \<Rightarrow>
   string list \<Rightarrow> string list" where
  "build_worker_argv worker_path port wid token device devices_real interval_ms heartbeat_count data_plane app_token
     sidecar_plane sidecar_token extra =
     [worker_path, ''--connect'', ''127.0.0.1:'' @ int_str port, ''--worker-id'', wid, ''--token'', token, ''--gpu'',
      gd_name device, ''--interval-ms'', int_str interval_ms, ''--count'', int_str heartbeat_count]
     @ (if devices_real
        then [''--gpu-required''] @ (if gd_luid device \<noteq> [] then [''--gpu-luid'', gd_luid device] else [])
        else [])
     @ (if data_plane then [''--data-plane'', ''--app-token'', app_token] else [])
     @ (if sidecar_plane then [''--sidecar-plane'', ''--sidecar-token'', sidecar_token] else [])
     @ extra"

definition new_session :: "string \<Rightarrow> string \<Rightarrow> string \<Rightarrow> spawn_args \<Rightarrow> gpu_device \<Rightarrow> string \<Rightarrow> int \<Rightarrow> session" where
  "new_session wid token sidecar_token a device trace_path now =
     \<lparr>se_worker_id = wid, se_app_instance_id = spa_app_instance_id a, se_token = token, se_app_token = spa_app_token a,
      se_sidecar_token = sidecar_token, se_gpu_name = gd_name device, se_op_trace_path = trace_path,
      se_display_layout = spa_display_layout a, se_data_plane_port = 0, se_sidecar_plane_port = 0, se_proc_valid = True,
      se_terminates = 0, se_lifecycle = new_lifecycle, se_last_heartbeat = now, se_heartbeats = 0, se_connected = False,
      se_channel_closed = False, se_channel_closed_at = 0, se_termination_requested = False,
      se_termination_requested_at = 0, se_launcher_close_requested = False, se_launcher_close_requested_at = 0\<rparr>"

definition spawn_request_of :: "supervisor \<Rightarrow> string \<Rightarrow> string \<Rightarrow> string \<Rightarrow> spawn_args \<Rightarrow> gpu_device \<Rightarrow> string \<Rightarrow> spawn_request" where
  "spawn_request_of st wid token sidecar_token a device trace_path =
     \<lparr>sr_argv = build_worker_argv (cfg_worker_path (sup_config st)) (sup_wc_port st) wid token device (sup_devices_real st)
        (cfg_worker_interval_ms (sup_config st)) (spa_heartbeat_count a) (spa_data_plane a) (spa_app_token a)
        (spa_sidecar_plane a) sidecar_token (cfg_extra_worker_args (sup_config st)),
      sr_env_overrides =
        (if spa_profile_enabled a then [(''VKRELAY2_PROFILE'', ''1'')] else [])
        @ (if spa_input_trace_enabled a then [(''VKRELAY2_INPUT_TRACE'', ''1'')] else [])
        @ (if spa_op_trace_enabled a then [(''VKRELAY2_OP_TRACE_PATH'', trace_path)] else []),
      sr_new_group = True\<rparr>"

text \<open>\<open>spawn_and_register\<close> up to the critical section: the identifiers are minted, the process is
  spawned, the session is complete but not in the table yet.\<close>

definition prepare_session :: "spawn_env \<Rightarrow> spawn_args \<Rightarrow> supervisor \<Rightarrow> (string + session) \<times> supervisor" where
  "prepare_session env a st =
     (if sup_stopping st then (Inl ''supervisor is shutting down'', st)
      else case parse_selector (spa_gpu_selector a) of
        SelThrow \<Rightarrow> (Inl ''stoi'', st)
      | SelError e \<Rightarrow> (Inl (''invalid GPU selector: '' @ e), st)
      | SelOk sel \<Rightarrow>
          (case select_device (sup_devices st) sel of
             (None, reason) \<Rightarrow> (Inl reason, st)
           | (Some device, _) \<Rightarrow>
               let (wid, ids) = next_worker_id (sup_ids st);
                   (token, st1) = mint_token wid (st\<lparr>sup_ids := ids\<rparr>);
                   (sidecar_token, st2) =
                     (if spa_sidecar_plane a
                      then (let (t, st') = mint_token wid st1 in (''sidecar-'' @ t, st')) else ([], st1));
                   trace_path = (if spa_op_trace_enabled a then env_trace_path env wid else []);
                   req = spawn_request_of st wid token sidecar_token a device trace_path
               in case (case spa_display_layout a of None \<Rightarrow> Inr () | Some l \<Rightarrow> validate_display_layout l) of
                    Inl reason \<Rightarrow> (Inl (''refusing invalid display snapshot at worker launch: '' @ reason), st2)
                  | Inr _ \<Rightarrow>
                      (case env_spawn_error env req of
                         Some e \<Rightarrow> (Inl e, st2)
                       | None \<Rightarrow> (Inr (new_session wid token sidecar_token a device trace_path (env_now env)), st2))))"

text \<open>The critical section of \<open>spawn_and_register\<close>.\<close>

definition insert_session :: "session \<Rightarrow> supervisor \<Rightarrow> (string + string) \<times> supervisor" where
  "insert_session s st =
     (if sup_stopping st then (Inl ''supervisor is shutting down'', st)
      else (Inr (se_worker_id s), st\<lparr>sup_sessions := omap_put (se_worker_id s) s (sup_sessions st)\<rparr>))"

definition spawn_and_register :: "spawn_env \<Rightarrow> spawn_args \<Rightarrow> supervisor \<Rightarrow> (string + string) \<times> supervisor" where
  "spawn_and_register env a st =
     (case prepare_session env a st of
        (Inl e, st') \<Rightarrow> (Inl e, st')
      | (Inr s, st') \<Rightarrow> insert_session s st')"

definition worker_args :: "string \<Rightarrow> int \<Rightarrow> spawn_args" where
  "worker_args selector count =
     \<lparr>spa_gpu_selector = selector, spa_heartbeat_count = count, spa_app_instance_id = [], spa_app_token = [],
      spa_data_plane = False, spa_sidecar_plane = False, spa_profile_enabled = False, spa_op_trace_enabled = False,
      spa_input_trace_enabled = False, spa_display_layout = None\<rparr>"

definition launch_worker :: "spawn_env \<Rightarrow> string \<Rightarrow> int \<Rightarrow> supervisor \<Rightarrow> (string + string) \<times> supervisor" where
  "launch_worker env selector count = spawn_and_register env (worker_args selector count)"

text \<open>The arguments of the launch of an application session; its token is minted first.\<close>

definition session_args :: "launch_request \<Rightarrow> supervisor \<Rightarrow> spawn_args \<times> supervisor" where
  "session_args r st =
     (let (t, st') = mint_token (lr_gpu_selector r) st
      in (\<lparr>spa_gpu_selector = lr_gpu_selector r, spa_heartbeat_count = 0, spa_app_instance_id = lr_app_instance_id r,
           spa_app_token = ''app-'' @ t, spa_data_plane = True, spa_sidecar_plane = cfg_sidecar_plane (sup_config st),
           spa_profile_enabled = lr_profile_enabled r, spa_op_trace_enabled = lr_op_trace_enabled r,
           spa_input_trace_enabled = lr_input_trace_enabled r, spa_display_layout = lr_display_layout r\<rparr>, st'))"

text \<open>One look of \<open>launch_session\<close> at its worker: the session's description when it has reported its
  ports, a failure when it is already terminal, otherwise keep waiting.\<close>

datatype launch_poll = Up session_info | Died | Pending

definition poll_launch :: "string \<Rightarrow> supervisor \<Rightarrow> launch_poll" where
  "poll_launch wid st =
     (let sidecar_plane = cfg_sidecar_plane (sup_config st) in
      case find_by_worker wid st of
        None \<Rightarrow> Pending
      | Some s \<Rightarrow>
          if se_connected s \<and> 0 < se_data_plane_port s \<and> (\<not> sidecar_plane \<or> 0 < se_sidecar_plane_port s)
          then Up \<lparr>si_worker_id = wid, si_data_plane_host = ''127.0.0.1'', si_data_plane_port = se_data_plane_port s,
                   si_app_token = se_app_token s,
                   si_sidecar_plane_host = (if sidecar_plane then ''127.0.0.1'' else []),
                   si_sidecar_plane_port = (if sidecar_plane then se_sidecar_plane_port s else 0),
                   si_sidecar_token = (if sidecar_plane then se_sidecar_token s else []),
                   si_op_trace_path = se_op_trace_path s,
                   si_display_snapshot_id = (case se_display_layout s of None \<Rightarrow> [] | Some l \<Rightarrow> snapshot_id l)\<rparr>
          else if se_terminal s then Died
          else Pending)"

section \<open>Worker connections\<close>

text \<open>The critical section of one registration attempt. It returns the acknowledged worker and the
  layout it is to use.\<close>

definition register_worker :: "worker_hello \<Rightarrow> int \<Rightarrow> supervisor \<Rightarrow> (string \<times> layout_decode) option \<times> supervisor" where
  "register_worker hello now st =
     (case find_by_token (wh_token hello) st of
        None \<Rightarrow> (None, st)
      | Some s \<Rightarrow>
          if se_worker_id s = wh_worker_id hello \<and> se_state s = Spawned \<and> \<not> se_connected s
          then let (ok1, lc1) = transition Handshaking (se_lifecycle s);
                   (ok2, lc2) = (if ok1 then transition Running lc1 else (False, lc1))
               in if ok2
                  then (Some (se_worker_id s,
                          case se_display_layout s of None \<Rightarrow> LayoutAbsent | Some l \<Rightarrow> LayoutValid l),
                        on_session (se_worker_id s)
                          (\<lambda>s. s\<lparr>se_lifecycle := lc2, se_connected := True, se_last_heartbeat := now,
                                 se_data_plane_port := wh_data_plane_port hello,
                                 se_sidecar_plane_port := wh_sidecar_plane_port hello, se_token := []\<rparr>) st)
                  else (None, on_session (se_worker_id s) (\<lambda>s. s\<lparr>se_lifecycle := lc2\<rparr>) st)
          else (None, st))"

definition note_heartbeat :: "string \<Rightarrow> int \<Rightarrow> supervisor \<Rightarrow> supervisor" where
  "note_heartbeat wid now =
     on_session wid (\<lambda>s. s\<lparr>se_heartbeats := i64 (se_heartbeats s + 1), se_last_heartbeat := now\<rparr>)"

definition note_channel_closed :: "string \<Rightarrow> int \<Rightarrow> supervisor \<Rightarrow> supervisor" where
  "note_channel_closed wid now =
     on_session wid (\<lambda>s. s\<lparr>se_connected := False, se_channel_closed := True, se_channel_closed_at := now\<rparr>)"

text \<open>What \<open>recv\<close> gives the handler of a connection: a message, the end of the stream, or an
  exception.\<close>

datatype recv_outcome = Message message_type jval | Closed | Failed

definition max_attempts :: nat where
  "max_attempts = 200"

definition conn_recv :: "conn_state \<Rightarrow> recv_outcome \<Rightarrow> int \<Rightarrow> supervisor \<Rightarrow> conn_state \<times> supervisor" where
  "conn_recv c r now st =
     (case c of
        AwaitHello \<Rightarrow>
          (case r of
             Message ty body \<Rightarrow> (if ty = WorkerHello then Matching (worker_hello_from_body body) 0 else Finished, st)
           | _ \<Rightarrow> (Finished, st))
      | Serving wid \<Rightarrow>
          (case r of
             Message ty body \<Rightarrow> (Serving wid, if ty = Heartbeat then note_heartbeat wid now st else st)
           | _ \<Rightarrow> (Finished, note_channel_closed wid now st))
      | _ \<Rightarrow> (c, st))"

definition conn_attempt :: "conn_state \<Rightarrow> int \<Rightarrow> supervisor \<Rightarrow> conn_state \<times> supervisor" where
  "conn_attempt c now st =
     (case c of
        Matching hello k \<Rightarrow>
          if k < max_attempts \<and> \<not> sup_stopping st
          then (case register_worker hello now st of
                  (Some (wid, layout), st') \<Rightarrow>
                    (Acking wid \<lparr>wa_ok = True, wa_reason = [], wa_display_layout = layout\<rparr>, st')
                | (None, st') \<Rightarrow> (Matching hello (k + 1), st'))
          else (Finished, st)
      | _ \<Rightarrow> (c, st))"

definition conn_acked :: "conn_state \<Rightarrow> bool \<Rightarrow> int \<Rightarrow> supervisor \<Rightarrow> conn_state \<times> supervisor" where
  "conn_acked c sent now st =
     (case c of
        Acking wid ack \<Rightarrow> if sent then (Serving wid, st) else (Finished, note_channel_closed wid now st)
      | _ \<Rightarrow> (c, st))"

section \<open>The monitor\<close>

definition terminal_state :: "bool \<Rightarrow> int \<Rightarrow> worker_state \<Rightarrow> worker_state" where
  "terminal_state exited code current = (if exited \<and> code = 0 \<and> current = Running then Exited else Crashed)"

text \<open>The reason for requesting the termination of a worker that is still alive.\<close>

definition termination_reason :: "int \<Rightarrow> int \<Rightarrow> session \<Rightarrow> string option" where
  "termination_reason timeout now s =
     (if se_launcher_close_requested s \<and> now - se_launcher_close_requested_at s > ms kLauncherCloseGraceMs
      then Some ''launcher closed app session''
      else if se_launcher_close_requested s then None
      else if se_channel_closed s \<and> now - se_channel_closed_at s > ms kChannelCloseGraceMs
      then Some ''control channel dropped while process still alive''
      else if se_channel_closed s then None
      else if se_connected s \<and> now - se_last_heartbeat s > timeout then Some ''missed heartbeat deadline''
      else if \<not> se_connected s \<and> now - se_last_heartbeat s > timeout then Some ''did not register before deadline''
      else None)"

definition request_termination :: "int \<Rightarrow> session \<Rightarrow> session" where
  "request_termination now s =
     (if \<not> se_termination_requested s
      then (terminate_proc s)\<lparr>se_termination_requested := True, se_termination_requested_at := now, se_connected := False\<rparr>
      else if now - se_termination_requested_at s > ms kTerminateEscalateMs
      then (terminate_proc s)\<lparr>se_termination_requested_at := now\<rparr>
      else s)"

definition monitor_session :: "int \<Rightarrow> int \<Rightarrow> int option \<Rightarrow> session \<Rightarrow> session" where
  "monitor_session timeout now exit_code s =
     (if se_terminal s then s
      else case (if se_proc_valid s then exit_code else None) of
        Some code \<Rightarrow>
          s\<lparr>se_lifecycle := snd (transition
               (if se_termination_requested s then Killed else terminal_state True code (se_state s)) (se_lifecycle s)),
            se_connected := False\<rparr>
      | None \<Rightarrow>
          (case termination_reason timeout now s of None \<Rightarrow> s | Some reason \<Rightarrow> request_termination now s))"

text \<open>One pass of \<open>monitor_loop\<close>; \<open>exits\<close> gives the exit code of a worker whose process is gone.\<close>

definition monitor_pass :: "int \<Rightarrow> (string \<Rightarrow> int option) \<Rightarrow> supervisor \<Rightarrow> supervisor" where
  "monitor_pass now exits st =
     st\<lparr>sup_sessions := map (\<lambda>(k, s). (k, monitor_session (ms (cfg_heartbeat_timeout_ms (sup_config st))) now (exits k) s))
        (sup_sessions st)\<rparr>"

section \<open>Closing a session\<close>

datatype close_request = CloseRefused string | CloseDone string | CloseWait

definition request_close :: "string \<Rightarrow> string \<Rightarrow> string \<Rightarrow> int \<Rightarrow> supervisor \<Rightarrow> close_request \<times> supervisor" where
  "request_close app_instance_id wid app_token now st =
     (case find_by_worker wid st of
        None \<Rightarrow> (CloseRefused ''session credentials do not match'', st)
      | Some s \<Rightarrow>
          if se_app_instance_id s \<noteq> app_instance_id \<or> se_app_token s \<noteq> app_token
          then (CloseRefused ''session credentials do not match'', st)
          else if se_terminal s then (CloseDone ''session already ended'', st)
          else if \<not> se_launcher_close_requested s
          then (CloseWait, on_session wid
                  (\<lambda>s. s\<lparr>se_launcher_close_requested := True, se_launcher_close_requested_at := now\<rparr>) st)
          else (CloseWait, st))"

definition session_ended :: "string \<Rightarrow> supervisor \<Rightarrow> bool" where
  "session_ended wid st = (case find_by_worker wid st of None \<Rightarrow> False | Some s \<Rightarrow> se_terminal s)"

section \<open>Shutdown and queries\<close>

definition terminate_all :: "supervisor \<Rightarrow> supervisor" where
  "terminate_all st = st\<lparr>sup_sessions := map (\<lambda>(k, s). (k, terminate_proc s)) (sup_sessions st)\<rparr>"

text \<open>The three critical sections of \<open>shutdown\<close> besides the termination of the workers: no more
  launches and connections, and, when every connection handler has ended, an empty table. The
  accept loop hands a new connection to a handler until then.\<close>

definition accept_worker :: "supervisor \<Rightarrow> supervisor" where
  "accept_worker st = (if sup_stopping st then st else st\<lparr>sup_conns := sup_conns st @ [AwaitHello]\<rparr>)"

definition begin_shutdown :: "supervisor \<Rightarrow> supervisor" where
  "begin_shutdown st = st\<lparr>sup_stopping := True\<rparr>"

definition finish_shutdown :: "supervisor \<Rightarrow> supervisor" where
  "finish_shutdown st =
     (if sup_stopping st \<and> list_all (\<lambda>c. c = Finished) (sup_conns st) then st\<lparr>sup_sessions := []\<rparr> else st)"

lemmas shutdown_simps [simp] = accept_worker_def begin_shutdown_def finish_shutdown_def

definition active_count :: "supervisor \<Rightarrow> nat" where
  "active_count st = length (filter (\<lambda>kv. \<not> se_terminal (snd kv)) (sup_sessions st))"

definition total_heartbeats :: "supervisor \<Rightarrow> int" where
  "total_heartbeats st = foldl (\<lambda>n kv. i64 (n + se_heartbeats (snd kv))) 0 (sup_sessions st)"

record worker_status =
  ws_worker_id :: string
  ws_app_instance_id :: string
  ws_gpu_name :: string
  ws_state :: worker_state
  ws_heartbeats :: int
  ws_connected :: bool

definition sup_snapshot :: "supervisor \<Rightarrow> worker_status list" where
  "sup_snapshot st = map (\<lambda>(k, s).
     \<lparr>ws_worker_id = se_worker_id s, ws_app_instance_id = se_app_instance_id s, ws_gpu_name = se_gpu_name s,
      ws_state = se_state s, ws_heartbeats = se_heartbeats s, ws_connected = se_connected s\<rparr>) (sup_sessions st)"

section \<open>Steps\<close>

text \<open>The steps of all threads. A launch for an application and a plain worker launch prepare a
  session; \<open>EvInsert\<close> is its critical section. \<open>EvGiveUp\<close> is the end of a launch whose worker did
  not come up. \<open>EvStop\<close>, \<open>EvTerminateAll\<close> and \<open>EvClear\<close> are the three critical sections of
  \<open>shutdown\<close>; the last one follows the end of every connection handler.\<close>

datatype sup_event =
    EvLaunch spawn_env launch_request
  | EvWorker spawn_env string int
  | EvInsert nat
  | EvGiveUp string
  | EvAccept
  | EvRecv nat recv_outcome int
  | EvAttempt nat int
  | EvAcked nat bool int
  | EvMonitor int "string \<Rightarrow> int option"
  | EvClose string string string int
  | EvStop
  | EvTerminateAll
  | EvClear

definition prepare_step :: "spawn_env \<Rightarrow> spawn_args \<Rightarrow> supervisor \<Rightarrow> supervisor" where
  "prepare_step env a st =
     (case prepare_session env a st of
        (Inl e, st') \<Rightarrow> st'
      | (Inr s, st') \<Rightarrow> st'\<lparr>sup_inflight := sup_inflight st' @ [s]\<rparr>)"

definition conn_step :: "nat \<Rightarrow> (conn_state \<Rightarrow> supervisor \<Rightarrow> conn_state \<times> supervisor) \<Rightarrow> supervisor \<Rightarrow> supervisor" where
  "conn_step i f st =
     (if i < length (sup_conns st)
      then let (c, st') = f (sup_conns st ! i) st in st'\<lparr>sup_conns := (sup_conns st)[i := c]\<rparr>
      else st)"

fun sup_exec :: "sup_event \<Rightarrow> supervisor \<Rightarrow> supervisor" where
  "sup_exec (EvLaunch env r) st = (let (a, st') = session_args r st in prepare_step env a st')"
| "sup_exec (EvWorker env selector count) st = prepare_step env (worker_args selector count) st"
| "sup_exec (EvInsert i) st =
     (if i < length (sup_inflight st)
      then (snd (insert_session (sup_inflight st ! i) st))
             \<lparr>sup_inflight := take i (sup_inflight st) @ drop (i + 1) (sup_inflight st)\<rparr>
      else st)"
| "sup_exec (EvGiveUp wid) st = on_session wid terminate_proc st"
| "sup_exec EvAccept st = accept_worker st"
| "sup_exec (EvRecv i r now) st = conn_step i (\<lambda>c. conn_recv c r now) st"
| "sup_exec (EvAttempt i now) st = conn_step i (\<lambda>c. conn_attempt c now) st"
| "sup_exec (EvAcked i sent now) st = conn_step i (\<lambda>c. conn_acked c sent now) st"
| "sup_exec (EvMonitor now exits) st = monitor_pass now exits st"
| "sup_exec (EvClose app wid token now) st = snd (request_close app wid token now st)"
| "sup_exec EvStop st = begin_shutdown st"
| "sup_exec EvTerminateAll st = (if sup_stopping st then terminate_all st else st)"
| "sup_exec EvClear st = finish_shutdown st"

text \<open>The states reachable in a number of steps from a fresh supervisor.\<close>

inductive sup_reach :: "supervisor \<Rightarrow> nat \<Rightarrow> supervisor \<Rightarrow> bool" for st0 where
  start: "sup_reach st0 0 st0"
| more: "sup_reach st0 n st \<Longrightarrow> sup_reach st0 (Suc n) (sup_exec e st)"

section \<open>Waiting operations\<close>

text \<open>
  \<open>launch_session\<close> and \<open>close_session\<close> release the mutex between their looks at the table. What the
  other threads do meanwhile is the list of slices: the clock reading after a look, and the steps
  until the next one. When the slices are used up the call has not returned yet (\<open>None\<close>).
\<close>

definition launch_failed :: "string \<Rightarrow> supervisor \<Rightarrow> (string + session_info) option \<times> supervisor" where
  "launch_failed wid st =
     (Some (Inl (''worker '' @ wid @ '' did not report a data-plane endpoint'')), sup_exec (EvGiveUp wid) st)"

fun launch_wait ::
  "string \<Rightarrow> int \<Rightarrow> (int \<times> sup_event list) list \<Rightarrow> supervisor \<Rightarrow> (string + session_info) option \<times> supervisor" where
  "launch_wait wid deadline [] st = (None, st)"
| "launch_wait wid deadline ((now, evs) # slices) st =
     (case poll_launch wid st of
        Up info \<Rightarrow> (Some (Inr info), st)
      | Died \<Rightarrow> launch_failed wid (fold sup_exec evs st)
      | Pending \<Rightarrow>
          if deadline \<le> now then launch_failed wid (fold sup_exec evs st)
          else launch_wait wid deadline slices (fold sup_exec evs st))"

definition sup_launch_session ::
  "spawn_env \<Rightarrow> (int \<times> sup_event list) list \<Rightarrow> launch_request \<Rightarrow> supervisor \<Rightarrow> (string + session_info) option \<times> supervisor" where
  "sup_launch_session env slices r st =
     (let (a, st1) = session_args r st in
      case spawn_and_register env a st1 of
        (Inl e, st2) \<Rightarrow> (Some (Inl e), st2)
      | (Inr wid, st2) \<Rightarrow>
          launch_wait wid (env_wait_now env + ms (cfg_heartbeat_timeout_ms (sup_config st))) slices st2)"

fun close_wait :: "string \<Rightarrow> int \<Rightarrow> (int \<times> sup_event list) list \<Rightarrow> supervisor \<Rightarrow> (bool \<times> string) option \<times> supervisor" where
  "close_wait wid deadline [] st = (None, st)"
| "close_wait wid deadline ((now, evs) # slices) st =
     (if deadline \<le> now then (Some (False, ''timed out waiting for worker teardown''), st)
      else if session_ended wid st then (Some (True, ''session ended''), st)
      else close_wait wid deadline slices (fold sup_exec evs st))"

definition sup_close_session ::
  "int \<Rightarrow> (int \<times> sup_event list) list \<Rightarrow> string \<Rightarrow> string \<Rightarrow> string \<Rightarrow> supervisor \<Rightarrow> (bool \<times> string) option \<times> supervisor" where
  "sup_close_session now slices app_instance_id wid app_token st =
     (case request_close app_instance_id wid app_token now st of
        (CloseRefused reason, st') \<Rightarrow> (Some (False, reason), st')
      | (CloseDone reason, st') \<Rightarrow> (Some (True, reason), st')
      | (CloseWait, st') \<Rightarrow> close_wait wid (now + ms (cfg_heartbeat_timeout_ms (sup_config st))) slices st')"

end
