(* ===== verification/Supervisor_Correct.thy ===== *)
theory Supervisor_Correct
  imports Supervisor
begin

text \<open>
  The invariant of the supervisor over all interleavings of its critical sections, and what follows
  from it: identifiers are unique, a token registers at most one connection, terminal states are
  entered only by observing a process exit and never left, and closing a session needs its
  credentials.
\<close>

section \<open>Tokens and identifiers\<close>

lemma nat_str_sep:
  assumes "nat_str m @ c # xs = nat_str n @ c # ys" and "\<not> is_digit c"
  shows "m = n \<and> xs = ys"
proof -
  have "takeWhile is_digit (nat_str m @ c # xs) = nat_str m" "takeWhile is_digit (nat_str n @ c # ys) = nat_str n"
    using takeWhile_dropWhile_run(1) [OF nat_str_digits] assms(2) by auto
  then have "nat_str m = nat_str n" using assms(1) by simp
  then show ?thesis using assms(1) nat_str_inj by auto
qed

lemma token_text_inj: "token_text m v = token_text n w \<Longrightarrow> m = n \<and> v = w"
  using nat_str_sep [of m "CHR ''-''" v n w] by (simp add: token_text_def is_digit_def)

lemma token_text_not_Nil [simp]: "token_text m w \<noteq> []" "[] \<noteq> token_text m w"
  by (simp_all add: token_text_def)

section \<open>The invariant\<close>

definition all_sessions :: "supervisor \<Rightarrow> session list" where
  "all_sessions st = map snd (sup_sessions st) @ sup_inflight st"

definition session_ok :: "session \<Rightarrow> bool" where
  "session_ok s \<longleftrightarrow> lc_ok (se_lifecycle s) \<and> se_state s \<notin> {Handshaking, Draining} \<and>
     (se_connected s \<longrightarrow> se_state s = Running) \<and>
     (se_state s = Spawned \<longrightarrow> se_token s \<noteq> []) \<and> (se_state s = Running \<longrightarrow> se_token s = []) \<and>
     (se_token s = [] \<or> (\<exists>m. se_token s = token_text m (se_worker_id s)))"

definition minted_id :: "nat \<Rightarrow> string \<Rightarrow> bool" where
  "minted_id bound wid \<longleftrightarrow> (\<exists>m. 1 \<le> m \<and> m < bound \<and> wid = ''wkr-'' @ nat_str m)"

definition table_ok :: "nat \<Rightarrow> supervisor \<Rightarrow> bool" where
  "table_ok n st \<longleftrightarrow> omap_ok (sup_sessions st) \<and>
     list_all (\<lambda>(k, s). k = se_worker_id s) (sup_sessions st) \<and>
     distinct (map se_worker_id (sup_inflight st)) \<and>
     list_all (\<lambda>s. se_worker_id s \<notin> fst ` set (sup_sessions st)) (sup_inflight st) \<and>
     list_all (\<lambda>s. session_ok s \<and> minted_id (ids_next (sup_ids st)) (se_worker_id s)) (all_sessions st) \<and>
     list_all (\<lambda>s. se_state s = Spawned) (sup_inflight st) \<and>
     1 \<le> ids_next (sup_ids st) \<and> ids_next (sup_ids st) \<le> n + 1"

primrec speaks :: "conn_state \<Rightarrow> string option" where
  "speaks AwaitHello = None"
| "speaks (Matching h k) = None"
| "speaks (Acking wid ack) = Some wid"
| "speaks (Serving wid) = Some wid"
| "speaks Finished = None"

definition speaks_for :: "supervisor \<Rightarrow> nat \<Rightarrow> string \<Rightarrow> bool" where
  "speaks_for st i wid \<longleftrightarrow> i < length (sup_conns st) \<and> speaks (sup_conns st ! i) = Some wid"

definition conns_ok :: "supervisor \<Rightarrow> bool" where
  "conns_ok st \<longleftrightarrow>
     (\<forall>i j wid. speaks_for st i wid \<and> speaks_for st j wid \<longrightarrow> i = j) \<and>
     (\<forall>i wid. speaks_for st i wid \<longrightarrow> (\<exists>s. find_by_worker wid st = Some s \<and> se_state s \<noteq> Spawned)) \<and>
     (\<forall>wid s. find_by_worker wid st = Some s \<and> se_connected s \<longrightarrow> (\<exists>i. speaks_for st i wid))"

definition sup_ok :: "nat \<Rightarrow> supervisor \<Rightarrow> bool" where
  "sup_ok n st \<longleftrightarrow> table_ok n st \<and> conns_ok st"

lemma conns_okD:
  assumes "conns_ok st"
  shows conns_inj: "speaks_for st i w \<Longrightarrow> speaks_for st j w \<Longrightarrow> i = j"
    and conns_registered: "speaks_for st i w \<Longrightarrow> \<exists>s. find_by_worker w st = Some s \<and> se_state s \<noteq> Spawned"
    and conns_connected: "find_by_worker w st = Some s \<Longrightarrow> se_connected s \<Longrightarrow> \<exists>i. speaks_for st i w"
  using assms unfolding conns_ok_def by meson+

lemma conns_okI:
  assumes "\<And>i j w. speaks_for st i w \<Longrightarrow> speaks_for st j w \<Longrightarrow> i = j"
    and "\<And>i w. speaks_for st i w \<Longrightarrow> \<exists>s. find_by_worker w st = Some s \<and> se_state s \<noteq> Spawned"
    and "\<And>w s. find_by_worker w st = Some s \<Longrightarrow> se_connected s \<Longrightarrow> \<exists>i. speaks_for st i w"
  shows "conns_ok st"
  using assms unfolding conns_ok_def by meson

section \<open>Changing sessions in place\<close>

definition upd_ok :: "session \<Rightarrow> session \<Rightarrow> bool" where
  "upd_ok s s' \<longleftrightarrow> se_worker_id s' = se_worker_id s \<and> (session_ok s \<longrightarrow> session_ok s')"

definition map_sessions :: "(string \<Rightarrow> session \<Rightarrow> session) \<Rightarrow> supervisor \<Rightarrow> supervisor" where
  "map_sessions g st = st\<lparr>sup_sessions := map (\<lambda>(k, s). (k, g k s)) (sup_sessions st)\<rparr>"

lemma on_session_map: "on_session wid f = map_sessions (\<lambda>k s. if k = wid then f s else s)"
  by (simp add: on_session_def map_sessions_def omap_at_def fun_eq_iff cong: map_cong)

lemma map_sessions_sel [simp]:
  "sup_inflight (map_sessions g st) = sup_inflight st" "sup_conns (map_sessions g st) = sup_conns st"
  "sup_ids (map_sessions g st) = sup_ids st" "sup_config (map_sessions g st) = sup_config st"
  "sup_stopping (map_sessions g st) = sup_stopping st"
  by (simp_all add: map_sessions_def)

lemma map_of_map_entries: "map_of (map (\<lambda>(k, v). (k, g k v)) m) k = map_option (g k) (map_of m k)"
  by (induction m) auto

lemma find_map_sessions: "find_by_worker wid (map_sessions g st) = map_option (g wid) (find_by_worker wid st)"
  by (simp add: find_by_worker_def map_sessions_def map_of_map_entries)

lemma map_sessions_keys: "map fst (sup_sessions (map_sessions g st)) = map fst (sup_sessions st)"
  by (auto simp: map_sessions_def)

lemma table_ok_map_sessions:
  assumes ok: "table_ok n st" and upd: "\<And>k s. (k, s) \<in> set (sup_sessions st) \<Longrightarrow> upd_ok s (g k s)"
  shows "table_ok n (map_sessions g st)"
proof -
  have ids: "fst ` set (sup_sessions (map_sessions g st)) = fst ` set (sup_sessions st)"
    by (force simp: map_sessions_def)
  have ok': "session_ok s \<and> minted_id (ids_next (sup_ids st)) (se_worker_id s)" if "s \<in> set (all_sessions st)" for s
    using ok that by (auto simp: table_ok_def list_all_iff)
  have "session_ok s \<and> minted_id (ids_next (sup_ids st)) (se_worker_id s)" if "s \<in> set (all_sessions (map_sessions g st))" for s
    using that ok' upd by (fastforce simp: all_sessions_def map_sessions_def upd_ok_def)
  moreover have "k = se_worker_id s" if "(k, s) \<in> set (sup_sessions (map_sessions g st))" for k s
    using that ok upd by (fastforce simp: map_sessions_def table_ok_def list_all_iff upd_ok_def)
  ultimately show ?thesis
    using ok ids unfolding table_ok_def omap_ok_def map_sessions_keys by (auto simp: list_all_iff)
qed

lemma conns_ok_map_sessions:
  assumes "conns_ok st"
    and "\<And>k s. find_by_worker k st = Some s \<Longrightarrow> (se_connected (g k s) \<longrightarrow> se_connected s) \<and> (se_state (g k s) = Spawned \<longrightarrow> se_state s = Spawned)"
  shows "conns_ok (map_sessions g st)"
proof -
  have sp: "speaks_for (map_sessions g st) i w = speaks_for st i w" for i w by (simp add: speaks_for_def)
  show ?thesis
  proof (rule conns_okI, unfold sp)
    fix i w assume "speaks_for st i w"
    then obtain s where "find_by_worker w st = Some s" "se_state s \<noteq> Spawned" using conns_registered [OF assms(1)] by meson
    then show "\<exists>s. find_by_worker w (map_sessions g st) = Some s \<and> se_state s \<noteq> Spawned"
      using assms(2) by (auto simp: find_map_sessions)
  next
    fix w s assume f: "find_by_worker w (map_sessions g st) = Some s" and c: "se_connected s"
    then obtain s0 where "find_by_worker w st = Some s0" "s = g w s0" by (auto simp: find_map_sessions)
    then show "\<exists>i. speaks_for st i w" using assms(2) c conns_connected [OF assms(1)] by auto
  qed (rule conns_inj [OF assms(1)])
qed

lemma in_all_sessions: "(k, s) \<in> set (sup_sessions st) \<Longrightarrow> s \<in> set (all_sessions st)"
  by (simp add: all_sessions_def rev_image_eqI)

lemma in_table_session_ok:
  assumes "table_ok n st" and "(k, s) \<in> set (sup_sessions st)"
  shows "session_ok s" and "k = se_worker_id s"
proof -
  have "list_all (\<lambda>s. session_ok s \<and> minted_id (ids_next (sup_ids st)) (se_worker_id s)) (all_sessions st)"
    and "list_all (\<lambda>(k, s). k = se_worker_id s) (sup_sessions st)"
    using assms(1) by (simp_all add: table_ok_def)
  then show "session_ok s" "k = se_worker_id s"
    using assms(2) in_all_sessions [OF assms(2)] by (auto simp: list_all_iff)
qed

text \<open>A change of sessions that keeps them well-formed, connects none and moves none back.\<close>

lemma sup_ok_map_sessions:
  assumes "sup_ok n st"
    and "\<And>k s. session_ok s \<Longrightarrow> session_ok (g k s) \<and> se_worker_id (g k s) = se_worker_id s \<and>
      (se_connected (g k s) \<longrightarrow> se_connected s) \<and> (se_state (g k s) = Spawned \<longrightarrow> se_state s = Spawned)"
  shows "sup_ok n (map_sessions g st)"
proof -
  have t: "table_ok n st" and c: "conns_ok st" using assms(1) by (simp_all add: sup_ok_def)
  have so: "session_ok s" if "(k, s) \<in> set (sup_sessions st)" for k s using in_table_session_ok(1) [OF t that] .
  have "table_ok n (map_sessions g st)"
    using t so assms(2) by (intro table_ok_map_sessions) (auto simp: upd_ok_def)
  moreover have "conns_ok (map_sessions g st)"
    using c so assms(2) by (intro conns_ok_map_sessions) (auto simp: find_by_worker_def dest!: map_of_SomeD)
  ultimately show ?thesis by (simp add: sup_ok_def)
qed

section \<open>The operations keep sessions well-formed\<close>

lemma exit_target:
  "can_transition (se_state s) (if r then Killed else terminal_state True code (se_state s)) \<or> se_terminal s"
  "is_terminal (if r then Killed else terminal_state True code (se_state s))"
  by (auto simp: can_transition_def terminal_state_def is_terminal_def lc_terminal_def)

lemma monitor_session_exit:
  fixes code
  assumes "\<not> se_terminal s" "se_proc_valid s"
  defines "to \<equiv> if se_termination_requested s then Killed else terminal_state True code (se_state s)"
  shows "monitor_session timeout now (Some code) s =
    s\<lparr>se_lifecycle := (se_lifecycle s)\<lparr>lc_state := to, lc_history := lc_history (se_lifecycle s) @ [to]\<rparr>, se_connected := False\<rparr>"
  using assms(1,2) exit_target(1) [of s "se_termination_requested s" code] unfolding to_def
  by (simp add: monitor_session_def transition_def)

lemma monitor_session_cases:
  obtains (keep) "monitor_session timeout now x s = s"
  | (exit) code where "x = Some code" "\<not> se_terminal s" "se_proc_valid s"
  | (request) "\<not> se_terminal s" "monitor_session timeout now x s = request_termination now s"
proof (cases "se_terminal s")
  case True
  show ?thesis by (rule keep) (simp add: True monitor_session_def)
next
  case nt: False
  show ?thesis
  proof (cases "if se_proc_valid s then x else None")
    case (Some code)
    then show ?thesis by (intro exit [of code] nt) (auto split: if_splits)
  next
    case None
    then have m: "monitor_session timeout now x s =
        (case termination_reason timeout now s of None \<Rightarrow> s | Some reason \<Rightarrow> request_termination now s)"
      using nt by (simp add: monitor_session_def)
    show ?thesis
    proof (cases "termination_reason timeout now s")
      case None
      show ?thesis by (rule keep) (simp add: m None)
    next
      case (Some r)
      show ?thesis by (rule request) (simp_all add: m Some nt)
    qed
  qed
qed

lemma session_ok_request_termination:
  "session_ok s \<Longrightarrow> session_ok (request_termination now s)"
  "se_lifecycle (request_termination now s) = se_lifecycle s" "se_worker_id (request_termination now s) = se_worker_id s"
  "se_connected (request_termination now s) \<longrightarrow> se_connected s"
  by (auto simp: request_termination_def terminate_proc_def session_ok_def)

lemma session_ok_exit:
  assumes "session_ok s" "\<not> se_terminal s" "se_proc_valid s"
  shows "session_ok (monitor_session timeout now (Some code) s)"
proof -
  define to where "to = (if se_termination_requested s then Killed else terminal_state True code (se_state s))"
  have "can_transition (se_state s) to" "is_terminal to" using exit_target(1) [of s "se_termination_requested s" code] exit_target(2) [of "se_termination_requested s" code s] assms(2)
    by (auto simp: to_def)
  moreover have "lc_ok (snd (transition to (se_lifecycle s)))" using assms(1) by (simp add: lc_ok_transition session_ok_def)
  ultimately have "lc_ok ((se_lifecycle s)\<lparr>lc_state := to, lc_history := lc_history (se_lifecycle s) @ [to]\<rparr>)"
    by (simp add: transition_def)
  moreover have "monitor_session timeout now (Some code) s =
      s\<lparr>se_lifecycle := (se_lifecycle s)\<lparr>lc_state := to, lc_history := lc_history (se_lifecycle s) @ [to]\<rparr>, se_connected := False\<rparr>"
    unfolding to_def by (rule monitor_session_exit [OF assms(2,3)])
  moreover have "to \<notin> {Spawned, Handshaking, Running, Draining}" using \<open>is_terminal to\<close> by (auto simp: is_terminal_def)
  ultimately show ?thesis using assms(1) by (simp add: session_ok_def)
qed

lemma session_ok_monitor:
  assumes "session_ok s"
  shows "session_ok (monitor_session timeout now x s) \<and> se_worker_id (monitor_session timeout now x s) = se_worker_id s \<and>
    (se_connected (monitor_session timeout now x s) \<longrightarrow> se_connected s) \<and>
    (se_state (monitor_session timeout now x s) = Spawned \<longrightarrow> se_state s = Spawned)"
proof (cases rule: monitor_session_cases [of timeout now x s])
  case (exit code)
  note eq = monitor_session_exit [OF exit(2,3), of timeout now code]
  have "is_terminal (se_state (monitor_session timeout now x s))"
    using exit_target(2) [of "se_termination_requested s" code s] unfolding exit(1) eq by simp
  moreover have "session_ok (monitor_session timeout now x s)"
    unfolding exit(1) by (rule session_ok_exit [OF assms exit(2,3)])
  moreover have "se_worker_id (monitor_session timeout now x s) = se_worker_id s" "\<not> se_connected (monitor_session timeout now x s)"
    unfolding exit(1) eq by simp_all
  ultimately show ?thesis by (auto simp: is_terminal_def)
qed (use assms session_ok_request_termination in auto)

lemma monitor_pass_map: "monitor_pass now exits st = map_sessions (\<lambda>k. monitor_session (ms (cfg_heartbeat_timeout_ms (sup_config st))) now (exits k)) st"
  by (simp add: monitor_pass_def map_sessions_def)

lemma terminate_all_map: "terminate_all st = map_sessions (\<lambda>k. terminate_proc) st"
  by (simp add: terminate_all_def map_sessions_def)

lemma sup_ok_monitor: "sup_ok n st \<Longrightarrow> sup_ok n (monitor_pass now exits st)"
  unfolding monitor_pass_map by (rule sup_ok_map_sessions) (use session_ok_monitor in auto)

lemma sup_ok_terminate: "sup_ok n st \<Longrightarrow> sup_ok n (terminate_all st)"
  unfolding terminate_all_map by (rule sup_ok_map_sessions) (auto simp: session_ok_def terminate_proc_def)

lemma sup_ok_give_up: "sup_ok n st \<Longrightarrow> sup_ok n (on_session wid terminate_proc st)"
  unfolding on_session_map by (rule sup_ok_map_sessions) (auto simp: session_ok_def terminate_proc_def)

lemma sup_ok_heartbeat: "sup_ok n st \<Longrightarrow> sup_ok n (note_heartbeat wid now st)"
  unfolding note_heartbeat_def on_session_map by (rule sup_ok_map_sessions) (auto simp: session_ok_def)

lemma sup_ok_request_close: "sup_ok n st \<Longrightarrow> sup_ok n (snd (request_close app wid token now st))"
  using sup_ok_map_sessions [of n st "\<lambda>k s. if k = wid then s\<lparr>se_launcher_close_requested := True, se_launcher_close_requested_at := now\<rparr> else s"]
  by (auto simp: request_close_def on_session_map session_ok_def split: option.split)

section \<open>Launching\<close>

lemma minted_id_mono: "minted_id m wid \<Longrightarrow> m \<le> n \<Longrightarrow> minted_id n wid"
  by (auto simp: minted_id_def)

lemma minted_id_fresh: "\<not> minted_id n (''wkr-'' @ nat_str n)"
  by (auto simp: minted_id_def dest: nat_str_inj)

lemma speaks_for_cong: "sup_conns st' = sup_conns st \<Longrightarrow> speaks_for st' = speaks_for st"
  by (simp add: speaks_for_def fun_eq_iff)

lemma find_by_worker_cong: "sup_sessions st' = sup_sessions st \<Longrightarrow> find_by_worker w st' = find_by_worker w st"
  by (simp add: find_by_worker_def)

lemma conns_ok_cong: "sup_sessions st' = sup_sessions st \<Longrightarrow> sup_conns st' = sup_conns st \<Longrightarrow> conns_ok st' = conns_ok st"
  by (simp add: conns_ok_def find_by_worker_def speaks_for_def)

lemma table_ok_advance:
  assumes "table_ok n st" and "sup_sessions st' = sup_sessions st" "sup_inflight st' = sup_inflight st"
    and "ids_next (sup_ids st) \<le> ids_next (sup_ids st')" "ids_next (sup_ids st') \<le> ids_next (sup_ids st) + 1"
  shows "table_ok (Suc n) st'"
proof -
  have "all_sessions st' = all_sessions st" using assms by (simp add: all_sessions_def)
  moreover have "minted_id (ids_next (sup_ids st)) w \<Longrightarrow> minted_id (ids_next (sup_ids st')) w" for w
    using assms(4) minted_id_mono by blast
  ultimately show ?thesis using assms by (auto simp: table_ok_def list_all_iff)
qed

lemma prepare_session_shape:
  assumes "prepare_session env a st = (r, st')" and "ids_next (sup_ids st) + 1 < 2 ^ 64"
  shows "sup_sessions st' = sup_sessions st \<and> sup_inflight st' = sup_inflight st \<and> sup_conns st' = sup_conns st \<and>
    ids_next (sup_ids st) \<le> ids_next (sup_ids st') \<and> ids_next (sup_ids st') \<le> ids_next (sup_ids st) + 1"
    and "r = Inr s \<Longrightarrow> ids_next (sup_ids st') = ids_next (sup_ids st) + 1 \<and>
      se_worker_id s = ''wkr-'' @ nat_str (ids_next (sup_ids st)) \<and> se_lifecycle s = new_lifecycle \<and> \<not> se_connected s \<and>
      (\<exists>m. se_token s = token_text m (se_worker_id s))"
  using assms
  by (auto simp: prepare_session_def next_worker_id_def mint_token_def Let_def u64_id new_session_def
      split: if_splits selector_parse.splits prod.splits option.splits sum.splits)

lemma table_ok_add_inflight:
  assumes "table_ok n st" "sup_sessions st' = sup_sessions st" "sup_inflight st' = sup_inflight st @ [s]"
    and "ids_next (sup_ids st') = ids_next (sup_ids st) + 1" "se_worker_id s = ''wkr-'' @ nat_str (ids_next (sup_ids st))"
    and "session_ok s" "se_state s = Spawned"
  shows "table_ok (Suc n) st'"
proof -
  let ?N = "ids_next (sup_ids st)"
  have old: "minted_id ?N (se_worker_id t)" if "t \<in> set (all_sessions st)" for t
    using assms(1) that by (simp add: table_ok_def list_all_iff)
  have fresh: "se_worker_id s \<noteq> se_worker_id t" if "t \<in> set (all_sessions st)" for t
    using old [OF that] minted_id_fresh assms(5) by metis
  have "se_worker_id s \<notin> fst ` set (sup_sessions st)"
  proof
    assume "se_worker_id s \<in> fst ` set (sup_sessions st)"
    then obtain k t where "(k, t) \<in> set (sup_sessions st)" "k = se_worker_id s" by auto
    then show False using in_table_session_ok(2) [OF assms(1)] in_all_sessions fresh by metis
  qed
  moreover have "minted_id (?N + 1) (se_worker_id s)"
    using assms(1,5) by (auto simp: minted_id_def table_ok_def)
  moreover have "minted_id (?N + 1) (se_worker_id t)" if "t \<in> set (all_sessions st)" for t
    using old [OF that] minted_id_mono [of ?N _ "?N + 1"] by simp
  moreover have "set (all_sessions st') = insert s (set (all_sessions st))" "se_worker_id s \<notin> se_worker_id ` set (sup_inflight st)"
    using assms(2,3) fresh by (auto simp: all_sessions_def)
  ultimately show ?thesis
    using assms by (auto simp: table_ok_def list_all_iff)
qed

lemma sup_ok_prepare:
  assumes "sup_ok n st" and "n + 2 < 2 ^ 64"
  shows "sup_ok (Suc n) (prepare_step env a st)"
proof -
  obtain r st' where p: "prepare_session env a st = (r, st')" by force
  have t: "table_ok n st" "conns_ok st" and "ids_next (sup_ids st) + 1 < 2 ^ 64"
    using assms by (simp_all add: sup_ok_def table_ok_def)
  note shape = prepare_session_shape [OF p this(3)]
  show ?thesis
  proof (cases r)
    case (Inl e)
    then show ?thesis
      using p t shape(1) by (simp add: prepare_step_def sup_ok_def table_ok_advance [OF t(1)] conns_ok_cong [of st' st])
  next
    case (Inr s)
    note new = shape(2) [OF Inr]
    have "session_ok s" using new by (auto simp: session_ok_def new_lifecycle_def lc_ok_def)
    then have "table_ok (Suc n) (st'\<lparr>sup_inflight := sup_inflight st' @ [s]\<rparr>)"
      using t(1) shape(1) new by (intro table_ok_add_inflight [OF t(1)]) (auto simp: new_lifecycle_def)
    moreover have "conns_ok (st'\<lparr>sup_inflight := sup_inflight st' @ [s]\<rparr>)"
      using t(2) shape(1) by (simp add: conns_ok_def find_by_worker_def speaks_for_def)
    ultimately show ?thesis using p Inr by (simp add: prepare_step_def sup_ok_def)
  qed
qed

lemma session_args_shape:
  "session_args r st = (a, st') \<Longrightarrow> sup_sessions st' = sup_sessions st \<and> sup_inflight st' = sup_inflight st \<and>
    sup_conns st' = sup_conns st \<and> sup_ids st' = sup_ids st"
  by (auto simp: session_args_def mint_token_def Let_def)

lemma sup_ok_session_args: "sup_ok n st \<Longrightarrow> session_args r st = (a, st') \<Longrightarrow> sup_ok n st'"
  using session_args_shape [of r st a st']
  by (simp add: sup_ok_def table_ok_def all_sessions_def conns_ok_def find_by_worker_def speaks_for_def)

lemma set_take_drop: "set (take i xs @ drop (i + 1) xs) \<subseteq> set xs"
  using set_take_subset [of i xs] set_drop_subset [of "i + 1" xs] by auto

lemma distinct_map_take_drop:
  assumes "i < length xs" "distinct (map f xs)"
  shows "distinct (map f (take i xs @ drop (i + 1) xs))" "\<forall>x \<in> set (take i xs @ drop (i + 1) xs). f x \<noteq> f (xs ! i)"
proof -
  have "map f xs = map f (take i xs) @ f (xs ! i) # map f (drop (i + 1) xs)"
    using assms(1) by (metis Suc_eq_plus1 append_take_drop_id Cons_nth_drop_Suc list.simps(9) map_append)
  then show "distinct (map f (take i xs @ drop (i + 1) xs))" "\<forall>x \<in> set (take i xs @ drop (i + 1) xs). f x \<noteq> f (xs ! i)"
    using assms(2) by (auto simp: image_iff)
qed

lemma find_insert:
  "find_by_worker w (snd (insert_session s st)) =
     (if w = se_worker_id s \<and> \<not> sup_stopping st then Some s else find_by_worker w st)"
  by (simp add: insert_session_def find_by_worker_def map_of_omap_put)

lemma inflight_fresh: "table_ok n st \<Longrightarrow> s \<in> set (sup_inflight st) \<Longrightarrow> find_by_worker (se_worker_id s) st = None"
  by (simp add: table_ok_def list_all_iff find_by_worker_def map_of_eq_None_iff)

lemma insert_sessions:
  assumes i: "i < length (sup_inflight st)"
  defines "s \<equiv> sup_inflight st ! i" and "st' \<equiv> sup_exec (EvInsert i) st"
  shows "set (sup_sessions st') \<subseteq> insert (se_worker_id s, s) (set (sup_sessions st))"
    and "set (all_sessions st') \<subseteq> set (all_sessions st)"
proof -
  have sess: "sup_sessions st' = (if sup_stopping st then sup_sessions st else omap_put (se_worker_id s) s (sup_sessions st))"
    and rest: "sup_inflight st' = take i (sup_inflight st) @ drop (i + 1) (sup_inflight st)"
    using i by (simp_all add: st'_def s_def insert_session_def)
  show sub: "set (sup_sessions st') \<subseteq> insert (se_worker_id s, s) (set (sup_sessions st))"
    using set_omap_put [of "se_worker_id s" s "sup_sessions st"] by (auto simp: sess)
  have 1: "snd ` set (sup_sessions st') \<subseteq> insert s (snd ` set (sup_sessions st))"
    using image_mono [OF sub, of snd] by simp
  have 2: "insert s (snd ` set (sup_sessions st)) \<subseteq> set (all_sessions st)"
    using i by (simp add: all_sessions_def s_def)
  have 3: "set (all_sessions st') = snd ` set (sup_sessions st') \<union> set (take i (sup_inflight st) @ drop (i + 1) (sup_inflight st))"
    by (simp only: all_sessions_def rest set_append set_map)
  have 4: "set (take i (sup_inflight st) @ drop (i + 1) (sup_inflight st)) \<subseteq> set (all_sessions st)"
    using set_take_drop [of i "sup_inflight st"] by (simp add: all_sessions_def le_supI2)
  show "set (all_sessions st') \<subseteq> set (all_sessions st)"
    unfolding 3 by (rule Un_least [OF subset_trans [OF 1 2] 4])
qed

lemma sup_ok_insert:
  assumes "sup_ok n st" and i: "i < length (sup_inflight st)"
  shows "sup_ok n (sup_exec (EvInsert i) st)"
proof -
  let ?s = "sup_inflight st ! i" and ?rest = "take i (sup_inflight st) @ drop (i + 1) (sup_inflight st)"
  define st' where "st' = sup_exec (EvInsert i) st"
  have t: "table_ok n st" and c: "conns_ok st" using assms(1) by (simp_all add: sup_ok_def)
  have s: "session_ok ?s" "se_state ?s = Spawned" "se_worker_id ?s \<notin> fst ` set (sup_sessions st)" "?s \<in> set (all_sessions st)"
    using t i by (auto simp: table_ok_def list_all_iff all_sessions_def)
  have sess: "sup_sessions st' = (if sup_stopping st then sup_sessions st else omap_put (se_worker_id ?s) ?s (sup_sessions st))"
    and rest: "sup_inflight st' = ?rest" "sup_conns st' = sup_conns st" "sup_ids st' = sup_ids st"
    using i by (simp_all add: st'_def insert_session_def)
  note sub = insert_sessions(1) [OF i, folded st'_def]
  have keys: "fst ` set (sup_sessions st') \<subseteq> insert (se_worker_id ?s) (fst ` set (sup_sessions st))"
    using image_mono [OF sub, of fst] by simp
  have "set (all_sessions st') \<subseteq> set (all_sessions st)" by (rule insert_sessions(2) [OF i, folded st'_def])
  moreover have "omap_ok (sup_sessions st')" using t by (simp add: sess table_ok_def omap_ok_put)
  moreover have "\<forall>(k, s') \<in> set (sup_sessions st'). k = se_worker_id s'" using t sub by (fastforce simp: table_ok_def list_all_iff)
  moreover have "distinct (map se_worker_id ?rest)"
    using distinct_map_take_drop(1) [OF i, of se_worker_id] t by (simp add: table_ok_def)
  moreover have "se_worker_id x \<notin> fst ` set (sup_sessions st') \<and> se_state x = Spawned" if x: "x \<in> set ?rest" for x
  proof -
    have "x \<in> set (sup_inflight st)" by (rule subsetD [OF set_take_drop x])
    then have "se_worker_id x \<notin> fst ` set (sup_sessions st)" "se_state x = Spawned"
      using t by (simp_all add: table_ok_def list_all_iff)
    moreover have "se_worker_id x \<noteq> se_worker_id ?s"
      using distinct_map_take_drop(2) [OF i, of se_worker_id] t x by (simp add: table_ok_def)
    ultimately show ?thesis using subsetD [OF keys, of "se_worker_id x"] by auto
  qed
  ultimately have "table_ok n st'"
    using t rest unfolding table_ok_def list_all_iff by (simp add: subset_iff)
  moreover have "conns_ok st'"
  proof -
    have "find_by_worker (se_worker_id ?s) st = None" using s(3) by (simp add: find_by_worker_def map_of_eq_None_iff)
    moreover have "find_by_worker w st' = (if w = se_worker_id ?s \<and> \<not> sup_stopping st then Some ?s else find_by_worker w st)" for w
      using i find_insert [of w ?s st] by (simp add: st'_def find_by_worker_def)
    moreover have "\<not> se_connected ?s" using s(1,2) by (auto simp: session_ok_def)
    moreover have "speaks_for st' = speaks_for st" using rest(2) by (rule speaks_for_cong)
    ultimately show ?thesis
      using conns_inj [OF c] conns_registered [OF c] conns_connected [OF c]
      by (intro conns_okI) (auto split: if_splits, metis option.distinct(1))
  qed
  ultimately show ?thesis by (simp add: sup_ok_def st'_def [symmetric] del: sup_exec.simps)
qed

section \<open>Connections\<close>

abbreviation set_conn :: "nat \<Rightarrow> conn_state \<Rightarrow> supervisor \<Rightarrow> supervisor" where
  "set_conn i c st \<equiv> st\<lparr>sup_conns := (sup_conns st)[i := c]\<rparr>"

lemma table_ok_conns [simp]: "table_ok n (st\<lparr>sup_conns := cs\<rparr>) = table_ok n st"
  by (simp add: table_ok_def all_sessions_def)

lemma find_conns [simp]:
  "find_by_worker w (st\<lparr>sup_conns := cs\<rparr>) = find_by_worker w st" "find_by_worker w (st\<lparr>sup_stopping := b\<rparr>) = find_by_worker w st"
  "find_by_worker w (st\<lparr>sup_inflight := ss\<rparr>) = find_by_worker w st"
  by (simp_all add: find_by_worker_def)

lemma speaks_for_set_conn:
  "i < length (sup_conns st) \<Longrightarrow>
    speaks_for (set_conn i c st) j w \<longleftrightarrow> (if j = i then speaks c = Some w else speaks_for st j w)"
  by (auto simp: speaks_for_def nth_list_update)

text \<open>A connection that keeps speaking for the same worker, or stays silent.\<close>

lemma conns_ok_quiet:
  assumes "conns_ok st" "i < length (sup_conns st)" "speaks c = speaks (sup_conns st ! i)"
  shows "conns_ok (set_conn i c st)"
proof -
  have "speaks_for (set_conn i c st) = speaks_for st"
    using assms(2,3) by (auto simp: fun_eq_iff speaks_for_set_conn) (auto simp: speaks_for_def)
  then show ?thesis using assms(1) by (simp add: conns_ok_def)
qed

text \<open>A connection that hangs up, with the bookkeeping of its worker.\<close>

lemma conns_ok_hang_up:
  assumes ok: "conns_ok st" and i: "i < length (sup_conns st)" and w: "speaks (sup_conns st ! i) = Some w"
  shows "conns_ok (set_conn i Finished (note_channel_closed w now st))"
proof -
  let ?st' = "set_conn i Finished (note_channel_closed w now st)"
  have sp: "speaks_for ?st' j v \<longleftrightarrow> j \<noteq> i \<and> speaks_for st j v" for j v
    using i by (auto simp: speaks_for_def note_channel_closed_def on_session_def nth_list_update)
  have fd: "find_by_worker v (note_channel_closed w now st) = (if v = w then map_option (\<lambda>s. s\<lparr>se_connected := False, se_channel_closed := True,
      se_channel_closed_at := now\<rparr>) (find_by_worker w st) else find_by_worker v st)" for v
    by (simp add: find_by_worker_def note_channel_closed_def on_session_def map_of_omap_at)
  show ?thesis
  proof (rule conns_okI)
    fix j v assume "speaks_for ?st' j v"
    then show "\<exists>s. find_by_worker v ?st' = Some s \<and> se_state s \<noteq> Spawned"
      using conns_registered [OF ok, of j v] by (auto simp: sp fd)
  next
    fix v s assume "find_by_worker v ?st' = Some s" "se_connected s"
    then have "v \<noteq> w" "find_by_worker v st = Some s" by (auto simp: fd split: if_splits)
    then obtain j where "speaks_for st j v" using conns_connected [OF ok] \<open>se_connected s\<close> by meson
    moreover have "j \<noteq> i" using \<open>v \<noteq> w\<close> w calculation by (auto simp: speaks_for_def)
    ultimately show "\<exists>j. speaks_for ?st' j v" by (auto simp: sp)
  qed (use conns_inj [OF ok] in \<open>auto simp: sp\<close>)
qed

lemma table_ok_closed: "table_ok n st \<Longrightarrow> table_ok n (note_channel_closed w now st)"
  unfolding note_channel_closed_def on_session_map
  by (rule table_ok_map_sessions) (auto simp: upd_ok_def session_ok_def)

text \<open>What a successful registration does: its session was waiting, spoken for by no connection, and
  is now running and connected with its token consumed.\<close>

lemma find_by_token_Some:
  assumes "table_ok n st" "find_by_token tok st = Some s"
  shows "find_by_worker (se_worker_id s) st = Some s" "se_token s = tok" "session_ok s"
proof -
  obtain k where k: "(k, s) \<in> set (sup_sessions st)" "se_token s = tok"
    using assms(2) by (auto simp: find_by_token_def dest!: find_first)
  have "distinct (map fst (sup_sessions st))" using assms(1) omap_ok_distinct by (auto simp: table_ok_def)
  moreover have "k = se_worker_id s" "session_ok s" using in_table_session_ok [OF assms(1) k(1)] by simp_all
  ultimately show "find_by_worker (se_worker_id s) st = Some s" "se_token s = tok" "session_ok s"
    using k by (simp_all add: find_by_worker_def)
qed

definition registered :: "worker_hello \<Rightarrow> int \<Rightarrow> session \<Rightarrow> session" where
  "registered hello now s =
     s\<lparr>se_lifecycle := snd (transition Running (snd (transition Handshaking (se_lifecycle s)))), se_connected := True,
       se_last_heartbeat := now, se_data_plane_port := wh_data_plane_port hello,
       se_sidecar_plane_port := wh_sidecar_plane_port hello, se_token := []\<rparr>"

lemma spawned_transitions:
  assumes "lc_state lc = Spawned"
  shows "fst (transition Handshaking lc)" "fst (transition Running (snd (transition Handshaking lc)))"
    "lc_state (snd (transition Running (snd (transition Handshaking lc)))) = Running"
  using assms by (simp_all add: transition_def can_transition_def is_terminal_def)

lemma register_worker_cases:
  obtains (refused) "register_worker hello now st = (None, st)"
  | (accepted) s where "find_by_token (wh_token hello) st = Some s" "se_worker_id s = wh_worker_id hello" "se_state s = Spawned"
      "\<not> se_connected s"
      "snd (register_worker hello now st) = on_session (se_worker_id s) (\<lambda>s'. s'\<lparr>se_lifecycle := se_lifecycle (registered hello now s), se_connected := True,
       se_last_heartbeat := now, se_data_plane_port := wh_data_plane_port hello,
       se_sidecar_plane_port := wh_sidecar_plane_port hello, se_token := []\<rparr>) st"
      "fst (register_worker hello now st) = Some (se_worker_id s, case se_display_layout s of None \<Rightarrow> LayoutAbsent | Some l \<Rightarrow> LayoutValid l)"
proof (cases "find_by_token (wh_token hello) st")
  case None
  then show ?thesis by (intro refused) (simp add: register_worker_def)
next
  case (Some s)
  show ?thesis
  proof (cases "se_worker_id s = wh_worker_id hello \<and> se_state s = Spawned \<and> \<not> se_connected s")
    case True
    then show ?thesis
      using Some spawned_transitions [of "se_lifecycle s"]
      by (intro accepted [OF Some]) (auto simp: register_worker_def registered_def case_prod_beta)
  next
    case False
    then show ?thesis using Some by (intro refused) (auto simp: register_worker_def)
  qed
qed

lemma session_ok_registered:
  assumes "session_ok s" "se_state s = Spawned"
  shows "session_ok (registered hello now s)" "se_state (registered hello now s) = Running"
  using assms spawned_transitions(3) [of "se_lifecycle s"]
  by (auto simp: session_ok_def registered_def intro!: lc_ok_transition)

lemma sup_ok_registered:
  assumes "sup_ok n st" and s: "find_by_worker w st = Some s" "se_worker_id s = w" "se_state s = Spawned"
    and i: "i < length (sup_conns st)" "speaks (sup_conns st ! i) = None"
    and f: "f s = registered hello now s"
  shows "sup_ok n (set_conn i (Acking w ack) (on_session w f st))"
proof -
  have t: "table_ok n st" and c: "conns_ok st" using assms(1) by (simp_all add: sup_ok_def)
  have "distinct (map fst (sup_sessions st))" using t omap_ok_distinct by (auto simp: table_ok_def)
  then have only: "s' = s" if "(w, s') \<in> set (sup_sessions st)" for s'
    using s(1) map_of_is_SomeI [OF _ that] by (simp add: find_by_worker_def)
  have ok: "session_ok s" using s(1) in_table_session_ok(1) [OF t] by (auto simp: find_by_worker_def dest!: map_of_SomeD)
  have "upd_ok s (f s)" using session_ok_registered(1) [OF ok s(3)] by (simp add: f upd_ok_def) (simp add: registered_def)
  then have "upd_ok s' (if k = w then f s' else s')" if "(k, s') \<in> set (sup_sessions st)" for k s'
    using only [of s'] that by (cases "k = w") (auto simp: upd_ok_def)
  then have "table_ok n (on_session w f st)"
    unfolding on_session_map by (rule table_ok_map_sessions [OF t])
  moreover have "conns_ok (set_conn i (Acking w ack) (on_session w f st))" (is "conns_ok ?st'")
  proof -
    have fd: "find_by_worker v (on_session w f st) = (if v = w then Some (registered hello now s) else find_by_worker v st)" for v
      using s(1) f by (simp add: find_by_worker_def on_session_def map_of_omap_at)
    have sp: "speaks_for ?st' j v \<longleftrightarrow> (if j = i then v = w else speaks_for st j v)" for j v
      using i by (auto simp: speaks_for_def on_session_def nth_list_update)
    have silent: "\<not> speaks_for st j w" for j using conns_registered [OF c, of j w] s(1,3) by auto
    show ?thesis
    proof (rule conns_okI)
      fix j v assume "speaks_for ?st' j v"
      then show "\<exists>s. find_by_worker v ?st' = Some s \<and> se_state s \<noteq> Spawned"
        using conns_registered [OF c, of j v] session_ok_registered(2) [OF ok s(3), of hello now]
        by (auto simp: sp fd split: if_splits)
    next
      fix v s' assume a: "find_by_worker v ?st' = Some s'" "se_connected s'"
      show "\<exists>j. speaks_for ?st' j v"
      proof (cases "v = w")
        case True
        then show ?thesis by (auto simp: sp)
      next
        case False
        then obtain j where "speaks_for st j v" using a conns_connected [OF c, of v s'] by (auto simp: fd)
        moreover have "j \<noteq> i" using calculation i(2) by (auto simp: speaks_for_def)
        ultimately show ?thesis by (auto simp: sp)
      qed
    next
      fix j k v assume "speaks_for ?st' j v" "speaks_for ?st' k v"
      then show "j = k" using conns_inj [OF c, of j v k] silent by (auto simp: sp split: if_splits)
    qed
  qed
  ultimately show ?thesis by (simp add: sup_ok_def)
qed

lemma conn_step_eq:
  "i < length (sup_conns st) \<Longrightarrow> f (sup_conns st ! i) st = (c, st') \<Longrightarrow> sup_conns st' = sup_conns st \<Longrightarrow>
    conn_step i f st = set_conn i c st'"
  by (simp add: conn_step_def)

lemma sup_ok_quiet:
  "sup_ok n st \<Longrightarrow> i < length (sup_conns st) \<Longrightarrow> speaks c = speaks (sup_conns st ! i) \<Longrightarrow> sup_ok n (set_conn i c st)"
  by (simp add: sup_ok_def conns_ok_quiet)

lemma note_conns [simp]:
  "sup_conns (note_heartbeat w now st) = sup_conns st" "sup_conns (note_channel_closed w now st) = sup_conns st"
  "sup_conns (on_session w f st) = sup_conns st"
  by (simp_all add: note_heartbeat_def note_channel_closed_def on_session_def)

lemma sup_ok_hang_up:
  "sup_ok n st \<Longrightarrow> i < length (sup_conns st) \<Longrightarrow> speaks (sup_conns st ! i) = Some w \<Longrightarrow>
    sup_ok n ((note_channel_closed w now st)\<lparr>sup_conns := (sup_conns st)[i := Finished]\<rparr>)"
  using conns_ok_hang_up [of st i w now] by (simp add: sup_ok_def table_ok_closed)

lemma sup_ok_recv:
  assumes "sup_ok n st"
  shows "sup_ok n (conn_step i (\<lambda>c. conn_recv c r now) st)"
proof (cases "i < length (sup_conns st)")
  case i: True
  show ?thesis
  proof (cases "sup_conns st ! i")
    case (Serving w)
    then show ?thesis
      using assms i sup_ok_quiet [OF sup_ok_heartbeat [OF assms, of w now], of i "Serving w"] sup_ok_hang_up [OF assms i, of w now]
      by (auto simp: conn_step_def conn_recv_def intro!: sup_ok_quiet split: recv_outcome.split)
  qed (use assms i in \<open>auto simp: conn_step_def conn_recv_def intro!: sup_ok_quiet split: recv_outcome.split\<close>)
qed (use assms in \<open>simp add: conn_step_def\<close>)

lemma sup_ok_acked:
  assumes "sup_ok n st"
  shows "sup_ok n (conn_step i (\<lambda>c. conn_acked c sent now) st)"
proof (cases "i < length (sup_conns st)")
  case i: True
  show ?thesis
    using assms i
    by (cases "sup_conns st ! i") (auto simp: conn_step_def conn_acked_def intro!: sup_ok_quiet sup_ok_hang_up)
qed (use assms in \<open>simp add: conn_step_def\<close>)

lemma sup_ok_attempt:
  assumes "sup_ok n st"
  shows "sup_ok n (conn_step i (\<lambda>c. conn_attempt c now) st)"
proof (cases "i < length (sup_conns st)")
  case i: True
  show ?thesis
  proof (cases "\<exists>hello k. sup_conns st ! i = Matching hello k \<and> k < max_attempts \<and> \<not> sup_stopping st")
    case True
    then obtain hello k where h: "sup_conns st ! i = Matching hello k" "k < max_attempts" "\<not> sup_stopping st" by blast
    show ?thesis
    proof (cases rule: register_worker_cases [of hello now st])
      case refused
      then show ?thesis
        using assms i h sup_ok_quiet [OF assms i, of "Matching hello (k + 1)"] by (simp add: conn_step_def conn_attempt_def)
    next
      case (accepted s)
      have t: "table_ok n st" using assms by (simp add: sup_ok_def)
      note f = find_by_token_Some [OF t accepted(1)]
      obtain ack where "conn_step i (\<lambda>c. conn_attempt c now) st = set_conn i (Acking (se_worker_id s) ack) (snd (register_worker hello now st))"
        using accepted(5,6) i h by (cases "register_worker hello now st") (auto simp: conn_step_def conn_attempt_def)
      then show ?thesis
        unfolding accepted(5) using f(1) accepted(3) i h(1)
        by (simp only:) (rule sup_ok_registered [OF assms f(1) refl accepted(3) i, of _ hello now], simp_all add: registered_def)
    qed
  next
    case False
    then show ?thesis
      using assms i by (cases "sup_conns st ! i") (auto simp: conn_step_def conn_attempt_def intro!: sup_ok_quiet)
  qed
qed (use assms in \<open>simp add: conn_step_def\<close>)

section \<open>Every step keeps the invariant\<close>

lemma sup_ok_Suc: "sup_ok n st \<Longrightarrow> sup_ok (Suc n) st"
  by (simp add: sup_ok_def table_ok_def)

lemma sup_ok_new: "sup_ok 0 (new_supervisor cfg sid port)"
  by (simp add: sup_ok_def table_ok_def conns_ok_def new_supervisor_def all_sessions_def omap_ok_def find_by_worker_def speaks_for_def)

lemma sup_ok_exec:
  assumes "sup_ok n st" and "n + 2 < 2 ^ 64"
  shows "sup_ok (Suc n) (sup_exec e st)"
proof (cases e)
  case (EvLaunch env r)
  obtain a st' where a: "session_args r st = (a, st')" by force
  show ?thesis
    using EvLaunch a assms(2) sup_ok_prepare [OF sup_ok_session_args [OF assms(1) a]] by simp
next
  case (EvWorker env selector count)
  then show ?thesis using sup_ok_prepare [OF assms] by simp
next
  case (EvInsert i)
  then show ?thesis
    using assms(1) sup_ok_Suc sup_ok_insert [of n st i] by (cases "i < length (sup_inflight st)") auto
next
  case EvAccept
  have "conns_ok (st\<lparr>sup_conns := sup_conns st @ [AwaitHello]\<rparr>)"
  proof -
    have "speaks_for (st\<lparr>sup_conns := sup_conns st @ [AwaitHello]\<rparr>) = speaks_for st"
      by (auto simp: fun_eq_iff speaks_for_def nth_append split: if_splits)
    then show ?thesis using assms(1) by (simp add: sup_ok_def conns_ok_def)
  qed
  then show ?thesis using EvAccept assms(1) by (intro sup_ok_Suc) (auto simp: sup_ok_def)
next
  case EvStop
  then show ?thesis
    using assms(1) by (intro sup_ok_Suc)
      (simp add: sup_ok_def table_ok_def all_sessions_def conns_ok_def find_by_worker_def speaks_for_def)
next
  case EvClear
  have "sup_ok n (st\<lparr>sup_sessions := []\<rparr>)" if "list_all (\<lambda>c. c = Finished) (sup_conns st)"
  proof -
    have "\<not> speaks_for (st\<lparr>sup_sessions := []\<rparr>) i w" for i w
      using that by (auto simp: speaks_for_def list_all_length)
    then show ?thesis
      using assms(1) by (auto simp: sup_ok_def table_ok_def conns_ok_def find_by_worker_def omap_ok_def all_sessions_def list_all_iff)
  qed
  then show ?thesis using EvClear assms(1) sup_ok_Suc by auto
qed (use assms in \<open>auto intro!: sup_ok_Suc sup_ok_give_up sup_ok_recv sup_ok_attempt sup_ok_acked sup_ok_monitor
    sup_ok_request_close sup_ok_terminate\<close>)

lemma sup_reach_ok:
  assumes "sup_reach (new_supervisor cfg sid port) n st" and "n + 1 < 2 ^ 64"
  shows "sup_ok n st"
  using assms by (induction rule: sup_reach.induct) (auto simp: sup_ok_new intro!: sup_ok_exec)

section \<open>How a session changes in a step\<close>

text \<open>The three ways a step can leave a session: its lifecycle as it was, registered by an attempt, or
  ended by the exit a monitor pass observed.\<close>

definition exit_state :: "int \<Rightarrow> session \<Rightarrow> worker_state" where
  "exit_state code s =
     (if se_termination_requested s then Killed else if code = 0 \<and> se_state s = Running then Exited else Crashed)"

definition identity :: "session \<Rightarrow> string list \<times> display_layout option" where
  "identity s =
     ([se_worker_id s, se_app_instance_id s, se_app_token s, se_sidecar_token s, se_gpu_name s, se_op_trace_path s],
      se_display_layout s)"

definition session_move :: "sup_event \<Rightarrow> string \<Rightarrow> session \<Rightarrow> session \<Rightarrow> bool" where
  "session_move e w s s' \<longleftrightarrow> identity s' = identity s \<and>
     (se_lifecycle s' = se_lifecycle s \<or>
     (\<exists>i now. e = EvAttempt i now \<and> se_state s = Spawned \<and> se_state s' = Running \<and> se_token s' = []) \<or>
     (\<exists>now exits code. e = EvMonitor now exits \<and> exits w = Some code \<and> \<not> se_terminal s \<and> se_state s' = exit_state code s))"

text \<open>What every step keeps of the bookkeeping: a request for termination is never taken back, and only a
  monitor pass makes one.\<close>

definition kept :: "sup_event \<Rightarrow> session \<Rightarrow> session \<Rightarrow> bool" where
  "kept e s s' \<longleftrightarrow>
     se_proc_valid s' = se_proc_valid s \<and> se_terminates s \<le> se_terminates s' \<and>
     (se_termination_requested s \<longrightarrow> se_termination_requested s') \<and>
     ((\<forall>now exits. e \<noteq> EvMonitor now exits) \<longrightarrow> se_termination_requested s' = se_termination_requested s)"

lemma find_on_session:
  "find_by_worker v (on_session w f st) = (if v = w then map_option f (find_by_worker w st) else find_by_worker v st)"
  by (simp add: find_by_worker_def on_session_def map_of_omap_at)

lemma monitor_move: "session_move (EvMonitor now exits) w s (monitor_session timeout now (exits w) s)"
proof (cases rule: monitor_session_cases [of timeout now "exits w" s])
  case (exit code)
  show ?thesis
    unfolding session_move_def exit(1) monitor_session_exit [OF exit(2,3)]
    using exit by (auto simp: exit_state_def terminal_state_def identity_def)
qed (auto simp: session_move_def session_ok_request_termination identity_def request_termination_def terminate_proc_def)

lemma monitor_kept: "kept (EvMonitor now exits) s (monitor_session timeout now x s)"
proof (cases rule: monitor_session_cases [of timeout now x s])
  case (exit code)
  show ?thesis unfolding exit(1) monitor_session_exit [OF exit(2,3)] by (simp add: kept_def)
qed (auto simp: kept_def request_termination_def terminate_proc_def)

lemma move_same: "identity s' = identity s \<Longrightarrow> se_lifecycle s' = se_lifecycle s \<Longrightarrow> session_move e w s s'"
  by (simp add: session_move_def)

lemma session_exec:
  assumes ok: "sup_ok n st" and s: "find_by_worker w st = Some s" and "e \<noteq> EvClear"
  shows "\<exists>s'. find_by_worker w (sup_exec e st) = Some s' \<and> session_move e w s s' \<and> kept e s s'"
proof -
  have t: "table_ok n st" using ok by (simp add: sup_ok_def)
  have prep: "find_by_worker w (prepare_step env a st1) = find_by_worker w st1" for env a st1
    by (auto simp: prepare_step_def prepare_session_def mint_token_def next_worker_id_def Let_def find_by_worker_def
        split: if_splits selector_parse.splits prod.splits option.splits sum.splits)
  show ?thesis
  proof (cases e)
    case (EvLaunch env r)
    obtain a st' where a: "session_args r st = (a, st')" by force
    then show ?thesis
      using EvLaunch s session_args_shape [OF a] find_by_worker_cong [of st' st w] by (auto simp: prep move_same kept_def identity_def)
  next
    case (EvInsert i)
    show ?thesis
    proof (cases "i < length (sup_inflight st)")
      case True
      then have "sup_inflight st ! i \<in> set (sup_inflight st)" by simp
      then have "w \<noteq> se_worker_id (sup_inflight st ! i)"
        using inflight_fresh [OF t] s by fastforce
      then show ?thesis
        using EvInsert True s by (auto simp: find_insert move_same kept_def identity_def)
    qed (use EvInsert s in \<open>auto simp: move_same kept_def identity_def\<close>)
  next
    case (EvRecv i r now)
    then show ?thesis
      using s by (auto simp: conn_step_def conn_recv_def note_heartbeat_def note_channel_closed_def find_on_session move_same kept_def identity_def
          split: conn_state.split recv_outcome.split)
  next
    case (EvAttempt i now)
    show ?thesis
    proof (cases "i < length (sup_conns st) \<and> (\<exists>hello k. sup_conns st ! i = Matching hello k \<and> k < max_attempts) \<and> \<not> sup_stopping st")
      case True
      then obtain hello k where h: "i < length (sup_conns st)" "sup_conns st ! i = Matching hello k" "k < max_attempts" "\<not> sup_stopping st"
        by blast
      then have fd: "find_by_worker v (sup_exec e st) = find_by_worker v (snd (register_worker hello now st))" for v
        using EvAttempt by (auto simp: conn_step_def conn_attempt_def split: prod.splits option.splits)
      show ?thesis
      proof (cases rule: register_worker_cases [of hello now st])
        case refused
        then show ?thesis using s by (simp add: fd move_same kept_def identity_def)
      next
        case (accepted s0)
        note f = find_by_token_Some [OF t accepted(1)]
        show ?thesis
        proof (cases "w = se_worker_id s0")
          case True
          then have "s0 = s" using f(1) s by simp
          then show ?thesis
            using True accepted(3) s EvAttempt spawned_transitions(3) [of "se_lifecycle s"]
            unfolding fd accepted(5) find_on_session by (auto simp: session_move_def registered_def identity_def kept_def)
        qed (use s in \<open>simp add: fd accepted(5) find_on_session move_same kept_def identity_def\<close>)
      qed
    next
      case False
      then have "find_by_worker w (sup_exec e st) = find_by_worker w st"
        using EvAttempt by (cases "i < length (sup_conns st)"; cases "sup_conns st ! i")
          (auto simp: conn_step_def conn_attempt_def)
      then show ?thesis using s by (simp add: move_same kept_def identity_def)
    qed
  next
    case (EvAcked i sent now)
    then show ?thesis
      using s by (auto simp: conn_step_def conn_acked_def note_channel_closed_def find_on_session move_same kept_def identity_def
          split: conn_state.split)
  next
    case (EvMonitor now exits)
    then show ?thesis
      using s monitor_move monitor_kept by (auto simp: monitor_pass_map find_map_sessions)
  next
    case (EvClose app v tok now)
    then show ?thesis
      using s by (auto simp: request_close_def find_on_session move_same kept_def identity_def split: option.splits)
  qed (use s assms(3) in \<open>auto simp: prep find_on_session move_same kept_def identity_def terminate_proc_def terminate_all_map find_map_sessions\<close>)
qed

end
