(* ===== verification/Supervisor_Props.thy ===== *)
theory Supervisor_Props
  imports Supervisor_Correct
begin

text \<open>
  What the supervisor guarantees in every interleaving of its threads, on top of the invariant of
  the previous theory: one-time tokens, the moves of a worker's lifecycle, authenticated closing, and
  the termination of a silent worker. A concrete run of a launch up to the registration attempt
  serves the examples.
\<close>

section \<open>A concrete run\<close>

lemma sup_reach_fold: "sup_reach st0 n st \<Longrightarrow> sup_reach st0 (n + length es) (fold sup_exec es st)"
proof (induction es arbitrary: n st)
  case (Cons e es)
  then show ?case using Cons.IH [OF sup_reach.more [OF Cons.prems, of e]] by simp
qed simp

definition demo_config :: supervisor_config where
  "demo_config = \<lparr>cfg_worker_path = ''worker'', cfg_heartbeat_timeout_ms = 3000, cfg_worker_interval_ms = 50,
     cfg_worker_count = 0, cfg_extra_worker_args = [], cfg_devices = [], cfg_devices_real = False, cfg_sidecar_plane = False\<rparr>"

definition demo_env :: spawn_env where
  "demo_env = \<lparr>env_spawn_error = (\<lambda>_. None), env_now = 0, env_wait_now = 0, env_trace_path = (\<lambda>_. [])\<rparr>"

definition demo_worker :: worker_hello where
  "demo_worker = \<lparr>wh_worker_id = ''wkr-1'', wh_token = ''tok-1-wkr-1'', wh_data_plane_port = 4001, wh_sidecar_plane_port = 0\<rparr>"

definition demo_events :: "sup_event list" where
  "demo_events =
     [EvWorker demo_env ''auto'' 0, EvInsert 0, EvAccept, EvRecv 0 (Message WorkerHello (worker_hello_to_body demo_worker)) 1]"

definition demo_spawned :: supervisor where
  "demo_spawned = fold sup_exec demo_events (new_supervisor demo_config ''sup-1'' 4000)"

lemma demo_device: "\<exists>sel d r. parse_selector ''auto'' = SelOk sel \<and> select_device probe_mocked sel = (Some d, r)"
  by (simp add: parse_selector_def fresh_selector_def to_lower_def to_lower_char_def Let_def select_device_def probe_mocked_def
      first_usable_def or_else_def)

lemma demo_spawned_session:
  "\<exists>s. find_by_worker ''wkr-1'' demo_spawned = Some s \<and> se_state s = Spawned \<and> \<not> se_connected s \<and> se_worker_id s = ''wkr-1'' \<and>
     se_token s = ''tok-1-wkr-1'' \<and> sup_conns demo_spawned = [Matching demo_worker 0] \<and> \<not> sup_stopping demo_spawned \<and>
     find_by_token ''tok-1-wkr-1'' demo_spawned = Some s \<and> se_proc_valid s \<and> \<not> se_termination_requested s \<and>
     \<not> se_launcher_close_requested s \<and> \<not> se_channel_closed s \<and> se_last_heartbeat s = 0 \<and> sup_config demo_spawned = demo_config \<and>
     find_by_worker ''wkr-2'' demo_spawned = None"
proof -
  obtain sel d r where "parse_selector ''auto'' = SelOk sel" "select_device probe_mocked sel = (Some d, r)"
    using demo_device by blast
  moreover have "worker_hello_from_body (worker_hello_to_body demo_worker) = demo_worker"
    by (rule worker_hello_rt) (simp add: worker_hello_ok_def demo_worker_def i32_range_def)
  ultimately show ?thesis
    by (simp add: demo_spawned_def demo_events_def demo_config_def new_supervisor_def prepare_step_def prepare_session_def worker_args_def
        demo_env_def next_worker_id_def mint_token_def token_text_def Let_def digit_char_1 insert_session_def conn_step_def conn_recv_def
        find_by_worker_def find_by_token_def new_session_def new_lifecycle_def)
qed

lemma demo_spawned_reach: "sup_reach (new_supervisor demo_config ''sup-1'' 4000) 4 demo_spawned"
proof -
  have "length demo_events = 4" by (simp add: demo_events_def)
  then show ?thesis
    unfolding demo_spawned_def using sup_reach_fold [OF sup_reach.start, of _ demo_events] by simp
qed

section \<open>Tokens\<close>

definition tokens :: "supervisor \<Rightarrow> string set" where
  "tokens st = se_token ` set (all_sessions st)"

definition fresh_tokens :: "supervisor \<Rightarrow> string set" where
  "fresh_tokens st = {token_text m (''wkr-'' @ nat_str (ids_next (sup_ids st))) | m. True}"

lemma tokens_map_sessions:
  assumes "\<And>k s. se_token (g k s) = se_token s \<or> se_token (g k s) = []"
  shows "tokens (map_sessions g st) \<subseteq> insert [] (tokens st)"
proof
  fix t assume "t \<in> tokens (map_sessions g st)"
  then consider (table) k s where "(k, s) \<in> set (sup_sessions st)" "t = se_token (g k s)"
    | (flight) s where "s \<in> set (sup_inflight st)" "t = se_token s"
    by (auto simp: tokens_def all_sessions_def map_sessions_def)
  then show "t \<in> insert [] (tokens st)"
  proof cases
    case table
    then show ?thesis using assms [of k s] in_all_sessions [of k s st] by (auto simp: tokens_def)
  qed (auto simp: tokens_def all_sessions_def)
qed

lemma tokens_conns [simp]: "tokens (st\<lparr>sup_conns := cs\<rparr>) = tokens st"
  by (simp add: tokens_def all_sessions_def)

lemma tokens_on_session:
  "(\<And>s. se_token (f s) = se_token s \<or> se_token (f s) = []) \<Longrightarrow> tokens (on_session w f st) \<subseteq> insert [] (tokens st)"
  unfolding on_session_map by (rule tokens_map_sessions) auto

lemma tokens_monitor: "tokens (monitor_pass now exits st) \<subseteq> insert [] (tokens st)"
  unfolding monitor_pass_map
  by (rule tokens_map_sessions) (auto simp: monitor_session_def request_termination_def terminate_proc_def split: option.split)

lemma tokens_register: "tokens (snd (register_worker hello now st)) \<subseteq> insert [] (tokens st)"
proof (cases rule: register_worker_cases [of hello now st])
  case (accepted s)
  show ?thesis unfolding accepted(5) by (rule tokens_on_session) simp
qed auto

lemma tokens_prepare:
  assumes "ids_next (sup_ids st) + 1 < 2 ^ 64"
  shows "tokens (prepare_step env a st) \<subseteq> tokens st \<union> fresh_tokens st"
proof -
  obtain r st' where p: "prepare_session env a st = (r, st')" by force
  note shape = prepare_session_shape [OF p assms]
  show ?thesis
  proof (cases r)
    case (Inl e)
    then show ?thesis using p shape(1) by (simp add: prepare_step_def tokens_def all_sessions_def)
  next
    case (Inr s)
    then show ?thesis
      using p shape(1) shape(2) [OF Inr] by (auto simp: prepare_step_def tokens_def all_sessions_def fresh_tokens_def)
  qed
qed

lemma tokens_insert: "tokens (sup_exec (EvInsert i) st) \<subseteq> tokens st"
proof (cases "i < length (sup_inflight st)")
  case True
  show ?thesis unfolding tokens_def by (rule image_mono [OF insert_sessions(2) [OF True]])
qed simp

lemma tokens_attempt: "tokens (snd (conn_attempt c now st)) \<subseteq> insert [] (tokens st)"
proof (cases c)
  case (Matching hello k)
  then show ?thesis
    using tokens_register [of hello now st]
    by (cases "register_worker hello now st") (auto simp: conn_attempt_def split: option.split)
qed (auto simp: conn_attempt_def)

lemma tokens_conn_step:
  "(\<And>c. tokens (snd (f c st)) \<subseteq> X) \<Longrightarrow> tokens st \<subseteq> X \<Longrightarrow> tokens (conn_step i f st) \<subseteq> X"
  by (simp add: conn_step_def case_prod_beta)

lemma tokens_exec:
  assumes "ids_next (sup_ids st) + 1 < 2 ^ 64"
  shows "tokens (sup_exec e st) \<subseteq> insert [] (tokens st) \<union> fresh_tokens st"
proof (cases e)
  case (EvLaunch env r)
  obtain a st' where a: "session_args r st = (a, st')" by force
  note shape = session_args_shape [OF a]
  have "tokens st' = tokens st" "fresh_tokens st' = fresh_tokens st"
    using shape by (simp_all add: tokens_def fresh_tokens_def all_sessions_def)
  then show ?thesis using EvLaunch a shape assms tokens_prepare [of st' env a] by auto
next
  case (EvWorker env sel count)
  then show ?thesis using tokens_prepare [OF assms] by auto
next
  case (EvInsert i)
  then show ?thesis using tokens_insert [of i st] by auto
next
  case (EvGiveUp w)
  then show ?thesis using tokens_on_session [of terminate_proc w st] by (auto simp: terminate_proc_def)
next
  case (EvRecv i r now)
  then show ?thesis
    using tokens_on_session [of "\<lambda>s. s\<lparr>se_heartbeats := i64 (se_heartbeats s + 1), se_last_heartbeat := now\<rparr>" _ st]
      tokens_on_session [of "\<lambda>s. s\<lparr>se_connected := False, se_channel_closed := True, se_channel_closed_at := now\<rparr>" _ st]
    by (auto simp: conn_step_def conn_recv_def note_heartbeat_def note_channel_closed_def split: conn_state.split recv_outcome.split)
next
  case (EvAttempt i now)
  have "tokens (conn_step i (\<lambda>c. conn_attempt c now) st) \<subseteq> insert [] (tokens st)"
    by (rule tokens_conn_step [OF tokens_attempt]) auto
  then show ?thesis using EvAttempt by auto
next
  case (EvAcked i sent now)
  then show ?thesis
    using tokens_on_session [of "\<lambda>s. s\<lparr>se_connected := False, se_channel_closed := True, se_channel_closed_at := now\<rparr>" _ st]
    by (auto simp: conn_step_def conn_acked_def note_channel_closed_def split: conn_state.split)
next
  case (EvMonitor now exits)
  then show ?thesis using tokens_monitor [of now exits st] by auto
next
  case (EvClose app w tok now)
  then show ?thesis
    using tokens_on_session [of "\<lambda>s. s\<lparr>se_launcher_close_requested := True, se_launcher_close_requested_at := now\<rparr>" w st]
    by (auto simp: request_close_def split: option.split)
next
  case EvTerminateAll
  then show ?thesis using tokens_map_sessions [of "\<lambda>k. terminate_proc" st] by (auto simp: terminate_all_map terminate_proc_def)
qed (auto simp: tokens_def all_sessions_def)

lemma conn_step_ids: "(\<And>c. sup_ids (snd (f c st)) = sup_ids st) \<Longrightarrow> sup_ids (conn_step i f st) = sup_ids st"
  by (simp add: conn_step_def case_prod_beta)

lemma on_session_ids [simp]: "sup_ids (on_session w f st) = sup_ids st"
  by (simp add: on_session_def)

lemma exec_ids:
  assumes "ids_next (sup_ids st) + 1 < 2 ^ 64"
  shows "ids_next (sup_ids st) \<le> ids_next (sup_ids (sup_exec e st))"
proof -
  have prep: "ids_next (sup_ids st1) \<le> ids_next (sup_ids (prepare_step env a st1))" if "sup_ids st1 = sup_ids st" for env a st1
  proof -
    obtain r st2 where p: "prepare_session env a st1 = (r, st2)" by force
    have "ids_next (sup_ids st1) + 1 < 2 ^ 64" using assms that by simp
    then show ?thesis using prepare_session_shape(1) [OF p] by (cases r) (simp_all add: prepare_step_def p)
  qed
  have "sup_ids (snd (conn_attempt c now st)) = sup_ids st" for c now
  proof (cases c)
    case (Matching hello k)
    then show ?thesis
      by (cases rule: register_worker_cases [of hello now st]; cases "register_worker hello now st")
        (auto simp: conn_attempt_def split: option.split)
  qed (auto simp: conn_attempt_def)
  then have att: "sup_ids (conn_step i (\<lambda>c. conn_attempt c now) st) = sup_ids st" for i now by (rule conn_step_ids)
  have rcv: "sup_ids (conn_step i (\<lambda>c. conn_recv c r now) st) = sup_ids st" for i r now
    by (rule conn_step_ids) (simp add: conn_recv_def note_heartbeat_def note_channel_closed_def split: conn_state.split recv_outcome.split)
  have ack: "sup_ids (conn_step i (\<lambda>c. conn_acked c sent now) st) = sup_ids st" for i sent now
    by (rule conn_step_ids) (simp add: conn_acked_def note_channel_closed_def split: conn_state.split)
  show ?thesis
  proof (cases e)
    case (EvLaunch env r)
    obtain a st' where a: "session_args r st = (a, st')" by force
    then show ?thesis using EvLaunch session_args_shape [OF a] prep [of st' env a] by simp
  qed (auto simp: prep att rcv ack insert_session_def monitor_pass_def terminate_all_def request_close_def split: option.split)
qed

text \<open>A token is spent when a worker of this supervisor had it and no session holds it any more.\<close>

definition spent :: "string \<Rightarrow> supervisor \<Rightarrow> bool" where
  "spent tok st \<longleftrightarrow> tok \<notin> tokens st \<and> (\<exists>m w. tok = token_text m w \<and> minted_id (ids_next (sup_ids st)) w)"

lemma spent_exec:
  assumes ok: "sup_ok n st" and "n + 2 < 2 ^ 64" and "spent tok st"
  shows "spent tok (sup_exec e st)"
proof -
  obtain m w where tok: "tok = token_text m w" "minted_id (ids_next (sup_ids st)) w" "tok \<notin> tokens st"
    using assms(3) by (auto simp: spent_def)
  have bound: "ids_next (sup_ids st) + 1 < 2 ^ 64" using assms(1,2) by (simp add: sup_ok_def table_ok_def)
  have "tok \<notin> fresh_tokens st"
    using tok(1,2) minted_id_fresh [of "ids_next (sup_ids st)"] by (auto simp: fresh_tokens_def dest!: token_text_inj)
  then have "tok \<notin> tokens (sup_exec e st)"
    using tokens_exec [OF bound, of e] tok by auto
  moreover have "ids_next (sup_ids st) \<le> ids_next (sup_ids (sup_exec e st))"
    by (rule exec_ids [OF bound])
  then have "minted_id (ids_next (sup_ids (sup_exec e st))) w" using tok(2) minted_id_mono by blast
  ultimately show ?thesis using tok(1) unfolding spent_def by blast
qed

lemma spent_fold:
  "sup_ok n st \<Longrightarrow> spent tok st \<Longrightarrow> n + length es + 1 < 2 ^ 64 \<Longrightarrow> spent tok (fold sup_exec es st)"
proof (induction es arbitrary: n st)
  case (Cons e es)
  then have "n + 2 < 2 ^ 64" by simp
  then have "sup_ok (Suc n) (sup_exec e st)" "spent tok (sup_exec e st)"
    using Cons.prems sup_ok_exec spent_exec by blast+
  then show ?case using Cons.IH [of "Suc n" "sup_exec e st"] Cons.prems(3) by simp
qed simp

lemma spent_refused: "spent tok st \<Longrightarrow> wh_token hello = tok \<Longrightarrow> fst (register_worker hello now st) = None"
proof (rule ccontr)
  assume s: "spent tok st" "wh_token hello = tok" and a: "fst (register_worker hello now st) \<noteq> None"
  show False
  proof (cases rule: register_worker_cases [of hello now st])
    case (accepted s)
    then have "s \<in> set (all_sessions st)" "se_token s = tok"
      using s(2) in_all_sessions by (auto simp: find_by_token_def dest!: find_first)
    then show False using s(1) by (auto simp: spent_def tokens_def)
  qed (use a in simp)
qed

text \<open>After an acknowledged attempt the token of its hello is spent.\<close>

lemma attempt_spends:
  assumes ok: "sup_ok n st" and i: "i < length (sup_conns st)" "sup_conns st ! i = Matching hello k"
    and ack: "speaks (sup_conns (sup_exec (EvAttempt i now) st) ! i) \<noteq> None"
  shows "spent (wh_token hello) (sup_exec (EvAttempt i now) st)"
proof -
  have t: "table_ok n st" using ok by (simp add: sup_ok_def)
  have g: "k < max_attempts \<and> \<not> sup_stopping st"
    using ack i by (auto simp: conn_step_def conn_attempt_def split: if_splits)
  show ?thesis
  proof (cases rule: register_worker_cases [of hello now st])
    case refused
    then show ?thesis using ack i g by (simp add: conn_step_def conn_attempt_def)
  next
    case (accepted s)
    note f = find_by_token_Some [OF t accepted(1)]
    let ?w = "se_worker_id s"
    obtain m where m: "se_token s = token_text m ?w" using f(3) accepted(3) by (auto simp: session_ok_def)
    have all: "s' \<in> set (all_sessions st) \<Longrightarrow> session_ok s' \<and> minted_id (ids_next (sup_ids st)) (se_worker_id s')" for s'
      using t by (simp add: table_ok_def list_all_iff)
    have "(?w, s) \<in> set (sup_sessions st)" using f(1) by (auto simp: find_by_worker_def dest: map_of_SomeD)
    then have "minted_id (ids_next (sup_ids st)) ?w" using all in_all_sessions by blast
    moreover have no: "se_token s' \<noteq> wh_token hello"
      if mem: "s' \<in> set (all_sessions (snd (register_worker hello now st)))" for s'
    proof
      assume eq: "se_token s' = wh_token hello"
      let ?f = "\<lambda>s'. s'\<lparr>se_lifecycle := se_lifecycle (registered hello now s), se_connected := True,
         se_last_heartbeat := now, se_data_plane_port := wh_data_plane_port hello,
         se_sidecar_plane_port := wh_sidecar_plane_port hello, se_token := []\<rparr>"
      consider (table) k0 s0 where "(k0, s0) \<in> set (sup_sessions st)" "s' = (if k0 = ?w then ?f s0 else s0)"
        | (flight) "s' \<in> set (sup_inflight st)"
        using mem unfolding accepted(5) on_session_map
        by (auto simp: all_sessions_def map_sessions_def)
      then show False
      proof cases
        case table
        have "se_worker_id s0 = ?w"
          using all [OF in_all_sessions [OF table(1)]] eq m f(2) table(2)
          by (auto simp: session_ok_def split: if_splits dest!: token_text_inj)
        then have "k0 = ?w" using in_table_session_ok(2) [OF t table(1)] by simp
        then show False using table(2) eq m f(2) by simp
      next
        case flight
        then have "se_worker_id s' = ?w"
          using all [of s'] eq m f(2) by (auto simp: all_sessions_def session_ok_def dest!: token_text_inj)
        then show False using inflight_fresh [OF t flight] f(1) by simp
      qed
    qed
    moreover have "all_sessions (sup_exec (EvAttempt i now) st) = all_sessions (snd (register_worker hello now st))"
      "sup_ids (sup_exec (EvAttempt i now) st) = sup_ids st"
      using i g accepted(5,6) by (cases "register_worker hello now st"; auto simp: conn_step_def conn_attempt_def all_sessions_def)+
    moreover have "wh_token hello \<notin> se_token ` set (all_sessions (snd (register_worker hello now st)))" using no by force
    ultimately show ?thesis using m f(2) unfolding spent_def tokens_def by metis
  qed
qed

section \<open>Properties\<close>

lemma sup_reach_bound: "(4::nat) + 1 < 2 ^ 64"
  by simp

text \<open>C3: In every state the supervisor's threads can reach, the session table is ordered by worker
  id, worker ids are unique and minted by this supervisor, every lifecycle is a legal path, a
  session is connected only while running, an unregistered session holds its token and a running
  one does not, and each worker is spoken for by at most one connection, namely whenever it is
  connected.\<close>

theorem supervisor_invariant:
  assumes "sup_reach (new_supervisor cfg sid port) n st" and "n + 1 < 2 ^ 64"
  shows "sup_ok n st"
  using assms by (rule sup_reach_ok)

theorem supervisor_invariant_witness: "sup_ok 4 demo_spawned"
  by (rule supervisor_invariant [OF demo_spawned_reach sup_reach_bound])

lemma demo_acknowledged: "speaks (sup_conns (sup_exec (EvAttempt 0 2) demo_spawned) ! 0) \<noteq> None"
proof -
  obtain s where s: "se_state s = Spawned" "\<not> se_connected s" "se_worker_id s = ''wkr-1''"
    "sup_conns demo_spawned = [Matching demo_worker 0]" "\<not> sup_stopping demo_spawned"
    "find_by_token ''tok-1-wkr-1'' demo_spawned = Some s"
    using demo_spawned_session by blast
  show ?thesis
    using s spawned_transitions [of "se_lifecycle s"]
    by (simp add: conn_step_def conn_attempt_def max_attempts_def register_worker_def demo_worker_def case_prod_beta)
qed

text \<open>C7: A worker token is good for one registration. Once a connection with some token has been
  acknowledged, no hello with that token is accepted in any later state, whatever happens in
  between.\<close>

theorem token_registers_once:
  assumes "sup_reach (new_supervisor cfg sid port) n st" and "n + length es + 2 < 2 ^ 64"
    and "i < length (sup_conns st)" and "sup_conns st ! i = Matching hello k"
    and "speaks (sup_conns (sup_exec (EvAttempt i now) st) ! i) \<noteq> None"
    and "wh_token again = wh_token hello"
  shows "fst (register_worker again later (fold sup_exec es (sup_exec (EvAttempt i now) st))) = None"
proof -
  have ok: "sup_ok n st" using assms(2) by (intro sup_reach_ok [OF assms(1)]) simp
  have ok': "sup_ok (Suc n) (sup_exec (EvAttempt i now) st)" using assms(2) by (intro sup_ok_exec [OF ok]) simp
  have "Suc n + length es + 1 < 2 ^ 64" using assms(2) by linarith
  then have "spent (wh_token hello) (fold sup_exec es (sup_exec (EvAttempt i now) st))"
    by (rule spent_fold [OF ok' attempt_spends [OF ok assms(3,4,5)]])
  then show ?thesis by (rule spent_refused [OF _ assms(6)])
qed

theorem token_registers_once_witness:
  "fst (register_worker demo_worker 9 (fold sup_exec [EvAcked 0 True 3, EvAccept] (sup_exec (EvAttempt 0 2) demo_spawned))) = None"
proof (rule token_registers_once [OF demo_spawned_reach _ _ _ demo_acknowledged])
  show "0 < length (sup_conns demo_spawned)" "sup_conns demo_spawned ! 0 = Matching demo_worker 0"
    using demo_spawned_session by auto
qed simp_all

text \<open>C27: A worker's lifecycle moves in exactly two ways: a registration attempt takes it from spawned
  to running and consumes its token, and a monitor pass that observed the exit of its process ends
  it, as killed when termination had been requested, as exited when a running worker returned 0,
  otherwise as crashed. Every other step of any thread leaves it alone, so requesting termination
  does not end a session and a terminal session never changes again.\<close>

theorem lifecycle_moves:
  assumes "sup_reach (new_supervisor cfg sid port) n st" and "n + 1 < 2 ^ 64"
    and "find_by_worker w st = Some s" and "e \<noteq> EvClear"
  shows "\<exists>s'. find_by_worker w (sup_exec e st) = Some s' \<and> session_move e w s s'"
  using session_exec [OF sup_reach_ok [OF assms(1,2)] assms(3,4)] by blast

theorem lifecycle_moves_witness:
  "\<exists>s s'. find_by_worker ''wkr-1'' demo_spawned = Some s \<and>
     find_by_worker ''wkr-1'' (sup_exec (EvMonitor 5 (\<lambda>_. Some 0)) demo_spawned) = Some s' \<and>
     session_move (EvMonitor 5 (\<lambda>_. Some 0)) ''wkr-1'' s s'"
proof -
  obtain s where s: "find_by_worker ''wkr-1'' demo_spawned = Some s" using demo_spawned_session by blast
  then show ?thesis
    using lifecycle_moves [OF demo_spawned_reach sup_reach_bound s, of "EvMonitor 5 (\<lambda>_. Some 0)"] by blast
qed

lemma close_wait_True: "close_wait w d slices st = (Some (True, reason), st') \<Longrightarrow> session_ended w st'"
  by (induction slices arbitrary: st) (auto split: if_splits)

text \<open>C14: Closing a session needs the credentials of the session. Without a session of that id, or
  with another application identity or token, the call changes nothing and answers with the same
  refusal; and an accepted close means that the credentials matched and that the worker's exit has
  been observed when the call returns, whatever the other threads did meanwhile.\<close>

theorem close_session_authenticated:
  "(\<not> (\<exists>s. find_by_worker w st = Some s \<and> se_app_instance_id s = app \<and> se_app_token s = tok) \<longrightarrow>
      sup_close_session now slices app w tok st = (Some (False, ''session credentials do not match''), st)) \<and>
   (sup_close_session now slices app w tok st = (Some (True, reason), st') \<longrightarrow>
      (\<exists>s. find_by_worker w st = Some s \<and> se_app_instance_id s = app \<and> se_app_token s = tok) \<and> session_ended w st')"
proof -
  have "session_ended w st'" if "sup_close_session now slices app w tok st = (Some (True, reason), st')"
    using that
    by (auto simp: sup_close_session_def request_close_def split: option.splits if_splits dest!: close_wait_True)
      (simp_all add: session_ended_def)
  then show ?thesis
    by (auto simp: sup_close_session_def request_close_def split: option.splits if_splits)
qed

theorem close_session_authenticated_witness:
  "sup_close_session 7 [] ''app'' ''wkr-2'' ''guess'' demo_spawned = (Some (False, ''session credentials do not match''), demo_spawned)"
proof -
  have "find_by_worker ''wkr-2'' demo_spawned = None" using demo_spawned_session by blast
  then show ?thesis
    using close_session_authenticated [of "''wkr-2''" demo_spawned "''app''" "''guess''" 7 "[]"] by simp
qed

section \<open>Terminated workers\<close>

text \<open>A session whose process the monitor has asked to terminate: it can only end as killed.\<close>

definition doomed :: "session \<Rightarrow> bool" where
  "doomed s \<longleftrightarrow> se_termination_requested s \<and> se_proc_valid s \<and> (se_terminal s \<longrightarrow> se_state s = Killed)"

lemma doomed_move: "session_move e w s s' \<Longrightarrow> kept e s s' \<Longrightarrow> doomed s \<Longrightarrow> doomed s'"
  by (auto simp: session_move_def kept_def doomed_def exit_state_def lc_terminal_def is_terminal_def)

lemma doomed_fold:
  assumes "sup_ok n st" "n + length es + 1 < 2 ^ 64" "find_by_worker w st = Some s" "doomed s" "EvClear \<notin> set es"
  shows "\<exists>s'. find_by_worker w (fold sup_exec es st) = Some s' \<and> doomed s' \<and> se_terminates s \<le> se_terminates s'"
  using assms
proof (induction es arbitrary: n st s)
  case (Cons e es)
  have b: "n + 2 < 2 ^ 64" "e \<noteq> EvClear" using Cons.prems(2,5) by auto
  obtain s1 where s1: "find_by_worker w (sup_exec e st) = Some s1" "session_move e w s s1" "kept e s s1"
    using session_exec [OF Cons.prems(1,3) b(2)] by blast
  have "sup_ok (Suc n) (sup_exec e st)" using Cons.prems(1) b(1) sup_ok_exec by blast
  from Cons.IH [OF this _ s1(1) doomed_move [OF s1(2,3) Cons.prems(4)]]
  obtain s' where "find_by_worker w (fold sup_exec es (sup_exec e st)) = Some s'" "doomed s'" "se_terminates s1 \<le> se_terminates s'"
    using Cons.prems(2,5) by auto
  then show ?case using s1(3) by (auto simp: kept_def)
qed simp

lemma doomed_exit:
  assumes "doomed s" "\<not> se_terminal s"
  shows "se_state (monitor_session timeout now (Some code) s) = Killed"
  using assms monitor_session_exit [of s timeout now code] by (simp add: doomed_def)

lemma request_repeats:
  assumes "doomed s" "\<not> se_terminal s" "termination_reason timeout now s \<noteq> None"
    and "ms kTerminateEscalateMs < now - se_termination_requested_at s"
  shows "monitor_session timeout now None s = (terminate_proc s)\<lparr>se_termination_requested_at := now\<rparr>"
  using assms by (auto simp: monitor_session_def doomed_def request_termination_def)

text \<open>A worker nobody closes that has been silent for longer than the timeout.\<close>

definition silent :: "int \<Rightarrow> int \<Rightarrow> session \<Rightarrow> bool" where
  "silent timeout now s \<longleftrightarrow>
     \<not> se_terminal s \<and> se_proc_valid s \<and> \<not> se_launcher_close_requested s \<and> \<not> se_channel_closed s \<and> timeout < now - se_last_heartbeat s"

lemma silent_reason: "silent timeout now s \<Longrightarrow> termination_reason timeout now s \<noteq> None"
  by (auto simp: silent_def termination_reason_def)

lemma silent_first:
  assumes "silent timeout now s" "\<not> se_termination_requested s"
  shows "monitor_session timeout now None s =
    (terminate_proc s)\<lparr>se_termination_requested := True, se_termination_requested_at := now, se_connected := False\<rparr>"
  using assms silent_reason [OF assms(1)] by (auto simp: silent_def monitor_session_def request_termination_def)

lemma silent_passes:
  assumes "find_by_worker w st = Some s" "doomed s" "silent (ms (cfg_heartbeat_timeout_ms (sup_config st))) now s"
    and "se_termination_requested_at s = now" "exits w = None"
    and "successively (\<lambda>a b. ms kTerminateEscalateMs < b - a) (now # ts)"
  shows "map_option se_terminates (find_by_worker w (fold sup_exec (map (\<lambda>t. EvMonitor t exits) ts) st)) = Some (se_terminates s + length ts)"
  using assms
proof (induction ts arbitrary: st s now)
  case (Cons t ts)
  let ?T = "ms (cfg_heartbeat_timeout_ms (sup_config st))"
  have gap: "ms kTerminateEscalateMs < t - now" "successively (\<lambda>a b. ms kTerminateEscalateMs < b - a) (t # ts)"
    using Cons.prems(6) by simp_all
  have "0 \<le> ms kTerminateEscalateMs" by (simp add: ms_def kTerminateEscalateMs_def)
  then have st: "silent ?T t s" using Cons.prems(3) gap(1) by (auto simp: silent_def)
  define s1 where "s1 = (terminate_proc s)\<lparr>se_termination_requested_at := t\<rparr>"
  have "monitor_session ?T t None s = s1"
    unfolding s1_def using Cons.prems(2,4) gap(1) st silent_reason [OF st] by (intro request_repeats) (auto simp: silent_def)
  then have f: "find_by_worker w (sup_exec (EvMonitor t exits) st) = Some s1"
    using Cons.prems(1,5) by (simp add: monitor_pass_map find_map_sessions)
  have "doomed s1" "silent ?T t s1" "se_termination_requested_at s1 = t" "se_terminates s1 = se_terminates s + 1"
    using Cons.prems(2) st by (simp_all add: s1_def terminate_proc_def doomed_def silent_def)
  then show ?case using Cons.IH [OF f, of t] gap(2) Cons.prems(5) by (simp add: monitor_pass_map)
qed simp

text \<open>C28: A worker that stays silent is killed, whatever the other threads do meanwhile. A monitor pass
  that finds a worker nobody is closing silent for longer than the timeout requests the termination of
  its process and disconnects the session, but does not end it. After any further steps of any
  threads short of the end of the supervisor, the session has ended as killed or it has not ended; in
  that case a pass that observes the exit, with any code, records it as killed, and a pass that still
  has a reason, more than a second after the last request, repeats the request. If only the monitor
  runs, each of any number of passes more than a second apart repeats it.\<close>

theorem silent_worker_killed:
  assumes "sup_reach (new_supervisor cfg sid port) n st" and "n + length es + 2 < 2 ^ 64" and "find_by_worker w st = Some s"
    and "silent (ms (cfg_heartbeat_timeout_ms (sup_config st))) now s" and "\<not> se_termination_requested s"
    and "exits w = None" and "EvClear \<notin> set es"
    and "st1 = sup_exec (EvMonitor now exits) st" and "st2 = fold sup_exec es st1"
  shows "(\<exists>s1. find_by_worker w st1 = Some s1 \<and> se_terminates s1 = se_terminates s + 1 \<and> \<not> se_connected s1 \<and>
      se_lifecycle s1 = se_lifecycle s) \<and>
    (\<exists>s2. find_by_worker w st2 = Some s2 \<and> se_terminates s < se_terminates s2 \<and>
      (if se_terminal s2 then se_state s2 = Killed
       else (\<forall>later exits' code. exits' w = Some code \<longrightarrow>
               map_option se_state (find_by_worker w (sup_exec (EvMonitor later exits') st2)) = Some Killed) \<and>
            (\<forall>later exits'. exits' w = None \<longrightarrow>
               termination_reason (ms (cfg_heartbeat_timeout_ms (sup_config st2))) later s2 \<noteq> None \<longrightarrow>
               ms kTerminateEscalateMs < later - se_termination_requested_at s2 \<longrightarrow>
               map_option se_terminates (find_by_worker w (sup_exec (EvMonitor later exits') st2)) = Some (se_terminates s2 + 1)))) \<and>
    (\<forall>ts. successively (\<lambda>a b. ms kTerminateEscalateMs < b - a) (now # ts) \<longrightarrow>
      map_option se_terminates (find_by_worker w (fold sup_exec (map (\<lambda>t. EvMonitor t exits) ts) st1)) =
        Some (se_terminates s + 1 + length ts))"
proof -
  let ?T = "ms (cfg_heartbeat_timeout_ms (sup_config st))"
  define s1 where "s1 = (terminate_proc s)\<lparr>se_termination_requested := True, se_termination_requested_at := now, se_connected := False\<rparr>"
  have f1: "find_by_worker w st1 = Some s1"
    using assms(3,6,8) silent_first [OF assms(4,5)] by (simp add: monitor_pass_map find_map_sessions s1_def)
  have d1: "doomed s1" "silent ?T now s1" "se_terminates s1 = se_terminates s + 1" "se_lifecycle s1 = se_lifecycle s"
    using assms(4) by (simp_all add: s1_def doomed_def silent_def terminate_proc_def)
  have "sup_ok (Suc n) st1"
    using sup_reach_ok [OF sup_reach.more [OF assms(1), of "EvMonitor now exits"]] assms(2,8) by simp
  from doomed_fold [OF this _ f1 d1(1) assms(7)] assms(2,9)
  obtain s2 where s2: "find_by_worker w st2 = Some s2" "doomed s2" "se_terminates s1 \<le> se_terminates s2" by auto
  have k: "map_option se_state (find_by_worker w (sup_exec (EvMonitor later exits') st2)) = Some Killed"
    if "\<not> se_terminal s2" "exits' w = Some code" for later exits' code
    using that s2(1) doomed_exit [OF s2(2)] by (simp add: monitor_pass_map find_map_sessions)
  have r: "map_option se_terminates (find_by_worker w (sup_exec (EvMonitor later exits') st2)) = Some (se_terminates s2 + 1)"
    if "\<not> se_terminal s2" "exits' w = None" "termination_reason (ms (cfg_heartbeat_timeout_ms (sup_config st2))) later s2 \<noteq> None"
      "ms kTerminateEscalateMs < later - se_termination_requested_at s2" for later exits'
    using that(2) s2(1) request_repeats [OF s2(2) that(1,3,4)] by (simp add: monitor_pass_map find_map_sessions terminate_proc_def)
  have c: "sup_config st1 = sup_config st" by (simp add: assms(8) monitor_pass_map)
  have "map_option se_terminates (find_by_worker w (fold sup_exec (map (\<lambda>t. EvMonitor t exits) ts) st1)) = Some (se_terminates s + 1 + length ts)"
    if "successively (\<lambda>a b. ms kTerminateEscalateMs < b - a) (now # ts)" for ts
    using silent_passes [of w st1 s1 now exits ts] f1 d1(1-3) assms(6) that by (simp add: c s1_def)
  moreover have "se_terminal s2 \<Longrightarrow> se_state s2 = Killed" using s2(2) by (simp add: doomed_def)
  ultimately show ?thesis using f1 d1(3,4) s2(1,3) k r by (auto simp: s1_def)
qed

theorem silent_worker_killed_witness:
  "\<exists>s2. find_by_worker ''wkr-1'' (fold sup_exec [EvAttempt 0 2, EvStop] (sup_exec (EvMonitor (ms 4000) (\<lambda>_. None)) demo_spawned)) = Some s2 \<and>
     0 < se_terminates s2"
proof -
  obtain s where s: "find_by_worker ''wkr-1'' demo_spawned = Some s" "silent (ms (cfg_heartbeat_timeout_ms (sup_config demo_spawned))) (ms 4000) s"
    "\<not> se_termination_requested s"
    using demo_spawned_session by (fastforce simp: silent_def demo_config_def ms_def lc_terminal_def is_terminal_def)
  have len: "4 + length [EvAttempt 0 2, EvStop] + 2 < 2 ^ 64" and nc: "EvClear \<notin> set [EvAttempt 0 2, EvStop]" by simp_all
  note k = silent_worker_killed [where exits = "\<lambda>_. None", OF demo_spawned_reach len s refl nc refl refl]
  from conjunct1 [OF conjunct2 [OF k]] obtain s2 where
    "find_by_worker ''wkr-1'' (fold sup_exec [EvAttempt 0 2, EvStop] (sup_exec (EvMonitor (ms 4000) (\<lambda>_. None)) demo_spawned)) = Some s2"
    "se_terminates s < se_terminates s2" by (elim exE conjE)
  then show ?thesis by (intro exI [of _ s2] conjI) simp_all
qed

text \<open>Steps in which the monitor neither observes the exit of the worker nor has a reason to terminate it.\<close>

fun undisturbed :: "string \<Rightarrow> sup_event list \<Rightarrow> supervisor \<Rightarrow> bool" where
  "undisturbed w [] st = True"
| "undisturbed w (e # es) st =
     (e \<noteq> EvClear \<and>
      (case e of
         EvMonitor now exits \<Rightarrow>
           exits w = None \<and> (case find_by_worker w st of None \<Rightarrow> True
              | Some s \<Rightarrow> termination_reason (ms (cfg_heartbeat_timeout_ms (sup_config st))) now s = None)
       | _ \<Rightarrow> True) \<and>
      undisturbed w es (sup_exec e st))"

lemma undisturbed_step:
  assumes "sup_ok n st" "find_by_worker w st = Some s" "\<not> se_terminal s" "se_proc_valid s" "\<not> se_termination_requested s"
    and "undisturbed w (e # es) st"
  shows "\<exists>s'. find_by_worker w (sup_exec e st) = Some s' \<and> \<not> se_terminal s' \<and> se_proc_valid s' \<and> \<not> se_termination_requested s' \<and>
    se_terminates s \<le> se_terminates s'"
proof (cases "\<exists>now exits. e = EvMonitor now exits")
  case True
  then obtain now exits where e: "e = EvMonitor now exits" by blast
  have "monitor_session (ms (cfg_heartbeat_timeout_ms (sup_config st))) now (exits w) s = s"
    using assms(2-6) by (simp add: e monitor_session_def)
  then show ?thesis using assms(2-5) by (simp add: e monitor_pass_map find_map_sessions)
next
  case False
  have "e \<noteq> EvClear" using assms(6) by simp
  from session_exec [OF assms(1,2) this] obtain s' where
    "find_by_worker w (sup_exec e st) = Some s'" "session_move e w s s'" "kept e s s'" by blast
  then show ?thesis
    using assms(3-5) False by (auto simp: session_move_def kept_def lc_terminal_def is_terminal_def)
qed

lemma undisturbed_fold:
  assumes "sup_ok n st" "n + length es + 1 < 2 ^ 64" "find_by_worker w st = Some s" "\<not> se_terminal s" "se_proc_valid s"
    "\<not> se_termination_requested s" "undisturbed w es st"
  shows "\<exists>s'. find_by_worker w (fold sup_exec es st) = Some s' \<and> \<not> se_terminal s' \<and> se_proc_valid s' \<and>
    \<not> se_termination_requested s' \<and> se_terminates s \<le> se_terminates s'"
  using assms
proof (induction es arbitrary: n st s)
  case (Cons e es)
  obtain s1 where s1: "find_by_worker w (sup_exec e st) = Some s1" "\<not> se_terminal s1" "se_proc_valid s1" "\<not> se_termination_requested s1"
    "se_terminates s \<le> se_terminates s1"
    using undisturbed_step [OF Cons.prems(1,3-7)] by blast
  have "sup_ok (Suc n) (sup_exec e st)" using Cons.prems(1,2) sup_ok_exec [of n st e] by simp
  from Cons.IH [OF this _ s1(1-4)] Cons.prems(2,7) s1(5) show ?case by (auto intro: order_trans)
qed simp

text \<open>C29: A worker that the supervisor itself terminates because it did not come up within the launch
  deadline is not recorded as killed. Giving up a launch asks for the termination of the process but
  does not note the request: after it and any further steps in which the monitor finds no reason of its
  own, the pass that observes the exit records the worker as exited if it had registered meanwhile and
  returned 0, and as crashed otherwise.\<close>

theorem given_up_worker_recorded_crashed:
  assumes "sup_reach (new_supervisor cfg sid port) n st" and "n + length es + 2 < 2 ^ 64" and "find_by_worker w st = Some s"
    and "\<not> se_terminal s" and "se_proc_valid s" and "\<not> se_termination_requested s"
    and "undisturbed w es (sup_exec (EvGiveUp w) st)" and "st2 = fold sup_exec es (sup_exec (EvGiveUp w) st)" and "exits w = Some code"
  shows "\<exists>s2. find_by_worker w st2 = Some s2 \<and> se_terminates s < se_terminates s2 \<and>
    map_option se_state (find_by_worker w (sup_exec (EvMonitor now exits) st2)) =
      Some (if code = 0 \<and> se_state s2 = Running then Exited else Crashed)"
proof -
  have ok: "sup_ok (Suc n) (sup_exec (EvGiveUp w) st)"
    using sup_reach_ok [OF sup_reach.more [OF assms(1), of "EvGiveUp w"]] assms(2) by simp
  have f: "find_by_worker w (sup_exec (EvGiveUp w) st) = Some (terminate_proc s)" using assms(3) by (simp add: find_on_session)
  obtain s2 where s2: "find_by_worker w st2 = Some s2" "\<not> se_terminal s2" "se_proc_valid s2" "\<not> se_termination_requested s2"
    "se_terminates (terminate_proc s) \<le> se_terminates s2"
    using undisturbed_fold [OF ok _ f _ _ _ assms(7)] assms(2,4-6,8) by (auto simp: terminate_proc_def)
  have "se_state (monitor_session t now (Some code) s2) = (if code = 0 \<and> se_state s2 = Running then Exited else Crashed)" for t
    using monitor_session_exit [OF s2(2,3), of t now code] s2(4) by (simp add: terminal_state_def)
  then show ?thesis using s2(1,5) assms(9) by (auto simp: monitor_pass_map find_map_sessions terminate_proc_def)
qed

theorem given_up_worker_recorded_crashed_witness:
  "map_option se_state (find_by_worker ''wkr-1''
     (sup_exec (EvMonitor 6 (\<lambda>_. Some 1)) (fold sup_exec [EvMonitor 5 (\<lambda>_. None)] (sup_exec (EvGiveUp ''wkr-1'') demo_spawned)))) = Some Crashed"
proof -
  obtain s where s: "find_by_worker ''wkr-1'' demo_spawned = Some s" "\<not> se_terminal s" "se_proc_valid s" "\<not> se_termination_requested s"
    and q: "\<not> se_launcher_close_requested s" "\<not> se_channel_closed s" "se_last_heartbeat s = 0" "sup_config demo_spawned = demo_config"
    using demo_spawned_session by (auto simp: lc_terminal_def is_terminal_def)
  have "find_by_worker ''wkr-1'' (sup_exec (EvGiveUp ''wkr-1'') demo_spawned) = Some (terminate_proc s)"
    using s(1) by (simp add: find_on_session)
  moreover have "sup_config (sup_exec (EvGiveUp ''wkr-1'') demo_spawned) = demo_config" using q(4) by (simp add: on_session_def)
  ultimately have "undisturbed ''wkr-1'' [EvMonitor 5 (\<lambda>_. None)] (sup_exec (EvGiveUp ''wkr-1'') demo_spawned)"
    using q(1-3) by (simp add: termination_reason_def terminate_proc_def demo_config_def ms_def del: sup_exec.simps)
  from given_up_worker_recorded_crashed [OF demo_spawned_reach _ s this refl, of "\<lambda>_. Some 1" 1 6]
  show ?thesis by auto
qed

end
