(* ===== verification/Snapshot_Cache.thy ===== *)
theory Snapshot_Cache
  imports Control
begin

text \<open>
  The bounded cache of display snapshots (src/vkrelay2/windows/supervisor/display_snapshot_cache.hpp
  and display_snapshot_cache.cpp), the implementation of the control session's snapshot provider.
  The capture function is the operating system's probe and a parameter of the operations. The
  laws a control session relies on are the locale \<open>snapshot_source\<close>; the cache is its
  interpretation, and the property that a launched worker gets a valid layout of the snapshot it
  named rests on it.
\<close>

section \<open>The cache\<close>

record snapshot_cache =
  sn_session :: string
  sn_capacity :: nat
  sn_next :: nat
  sn_snapshots :: "display_layout list"

text \<open>The result of the capture: a layout, or the reason of the failure.\<close>

type_synonym capture = "string \<Rightarrow> string + display_layout"

definition kDefaultCapacity :: nat where
  "kDefaultCapacity = 8"

definition new_cache :: "string \<Rightarrow> nat \<Rightarrow> snapshot_cache" where
  "new_cache session capacity = \<lparr>sn_session = session, sn_capacity = max capacity 1, sn_next = 1, sn_snapshots = []\<rparr>"

definition snapshot_prefix :: "snapshot_cache \<Rightarrow> string" where
  "snapshot_prefix sc = sn_session sc @ ''/display-''"

definition next_snapshot_id :: "snapshot_cache \<Rightarrow> string \<times> snapshot_cache" where
  "next_snapshot_id sc = (snapshot_prefix sc @ nat_str (sn_next sc), sc\<lparr>sn_next := u64 (sn_next sc + 1)\<rparr>)"

text \<open>The loop that drops the oldest snapshots beyond the capacity.\<close>

fun evict :: "nat \<Rightarrow> display_layout list \<Rightarrow> display_layout list" where
  "evict cap [] = []"
| "evict cap (l # ls) = (if length (l # ls) > cap then evict cap ls else l # ls)"

definition capture_for_handshake :: "capture \<Rightarrow> snapshot_cache \<Rightarrow> layout_decode \<times> snapshot_cache" where
  "capture_for_handshake capture sc =
     (let (expected, sc1) = next_snapshot_id sc in
      case capture expected of
        Inl reason \<Rightarrow> (LayoutMalformed (if reason = [] then ''display topology capture failed'' else reason), sc1)
      | Inr l \<Rightarrow>
          if snapshot_id l \<noteq> expected
          then (LayoutMalformed ''display probe returned a snapshot ID other than the injected ID'', sc1)
          else (case validate_display_layout l of
                  Inl reason \<Rightarrow> (LayoutMalformed (''captured display layout is invalid: '' @ reason), sc1)
                | Inr _ \<Rightarrow> (LayoutValid l, sc1\<lparr>sn_snapshots := evict (sn_capacity sc1) (sn_snapshots sc1 @ [l])\<rparr>)))"

definition resolve_copy :: "string \<Rightarrow> snapshot_cache \<Rightarrow> string + display_layout" where
  "resolve_copy i sc =
     (if take (length (snapshot_prefix sc)) i \<noteq> snapshot_prefix sc
      then Inl ''display snapshot belongs to another supervisor process''
      else case List.find (\<lambda>l. snapshot_id l = i) (sn_snapshots sc) of
             None \<Rightarrow> Inl ''display snapshot is unknown or expired; re-query once or restart the session''
           | Some l \<Rightarrow> Inr l)"

definition cache_provider :: "capture \<Rightarrow> snapshot_cache snapshot_provider" where
  "cache_provider capture = \<lparr>sp_capture_for_handshake = capture_for_handshake capture, sp_resolve_copy = resolve_copy\<rparr>"

section \<open>The invariant of the cache\<close>

text \<open>The cached snapshots are valid, within the capacity, and numbered upwards below the next number.\<close>

definition numbered :: "snapshot_cache \<Rightarrow> nat \<Rightarrow> display_layout \<Rightarrow> bool" where
  "numbered sc k l \<longleftrightarrow> snapshot_id l = snapshot_prefix sc @ nat_str k"

definition cache_ok :: "snapshot_cache \<Rightarrow> bool" where
  "cache_ok sc \<longleftrightarrow> length (sn_snapshots sc) \<le> sn_capacity sc \<and> 1 \<le> sn_capacity sc \<and>
     list_all (\<lambda>l. validate_display_layout l = Inr () \<and> (\<exists>k < sn_next sc. numbered sc k l)) (sn_snapshots sc) \<and>
     distinct (map snapshot_id (sn_snapshots sc))"

lemma evict_drop: "evict cap ls = drop (length ls - cap) ls"
proof (induction ls)
  case (Cons l ls)
  then show ?case by (cases "length ls < cap") (auto simp: Suc_diff_le)
qed simp

lemma evict_bounds: "set (evict cap ls) \<subseteq> set ls" "length (evict cap ls) \<le> cap"
  by (simp_all add: evict_drop set_drop_subset)

lemma cache_ok_new: "cache_ok (new_cache session capacity)"
  by (simp add: cache_ok_def new_cache_def)

lemma prefix_next [simp]: "snapshot_prefix (sc\<lparr>sn_next := n\<rparr>) = snapshot_prefix sc"
  "snapshot_prefix (sc\<lparr>sn_next := n, sn_snapshots := ls\<rparr>) = snapshot_prefix sc"
  by (simp_all add: snapshot_prefix_def)

lemma cache_ok_next:
  assumes "cache_ok sc" "sn_next sc + 1 < 2 ^ 64"
  shows "cache_ok (snd (next_snapshot_id sc))"
proof -
  have "u64 (sn_next sc + 1) = sn_next sc + 1" using assms(2) by (rule u64_id)
  moreover have "\<exists>k < sn_next sc + 1. P k" if "\<exists>k < sn_next sc. P k" for P
    using that by (meson less_add_one order_less_trans)
  ultimately show ?thesis
    using assms(1) by (simp add: cache_ok_def next_snapshot_id_def numbered_def list_all_iff)
qed

lemma cache_ok_push:
  assumes ok: "cache_ok sc" and n: "sn_next sc + 1 < 2 ^ 64"
    and l: "snapshot_id l = fst (next_snapshot_id sc)" "validate_display_layout l = Inr ()"
  shows "cache_ok (sc\<lparr>sn_next := u64 (sn_next sc + 1), sn_snapshots := evict (sn_capacity sc) (sn_snapshots sc @ [l])\<rparr>)"
proof -
  let ?ls = "sn_snapshots sc @ [l]"
  have "snapshot_id l \<noteq> snapshot_id l'" if "l' \<in> set (sn_snapshots sc)" for l'
    using ok l(1) that nat_str_inj by (fastforce simp: cache_ok_def list_all_iff numbered_def next_snapshot_id_def)
  then have "distinct (map snapshot_id ?ls)" using ok by (auto simp: cache_ok_def)
  moreover have "validate_display_layout l' = Inr () \<and> (\<exists>k < sn_next sc + 1. numbered sc k l')" if "l' \<in> set ?ls" for l'
  proof (cases "l' \<in> set (sn_snapshots sc)")
    case True
    then have "validate_display_layout l' = Inr ()" "\<exists>k < sn_next sc. numbered sc k l'" using ok by (auto simp: cache_ok_def list_all_iff)
    then show ?thesis by (meson less_add_one order_less_trans)
  next
    case False
    then have "numbered sc (sn_next sc) l'" "l' = l" using l(1) that by (auto simp: numbered_def next_snapshot_id_def)
    then show ?thesis using l(2) less_add_one by blast
  qed
  moreover have "set (evict (sn_capacity sc) ?ls) \<subseteq> set ?ls" "length (evict (sn_capacity sc) ?ls) \<le> sn_capacity sc"
    by (rule evict_bounds)+
  moreover have "distinct (map snapshot_id (evict (sn_capacity sc) ?ls))"
    using calculation(1) by (simp only: evict_drop drop_map [symmetric] distinct_drop)
  ultimately show ?thesis
    using ok n by (simp add: cache_ok_def list_all_iff numbered_def u64_id subset_iff)
qed

lemma capture_cases:
  obtains (failed) reason where "capture_for_handshake capture sc = (LayoutMalformed reason, snd (next_snapshot_id sc))"
  | (captured) l where "capture (fst (next_snapshot_id sc)) = Inr l" "snapshot_id l = fst (next_snapshot_id sc)"
      "validate_display_layout l = Inr ()"
      "capture_for_handshake capture sc = (LayoutValid l, sc\<lparr>sn_next := u64 (sn_next sc + 1),
         sn_snapshots := evict (sn_capacity sc) (sn_snapshots sc @ [l])\<rparr>)"
proof (cases "capture (fst (next_snapshot_id sc))")
  case (Inl reason)
  then show ?thesis by (intro failed) (simp add: capture_for_handshake_def case_prod_beta)
next
  case (Inr l)
  show ?thesis
  proof (cases "snapshot_id l = fst (next_snapshot_id sc) \<and> validate_display_layout l = Inr ()")
    case True
    then show ?thesis using Inr by (intro captured [OF Inr]) (auto simp: capture_for_handshake_def next_snapshot_id_def)
  next
    case False
    then have "\<exists>reason. capture_for_handshake capture sc = (LayoutMalformed reason, snd (next_snapshot_id sc))"
      using Inr by (cases "validate_display_layout l") (auto simp: capture_for_handshake_def case_prod_beta)
    then show ?thesis using failed by blast
  qed
qed

lemma cache_ok_capture:
  assumes "cache_ok sc" "sn_next sc + 1 < 2 ^ 64"
  shows "cache_ok (snd (capture_for_handshake capture sc))"
proof (cases rule: capture_cases [of capture sc])
  case failed
  then show ?thesis using cache_ok_next [OF assms] by simp
next
  case (captured l)
  then show ?thesis using cache_ok_push [OF assms captured(2,3)] by simp
qed

lemma resolve_sound:
  assumes "cache_ok sc" "resolve_copy i sc = Inr l"
  shows "snapshot_id l = i \<and> validate_display_layout l = Inr () \<and> l \<in> set (sn_snapshots sc)"
  using assms by (auto simp: resolve_copy_def cache_ok_def list_all_iff split: if_splits option.splits dest!: find_first)

lemma resolve_complete:
  assumes ok: "cache_ok sc" and l: "l \<in> set (sn_snapshots sc)"
  shows "resolve_copy (snapshot_id l) sc = Inr l"
proof -
  have "List.find (\<lambda>l'. snapshot_id l' = snapshot_id l) ls = Some l"
    if "l \<in> set ls" "distinct (map snapshot_id ls)" for ls
    using that by (induction ls) (auto simp: image_iff)
  moreover have "\<exists>k. numbered sc k l" using ok l by (auto simp: cache_ok_def list_all_iff)
  ultimately show ?thesis using ok l by (auto simp: resolve_copy_def cache_ok_def numbered_def)
qed

section \<open>The cache keeps the most recent snapshots\<close>

text \<open>The abstract view of a cache: the list of all layouts its captures returned, oldest first.\<close>

fun taken :: "capture list \<Rightarrow> snapshot_cache \<Rightarrow> display_layout list" where
  "taken [] sc = []"
| "taken (c # cs) sc =
     (case capture_for_handshake c sc of
        (LayoutValid l, sc') \<Rightarrow> l # taken cs sc'
      | (_, sc') \<Rightarrow> taken cs sc')"

definition run_captures :: "capture list \<Rightarrow> snapshot_cache \<Rightarrow> snapshot_cache" where
  "run_captures cs sc = fold (\<lambda>c sc. snd (capture_for_handshake c sc)) cs sc"

definition recent :: "nat \<Rightarrow> 'a list \<Rightarrow> 'a list" where
  "recent cap xs = drop (length xs - cap) xs"

lemma recent_snoc: "recent cap (recent cap xs @ [x]) = recent cap (xs @ [x])"
  by (cases "length xs < cap") (auto simp: recent_def Suc_diff_le)

lemma recent_append: "recent cap (recent cap xs @ ys) = recent cap (xs @ ys)"
proof (induction ys rule: rev_induct)
  case (snoc y ys)
  have "recent cap (recent cap xs @ ys @ [y]) = recent cap (recent cap (recent cap xs @ ys) @ [y])"
    by (simp only: recent_snoc append_assoc [symmetric])
  also have "\<dots> = recent cap (xs @ ys @ [y])" by (simp only: snoc recent_snoc append_assoc [symmetric])
  finally show ?case .
qed (auto simp: recent_def)

lemma evict_recent: "evict cap ls = recent cap ls"
  by (simp add: recent_def evict_drop)

lemma run_captures_refines:
  assumes "cache_ok sc" "sn_next sc + length cs < 2 ^ 64" "sn_snapshots sc = recent (sn_capacity sc) old"
  shows "cache_ok (run_captures cs sc) \<and> sn_snapshots (run_captures cs sc) = recent (sn_capacity sc) (old @ taken cs sc)"
  using assms
proof (induction cs arbitrary: sc old)
  case (Cons c cs)
  have n: "sn_next sc + 1 < 2 ^ 64" using Cons.prems(2) by simp
  let ?sc' = "snd (capture_for_handshake c sc)"
  have ok: "cache_ok ?sc'" using Cons.prems(1) n by (rule cache_ok_capture)
  have run: "run_captures (c # cs) sc = run_captures cs ?sc'" by (simp add: run_captures_def)
  show ?case
  proof (cases rule: capture_cases [of c sc])
    case (failed reason)
    then have "sn_capacity ?sc' = sn_capacity sc" "sn_snapshots ?sc' = recent (sn_capacity sc) old" "sn_next ?sc' = sn_next sc + 1"
      using Cons.prems(3) u64_id [OF n] by (simp_all add: next_snapshot_id_def)
    then show ?thesis
      unfolding run using Cons.IH [OF ok, of old] Cons.prems(2) failed by simp
  next
    case (captured l)
    then have "sn_capacity ?sc' = sn_capacity sc" "sn_snapshots ?sc' = recent (sn_capacity sc) (old @ [l])" "sn_next ?sc' = sn_next sc + 1"
      using Cons.prems(3) u64_id [OF n] by (simp_all add: evict_recent recent_append)
    then show ?thesis
      unfolding run using Cons.IH [OF ok, of "old @ [l]"] Cons.prems(2) captured(4) by simp
  qed
qed (simp add: run_captures_def recent_def)

text \<open>C15: The snapshot cache refines the list of all captured layouts: after any sequence of captures,
  whatever the probe returns, looking up an id gives a layout iff that layout is among the most
  recent captures the capacity allows and carries that id. So a lookup never returns a stale,
  invalid or foreign snapshot, and never loses one that is not expired.\<close>

theorem snapshot_cache_refines:
  assumes "length cs + 1 < 2 ^ 64"
  shows "resolve_copy i (run_captures cs (new_cache session cap)) = Inr l \<longleftrightarrow>
    l \<in> set (recent (max cap 1) (taken cs (new_cache session cap))) \<and> snapshot_id l = i"
proof -
  let ?sc = "new_cache session cap"
  have "sn_snapshots ?sc = recent (sn_capacity ?sc) []" "sn_next ?sc + length cs < 2 ^ 64"
    using assms by (simp_all add: new_cache_def recent_def)
  then have "cache_ok (run_captures cs ?sc)" "sn_snapshots (run_captures cs ?sc) = recent (max cap 1) (taken cs ?sc)"
    using run_captures_refines [OF cache_ok_new, where old = "[]"] by (simp_all add: new_cache_def)
  then show ?thesis using resolve_sound resolve_complete by metis
qed

definition demo_snapshot :: display_layout where
  "demo_snapshot = desk\<lparr>snapshot_id := ''s/display-1''\<rparr>"

definition demo_capture :: capture where
  "demo_capture i = Inr (desk\<lparr>snapshot_id := i\<rparr>)"

lemma demo_snapshot_valid: "validate_display_layout demo_snapshot = Inr ()"
  by (simp add: demo_snapshot_def desk_simps validate_display_layout_def validate_monitor_def scan_init_def
     kDisplayLayoutSchemaVersion_def kMaxDisplayMonitors_def kMaxVirtualDisplayAxis_def kMaxVirtualDisplayPixels_def
     kMaxSnapshotIdBytes_def kMaxMonitorIdBytes_def kMaxDeviceNameBytes_def bounded_string_def edges_def bounds_key_def
     contains_rect_def i32_def)

lemma demo_next_id: "fst (next_snapshot_id (new_cache ''s'' 8)) = ''s/display-1''"
  by (simp add: next_snapshot_id_def new_cache_def snapshot_prefix_def digit_char_1)

lemma demo_taken: "taken [demo_capture] (new_cache ''s'' 8) = [demo_snapshot]"
  using demo_snapshot_valid
  by (simp add: capture_for_handshake_def demo_capture_def demo_next_id demo_snapshot_def [symmetric] case_prod_beta)

theorem snapshot_cache_refines_witness:
  "resolve_copy ''s/display-1'' (run_captures [demo_capture] (new_cache ''s'' 8)) = Inr demo_snapshot"
proof -
  have "demo_snapshot \<in> set (recent (max 8 1) (taken [demo_capture] (new_cache ''s'' 8)))" "snapshot_id demo_snapshot = ''s/display-1''"
    by (simp_all only: demo_taken) (simp_all add: recent_def demo_snapshot_def)
  then show ?thesis
    using snapshot_cache_refines [of "[demo_capture]" "''s/display-1''" "''s''" 8 demo_snapshot] by simp
qed

end
