(* ===== verification/Session_Service.thy ===== *)
theory Session_Service
  imports Supervisor_Props Snapshot_Cache
begin

text \<open>
  The control session over its two providers: the snapshot cache and the worker supervisor. What the
  session relies on is the locale \<open>snapshot_source\<close>, and what it needs of the launcher besides is
  \<open>launch_source\<close>; the lemmas about the request loop are proved once inside it. The interpretation
  is on the service composed of the cache and the supervisor.
\<close>

section \<open>The contracts\<close>

definition valid_launch :: "launch_request \<Rightarrow> bool" where
  "valid_launch r \<longleftrightarrow> (\<exists>lay. lr_display_layout r = Some lay \<and> validate_display_layout lay = Inr ())"

locale snapshot_source =
  fixes provider :: "'w snapshot_provider" and inv :: "'w \<Rightarrow> bool"
  assumes resolve_valid:
    "inv w \<Longrightarrow> sp_resolve_copy provider i w = Inr l \<Longrightarrow> snapshot_id l = i \<and> validate_display_layout l = Inr ()"

locale launch_source = snapshot_source provider inv
  for provider :: "'w snapshot_provider" and inv :: "'w \<Rightarrow> bool" +
  fixes l :: "'w launcher"
  assumes launch_inv: "inv w \<Longrightarrow> inv (snd (l_launch_session l r w))"
    and close_inv: "inv w \<Longrightarrow> inv (snd (l_close_session l app wid tok w))"
begin

lemma lift_world [simp]: "c_world (run_state (on_endpoint p c)) = c_world c"
  by (cases "p (c_endpoint c)") (simp_all add: on_endpoint_def)

lemma c_send_world: "c_world (run_state (c_send ty b c)) = c_world c" "c_world (run_state (c_send_error code msg c)) = c_world c"
  by (simp_all add: c_send_def c_send_error_def)

lemma launch_and_reply_world:
  assumes "inv (c_world c)"
  shows "inv (c_world (run_state (launch_and_reply l r c)))"
proof -
  obtain res w where lw: "l_launch_session l r (c_world c) = (res, w)" by force
  then have w: "inv w" using launch_inv [OF assms, of r] by simp
  let ?c = "c\<lparr>c_world := w, c_launches := c_launches c @ [r]\<rparr>"
  have "c_world (run_state (launch_and_reply l r c)) = w"
    using lw by (cases res) (simp_all add: launch_and_reply_def call_launch_def c_send_world catch_keeps [where f = c_world])
  then show ?thesis using w by simp
qed

lemma handle_message_valid:
  assumes inv: "inv (c_world c)" and sv: "sv_launcher sv = Some l" "sv_display_snapshots sv = Some provider"
  shows "inv (c_world (run_state (handle_message sv ses ty body c))) \<and>
    (\<exists>rs. c_launches (run_state (handle_message sv ses ty body c)) = c_launches c @ rs \<and> list_all valid_launch rs)"
proof (cases ty)
  case GpuSelectRequest
  then show ?thesis
    using inv by (auto simp: handle_message_def select_response_def c_send_launches c_send_world
        split: selector_parse.splits prod.splits option.splits)
next
  case LaunchSession
  let ?req = "launch_session_from_body body"
  show ?thesis
  proof (cases "sp_resolve_copy provider (ls_display_snapshot_id ?req) (c_world c)")
    case (Inl reason)
    then show ?thesis
      using LaunchSession inv sv by (simp add: handle_message_def handle_launch_def c_send_launches c_send_world)
  next
    case (Inr lay)
    then have "valid_launch (request_of ses ?req (Some lay))"
      using resolve_valid [OF inv] by (auto simp: valid_launch_def request_of_def)
    then show ?thesis
      using LaunchSession inv sv Inr launch_and_reply_world [OF inv]
      by (auto simp: handle_message_def handle_launch_def c_send_launches c_send_world launch_and_reply_launches)
  qed
next
  case CloseSession
  then show ?thesis
    using inv sv close_inv [OF inv]
    by (auto simp: handle_message_def handle_close_def Let_def c_send_launches c_send_world case_prod_beta)
qed (use inv in \<open>simp_all add: handle_message_def c_send_launches c_send_world\<close>)

lemma serve_loop_valid:
  assumes "inv (c_world c)" and "sv_launcher sv = Some l" "sv_display_snapshots sv = Some provider"
  shows "\<exists>rs. c_launches (run_state (serve_loop sv ses c)) = c_launches c @ rs \<and> list_all valid_launch rs"
  using assms
proof (induction sv ses c rule: serve_loop.induct)
  case (1 sv ses c)
  show ?case
  proof (cases "on_endpoint (on_channel recv) c")
    case ret: (Ret m c')
    have c': "c_launches c' = c_launches c" "inv (c_world c')"
      using lift_launches [of "on_channel recv" c] lift_world [of "on_channel recv" c] ret 1(2) by auto
    show ?thesis
    proof (cases m)
      case None
      then show ?thesis using ret c' by (simp add: serve_loop.simps [of sv ses c])
    next
      case (Some tb)
      obtain ty body where tb: "tb = (ty, body)" by (cases tb)
      obtain rs where rs: "c_launches (run_state (handle_message sv ses ty body c')) = c_launches c @ rs" "list_all valid_launch rs"
        and w: "inv (c_world (run_state (handle_message sv ses ty body c')))"
        using handle_message_valid [OF c'(2) 1(3,4), of ses ty body] c'(1) by auto
      show ?thesis
      proof (cases "handle_message sv ses ty body c'")
        case (Ret u c'')
        obtain rs' where "c_launches (run_state (serve_loop sv ses c'')) = c_launches c'' @ rs'" "list_all valid_launch rs'"
          using 1(1) [OF ret Some tb [symmetric] Ret _ 1(3,4)] w Ret by auto
        then show ?thesis
          using rs Ret Some tb ret by (intro exI [of _ "rs @ rs'"]) (simp add: serve_loop.simps [of sv ses c])
      qed (use rs Some tb ret in \<open>auto simp: serve_loop.simps [of sv ses c]\<close>)
    qed
  qed (use lift_launches [of "on_channel recv" c] in \<open>auto simp: serve_loop.simps [of sv ses c]\<close>)
qed

end

section \<open>The service of the daemon\<close>

text \<open>The state behind a control session: the cache, the supervisor, and the schedule of the other
  threads during the waiting operations still to come. A waiting call always ends: when its slices
  are used up, the clock has passed its deadline.\<close>

record daemon =
  dm_cache :: snapshot_cache
  dm_sup :: supervisor
  dm_schedule :: "(int \<times> sup_event list) list list"

definition next_slices :: "daemon \<Rightarrow> (int \<times> sup_event list) list" where
  "next_slices d = (case dm_schedule d of [] \<Rightarrow> [] | sl # _ \<Rightarrow> sl)"

definition used_slices :: "daemon \<Rightarrow> daemon" where
  "used_slices d = d\<lparr>dm_schedule := tl (dm_schedule d)\<rparr>"

definition wait_ms :: "daemon \<Rightarrow> int" where
  "wait_ms d = ms (cfg_heartbeat_timeout_ms (sup_config (dm_sup d)))"

definition daemon_launch :: "spawn_env \<Rightarrow> launch_request \<Rightarrow> daemon \<Rightarrow> (string + session_info) \<times> daemon" where
  "daemon_launch env r d =
     (case sup_launch_session env (next_slices d @ [(env_wait_now env + wait_ms d, [])]) r (dm_sup d) of
        (res, st) \<Rightarrow> (the res, (used_slices d)\<lparr>dm_sup := st\<rparr>))"

definition daemon_close :: "int \<Rightarrow> string \<Rightarrow> string \<Rightarrow> string \<Rightarrow> daemon \<Rightarrow> (bool \<times> string) \<times> daemon" where
  "daemon_close now app wid tok d =
     (case sup_close_session now (next_slices d @ [(now + wait_ms d, [])]) app wid tok (dm_sup d) of
        (res, st) \<Rightarrow> (the res, (used_slices d)\<lparr>dm_sup := st\<rparr>))"

definition daemon_launcher :: "spawn_env \<Rightarrow> int \<Rightarrow> daemon launcher" where
  "daemon_launcher env now = \<lparr>l_launch_session = daemon_launch env, l_close_session = daemon_close now\<rparr>"

definition daemon_snapshots :: "capture \<Rightarrow> daemon snapshot_provider" where
  "daemon_snapshots capture =
     \<lparr>sp_capture_for_handshake = (\<lambda>d. case capture_for_handshake capture (dm_cache d) of (r, sc) \<Rightarrow> (r, d\<lparr>dm_cache := sc\<rparr>)),
      sp_resolve_copy = (\<lambda>i d. resolve_copy i (dm_cache d))\<rparr>"

text \<open>The waiting operations return.\<close>

lemma launch_wait_returns: "\<exists>r. fst (launch_wait wid deadline (slices @ [(deadline, [])]) st) = Some r"
  by (induction slices arbitrary: st) (auto simp: launch_failed_def split: launch_poll.split)

lemma close_wait_returns: "\<exists>r. fst (close_wait wid deadline (slices @ [(deadline, [])]) st) = Some r"
  by (induction slices arbitrary: st) auto

interpretation daemon: launch_source "daemon_snapshots capture" "\<lambda>d. cache_ok (dm_cache d)" "daemon_launcher env now"
proof unfold_locales
  fix w i l assume "cache_ok (dm_cache w)" "sp_resolve_copy (daemon_snapshots capture) i w = Inr l"
  then show "snapshot_id l = i \<and> validate_display_layout l = Inr ()"
    using resolve_sound by (simp add: daemon_snapshots_def)
qed (simp_all add: daemon_launcher_def daemon_launch_def daemon_close_def used_slices_def case_prod_beta)

text \<open>A control session over the daemon's cache and supervisor launches workers only with a display
  layout that passed validation, whatever the client requests and however the supervisor's threads
  interleave with it.\<close>

theorem launches_get_valid_layouts:
  assumes "cache_ok (dm_cache (c_world c))"
    and "sv_launcher sv = Some (daemon_launcher env now)" and "sv_display_snapshots sv = Some (daemon_snapshots capture)"
  shows "\<exists>rs. c_launches (run_state (serve_loop sv ses c)) = c_launches c @ rs \<and> list_all valid_launch rs"
  using assms by (rule daemon.serve_loop_valid)

definition demo_daemon :: daemon where
  "demo_daemon = \<lparr>dm_cache = new_cache ''s'' 8, dm_sup = new_supervisor demo_config ''s'' 4000, dm_schedule = []\<rparr>"

definition demo_service :: "daemon service" where
  "demo_service = \<lparr>sv_devices = probe_mocked, sv_devices_real = False, sv_launcher = Some (daemon_launcher demo_env 0),
     sv_worker_backend = ''mock'', sv_host_display = \<lparr>hd_work_w = 0, hd_work_h = 0, hd_dpi = 0\<rparr>,
     sv_display_snapshots = Some (daemon_snapshots demo_capture)\<rparr>"

theorem launches_get_valid_layouts_witness:
  "\<forall>ses ep. \<exists>rs. c_launches (run_state (serve_loop demo_service ses
     \<lparr>c_endpoint = ep, c_world = demo_daemon, c_launches = []\<rparr>)) = rs \<and> list_all valid_launch rs"
proof (intro allI)
  fix ses ep
  show "\<exists>rs. c_launches (run_state (serve_loop demo_service ses
     \<lparr>c_endpoint = ep, c_world = demo_daemon, c_launches = []\<rparr>)) = rs \<and> list_all valid_launch rs"
    using launches_get_valid_layouts [of "\<lparr>c_endpoint = ep, c_world = demo_daemon, c_launches = []\<rparr>" demo_service demo_env 0
        demo_capture ses] cache_ok_new by (simp add: demo_daemon_def demo_service_def)
qed

section \<open>What a launch returns\<close>

lemma run_identity:
  assumes "sup_ok n st" "find_by_worker w st = Some s" "n + length es + 1 < 2 ^ 64" "EvClear \<notin> set es"
  shows "\<exists>s'. find_by_worker w (fold sup_exec es st) = Some s' \<and> identity s' = identity s \<and> sup_ok (n + length es) (fold sup_exec es st)"
  using assms
proof (induction es arbitrary: n st s)
  case (Cons e es)
  have "n + 2 < 2 ^ 64" using Cons.prems(3) by simp
  then have ok: "sup_ok (Suc n) (sup_exec e st)" by (rule sup_ok_exec [OF Cons.prems(1)])
  have "e \<noteq> EvClear" using Cons.prems(4) by auto
  then obtain s1 where s1: "find_by_worker w (sup_exec e st) = Some s1" "session_move e w s s1"
    using session_exec [OF Cons.prems(1,2)] by meson
  have "Suc n + length es + 1 < 2 ^ 64" "EvClear \<notin> set es" using Cons.prems(3,4) by simp_all
  then show ?case using Cons.IH [OF ok s1(1)] s1(2) by (auto simp: session_move_def)
qed auto

lemma launch_steps:
  assumes a: "session_args r st = (a, st1)" and reg: "spawn_and_register env a st1 = (Inr wid, st2)"
  shows "st2 = fold sup_exec [EvLaunch env r, EvInsert (length (sup_inflight st))] st"
    and "\<exists>s. find_by_worker wid st2 = Some s \<and> se_worker_id s = wid \<and> se_app_instance_id s = lr_app_instance_id r \<and>
      se_display_layout s = lr_display_layout r"
proof -
  obtain s st1' where p: "prepare_session env a st1 = (Inr s, st1')" "\<not> sup_stopping st1'" "wid = se_worker_id s"
    "st2 = st1'\<lparr>sup_sessions := omap_put wid s (sup_sessions st1')\<rparr>"
    using reg by (auto simp: spawn_and_register_def insert_session_def split: prod.splits sum.splits if_splits)
  have fl: "sup_inflight st1' = sup_inflight st"
    using p(1) session_args_shape [OF a]
    by (auto simp: prepare_session_def next_worker_id_def mint_token_def Let_def
        split: if_splits selector_parse.splits prod.splits option.splits sum.splits)
  show "st2 = fold sup_exec [EvLaunch env r, EvInsert (length (sup_inflight st))] st"
    using a p fl by (simp add: prepare_step_def insert_session_def)
  have "se_app_instance_id s = spa_app_instance_id a \<and> se_display_layout s = spa_display_layout a"
    using p(1) by (auto simp: prepare_session_def Let_def new_session_def
        split: if_splits selector_parse.splits prod.splits option.splits sum.splits)
  then show "\<exists>s. find_by_worker wid st2 = Some s \<and> se_worker_id s = wid \<and> se_app_instance_id s = lr_app_instance_id r \<and>
      se_display_layout s = lr_display_layout r"
    using a p(3,4) by (auto simp: find_by_worker_def map_of_omap_put session_args_def Let_def mint_token_def)
qed

lemma launch_wait_result:
  assumes "sup_ok n st" "find_by_worker w st = Some s"
    and "n + length (concat (map snd slices)) + 1 < 2 ^ 64" "EvClear \<notin> set (concat (map snd slices))"
    and "launch_wait w deadline slices st = (Some (Inr info), st')"
  shows "\<exists>m s'. sup_ok m st' \<and> find_by_worker w st' = Some s' \<and> identity s' = identity s \<and> poll_launch w st' = Up info"
  using assms
proof (induction slices arbitrary: n st s)
  case (Cons slice slices)
  obtain now evs where sl: "slice = (now, evs)" by (cases slice)
  show ?case
  proof (cases "poll_launch w st")
    case (Up i)
    then show ?thesis using Cons.prems sl by auto
  next
    case Pending
    then have go: "launch_wait w deadline slices (fold sup_exec evs st) = (Some (Inr info), st')"
      using Cons.prems(5) sl by (auto simp: launch_failed_def split: if_splits)
    have b: "n + length evs + 1 < 2 ^ 64" "EvClear \<notin> set evs" using Cons.prems(3,4) sl by auto
    obtain s1 where s1: "find_by_worker w (fold sup_exec evs st) = Some s1" "identity s1 = identity s"
      "sup_ok (n + length evs) (fold sup_exec evs st)"
      using run_identity [OF Cons.prems(1,2) b] by blast
    have "n + length evs + length (concat (map snd slices)) + 1 < 2 ^ 64" "EvClear \<notin> set (concat (map snd slices))"
      using Cons.prems(3,4) sl by auto
    then show ?thesis using Cons.IH [OF s1(3,1) _ _ go] s1(2) by simp
  qed (use Cons.prems(5) sl in \<open>auto simp: launch_failed_def\<close>)
qed simp

text \<open>C10: A launch that reports success describes a live session of this very request: the worker it
  names is registered and connected, belongs to the requesting application identity, uses the
  requested display layout, and the reported endpoint and token are the ones of that session, no
  matter what the other threads do while the launch waits.\<close>

theorem launch_session_sound:
  assumes "sup_reach (new_supervisor cfg sid port) n st"
    and "n + length (concat (map snd slices)) + 3 < 2 ^ 64" and "EvClear \<notin> set (concat (map snd slices))"
    and "sup_launch_session env slices r st = (Some (Inr info), st')"
  shows "\<exists>s. find_by_worker (si_worker_id info) st' = Some s \<and> se_state s = Running \<and> se_connected s \<and>
    se_app_instance_id s = lr_app_instance_id r \<and> se_display_layout s = lr_display_layout r \<and>
    si_app_token info = se_app_token s \<and> si_data_plane_port info = se_data_plane_port s \<and> 0 < se_data_plane_port s"
proof -
  obtain a st1 where a: "session_args r st = (a, st1)" by force
  obtain wid st2 where reg: "spawn_and_register env a st1 = (Inr wid, st2)"
    and wait: "launch_wait wid (env_wait_now env + ms (cfg_heartbeat_timeout_ms (sup_config st))) slices st2 = (Some (Inr info), st')"
    using assms(4) a by (auto simp: sup_launch_session_def split: prod.splits sum.splits)
  note steps = launch_steps [OF a reg]
  have "sup_reach (new_supervisor cfg sid port) (n + 2) st2"
    unfolding steps(1) using sup_reach_fold [OF assms(1), of "[EvLaunch env r, EvInsert (length (sup_inflight st))]"] by simp
  then have ok: "sup_ok (n + 2) st2" using assms(2) by (intro sup_reach_ok) auto
  obtain s where s: "find_by_worker wid st2 = Some s" "se_app_instance_id s = lr_app_instance_id r" "se_display_layout s = lr_display_layout r"
    using steps(2) by blast
  have "n + 2 + length (concat (map snd slices)) + 1 < 2 ^ 64" using assms(2) by linarith
  then obtain m s' where s': "sup_ok m st'" "find_by_worker wid st' = Some s'" "identity s' = identity s" "poll_launch wid st' = Up info"
    using launch_wait_result [OF ok s(1) _ assms(3) wait] by blast
  have "session_ok s'"
    using s'(1,2) in_table_session_ok(1) [of m st' wid s'] by (auto simp: sup_ok_def find_by_worker_def dest: map_of_SomeD)
  then show ?thesis
    using s' s by (auto simp: poll_launch_def Let_def identity_def session_ok_def split: if_splits)
qed

definition demo_request :: launch_request where
  "demo_request = \<lparr>lr_app_instance_id = ''app'', lr_gpu_selector = ''auto'', lr_display_backend = [], lr_graphics_frontend = [],
     lr_profile_enabled = False, lr_op_trace_enabled = False, lr_input_trace_enabled = False, lr_display_layout = None\<rparr>"

definition demo_app_worker :: worker_hello where
  "demo_app_worker = \<lparr>wh_worker_id = ''wkr-1'', wh_token = ''tok-2-wkr-1'', wh_data_plane_port = 4001, wh_sidecar_plane_port = 0\<rparr>"

definition demo_slices :: "(int \<times> sup_event list) list" where
  "demo_slices = [(1, [EvAccept, EvRecv 0 (Message WorkerHello (worker_hello_to_body demo_app_worker)) 1, EvAttempt 0 2]), (3, [])]"

lemma demo_launch:
  "\<exists>info st'. sup_launch_session demo_env demo_slices demo_request (new_supervisor demo_config ''sup-1'' 4000) = (Some (Inr info), st') \<and>
     si_worker_id info = ''wkr-1'' \<and> si_data_plane_port info = 4001"
proof -
  obtain sel d r where "parse_selector ''auto'' = SelOk sel" "select_device probe_mocked sel = (Some d, r)"
    using demo_device by blast
  moreover have "worker_hello_from_body (worker_hello_to_body demo_app_worker) = demo_app_worker"
    by (rule worker_hello_rt) (simp add: worker_hello_ok_def demo_app_worker_def i32_range_def)
  ultimately show ?thesis
    by (simp add: sup_launch_session_def session_args_def demo_request_def demo_slices_def demo_config_def new_supervisor_def
        spawn_and_register_def prepare_session_def demo_env_def next_worker_id_def mint_token_def token_text_def Let_def
        digit_char_1 digit_char_2 insert_session_def conn_step_def conn_recv_def conn_attempt_def max_attempts_def register_worker_def
        find_by_worker_def find_by_token_def on_session_def omap_at_def new_session_def new_lifecycle_def poll_launch_def
        transition_def can_transition_def is_terminal_def lc_terminal_def ms_def demo_app_worker_def u64_def)
qed

theorem launch_session_sound_witness:
  "\<exists>info st' s. sup_launch_session demo_env demo_slices demo_request (new_supervisor demo_config ''sup-1'' 4000) = (Some (Inr info), st') \<and>
     find_by_worker (si_worker_id info) st' = Some s \<and> se_state s = Running \<and> se_app_instance_id s = ''app'' \<and> 0 < se_data_plane_port s"
proof -
  obtain info st' where l: "sup_launch_session demo_env demo_slices demo_request (new_supervisor demo_config ''sup-1'' 4000) = (Some (Inr info), st')"
    using demo_launch by blast
  have "0 + length (concat (map snd demo_slices)) + 3 < 2 ^ 64" "EvClear \<notin> set (concat (map snd demo_slices))"
    by (simp_all add: demo_slices_def)
  then show ?thesis
    using launch_session_sound [OF sup_reach.start _ _ l] l by (auto simp: demo_request_def)
qed

end
