(* ===== verification/Memory_Tracker.thy ===== *)
theory Memory_Tracker
  imports Prelude
begin

text \<open>
  The tracker of host-visible memory in the Vulkan driver (src/vkrelay2/linux/icd/icd_memory.h): the
  shadow buffer behind a mapped pointer, the mirror of what the worker is known to hold, the two
  snapshots that find the dirty bytes in chunks of 4 KiB, the commit of an acknowledged snapshot,
  and the splitter that cuts a snapshot into frames.

  The allocation table is an ordered map; the two buffers of an allocation are byte strings. The
  page filter is code outside the tracker: a parameter that answers, for the shadow of an allocation,
  with the ranges possibly written, or not at all. Offsets and sizes are bounded by the size of a
  buffer that exists in memory, so their sums do not reach the 64-bit limit except where the code
  checks for it (\<open>add_overflows\<close>), and there the check is part of the model.
\<close>

section \<open>Ranges and snapshots\<close>

definition kChunkBytes :: nat where
  "kChunkBytes = 4096"

definition kWholeSize :: nat where
  "kWholeSize = 2 ^ 64 - 1"

record brange =
  br_offset :: nat
  br_size :: nat

record mem_range =
  mr_memory :: nat
  mr_offset :: nat
  mr_size :: nat

record upload =
  up_memory :: nat
  up_ranges :: "brange list"

record dirty_snapshot =
  ds_uploads :: "upload list"
  ds_payload :: string

definition empty_snapshot :: dirty_snapshot where
  "empty_snapshot = \<lparr>ds_uploads = [], ds_payload = []\<rparr>"

abbreviation br_end :: "brange \<Rightarrow> nat" where
  "br_end r \<equiv> br_offset r + br_size r"

definition slice :: "'a list \<Rightarrow> brange \<Rightarrow> 'a list" where
  "slice bytes r = take (br_size r) (drop (br_offset r) bytes)"

text \<open>\<open>memcpy\<close> into a buffer that is long enough.\<close>

definition overwrite :: "'a list \<Rightarrow> nat \<Rightarrow> 'a list \<Rightarrow> 'a list" where
  "overwrite bytes off data = take off bytes @ data @ drop (off + length data) bytes"

section \<open>Allocations\<close>

record alloc =
  al_size :: nat
  al_type_index :: nat
  al_host_visible :: bool
  al_host_coherent :: bool
  al_is_mapped :: bool
  al_candidate :: bool
  al_baseline_done :: bool
  al_mapped_offset :: nat
  al_mapped_size :: nat
  al_shadow :: string
  al_last_uploaded :: string

type_synonym tracker = "(nat \<times> alloc) list"

definition new_alloc :: "nat \<Rightarrow> nat \<Rightarrow> bool \<Rightarrow> bool \<Rightarrow> alloc" where
  "new_alloc bytes type_index host_visible host_coherent =
     \<lparr>al_size = bytes, al_type_index = type_index, al_host_visible = host_visible, al_host_coherent = host_coherent,
      al_is_mapped = False, al_candidate = False, al_baseline_done = False, al_mapped_offset = 0, al_mapped_size = 0,
      al_shadow = [], al_last_uploaded = []\<rparr>"

definition on_allocate :: "nat \<Rightarrow> nat \<Rightarrow> nat \<Rightarrow> bool \<Rightarrow> bool \<Rightarrow> tracker \<Rightarrow> tracker" where
  "on_allocate memory bytes type_index host_visible host_coherent t =
     omap_put memory (new_alloc bytes type_index host_visible host_coherent) t"

definition on_free :: "nat \<Rightarrow> tracker \<Rightarrow> (string + unit) \<times> tracker" where
  "on_free memory t =
     (case map_of t memory of
        None \<Rightarrow> (Inl ''free of unknown memory'', t)
      | Some _ \<Rightarrow> (Inr (), filter (\<lambda>kv. fst kv \<noteq> memory) t))"

definition add_overflows :: "nat \<Rightarrow> nat \<Rightarrow> bool" where
  "add_overflows a b \<longleftrightarrow> a > 2 ^ 64 - 1 - b"

definition ensure_sized :: "alloc \<Rightarrow> alloc" where
  "ensure_sized a =
     (if al_shadow a = [] \<and> 0 < al_size a
      then a\<lparr>al_shadow := replicate (al_size a) (CHR 0x00), al_last_uploaded := replicate (al_size a) (CHR 0x00)\<rparr>
      else a)"

text \<open>The result of a map is the offset of the returned pointer in the shadow buffer.\<close>

definition map_extent :: "alloc \<Rightarrow> nat \<Rightarrow> nat \<Rightarrow> string + nat" where
  "map_extent a offset bytes =
     rbind (ensure (\<not> al_is_mapped a) ''memory is already mapped'') (\<lambda>_.
     rbind (ensure (al_host_visible a \<and> al_host_coherent a) ''map requires a HOST_VISIBLE | HOST_COHERENT memory type'') (\<lambda>_.
     rbind (ensure (offset < al_size a) ''map offset out of bounds'') (\<lambda>_.
     rbind (if bytes = kWholeSize then Inr (al_size a - offset)
            else if add_overflows offset bytes \<or> offset + bytes > al_size a then Inl ''map range out of bounds''
            else Inr bytes) (\<lambda>effective.
     if effective = 0 then Inl ''map range is empty'' else Inr effective))))"

definition on_map :: "nat \<Rightarrow> nat \<Rightarrow> nat \<Rightarrow> tracker \<Rightarrow> (string + nat) \<times> tracker" where
  "on_map memory offset bytes t =
     (case map_of t memory of
        None \<Rightarrow> (Inl ''map of unknown memory'', t)
      | Some a \<Rightarrow>
          (case map_extent a offset bytes of
             Inl e \<Rightarrow> (Inl e, t)
           | Inr effective \<Rightarrow>
               (Inr offset, omap_at memory (\<lambda>a. (ensure_sized a)\<lparr>al_is_mapped := True, al_mapped_offset := offset,
                  al_mapped_size := effective, al_candidate := True\<rparr>) t)))"

definition on_unmap :: "nat \<Rightarrow> tracker \<Rightarrow> (string + unit) \<times> tracker" where
  "on_unmap memory t =
     (case map_of t memory of
        None \<Rightarrow> (Inl ''unmap of unknown memory'', t)
      | Some a \<Rightarrow>
          if \<not> al_is_mapped a then (Inl ''unmap of memory that is not mapped'', t)
          else (Inr (), omap_at memory (\<lambda>a. a\<lparr>al_is_mapped := False\<rparr>) t))"

text \<open>What the application does with the pointer: it writes bytes inside its mapping.\<close>

definition app_write :: "nat \<Rightarrow> nat \<Rightarrow> string \<Rightarrow> tracker \<Rightarrow> tracker" where
  "app_write memory offset bytes t =
     omap_at memory (\<lambda>a.
       if al_is_mapped a \<and> al_mapped_offset a \<le> offset \<and> offset + length bytes \<le> al_mapped_offset a + al_mapped_size a
       then a\<lparr>al_shadow := overwrite (al_shadow a) offset bytes\<rparr> else a) t"

section \<open>Collecting dirty ranges\<close>

fun merge_into :: "brange list \<Rightarrow> brange list \<Rightarrow> brange list" where
  "merge_into out [] = rev out"
| "merge_into [] (r # rs) = merge_into [r] rs"
| "merge_into (b # out) (r # rs) =
     (if br_offset r \<le> br_end b
      then merge_into (b\<lparr>br_size := max (br_end b) (br_end r) - br_offset b\<rparr> # out) rs
      else merge_into (r # b # out) rs)"

definition merge_cover :: "brange list \<Rightarrow> brange list" where
  "merge_cover rs = merge_into [] (sort_key br_offset rs)"

text \<open>The chunk starts visited for one interval.\<close>

function chunks_from :: "nat \<Rightarrow> nat \<Rightarrow> nat list" where
  "chunks_from c e = (if c < e then c # chunks_from (c + kChunkBytes) e else [])"
  by pat_completeness auto
termination by (relation "measure (\<lambda>(c, e). e - c)") (auto simp: kChunkBytes_def)

declare chunks_from.simps [simp del]

definition interval_chunks :: "nat \<Rightarrow> brange \<Rightarrow> nat list" where
  "interval_chunks bytes iv = chunks_from (br_offset iv div kChunkBytes * kChunkBytes) (min (br_end iv) bytes)"

record sweep =
  sw_have :: bool
  sw_cur :: brange
  sw_prev_chunk :: nat
  sw_first :: bool
  sw_ranges :: "brange list"
  sw_payload :: string

definition emit :: "alloc \<Rightarrow> sweep \<Rightarrow> sweep" where
  "emit a sw = sw\<lparr>sw_ranges := sw_ranges sw @ [sw_cur sw], sw_payload := sw_payload sw @ slice (al_shadow a) (sw_cur sw)\<rparr>"

definition chunk_end :: "alloc \<Rightarrow> nat \<Rightarrow> nat" where
  "chunk_end a c = min (c + kChunkBytes) (al_size a)"

definition chunk_of :: "alloc \<Rightarrow> nat \<Rightarrow> brange" where
  "chunk_of a c = \<lparr>br_offset = c, br_size = chunk_end a c - c\<rparr>"

definition chunk_dirty :: "alloc \<Rightarrow> nat \<Rightarrow> bool" where
  "chunk_dirty a c \<longleftrightarrow> slice (al_shadow a) (chunk_of a c) \<noteq> slice (al_last_uploaded a) (chunk_of a c)"

definition visit_chunk :: "alloc \<Rightarrow> nat \<Rightarrow> sweep \<Rightarrow> sweep" where
  "visit_chunk a c sw =
     (let idx = c div kChunkBytes;
          consecutive = (\<not> sw_first sw \<and> idx = sw_prev_chunk sw + 1);
          sw1 = (if chunk_dirty a c
                 then if sw_have sw \<and> consecutive
                      then sw\<lparr>sw_cur := (sw_cur sw)\<lparr>br_size := chunk_end a c - br_offset (sw_cur sw)\<rparr>\<rparr>
                      else (if sw_have sw then emit a sw else sw)\<lparr>sw_cur := chunk_of a c, sw_have := True\<rparr>
                 else if sw_have sw then (emit a sw)\<lparr>sw_have := False\<rparr> else sw)
      in sw1\<lparr>sw_prev_chunk := idx, sw_first := False\<rparr>)"

definition collect_dirty :: "alloc \<Rightarrow> brange list \<Rightarrow> string \<Rightarrow> brange list \<times> string" where
  "collect_dirty a cover payload =
     (let sw0 = \<lparr>sw_have = False, sw_cur = \<lparr>br_offset = 0, br_size = 0\<rparr>, sw_prev_chunk = 0, sw_first = True, sw_ranges = [],
                 sw_payload = payload\<rparr>;
          sw = fold (visit_chunk a) (concat (map (interval_chunks (al_size a)) cover)) sw0;
          sw' = (if sw_have sw then emit a sw else sw)
      in (sw_ranges sw', sw_payload sw'))"

definition add_upload :: "nat \<Rightarrow> brange list \<times> string \<Rightarrow> dirty_snapshot \<Rightarrow> dirty_snapshot" where
  "add_upload memory rp snap =
     \<lparr>ds_uploads = (if fst rp = [] then ds_uploads snap
                    else ds_uploads snap @ [\<lparr>up_memory = memory, up_ranges = fst rp\<rparr>]),
      ds_payload = snd rp\<rparr>"

section \<open>The explicit flush\<close>

definition flush_extent :: "tracker \<Rightarrow> mem_range \<Rightarrow> string + brange" where
  "flush_extent t r =
     (case map_of t (mr_memory r) of
        None \<Rightarrow> Inl ''flush of unknown memory''
      | Some a \<Rightarrow>
          let off = mr_offset r; mapped_end = al_mapped_offset a + al_mapped_size a in
          if \<not> al_is_mapped a then Inl ''flush of memory that is not mapped''
          else if mr_size r = kWholeSize
          then (if off < al_mapped_offset a \<or> mapped_end \<le> off then Inl ''flush offset is outside the current mapping''
                else Inr \<lparr>br_offset = off, br_size = mapped_end - off\<rparr>)
          else if mr_size r = 0 then Inl ''explicit flush range size must be > 0''
          else if add_overflows off (mr_size r) \<or> off < al_mapped_offset a \<or> off + mr_size r > mapped_end
          then Inl ''flush range is outside the current mapping''
          else Inr \<lparr>br_offset = off, br_size = mr_size r\<rparr>)"

text \<open>The covers of a flush by allocation, in the order in which the allocations are first named.\<close>

fun flush_covers :: "tracker \<Rightarrow> mem_range list \<Rightarrow> (nat \<times> brange list) list \<Rightarrow> string + (nat \<times> brange list) list" where
  "flush_covers t [] cover = Inr cover"
| "flush_covers t (r # rs) cover =
     rbind (flush_extent t r) (\<lambda>iv.
       flush_covers t rs
         (assoc_set (mr_memory r) ((case assoc_find (mr_memory r) cover of None \<Rightarrow> [] | Some ivs \<Rightarrow> ivs) @ [iv]) cover))"

definition snapshot_explicit :: "mem_range list \<Rightarrow> tracker \<Rightarrow> string + dirty_snapshot" where
  "snapshot_explicit rs t =
     rbind (flush_covers t rs []) (\<lambda>cover.
       Inr (fold (\<lambda>(mem, ivs) snap.
         case map_of t mem of
           None \<Rightarrow> snap
         | Some a \<Rightarrow> add_upload mem (collect_dirty a (merge_cover ivs) (ds_payload snap)) snap) cover empty_snapshot))"

section \<open>The sweep\<close>

type_synonym page_filter = "nat \<Rightarrow> nat \<Rightarrow> brange list option"

record sweep_io =
  io_eligible_bytes :: nat
  io_diffed_bytes :: nat

definition clamp_admitted :: "nat \<Rightarrow> brange list \<Rightarrow> brange list" where
  "clamp_admitted bytes rs =
     map (\<lambda>r. \<lparr>br_offset = br_offset r,
               br_size = min (if add_overflows (br_offset r) (br_size r) then bytes else br_end r) bytes - br_offset r\<rparr>)
       (filter (\<lambda>r. \<not> (bytes \<le> br_offset r \<or> br_size r = 0)) rs)"

text \<open>The cover to diff, and whether it is the whole allocation.\<close>

definition sweep_cover :: "page_filter option \<Rightarrow> nat \<Rightarrow> alloc \<Rightarrow> brange list \<times> bool" where
  "sweep_cover flt memory a =
     (let whole = ([\<lparr>br_offset = 0, br_size = al_size a\<rparr>], True) in
      case flt of
        None \<Rightarrow> whole
      | Some f \<Rightarrow>
          if al_baseline_done a
          then (case f memory (al_size a) of
                  None \<Rightarrow> whole
                | Some admitted \<Rightarrow> (merge_cover (clamp_admitted (al_size a) admitted), False))
          else whole)"

definition sweep_alloc ::
  "page_filter option \<Rightarrow> nat \<Rightarrow> alloc \<Rightarrow> dirty_snapshot \<times> sweep_io \<Rightarrow> alloc \<times> dirty_snapshot \<times> sweep_io" where
  "sweep_alloc flt memory a si =
     (let (snap, io) = si in
      if \<not> al_candidate a then (a, snap, io)
      else
        let (ranges, payload, a1, io1) =
              (if al_shadow a \<noteq> []
               then let (cover, full) = sweep_cover flt memory a;
                        (ranges, payload) = collect_dirty a cover (ds_payload snap)
                    in (ranges, payload, if full \<and> flt \<noteq> None then a\<lparr>al_baseline_done := True\<rparr> else a,
                        \<lparr>io_eligible_bytes = io_eligible_bytes io + al_size a,
                         io_diffed_bytes = io_diffed_bytes io + sum_list (map br_size cover)\<rparr>)
               else ([], ds_payload snap, a, io))
        in (if ranges = [] \<and> \<not> al_is_mapped a then a1\<lparr>al_candidate := False\<rparr> else a1,
            add_upload memory (ranges, payload) snap, io1))"

fun sweep_table :: "page_filter option \<Rightarrow> tracker \<Rightarrow> dirty_snapshot \<times> sweep_io \<Rightarrow> tracker \<times> dirty_snapshot \<times> sweep_io" where
  "sweep_table flt [] si = ([], si)"
| "sweep_table flt ((mem, a) # t) si =
     (let (a', si') = sweep_alloc flt mem a si; (t', si'') = sweep_table flt t si' in ((mem, a') # t', si''))"

definition snapshot_pending :: "page_filter option \<Rightarrow> tracker \<Rightarrow> tracker \<times> dirty_snapshot \<times> sweep_io" where
  "snapshot_pending flt t = sweep_table flt t (empty_snapshot, \<lparr>io_eligible_bytes = 0, io_diffed_bytes = 0\<rparr>)"

definition force_rebaseline :: "tracker \<Rightarrow> tracker" where
  "force_rebaseline t = map (\<lambda>(k, a). (k, a\<lparr>al_baseline_done := False\<rparr>)) t"

section \<open>Commit\<close>

definition commit_range :: "string \<Rightarrow> nat \<Rightarrow> brange \<Rightarrow> tracker \<times> nat \<Rightarrow> tracker \<times> nat" where
  "commit_range payload memory r tc =
     (let (t, cursor) = tc in
      (omap_at memory (\<lambda>a.
         if br_end r \<le> length (al_last_uploaded a) \<and> cursor + br_size r \<le> length payload
         then a\<lparr>al_last_uploaded := overwrite (al_last_uploaded a) (br_offset r) (take (br_size r) (drop cursor payload))\<rparr>
         else a) t,
       cursor + br_size r))"

definition commit_upload :: "string \<Rightarrow> upload \<Rightarrow> tracker \<times> nat \<Rightarrow> tracker \<times> nat" where
  "commit_upload payload up tc = fold (commit_range payload (up_memory up)) (up_ranges up) tc"

definition commit :: "dirty_snapshot \<Rightarrow> tracker \<Rightarrow> tracker" where
  "commit snap t = fst (fold (commit_upload (ds_payload snap)) (ds_uploads snap) (t, 0))"

section \<open>Queries and readback\<close>

definition known :: "nat \<Rightarrow> tracker \<Rightarrow> bool" where
  "known memory t \<longleftrightarrow> map_of t memory \<noteq> None"

definition mapped :: "nat \<Rightarrow> tracker \<Rightarrow> bool" where
  "mapped memory t = (case map_of t memory of None \<Rightarrow> False | Some a \<Rightarrow> al_is_mapped a)"

definition host_visible_coherent :: "nat \<Rightarrow> tracker \<Rightarrow> bool" where
  "host_visible_coherent memory t =
     (case map_of t memory of None \<Rightarrow> False | Some a \<Rightarrow> al_host_visible a \<and> al_host_coherent a)"

definition allocation_size :: "nat \<Rightarrow> tracker \<Rightarrow> nat" where
  "allocation_size memory t = (case map_of t memory of None \<Rightarrow> 0 | Some a \<Rightarrow> al_size a)"

definition readback_clean :: "nat \<Rightarrow> tracker \<Rightarrow> bool" where
  "readback_clean memory t =
     (case map_of t memory of None \<Rightarrow> False | Some a \<Rightarrow> al_shadow a \<noteq> [] \<and> al_shadow a = al_last_uploaded a)"

definition apply_readback :: "nat \<Rightarrow> string \<Rightarrow> tracker \<Rightarrow> tracker" where
  "apply_readback memory bytes t =
     omap_at memory (\<lambda>a.
       if al_shadow a = [] \<or> al_shadow a \<noteq> al_last_uploaded a \<or> length bytes \<noteq> length (al_shadow a) then a
       else a\<lparr>al_shadow := bytes, al_last_uploaded := bytes\<rparr>) t"

definition candidate_count :: "tracker \<Rightarrow> nat" where
  "candidate_count t = length (filter (\<lambda>kv. al_candidate (snd kv)) t)"

section \<open>Splitting a snapshot into frames\<close>

record splitter =
  sp_frames :: "dirty_snapshot list"
  sp_cur :: dirty_snapshot
  sp_cur_ranges :: nat
  sp_cursor :: nat

definition flush_cur :: "splitter \<Rightarrow> splitter" where
  "flush_cur s =
     (if ds_uploads (sp_cur s) \<noteq> []
      then s\<lparr>sp_frames := sp_frames s @ [sp_cur s], sp_cur := empty_snapshot, sp_cur_ranges := 0\<rparr> else s)"

definition append_range :: "nat \<Rightarrow> brange \<Rightarrow> upload list \<Rightarrow> upload list" where
  "append_range memory r ups =
     (if ups = [] \<or> up_memory (last ups) \<noteq> memory then ups @ [\<lparr>up_memory = memory, up_ranges = [r]\<rparr>]
      else butlast ups @ [(last ups)\<lparr>up_ranges := up_ranges (last ups) @ [r]\<rparr>])"

text \<open>The loop over one range: \<open>bytes\<close> is what is left of it, starting at \<open>off\<close>.\<close>

function split_range :: "nat \<Rightarrow> nat \<Rightarrow> nat \<Rightarrow> nat \<Rightarrow> string \<Rightarrow> splitter \<Rightarrow> splitter" where
  "split_range max_payload max_ranges memory off bytes s =
     (if bytes = [] \<or> max_payload = 0 \<or> max_ranges = 0 then s
      else let s1 = (if max_payload \<le> length (ds_payload (sp_cur s)) \<or> max_ranges \<le> sp_cur_ranges s then flush_cur s else s);
               room = max_payload - length (ds_payload (sp_cur s1));
               n = min (length bytes) room
           in if n = 0 then s1
              else split_range max_payload max_ranges memory (off + n) (drop n bytes)
                (s1\<lparr>sp_cur := \<lparr>ds_uploads = append_range memory \<lparr>br_offset = off, br_size = n\<rparr> (ds_uploads (sp_cur s1)),
                              ds_payload = ds_payload (sp_cur s1) @ take n bytes\<rparr>,
                    sp_cur_ranges := sp_cur_ranges s1 + 1\<rparr>))"
  by pat_completeness auto
termination
  by (relation "measure (\<lambda>(mp, mr, mem, off, bytes, s). length bytes)") (auto simp: Let_def)

declare split_range.simps [simp del]

definition split_upload :: "nat \<Rightarrow> nat \<Rightarrow> string \<Rightarrow> upload \<Rightarrow> splitter \<Rightarrow> splitter" where
  "split_upload max_payload max_ranges payload up s =
     fold (\<lambda>r s. split_range max_payload max_ranges (up_memory up) (br_offset r)
              (take (br_size r) (drop (sp_cursor s) payload)) (s\<lparr>sp_cursor := sp_cursor s + br_size r\<rparr>)) (up_ranges up) s"

definition split_for_upload :: "dirty_snapshot \<Rightarrow> nat \<Rightarrow> nat \<Rightarrow> dirty_snapshot list" where
  "split_for_upload snap max_payload max_ranges =
     (if max_payload = 0 \<or> max_ranges = 0 then []
      else sp_frames (flush_cur (fold (split_upload max_payload max_ranges (ds_payload snap)) (ds_uploads snap)
             \<lparr>sp_frames = [], sp_cur = empty_snapshot, sp_cur_ranges = 0, sp_cursor = 0\<rparr>)))"

end
