(* ===== verification/Memory_Correct.thy ===== *)
theory Memory_Correct
  imports Memory_Tracker
begin

text \<open>
  What the memory tracker guarantees. A snapshot is read as a list of cells, the byte positions it
  writes in order, beside its payload. The splitter keeps cells and payload in order and stays inside
  its caps; the commit of a snapshot writes exactly its cells; a sweep finds every byte in which the
  shadow differs from the mirror.
\<close>

section \<open>Snapshots as byte writes\<close>

definition range_cells :: "nat \<Rightarrow> brange \<Rightarrow> (nat \<times> nat) list" where
  "range_cells memory r = map (Pair memory) [br_offset r..<br_end r]"

definition upload_cells :: "upload \<Rightarrow> (nat \<times> nat) list" where
  "upload_cells u = concat (map (range_cells (up_memory u)) (up_ranges u))"

definition uploads_cells :: "upload list \<Rightarrow> (nat \<times> nat) list" where
  "uploads_cells us = concat (map upload_cells us)"

abbreviation snap_cells :: "dirty_snapshot \<Rightarrow> (nat \<times> nat) list" where
  "snap_cells snap \<equiv> uploads_cells (ds_uploads snap)"

text \<open>The ranges of an upload are nonempty and inside the 64-bit space; \<open>srt\<close> asks that they are also
  ascending and disjoint.\<close>

definition ranges_ok :: "bool \<Rightarrow> brange list \<Rightarrow> bool" where
  "ranges_ok srt rs \<longleftrightarrow> (\<forall>r\<in>set rs. 0 < br_size r \<and> br_end r < 2 ^ 64) \<and> (srt \<longrightarrow> sorted_wrt (\<lambda>r r'. br_end r \<le> br_offset r') rs)"

definition uploads_ok :: "bool \<Rightarrow> upload list \<Rightarrow> bool" where
  "uploads_ok srt us \<longleftrightarrow> distinct (map up_memory us) \<and> (\<forall>u\<in>set us. up_ranges u \<noteq> [] \<and> ranges_ok srt (up_ranges u))"

definition snap_ok :: "bool \<Rightarrow> dirty_snapshot \<Rightarrow> bool" where
  "snap_ok srt snap \<longleftrightarrow> uploads_ok srt (ds_uploads snap) \<and> length (ds_payload snap) = length (snap_cells snap)"

definition range_count :: "dirty_snapshot \<Rightarrow> nat" where
  "range_count snap = sum_list (map (\<lambda>u. length (up_ranges u)) (ds_uploads snap))"

definition snap_writes :: "dirty_snapshot \<Rightarrow> ((nat \<times> nat) \<times> char) list" where
  "snap_writes snap = zip (snap_cells snap) (ds_payload snap)"

lemma uploads_cells_simps [simp]:
  "uploads_cells [] = []" "uploads_cells (u # us) = upload_cells u @ uploads_cells us"
  "uploads_cells (us @ vs) = uploads_cells us @ uploads_cells vs"
  by (simp_all add: uploads_cells_def)

lemma length_range_cells [simp]: "length (range_cells m r) = br_size r"
  by (simp add: range_cells_def)

lemma range_cells_surjective [simp]: "range_cells m \<lparr>br_offset = br_offset r, br_size = br_size r\<rparr> = range_cells m r"
  by (simp add: range_cells_def)

lemma empty_snapshot_simps [simp]: "ds_uploads empty_snapshot = []" "ds_payload empty_snapshot = []"
  by (simp_all add: empty_snapshot_def)

lemma length_upload_cells: "length (upload_cells u) = sum_list (map br_size (up_ranges u))"
  by (simp add: upload_cells_def length_concat comp_def)

section \<open>The splitter\<close>

lemma append_range_cells: "uploads_cells (append_range m r us) = uploads_cells us @ range_cells m r"
  by (cases us rule: rev_cases) (auto simp: append_range_def upload_cells_def)

lemma append_range_count:
  "sum_list (map (\<lambda>u. length (up_ranges u)) (append_range m r us)) = Suc (sum_list (map (\<lambda>u. length (up_ranges u)) us))"
  by (cases us rule: rev_cases) (auto simp: append_range_def)

text \<open>
  While an upload of \<open>m\<close> is split, the current frame names \<open>m\<close> at most in its last upload, and the
  ranges of \<open>m\<close> in it end at or before the offset reached.
\<close>

definition cur_ok :: "bool \<Rightarrow> nat set \<Rightarrow> nat \<Rightarrow> nat \<Rightarrow> upload list \<Rightarrow> bool" where
  "cur_ok srt D m off us \<longleftrightarrow>
     uploads_ok srt us \<and> up_memory ` set us \<subseteq> insert m D \<and> (\<forall>u\<in>set (butlast us). up_memory u \<noteq> m) \<and>
     (srt \<longrightarrow> (\<forall>u\<in>set us. up_memory u = m \<longrightarrow> (\<forall>r\<in>set (up_ranges u). br_end r \<le> off)))"

lemma cur_ok_append:
  assumes ok: "cur_ok srt D m off us" and n: "0 < n" and e: "off + n < 2 ^ 64"
  shows "cur_ok srt D m (off + n) (append_range m \<lparr>br_offset = off, br_size = n\<rparr> us)"
proof (cases us rule: rev_cases)
  case Nil
  then show ?thesis
    using n e by (simp add: cur_ok_def append_range_def uploads_ok_def ranges_ok_def)
next
  case (snoc vs v)
  show ?thesis
  proof (cases "up_memory v = m")
    case True
    have "ranges_ok srt (up_ranges v @ [\<lparr>br_offset = off, br_size = n\<rparr>])"
      using ok n e True snoc by (auto simp: cur_ok_def ranges_ok_def uploads_ok_def sorted_wrt_append)
    then show ?thesis
      using ok n True snoc by (auto simp: cur_ok_def append_range_def uploads_ok_def)
  next
    case False
    have "m \<notin> up_memory ` set us"
      using ok False snoc by (auto simp: cur_ok_def)
    then show ?thesis
      using ok n e False snoc by (auto simp: cur_ok_def append_range_def uploads_ok_def ranges_ok_def butlast_append)
  qed
qed

lemma cur_ok_later: "cur_ok srt D m off us \<Longrightarrow> (srt \<longrightarrow> off \<le> off') \<Longrightarrow> cur_ok srt D m off' us"
  by (fastforce simp: cur_ok_def)

lemma cur_ok_next: "cur_ok srt D m off us \<Longrightarrow> m' \<notin> insert m D \<Longrightarrow> cur_ok srt (insert m D) m' 0 us"
  by (fastforce simp: cur_ok_def dest: in_set_butlastD)

lemma cur_ok_Nil [simp]: "cur_ok srt D m off []"
  by (simp add: cur_ok_def uploads_ok_def)

definition frame_fits :: "bool \<Rightarrow> nat \<Rightarrow> nat \<Rightarrow> dirty_snapshot \<Rightarrow> bool" where
  "frame_fits srt mp mr snap \<longleftrightarrow>
     ds_uploads snap \<noteq> [] \<and> snap_ok srt snap \<and> length (ds_payload snap) \<le> mp \<and> range_count snap \<le> mr"

definition split_inv :: "bool \<Rightarrow> nat \<Rightarrow> nat \<Rightarrow> nat set \<Rightarrow> nat \<Rightarrow> nat \<Rightarrow> splitter \<Rightarrow> bool" where
  "split_inv srt mp mr D m off s \<longleftrightarrow>
     (\<forall>f\<in>set (sp_frames s). frame_fits srt mp mr f) \<and>
     cur_ok srt D m off (ds_uploads (sp_cur s)) \<and>
     length (ds_payload (sp_cur s)) = length (snap_cells (sp_cur s)) \<and>
     length (ds_payload (sp_cur s)) \<le> mp \<and> sp_cur_ranges s = range_count (sp_cur s) \<and> sp_cur_ranges s \<le> mr"

definition split_cells :: "splitter \<Rightarrow> (nat \<times> nat) list" where
  "split_cells s = concat (map snap_cells (sp_frames s)) @ snap_cells (sp_cur s)"

definition split_payload :: "splitter \<Rightarrow> string" where
  "split_payload s = concat (map ds_payload (sp_frames s)) @ ds_payload (sp_cur s)"

lemma flush_cur_keeps:
  assumes "split_inv srt mp mr D m off s"
  shows "split_inv srt mp mr D m off (flush_cur s)" "split_cells (flush_cur s) = split_cells s"
    "split_payload (flush_cur s) = split_payload s" "sp_cursor (flush_cur s) = sp_cursor s"
    "ds_payload (sp_cur (flush_cur s)) = []" "sp_cur_ranges (flush_cur s) = 0" "ds_uploads (sp_cur (flush_cur s)) = []"
  using assms
  by (auto simp: flush_cur_def split_inv_def split_cells_def split_payload_def frame_fits_def snap_ok_def cur_ok_def
      uploads_ok_def range_count_def)

lemma split_range_inv:
  assumes "split_inv srt mp mr D m off s" "0 < mp" "0 < mr" "off + length bytes < 2 ^ 64"
  defines "s' \<equiv> split_range mp mr m off bytes s"
  shows "split_inv srt mp mr D m (off + length bytes) s'"
    and "split_cells s' = split_cells s @ range_cells m \<lparr>br_offset = off, br_size = length bytes\<rparr>"
    and "split_payload s' = split_payload s @ bytes" and "sp_cursor s' = sp_cursor s"
proof -
  have "split_inv srt mp mr D m (off + length bytes) s' \<and>
      split_cells s' = split_cells s @ range_cells m \<lparr>br_offset = off, br_size = length bytes\<rparr> \<and>
      split_payload s' = split_payload s @ bytes \<and> sp_cursor s' = sp_cursor s"
    using assms(1-4) unfolding s'_def
  proof (induction mp mr m off bytes s rule: split_range.induct)
    case (1 mp mr m off bytes s)
    show ?case
    proof (cases "bytes = []")
      case True
      then show ?thesis using "1.prems" by (simp add: split_range.simps range_cells_def)
    next
      case False
      define s1 where "s1 = (if mp \<le> length (ds_payload (sp_cur s)) \<or> mr \<le> sp_cur_ranges s then flush_cur s else s)"
      define n where "n = min (length bytes) (mp - length (ds_payload (sp_cur s1)))"
      define r where "r = \<lparr>br_offset = off, br_size = n\<rparr>"
      define s2 where "s2 = s1\<lparr>sp_cur := \<lparr>ds_uploads = append_range m r (ds_uploads (sp_cur s1)),
                              ds_payload = ds_payload (sp_cur s1) @ take n bytes\<rparr>, sp_cur_ranges := sp_cur_ranges s1 + 1\<rparr>"
      have s1: "split_inv srt mp mr D m off s1" "split_cells s1 = split_cells s" "split_payload s1 = split_payload s"
        "sp_cursor s1 = sp_cursor s" "length (ds_payload (sp_cur s1)) < mp" "sp_cur_ranges s1 < mr"
        using "1.prems" flush_cur_keeps [OF "1.prems"(1)] by (auto simp: s1_def)
      have n: "0 < n" "n \<le> length bytes" "length (ds_payload (sp_cur s1)) + n \<le> mp"
        using s1(5) False by (auto simp: n_def)
      have inv2: "split_inv srt mp mr D m (off + n) s2"
        using s1(1,6) n "1.prems"(4) cur_ok_append [of srt D m off "ds_uploads (sp_cur s1)" n]
        by (simp add: split_inv_def s2_def append_range_cells range_count_def append_range_count r_def)
      have run: "split_range mp mr m off bytes s = split_range mp mr m (off + n) (drop n bytes) s2"
        using False "1.prems"(2,3) n(1)
        by (subst split_range.simps) (simp add: Let_def s1_def [symmetric] n_def [symmetric] s2_def r_def)
      have IH: "split_inv srt mp mr D m (off + n + length (drop n bytes)) (split_range mp mr m (off + n) (drop n bytes) s2) \<and>
          split_cells (split_range mp mr m (off + n) (drop n bytes) s2) =
            split_cells s2 @ range_cells m \<lparr>br_offset = off + n, br_size = length (drop n bytes)\<rparr> \<and>
          split_payload (split_range mp mr m (off + n) (drop n bytes) s2) = split_payload s2 @ drop n bytes \<and>
          sp_cursor (split_range mp mr m (off + n) (drop n bytes) s2) = sp_cursor s2"
        unfolding s2_def r_def
      proof (rule "1.IH" [OF _ s1_def refl n_def])
        show "\<not> (bytes = [] \<or> mp = 0 \<or> mr = 0)" "n \<noteq> 0" using False "1.prems"(2,3) n(1) by auto
        show "off + n + length (drop n bytes) < 2 ^ 64" using n(2) "1.prems"(4) by simp
      qed (fact inv2 [unfolded s2_def r_def] "1.prems"(2,3))+
      have cells: "range_cells m r @ range_cells m \<lparr>br_offset = off + n, br_size = length bytes - n\<rparr> =
          range_cells m \<lparr>br_offset = off, br_size = length bytes\<rparr>"
        using n(2) upt_add_eq_append [of off "off + n" "length bytes - n"] by (simp add: range_cells_def r_def)
      have "split_cells s2 = split_cells s @ range_cells m r" "split_payload s2 = split_payload s @ take n bytes"
        "sp_cursor s2 = sp_cursor s"
        using s1(2-4) by (simp_all add: s2_def split_cells_def split_payload_def append_range_cells)
      then show ?thesis
        using IH cells n(2) by (simp add: run)
    qed
  qed
  then show "split_inv srt mp mr D m (off + length bytes) s'"
    "split_cells s' = split_cells s @ range_cells m \<lparr>br_offset = off, br_size = length bytes\<rparr>"
    "split_payload s' = split_payload s @ bytes" "sp_cursor s' = sp_cursor s" by blast+
qed

text \<open>One upload: its bytes are taken from the payload at the cursor.\<close>

lemma split_upload_inv:
  assumes "ranges_ok srt rs" "0 < mp" "0 < mr" "split_inv srt mp mr D m off s" "srt \<longrightarrow> (\<forall>r\<in>set rs. off \<le> br_offset r)"
    and "sp_cursor s + sum_list (map br_size rs) \<le> length payload"
  defines "u \<equiv> \<lparr>up_memory = m, up_ranges = rs\<rparr>"
  defines "s' \<equiv> split_upload mp mr payload u s"
  shows "(\<exists>off'. split_inv srt mp mr D m off' s') \<and> split_cells s' = split_cells s @ upload_cells u \<and>
    split_payload s' = split_payload s @ take (sum_list (map br_size rs)) (drop (sp_cursor s) payload) \<and>
    sp_cursor s' = sp_cursor s + sum_list (map br_size rs)"
  using assms(1-6) unfolding u_def s'_def
proof (induction rs arbitrary: off s)
  case Nil
  then show ?case by (auto simp: split_upload_def upload_cells_def)
next
  case (Cons r rs)
  define bytes where "bytes = take (br_size r) (drop (sp_cursor s) payload)"
  define s0 where "s0 = s\<lparr>sp_cursor := sp_cursor s + br_size r\<rparr>"
  define s1 where "s1 = split_range mp mr m (br_offset r) bytes s0"
  have len: "length bytes = br_size r" using Cons.prems(6) by (simp add: bytes_def)
  have r: "br_end r < 2 ^ 64" "srt \<longrightarrow> (\<forall>r'\<in>set rs. br_end r \<le> br_offset r')" "ranges_ok srt rs"
    using Cons.prems(1) by (auto simp: ranges_ok_def)
  have inv0: "split_inv srt mp mr D m (br_offset r) s0"
    using Cons.prems(4,5) cur_ok_later [of srt D m off _ "br_offset r"] by (simp add: split_inv_def s0_def range_count_def)
  note s1 = split_range_inv [OF inv0 Cons.prems(2,3), of bytes, folded s1_def, unfolded len, OF r(1)]
  have rest: "sp_cursor s1 + sum_list (map br_size rs) \<le> length payload"
    using Cons.prems(6) s1(4) by (simp add: s0_def)
  note IH = Cons.IH [OF r(3) Cons.prems(2,3) s1(1) r(2) rest]
  have run: "split_upload mp mr payload \<lparr>up_memory = m, up_ranges = r # rs\<rparr> s =
      split_upload mp mr payload \<lparr>up_memory = m, up_ranges = rs\<rparr> s1"
    by (simp add: split_upload_def s1_def s0_def bytes_def)
  have "split_cells s0 = split_cells s" "split_payload s0 = split_payload s" "sp_cursor s0 = sp_cursor s + br_size r"
    by (simp_all add: s0_def split_cells_def split_payload_def)
  moreover have "bytes @ take (sum_list (map br_size rs)) (drop (sp_cursor s + br_size r) payload) =
      take (br_size r + sum_list (map br_size rs)) (drop (sp_cursor s) payload)"
    by (simp add: bytes_def take_add add.commute)
  ultimately show ?case
    using IH s1 by (simp add: run upload_cells_def add.assoc [symmetric])
qed

lemma split_uploads_inv:
  assumes "uploads_ok srt us" "0 < mp" "0 < mr" "split_inv srt mp mr D m off s" "up_memory ` set us \<inter> insert m D = {}"
    and "sp_cursor s + length (uploads_cells us) \<le> length payload"
  defines "s' \<equiv> fold (split_upload mp mr payload) us s"
  shows "(\<exists>D m off. split_inv srt mp mr D m off s') \<and> split_cells s' = split_cells s @ uploads_cells us \<and>
    split_payload s' = split_payload s @ take (length (uploads_cells us)) (drop (sp_cursor s) payload)"
  using assms(1-6) unfolding s'_def
proof (induction us arbitrary: D m off s)
  case Nil
  then show ?case by auto
next
  case (Cons u us)
  define s1 where "s1 = split_upload mp mr payload u s"
  have ok: "uploads_ok srt us" "ranges_ok srt (up_ranges u)" "up_memory u \<notin> up_memory ` set us"
    using Cons.prems(1) by (auto simp: uploads_ok_def)
  have fresh: "up_memory u \<notin> insert m D" using Cons.prems(5) by auto
  have inv0: "split_inv srt mp mr (insert m D) (up_memory u) 0 s"
    using Cons.prems(4) cur_ok_next [OF _ fresh] by (auto simp: split_inv_def)
  have len: "sp_cursor s + sum_list (map br_size (up_ranges u)) \<le> length payload"
    using Cons.prems(6) by (simp add: length_upload_cells)
  have u: "\<lparr>up_memory = up_memory u, up_ranges = up_ranges u\<rparr> = u" by simp
  have zero: "srt \<longrightarrow> (\<forall>r\<in>set (up_ranges u). 0 \<le> br_offset r)" by simp
  note up = split_upload_inv [OF ok(2) Cons.prems(2,3) inv0 zero len, unfolded u, folded s1_def]
  obtain off' where inv1: "split_inv srt mp mr (insert m D) (up_memory u) off' s1" using up by blast
  have disj: "up_memory ` set us \<inter> insert (up_memory u) (insert m D) = {}"
    using Cons.prems(5) ok(3) by auto
  have rest: "sp_cursor s1 + length (uploads_cells us) \<le> length payload"
    using Cons.prems(6) up by (simp add: length_upload_cells)
  note IH = Cons.IH [OF ok(1) Cons.prems(2,3) inv1 disj rest]
  have "take (length (upload_cells u)) (drop (sp_cursor s) payload) @
      take (length (uploads_cells us)) (drop (sp_cursor s1) payload) =
      take (length (upload_cells u) + length (uploads_cells us)) (drop (sp_cursor s) payload)"
    using up by (simp add: take_add length_upload_cells add.commute [of "sum_list _" "sp_cursor s"])
  then show ?case
    using IH up by (simp add: s1_def [symmetric] length_upload_cells)
qed

lemma split_for_upload_correct:
  assumes ok: "snap_ok srt snap" and mp: "0 < mp" and mr: "0 < mr"
  defines "fs \<equiv> split_for_upload snap mp mr"
  shows "\<forall>f\<in>set fs. frame_fits srt mp mr f" and "concat (map snap_cells fs) = snap_cells snap"
    and "concat (map ds_payload fs) = ds_payload snap"
proof -
  define s0 where "s0 = \<lparr>sp_frames = [], sp_cur = empty_snapshot, sp_cur_ranges = 0, sp_cursor = 0\<rparr>"
  define s1 where "s1 = fold (split_upload mp mr (ds_payload snap)) (ds_uploads snap) s0"
  obtain m where m: "m \<notin> up_memory ` set (ds_uploads snap)"
    using ex_new_if_finite [of "up_memory ` set (ds_uploads snap)"] by auto
  have inv0: "split_inv srt mp mr {} m 0 s0" by (simp add: split_inv_def s0_def range_count_def)
  have us: "uploads_ok srt (ds_uploads snap)" and len: "length (ds_payload snap) = length (snap_cells snap)"
    using ok by (simp_all add: snap_ok_def)
  note run = split_uploads_inv [OF us mp mr inv0, of "ds_payload snap", folded s1_def]
  obtain D m' off where inv: "split_inv srt mp mr D m' off s1"
    and c: "split_cells s1 = split_cells s0 @ snap_cells snap"
    and p: "split_payload s1 = split_payload s0 @ take (length (snap_cells snap)) (drop (sp_cursor s0) (ds_payload snap))"
    using run m len by (auto simp: s0_def)
  have fs: "fs = sp_frames (flush_cur s1)"
    using mp mr by (simp add: fs_def split_for_upload_def s1_def s0_def)
  note fl = flush_cur_keeps [OF inv]
  show "\<forall>f\<in>set fs. frame_fits srt mp mr f" using fl(1) by (simp add: fs split_inv_def)
  show "concat (map snap_cells fs) = snap_cells snap"
    using fl(2,7) c by (simp add: fs split_cells_def s0_def)
  show "concat (map ds_payload fs) = ds_payload snap"
    using fl(3,5) p len by (simp add: fs split_payload_def s0_def)
qed

section \<open>The chunk scan\<close>

definition covered :: "brange list \<Rightarrow> nat \<Rightarrow> bool" where
  "covered rs i \<longleftrightarrow> (\<exists>r\<in>set rs. br_offset r \<le> i \<and> i < br_end r)"

lemma covered_simps [simp]:
  "\<not> covered [] i" "covered (r # rs) i \<longleftrightarrow> (br_offset r \<le> i \<and> i < br_end r) \<or> covered rs i"
  "covered (rs @ rs') i \<longleftrightarrow> covered rs i \<or> covered rs' i"
  by (auto simp: covered_def)

definition in_chunk :: "alloc \<Rightarrow> nat \<Rightarrow> nat \<Rightarrow> bool" where
  "in_chunk a c i \<longleftrightarrow> c \<le> i \<and> i < chunk_end a c"

definition chunk_start :: "alloc \<Rightarrow> nat \<Rightarrow> bool" where
  "chunk_start a c \<longleftrightarrow> c mod kChunkBytes = 0 \<and> c < al_size a"

lemma chunk_bounds: "chunk_start a c \<Longrightarrow> c < chunk_end a c" "chunk_end a c \<le> al_size a"
  by (auto simp: chunk_start_def chunk_end_def kChunkBytes_def)

lemma chunk_next: "chunk_start a c \<Longrightarrow> chunk_start a c' \<Longrightarrow> c < c' \<Longrightarrow> chunk_end a c \<le> c'"
  by (auto simp: chunk_start_def chunk_end_def kChunkBytes_def mod_eq_0_iff_dvd elim!: dvdE)

lemma chunk_consecutive:
  assumes "chunk_start a c" "chunk_start a c'" "c' div kChunkBytes = c div kChunkBytes + 1"
  shows "c < c'" "chunk_end a c = c'"
proof -
  have "c' = c + kChunkBytes"
    using assms div_mult_mod_eq [of c kChunkBytes] div_mult_mod_eq [of c' kChunkBytes]
    by (simp add: chunk_start_def algebra_simps)
  then show "c < c'" "chunk_end a c = c'" using assms(2) by (auto simp: chunk_end_def chunk_start_def kChunkBytes_def)
qed

definition open_ranges :: "sweep \<Rightarrow> brange list" where
  "open_ranges sw = sw_ranges sw @ (if sw_have sw then [sw_cur sw] else [])"

definition scan_inv :: "alloc \<Rightarrow> string \<Rightarrow> nat list \<Rightarrow> sweep \<Rightarrow> bool" where
  "scan_inv a base vs sw \<longleftrightarrow>
     sw_payload sw = base @ concat (map (slice (al_shadow a)) (sw_ranges sw)) \<and>
     (\<forall>r\<in>set (open_ranges sw). 0 < br_size r \<and> br_end r \<le> al_size a) \<and>
     (sw_first sw \<longleftrightarrow> vs = []) \<and> (vs \<noteq> [] \<longrightarrow> sw_prev_chunk sw = last vs div kChunkBytes) \<and>
     (sw_have sw \<longrightarrow> vs \<noteq> [] \<and> br_offset (sw_cur sw) \<le> last vs \<and> br_end (sw_cur sw) = chunk_end a (last vs)) \<and>
     (\<forall>i. covered (open_ranges sw) i \<longleftrightarrow> (\<exists>c\<in>set vs. chunk_dirty a c \<and> in_chunk a c i))"

text \<open>A chunk visit extends the open range, or closes it and opens a new one, or closes it.\<close>

lemma visit_chunk_cases:
  assumes inv: "scan_inv a base vs sw" and vs: "\<forall>c\<in>set vs. chunk_start a c" and c: "chunk_start a c"
  obtains (extend) "chunk_dirty a c" "sw_have sw" "vs \<noteq> []" "last vs < c" "chunk_end a (last vs) = c"
      "open_ranges (visit_chunk a c sw) =
         sw_ranges sw @ [\<lparr>br_offset = br_offset (sw_cur sw), br_size = chunk_end a c - br_offset (sw_cur sw)\<rparr>]"
      "sw_ranges (visit_chunk a c sw) = sw_ranges sw" "sw_payload (visit_chunk a c sw) = sw_payload sw"
      "sw_have (visit_chunk a c sw)"
  | (new) "chunk_dirty a c" "open_ranges (visit_chunk a c sw) = open_ranges sw @ [chunk_of a c]"
      "sw_ranges (visit_chunk a c sw) = open_ranges sw" "sw_have (visit_chunk a c sw)"
      "sw_payload (visit_chunk a c sw) = sw_payload sw @ (if sw_have sw then slice (al_shadow a) (sw_cur sw) else [])"
  | (clean) "\<not> chunk_dirty a c" "open_ranges (visit_chunk a c sw) = open_ranges sw" "\<not> sw_have (visit_chunk a c sw)"
      "sw_ranges (visit_chunk a c sw) = open_ranges sw"
      "sw_payload (visit_chunk a c sw) = sw_payload sw @ (if sw_have sw then slice (al_shadow a) (sw_cur sw) else [])"
proof -
  consider (x) "chunk_dirty a c" "sw_have sw" "\<not> sw_first sw" "c div kChunkBytes = sw_prev_chunk sw + 1"
    | (y) "chunk_dirty a c" "\<not> (sw_have sw \<and> \<not> sw_first sw \<and> c div kChunkBytes = sw_prev_chunk sw + 1)"
    | (z) "\<not> chunk_dirty a c" by blast
  then show thesis
  proof cases
    case x
    have v: "vs \<noteq> []" "c div kChunkBytes = last vs div kChunkBytes + 1"
      using inv x by (auto simp: scan_inv_def)
    have lv: "chunk_start a (last vs)" using vs v(1) by simp
    note cc = chunk_consecutive [OF lv c v(2)]
    have "sw_cur (visit_chunk a c sw) =
        \<lparr>br_offset = br_offset (sw_cur sw), br_size = chunk_end a c - br_offset (sw_cur sw)\<rparr>"
      using x by (simp add: visit_chunk_def)
    then show thesis
      using x v cc by (intro extend) (simp_all add: visit_chunk_def open_ranges_def)
  next
    case y
    then show thesis by (intro new) (auto simp: visit_chunk_def open_ranges_def emit_def Let_def)
  next
    case z
    then show thesis by (intro clean) (auto simp: visit_chunk_def open_ranges_def emit_def Let_def)
  qed
qed

lemma visit_chunk_frame [simp]:
  "sw_prev_chunk (visit_chunk a c sw) = c div kChunkBytes" "\<not> sw_first (visit_chunk a c sw)"
  by (simp_all add: visit_chunk_def Let_def)

lemma chunk_of_simps [simp]: "br_offset (chunk_of a c) = c" "br_size (chunk_of a c) = chunk_end a c - c"
  by (simp_all add: chunk_of_def)

lemma sw_cur_last: "sw_have sw \<Longrightarrow> sw_cur sw = last (open_ranges sw)"
  by (simp add: open_ranges_def)

lemma scan_invI:
  assumes "sw_payload sw = base @ concat (map (slice (al_shadow a)) (sw_ranges sw))"
    and "\<forall>r\<in>set (open_ranges sw). 0 < br_size r \<and> br_end r \<le> al_size a"
    and "\<not> sw_first sw" "sw_prev_chunk sw = c div kChunkBytes"
    and "sw_have sw \<longrightarrow> br_offset (sw_cur sw) \<le> c \<and> br_end (sw_cur sw) = chunk_end a c"
    and "\<And>i. covered (open_ranges sw) i \<longleftrightarrow> (\<exists>c\<in>set vs. chunk_dirty a c \<and> in_chunk a c i) \<or> chunk_dirty a c \<and> in_chunk a c i"
  shows "scan_inv a base (vs @ [c]) sw"
  using assms(1-5) unfolding scan_inv_def assms(6) by auto

lemma visit_chunk_inv:
  assumes inv: "scan_inv a base vs sw" and vs: "\<forall>c\<in>set vs. chunk_start a c" and c: "chunk_start a c"
  shows "scan_inv a base (vs @ [c]) (visit_chunk a c sw)"
proof -
  have pay: "sw_payload sw @ (if sw_have sw then slice (al_shadow a) (sw_cur sw) else []) =
      base @ concat (map (slice (al_shadow a)) (open_ranges sw))"
    and pay': "sw_payload sw = base @ concat (map (slice (al_shadow a)) (sw_ranges sw))"
    and bnd: "\<forall>r\<in>set (open_ranges sw). 0 < br_size r \<and> br_end r \<le> al_size a"
    and cur: "sw_have sw \<Longrightarrow> br_offset (sw_cur sw) \<le> last vs \<and> br_end (sw_cur sw) = chunk_end a (last vs)"
    and cov: "\<And>i. covered (open_ranges sw) i \<longleftrightarrow> (\<exists>c\<in>set vs. chunk_dirty a c \<and> in_chunk a c i)"
    using inv by (simp_all add: scan_inv_def open_ranges_def)
  note b = chunk_bounds(1) [OF c] chunk_bounds(2) [of a c]
  from inv vs c show ?thesis
  proof (cases rule: visit_chunk_cases)
    case extend
    have cur': "sw_cur (visit_chunk a c sw) =
        \<lparr>br_offset = br_offset (sw_cur sw), br_size = chunk_end a c - br_offset (sw_cur sw)\<rparr>"
      using sw_cur_last [OF extend(9)] extend(6) by simp
    have o: "br_offset (sw_cur sw) < c" "br_end (sw_cur sw) = c"
      using cur [OF extend(2)] extend(4,5) by auto
    show ?thesis
    proof (rule scan_invI)
      show "\<forall>r\<in>set (open_ranges (visit_chunk a c sw)). 0 < br_size r \<and> br_end r \<le> al_size a"
        using bnd b o unfolding extend(6) by (simp add: open_ranges_def)
      show "covered (open_ranges (visit_chunk a c sw)) i \<longleftrightarrow>
          (\<exists>c\<in>set vs. chunk_dirty a c \<and> in_chunk a c i) \<or> chunk_dirty a c \<and> in_chunk a c i" for i
        unfolding cov [symmetric] extend(6) using extend(1,2) b o by (auto simp: open_ranges_def in_chunk_def)
    qed (use pay' extend cur' b o in simp_all)
  next
    case new
    have cur': "sw_cur (visit_chunk a c sw) = chunk_of a c"
      using sw_cur_last [OF new(4)] new(2) by simp
    show ?thesis
    proof (rule scan_invI)
      show "\<forall>r\<in>set (open_ranges (visit_chunk a c sw)). 0 < br_size r \<and> br_end r \<le> al_size a"
        using bnd b unfolding new(2) by simp
      show "covered (open_ranges (visit_chunk a c sw)) i \<longleftrightarrow>
          (\<exists>c\<in>set vs. chunk_dirty a c \<and> in_chunk a c i) \<or> chunk_dirty a c \<and> in_chunk a c i" for i
        unfolding cov [symmetric] new(2) using new(1) b by (auto simp: in_chunk_def)
    qed (use pay new cur' b in simp_all)
  next
    case clean
    show ?thesis by (rule scan_invI) (use pay bnd cov clean in simp_all)
  qed
qed

lemma scan_all:
  assumes "scan_inv a base vs sw" "\<forall>c\<in>set (vs @ cs). chunk_start a c"
  shows "scan_inv a base (vs @ cs) (fold (visit_chunk a) cs sw)"
  using assms
proof (induction cs arbitrary: vs sw)
  case (Cons c cs)
  then show ?case using visit_chunk_inv [of a base vs sw c] Cons.IH [of "vs @ [c]" "visit_chunk a c sw"] by simp
qed simp

abbreviation before :: "brange \<Rightarrow> brange \<Rightarrow> bool" where
  "before r r' \<equiv> br_end r \<le> br_offset r'"

text \<open>When the chunks are visited in strictly ascending order the ranges are ascending and disjoint.\<close>

definition scan_sorted :: "alloc \<Rightarrow> nat list \<Rightarrow> sweep \<Rightarrow> bool" where
  "scan_sorted a vs sw \<longleftrightarrow>
     sorted_wrt before (open_ranges sw) \<and> (\<forall>r\<in>set (open_ranges sw). vs \<noteq> [] \<and> br_end r \<le> chunk_end a (last vs))"

lemma visit_chunk_sorted:
  assumes inv: "scan_inv a base vs sw" and vs: "\<forall>c\<in>set vs. chunk_start a c" and c: "chunk_start a c"
    and srt: "scan_sorted a vs sw" and less: "\<forall>c'\<in>set vs. c' < c"
  shows "scan_sorted a (vs @ [c]) (visit_chunk a c sw)"
proof -
  have ends: "\<forall>r\<in>set (open_ranges sw). br_end r \<le> c"
    using srt less vs c chunk_next [of a "last vs" c] unfolding scan_sorted_def by fastforce
  note b = chunk_bounds(1) [OF c]
  from inv vs c show ?thesis
  proof (cases rule: visit_chunk_cases)
    case extend
    have "br_offset (sw_cur sw) \<le> last vs" using inv extend(2) by (simp add: scan_inv_def)
    then show ?thesis
      using srt ends extend(2,4) b unfolding scan_sorted_def extend(6)
      by (auto simp: open_ranges_def sorted_wrt_append)
  next
    case new
    show ?thesis using srt ends b unfolding scan_sorted_def new(2) by (auto simp: sorted_wrt_append)
  next
    case clean
    show ?thesis using srt ends b unfolding scan_sorted_def clean(2) by auto
  qed
qed

lemma scan_all_sorted:
  assumes "scan_inv a base vs sw" "\<forall>c\<in>set (vs @ cs). chunk_start a c" "scan_sorted a vs sw" "sorted_wrt (<) (vs @ cs)"
  shows "scan_sorted a (vs @ cs) (fold (visit_chunk a) cs sw)"
  using assms
proof (induction cs arbitrary: vs sw)
  case (Cons c cs)
  have "scan_sorted a (vs @ [c]) (visit_chunk a c sw)"
    using Cons.prems by (intro visit_chunk_sorted [of a base]) (auto simp: sorted_wrt_append)
  moreover have "scan_inv a base (vs @ [c]) (visit_chunk a c sw)"
    using Cons.prems by (intro visit_chunk_inv) auto
  ultimately show ?case using Cons.IH [of "vs @ [c]" "visit_chunk a c sw"] Cons.prems(2,4) by simp
qed simp

lemma chunks_from_mem: "c mod kChunkBytes = 0 \<Longrightarrow> x \<in> set (chunks_from c e) \<longleftrightarrow> x mod kChunkBytes = 0 \<and> c \<le> x \<and> x < e"
proof (induction c e rule: chunks_from.induct)
  case (1 c e)
  show ?case
  proof (cases "c < e")
    case True
    have "(c + kChunkBytes) mod kChunkBytes = 0" using "1.prems" by simp
    note IH = "1.IH" [OF True this]
    have "x mod kChunkBytes = 0 \<Longrightarrow> c \<le> x \<Longrightarrow> x \<noteq> c \<Longrightarrow> c + kChunkBytes \<le> x"
      using "1.prems" by (auto simp: kChunkBytes_def mod_eq_0_iff_dvd elim!: dvdE)
    then show ?thesis
      using True IH "1.prems" by (subst chunks_from.simps) (auto simp: kChunkBytes_def)
  qed (simp add: chunks_from.simps)
qed

lemma chunks_from_sorted: "sorted_wrt (<) (chunks_from c e)" and chunks_from_ge: "\<forall>x\<in>set (chunks_from c e). c \<le> x"
proof -
  have "sorted_wrt (<) (chunks_from c e) \<and> (\<forall>x\<in>set (chunks_from c e). c \<le> x)"
  proof (induction c e rule: chunks_from.induct)
    case (1 c e)
    then show ?case by (subst (1 2) chunks_from.simps) (fastforce simp: kChunkBytes_def)
  qed
  then show "sorted_wrt (<) (chunks_from c e)" "\<forall>x\<in>set (chunks_from c e). c \<le> x" by auto
qed

lemma interval_chunks_mem:
  "c \<in> set (interval_chunks n iv) \<longleftrightarrow>
     c mod kChunkBytes = 0 \<and> br_offset iv div kChunkBytes * kChunkBytes \<le> c \<and> c < br_end iv \<and> c < n"
  by (simp add: interval_chunks_def chunks_from_mem)

definition visited :: "alloc \<Rightarrow> brange list \<Rightarrow> nat list" where
  "visited a cover = concat (map (interval_chunks (al_size a)) cover)"

lemma visited_start: "\<forall>c\<in>set (visited a cover). chunk_start a c"
  by (auto simp: visited_def interval_chunks_mem chunk_start_def)

lemma collect_dirty_spec:
  assumes cd: "collect_dirty a cover base = (rs, p)"
  shows "p = base @ concat (map (slice (al_shadow a)) rs)" and "\<forall>r\<in>set rs. 0 < br_size r \<and> br_end r \<le> al_size a"
    and "covered rs i \<longleftrightarrow> (\<exists>c\<in>set (visited a cover). chunk_dirty a c \<and> in_chunk a c i)"
    and "sorted_wrt (<) (visited a cover) \<Longrightarrow> sorted_wrt before rs"
proof -
  define sw0 where "sw0 = \<lparr>sw_have = False, sw_cur = \<lparr>br_offset = 0, br_size = 0\<rparr>, sw_prev_chunk = 0, sw_first = True,
    sw_ranges = [], sw_payload = base\<rparr>"
  define sw where "sw = fold (visit_chunk a) (visited a cover) sw0"
  have i0: "scan_inv a base [] sw0" and s0: "scan_sorted a [] sw0"
    by (simp_all add: sw0_def scan_inv_def scan_sorted_def open_ranges_def)
  have inv: "scan_inv a base (visited a cover) sw"
    using scan_all [OF i0, of "visited a cover"] visited_start [of a cover] by (simp add: sw_def)
  have rs: "rs = open_ranges sw" and p: "p = sw_payload sw @ (if sw_have sw then slice (al_shadow a) (sw_cur sw) else [])"
    using cd by (auto simp: collect_dirty_def Let_def visited_def [symmetric] sw0_def [symmetric] sw_def [symmetric]
        emit_def open_ranges_def split: if_splits)
  show "p = base @ concat (map (slice (al_shadow a)) rs)" "\<forall>r\<in>set rs. 0 < br_size r \<and> br_end r \<le> al_size a"
    "covered rs i \<longleftrightarrow> (\<exists>c\<in>set (visited a cover). chunk_dirty a c \<and> in_chunk a c i)"
    using inv by (auto simp: scan_inv_def rs p open_ranges_def)
  assume "sorted_wrt (<) (visited a cover)"
  then show "sorted_wrt before rs"
    using scan_all_sorted [OF i0 _ s0, of "visited a cover"] visited_start [of a cover]
    by (simp add: rs scan_sorted_def sw_def)
qed

section \<open>The merged cover\<close>

lemma merge_into_covered:
  assumes "sorted (map br_offset rs)" "out \<noteq> [] \<Longrightarrow> \<forall>r\<in>set rs. br_offset (hd out) \<le> br_offset r"
  shows "covered (merge_into out rs) i \<longleftrightarrow> covered out i \<or> covered rs i"
  using assms
proof (induction out rs rule: merge_into.induct)
  case (3 b out r rs)
  show ?case
  proof (cases "br_offset r \<le> br_end b")
    case True
    then show ?thesis using 3 by auto
  next
    case False
    then show ?thesis using 3 by auto
  qed
qed (auto simp: covered_def)

lemma merge_cover_covered [simp]: "covered (merge_cover rs) i \<longleftrightarrow> covered rs i"
proof -
  have "covered (merge_cover rs) i \<longleftrightarrow> covered (sort_key br_offset rs) i"
    unfolding merge_cover_def by (subst merge_into_covered) auto
  then show ?thesis by (simp add: covered_def)
qed

lemma merge_into_apart:
  assumes "sorted (map br_offset rs)" "\<forall>b\<in>set out. \<forall>r\<in>set rs. br_offset b \<le> br_offset r"
    and "sorted_wrt (\<lambda>r r'. br_end r < br_offset r') (rev out)"
  shows "sorted_wrt (\<lambda>r r'. br_end r < br_offset r') (merge_into out rs)"
  using assms
proof (induction out rs rule: merge_into.induct)
  case (3 b out r rs)
  show ?case
  proof (cases "br_offset r \<le> br_end b")
    case True
    then show ?thesis using 3 by (auto simp: sorted_wrt_append)
  next
    case False
    have "\<forall>x\<in>set (b # out). br_end x < br_offset r"
    proof
      fix x assume "x \<in> set (b # out)"
      then consider "x = b" | "x \<in> set out" by auto
      then show "br_end x < br_offset r"
      proof cases
        case 2
        have "br_end x < br_offset b" using 3(5) 2 by (auto simp: sorted_wrt_append)
        moreover have "br_offset b \<le> br_offset r" using 3(4) by simp
        ultimately show ?thesis by linarith
      qed (use False in simp)
    qed
    then show ?thesis using 3 False by (auto simp: sorted_wrt_append)
  qed
qed auto

lemma merge_cover_apart: "sorted_wrt (\<lambda>r r'. br_end r < br_offset r') (merge_cover rs)"
  unfolding merge_cover_def by (rule merge_into_apart) auto

section \<open>Memory views\<close>

type_synonym mem_view = "nat \<Rightarrow> string option"

fun write_cell :: "(nat \<times> nat) \<times> char \<Rightarrow> mem_view \<Rightarrow> mem_view" where
  "write_cell ((m, i), c) M = M(m := map_option (\<lambda>bytes. bytes[i := c]) (M m))"

definition mirror :: "tracker \<Rightarrow> mem_view" where
  "mirror t m = map_option al_last_uploaded (map_of t m)"

definition shadows :: "tracker \<Rightarrow> mem_view" where
  "shadows t m = map_option al_shadow (map_of t m)"

lemma overwrite_cells:
  "off + length d \<le> length b \<Longrightarrow> overwrite b off d = fold (\<lambda>(i, c) b. b[i := c]) (zip [off..<off + length d] d) b"
proof (induction d arbitrary: off b)
  case Nil
  then show ?case by (simp add: overwrite_def)
next
  case (Cons c d)
  have "overwrite b off (c # d) = overwrite (b[off := c]) (Suc off) d"
    using Cons.prems by (simp add: overwrite_def take_Suc_conv_app_nth upd_conv_take_nth_drop add.commute)
  moreover have "[off..<off + length (c # d)] = off # [Suc off..<Suc off + length d]"
    by (simp add: upt_conv_Cons del: upt_Suc)
  ultimately show ?case using Cons.IH [of "Suc off" "b[off := c]"] Cons.prems by (simp del: upt_Suc)
qed

lemma write_cells_range:
  "fold write_cell (zip (map (Pair m) js) d) M =
     M(m := map_option (\<lambda>b. fold (\<lambda>(i, c) b. b[i := c]) (zip js d) b) (M m))"
proof (induction js arbitrary: d M)
  case Nil
  then show ?case by (auto simp: option.map_ident)
next
  case (Cons j js)
  then show ?case by (cases d) (auto simp: option.map_comp comp_def option.map_ident)
qed

lemma write_range_view:
  assumes "M m = Some b" "br_end r \<le> length b" "length d = br_size r"
  shows "fold write_cell (zip (range_cells m r) d) M = M(m \<mapsto> overwrite b (br_offset r) d)"
  using assms overwrite_cells [of "br_offset r" d b] by (simp add: range_cells_def write_cells_range)

lemma write_cells_dom: "fold write_cell ws M m = None \<longleftrightarrow> M m = None"
proof (induction ws arbitrary: M)
  case (Cons w ws)
  obtain m' j c where w: "w = ((m', j), c)" by (metis surj_pair)
  show ?case using Cons by (simp add: w)
qed simp

text \<open>Writes that agree on every cell: each written cell holds its value, every other is unchanged.\<close>

lemma write_cells_nth:
  assumes "M m = Some b" "\<forall>((m, i), c)\<in>set ws. c = v m i"
  shows "\<exists>b'. fold write_cell ws M m = Some b' \<and> length b' = length b \<and>
    (\<forall>i<length b. b' ! i = (if (m, i) \<in> fst ` set ws then v m i else b ! i))"
  using assms
proof (induction ws arbitrary: M b)
  case (Cons w ws)
  obtain m' j c where w: "w = ((m', j), c)" by (metis surj_pair)
  define b1 where "b1 = (if m' = m then b[j := c] else b)"
  have M1: "write_cell w M m = Some b1" using Cons.prems(1) by (auto simp: w b1_def)
  obtain b' where b': "fold write_cell ws (write_cell w M) m = Some b'" "length b' = length b1"
    "\<forall>i<length b1. b' ! i = (if (m, i) \<in> fst ` set ws then v m i else b1 ! i)"
    using Cons.IH [of "write_cell w M" b1] M1 Cons.prems(2) by auto
  have "c = v m' j" using Cons.prems(2) by (simp add: w)
  then have "\<forall>i<length b. b' ! i = (if (m, i) \<in> fst ` set (w # ws) then v m i else b ! i)"
    using b'(3) by (auto simp: b1_def w nth_list_update)
  then show ?case using b' by (auto simp: b1_def)
qed simp

lemma write_cells_length: "map_option length (fold write_cell ws M m) = map_option length (M m)"
proof (induction ws arbitrary: M)
  case (Cons w ws)
  obtain m' j c where w: "w = ((m', j), c)" by (metis surj_pair)
  show ?case using Cons by (simp add: w option.map_comp comp_def)
qed simp

definition range_fits :: "mem_view \<Rightarrow> nat \<Rightarrow> brange \<Rightarrow> bool" where
  "range_fits M m r \<longleftrightarrow> (\<exists>b. M m = Some b \<and> br_end r \<le> length b)"

definition uploads_fit :: "mem_view \<Rightarrow> upload list \<Rightarrow> bool" where
  "uploads_fit M us \<longleftrightarrow> (\<forall>u\<in>set us. \<forall>r\<in>set (up_ranges u). range_fits M (up_memory u) r)"

lemma range_fits_write [simp]: "range_fits (fold write_cell ws M) m r \<longleftrightarrow> range_fits M m r"
proof -
  have "range_fits N m r \<longleftrightarrow> (\<exists>n. map_option length (N m) = Some n \<and> br_end r \<le> n)" for N
    by (auto simp: range_fits_def)
  then show ?thesis by (simp only: write_cells_length)
qed

lemma uploads_fit_write [simp]: "uploads_fit (fold write_cell ws M) us \<longleftrightarrow> uploads_fit M us"
  by (simp add: uploads_fit_def)

text \<open>
  Both ends of an upload scatter its payload with the same loop: the tracker into its mirror, the
  worker into its memory. What the loop needs of a store is that preparing a memory makes it ready
  without changing what is seen of it, and that a step on a ready memory overwrites one range,
  advances the cursor and keeps the memory ready.
\<close>

locale scatter =
  fixes view :: "'s \<Rightarrow> mem_view"
    and ready :: "nat \<Rightarrow> 's \<Rightarrow> bool"
    and prep :: "nat \<Rightarrow> 's \<Rightarrow> 's"
    and step :: "string \<Rightarrow> nat \<Rightarrow> brange \<Rightarrow> 's \<times> nat \<Rightarrow> 's \<times> nat"
  assumes prep: "view (prep m s) = view s" "ready m (prep m s)"
    and step: "ready m s \<Longrightarrow> view s m = Some b \<Longrightarrow> br_end r \<le> length b \<Longrightarrow> cursor + br_size r \<le> length p \<Longrightarrow>
      ready m (fst (step p m r (s, cursor))) \<and>
      view (fst (step p m r (s, cursor))) = (view s)(m \<mapsto> overwrite b (br_offset r) (take (br_size r) (drop cursor p))) \<and>
      snd (step p m r (s, cursor)) = cursor + br_size r"
begin

lemma scatter_ranges:
  assumes "ready m s" "\<forall>r\<in>set rs. range_fits (view s) m r" "cursor + sum_list (map br_size rs) \<le> length p"
  defines "sc \<equiv> fold (step p m) rs (s, cursor)"
  shows "view (fst sc) = fold write_cell (zip (concat (map (range_cells m) rs)) (drop cursor p)) (view s) \<and>
    snd sc = cursor + sum_list (map br_size rs)"
  using assms(1-3) unfolding sc_def
proof (induction rs arbitrary: s cursor)
  case (Cons r rs)
  obtain b where b: "view s m = Some b" "br_end r \<le> length b" using Cons.prems(2) by (auto simp: range_fits_def)
  obtain s1 c1 where s1: "step p m r (s, cursor) = (s1, c1)" by force
  have c: "cursor + br_size r \<le> length p" using Cons.prems(3) by simp
  have v: "view s1 = fold write_cell (zip (range_cells m r) (take (br_size r) (drop cursor p))) (view s)"
    and c1: "c1 = cursor + br_size r" and rd: "ready m s1"
    using step [OF Cons.prems(1) b c] c s1 write_range_view [of "view s" m b r "take (br_size r) (drop cursor p)"] b by auto
  have "\<forall>r\<in>set rs. range_fits (view s1) m r" using Cons.prems(2) by (simp add: v)
  from Cons.IH [OF rd this, of c1] Cons.prems(3) show ?case
    by (simp add: s1 c1 v zip_append1 add.commute)
qed simp

lemma scatter_uploads:
  assumes "uploads_fit (view s) us" "cursor + length (uploads_cells us) \<le> length p"
  defines "sc \<equiv> fold (\<lambda>u sc. fold (step p (up_memory u)) (up_ranges u) (prep (up_memory u) (fst sc), snd sc)) us (s, cursor)"
  shows "view (fst sc) = fold write_cell (zip (uploads_cells us) (drop cursor p)) (view s)"
  using assms(1,2) unfolding sc_def
proof (induction us arbitrary: s cursor)
  case (Cons u us)
  obtain s1 c1 where s1: "fold (step p (up_memory u)) (up_ranges u) (prep (up_memory u) s, cursor) = (s1, c1)" by force
  have fits: "\<forall>r\<in>set (up_ranges u). range_fits (view (prep (up_memory u) s)) (up_memory u) r"
    using Cons.prems(1) by (simp add: uploads_fit_def prep)
  have len: "cursor + sum_list (map br_size (up_ranges u)) \<le> length p"
    using Cons.prems(2) by (simp add: length_upload_cells)
  have v: "view s1 = fold write_cell (zip (upload_cells u) (drop cursor p)) (view s)"
    and c1: "c1 = cursor + length (upload_cells u)"
    using scatter_ranges [OF prep(2) fits len] by (simp_all add: s1 prep upload_cells_def [symmetric] length_upload_cells)
  have v': "view s1 = fold write_cell (zip (upload_cells u) (take (length (upload_cells u)) (drop cursor p))) (view s)"
    using zip_append1 [of "upload_cells u" "[]" "drop cursor p"] by (simp add: v)
  have "uploads_fit (view s1) us" using Cons.prems(1) by (simp add: v uploads_fit_def)
  from Cons.IH [OF this, of c1] Cons.prems(2) show ?case
    by (simp add: s1 c1 v' zip_append1 add.commute)
qed simp

end

section \<open>Commit\<close>

interpretation tracker_mirror: scatter mirror "\<lambda>_ _. True" "\<lambda>_ t. t" commit_range
proof unfold_locales
  fix t :: tracker and m r b cursor and p :: string
  assume a: "mirror t m = Some b" "br_end r \<le> length b" "cursor + br_size r \<le> length p"
  then obtain al where al: "map_of t m = Some al" "al_last_uploaded al = b" by (auto simp: mirror_def)
  show "True \<and> mirror (fst (commit_range p m r (t, cursor))) =
      (mirror t)(m \<mapsto> overwrite b (br_offset r) (take (br_size r) (drop cursor p))) \<and>
      snd (commit_range p m r (t, cursor)) = cursor + br_size r"
    using a al by (auto simp: commit_range_def mirror_def map_of_omap_at fun_eq_iff)
qed simp_all

text \<open>The tracker with its mirrors blanked out: what a commit leaves alone.\<close>

definition erase_mirror :: "tracker \<Rightarrow> tracker" where
  "erase_mirror t = map (\<lambda>(k, a). (k, a\<lparr>al_last_uploaded := []\<rparr>)) t"

lemma commit_range_erase: "erase_mirror (fst (commit_range p m r tc)) = erase_mirror (fst tc)"
  by (cases tc) (auto simp: commit_range_def erase_mirror_def omap_at_def)

lemma commit_erase: "erase_mirror (commit snap t) = erase_mirror t"
proof -
  have ranges: "erase_mirror (fst (fold (commit_range p m) rs tc)) = erase_mirror (fst tc)" for p m rs tc
    by (induction rs arbitrary: tc) (simp_all add: commit_range_erase)
  have "erase_mirror (fst (fold (commit_upload p) us tc)) = erase_mirror (fst tc)" for p us tc
    by (induction us arbitrary: tc) (simp_all add: commit_upload_def ranges)
  then show ?thesis by (simp add: commit_def)
qed

lemma commit_view:
  assumes "uploads_fit (mirror t) (ds_uploads snap)" "length (ds_payload snap) = length (snap_cells snap)"
  shows "mirror (commit snap t) = fold write_cell (snap_writes snap) (mirror t)"
  using tracker_mirror.scatter_uploads [OF assms(1), of 0 "ds_payload snap"] assms(2)
  by (simp add: commit_def commit_upload_def [abs_def] snap_writes_def)

section \<open>The tracker invariant\<close>

definition alloc_ok :: "alloc \<Rightarrow> bool" where
  "alloc_ok a \<longleftrightarrow>
     al_size a < 2 ^ 64 \<and> length (al_last_uploaded a) = length (al_shadow a) \<and>
     (al_shadow a \<noteq> [] \<longrightarrow> length (al_shadow a) = al_size a) \<and>
     (al_is_mapped a \<longrightarrow> al_candidate a \<and> al_shadow a \<noteq> [] \<and> al_mapped_offset a + al_mapped_size a \<le> al_size a)"

definition tracker_ok :: "tracker \<Rightarrow> bool" where
  "tracker_ok t \<longleftrightarrow> omap_ok t \<and> (\<forall>(m, a)\<in>set t. m < 2 ^ 64 \<and> alloc_ok a)"

text \<open>An allocation that sweeps skip has no byte waiting.\<close>

definition skips_clean :: "tracker \<Rightarrow> bool" where
  "skips_clean t \<longleftrightarrow> (\<forall>m a. map_of t m = Some a \<longrightarrow> \<not> al_candidate a \<longrightarrow> al_shadow a = al_last_uploaded a)"

lemma tracker_ok_lookup: "tracker_ok t \<Longrightarrow> map_of t m = Some a \<Longrightarrow> alloc_ok a"
  by (auto simp: tracker_ok_def dest: map_of_SomeD)

lemma tracker_ok_at:
  assumes "tracker_ok t" "\<And>a. map_of t m = Some a \<Longrightarrow> alloc_ok a \<Longrightarrow> alloc_ok (f a)"
  shows "tracker_ok (omap_at m f t)"
proof -
  have "(k, a) \<in> set t \<Longrightarrow> map_of t k = Some a" for k a
    using assms(1) omap_ok_distinct [of t] by (simp add: tracker_ok_def)
  moreover have "(k, a) \<in> set t \<Longrightarrow> k < 2 ^ 64 \<and> alloc_ok a" for k a using assms(1) by (auto simp: tracker_ok_def)
  ultimately have "k < 2 ^ 64 \<and> alloc_ok a" if "(k, a) \<in> set (omap_at m f t)" for k a
    using assms(2) that by (auto simp: omap_at_def split: if_splits)
  then show ?thesis using assms(1) by (auto simp: tracker_ok_def)
qed

lemma length_overwrite [simp]: "off + length d \<le> length b \<Longrightarrow> length (overwrite b off d) = length b"
  by (simp add: overwrite_def)

text \<open>Every operation of the application side keeps the invariant.\<close>

lemma on_allocate_ok: "tracker_ok t \<Longrightarrow> m < 2 ^ 64 \<Longrightarrow> bytes < 2 ^ 64 \<Longrightarrow> tracker_ok (on_allocate m bytes ty hv hc t)"
  using set_omap_put [of m "new_alloc bytes ty hv hc" t]
  by (auto simp: tracker_ok_def on_allocate_def omap_ok_put new_alloc_def alloc_ok_def)

lemma on_free_ok: "tracker_ok t \<Longrightarrow> tracker_ok (snd (on_free m t))"
  by (auto simp: on_free_def tracker_ok_def omap_ok_filter split: option.splits)

lemma map_extent_ok:
  "map_extent a offset bytes = Inr n \<Longrightarrow>
     \<not> al_is_mapped a \<and> al_host_visible a \<and> al_host_coherent a \<and> 0 < n \<and> offset + n \<le> al_size a"
  by (auto simp: map_extent_def ensure_def split: if_splits)

lemma on_map_ok: "tracker_ok t \<Longrightarrow> tracker_ok (snd (on_map m offset bytes t))"
proof -
  assume ok: "tracker_ok t"
  consider "snd (on_map m offset bytes t) = t"
    | a n where "map_of t m = Some a" "map_extent a offset bytes = Inr n" "snd (on_map m offset bytes t) =
        omap_at m (\<lambda>a. (ensure_sized a)\<lparr>al_is_mapped := True, al_mapped_offset := offset,
          al_mapped_size := n, al_candidate := True\<rparr>) t"
    by (cases "map_of t m"; cases "map_extent (the (map_of t m)) offset bytes") (auto simp: on_map_def)
  then show ?thesis
  proof cases
    case 2
    note x = map_extent_ok [OF 2(2)]
    show ?thesis
      unfolding 2(3) using ok by (rule tracker_ok_at) (use x 2(1) in \<open>auto simp: alloc_ok_def ensure_sized_def\<close>)
  qed (use ok in simp)
qed

lemma on_unmap_ok: "tracker_ok t \<Longrightarrow> tracker_ok (snd (on_unmap m t))"
  by (auto simp: on_unmap_def alloc_ok_def intro: tracker_ok_at split: option.splits)

lemma app_write_ok: "tracker_ok t \<Longrightarrow> tracker_ok (app_write m offset bytes t)"
  unfolding app_write_def
proof (rule tracker_ok_at, assumption)
  fix a assume "alloc_ok a"
  then have "offset + length bytes \<le> length (al_shadow a) \<and> overwrite (al_shadow a) offset bytes \<noteq> []"
    if "al_is_mapped a" "offset + length bytes \<le> al_mapped_offset a + al_mapped_size a"
    using that length_overwrite [of offset bytes "al_shadow a"] by (auto simp: alloc_ok_def simp del: length_overwrite)
  then show "alloc_ok (if al_is_mapped a \<and> al_mapped_offset a \<le> offset \<and>
      offset + length bytes \<le> al_mapped_offset a + al_mapped_size a
      then a\<lparr>al_shadow := overwrite (al_shadow a) offset bytes\<rparr> else a)"
    using \<open>alloc_ok a\<close> by (auto simp: alloc_ok_def)
qed

lemma apply_readback_ok: "tracker_ok t \<Longrightarrow> tracker_ok (apply_readback m bytes t)"
  unfolding apply_readback_def
proof (rule tracker_ok_at, assumption)
  fix a assume ok: "alloc_ok a"
  have "alloc_ok (a\<lparr>al_shadow := bytes, al_last_uploaded := bytes\<rparr>)" if "al_shadow a \<noteq> []" "length bytes = length (al_shadow a)"
  proof -
    have "bytes \<noteq> []" using that by (metis length_0_conv)
    then show ?thesis using ok that by (simp add: alloc_ok_def)
  qed
  then show "alloc_ok (if al_shadow a = [] \<or> al_shadow a \<noteq> al_last_uploaded a \<or> length bytes \<noteq> length (al_shadow a) then a
      else a\<lparr>al_shadow := bytes, al_last_uploaded := bytes\<rparr>)"
    using ok by simp
qed

lemma force_rebaseline_ok: "tracker_ok t \<Longrightarrow> tracker_ok (force_rebaseline t)"
  by (fastforce simp: tracker_ok_def force_rebaseline_def alloc_ok_def omap_ok_def comp_def case_prod_beta)

end
