(* ===== verification/Rpc.thy ===== *)
theory Rpc
  imports Transport_Correct
begin

text \<open>
  The binary RPC envelope of the data plane (src/vkrelay2/common/vkrpc/rpc.hpp and rpc.cpp), the
  client's round trip (\<open>call_rpc_raw\<close> and \<open>call_rpc\<close> of vulkan_session.cpp) and the loop with which
  the worker serves requests (\<open>serve_vulkan_rpc\<close>). The work of an operation is a parameter of the
  loop: it takes the body and the state of the worker's backend and answers with a JSON body, with
  raw bytes, or not at all, when the body is malformed or the operation unknown. Profiling and
  logging are left out.
\<close>

section \<open>Messages\<close>

datatype rpc_status = RpcOk | UnknownOp | BadRequest | Internal

definition rpc_status_code :: "rpc_status \<Rightarrow> nat" where
  "rpc_status_code s = (case s of RpcOk \<Rightarrow> 0 | UnknownOp \<Rightarrow> 1 | BadRequest \<Rightarrow> 2 | Internal \<Rightarrow> 3)"

definition rpc_status_to_string :: "nat \<Rightarrow> string" where
  "rpc_status_to_string code =
     (if code = rpc_status_code RpcOk then ''ok''
      else if code = rpc_status_code UnknownOp then ''unknown_op''
      else if code = rpc_status_code BadRequest then ''bad_request''
      else if code = rpc_status_code Internal then ''internal''
      else ''unknown'')"

record rpc_message =
  rpc_op :: nat
  rpc_request_id :: nat
  rpc_status :: nat
  rpc_body :: string

definition kRpcHeaderBytes :: nat where
  "kRpcHeaderBytes = 12"

definition encode_rpc :: "rpc_message \<Rightarrow> string" where
  "encode_rpc msg = store_le32 (rpc_op msg) @ store_le32 (rpc_request_id msg) @ store_le32 (rpc_status msg) @ rpc_body msg"

definition decode_rpc :: "string \<Rightarrow> string + rpc_message" where
  "decode_rpc payload =
     (if length payload < kRpcHeaderBytes then Inl ''rpc payload shorter than header''
      else Inr \<lparr>rpc_op = load_le32 payload, rpc_request_id = load_le32 (drop 4 payload),
                rpc_status = load_le32 (drop 8 payload), rpc_body = drop kRpcHeaderBytes payload\<rparr>)"

section \<open>The channel\<close>

definition rpc_send :: "rpc_message \<Rightarrow> (channel, unit) prog" where
  "rpc_send msg =
     (case encode_frame (encode_rpc msg) of
        Inl e \<Rightarrow> raise_exc (FrameExc e)
      | Inr frame \<Rightarrow> write_all frame)"

definition rpc_decode_step :: "string \<Rightarrow> rpc_message decode_step" where
  "rpc_decode_step buffer =
     (case try_decode_frame buffer of
        FrameOk consumed payload \<Rightarrow>
          (case decode_rpc payload of
             Inl e \<Rightarrow> BadPayload consumed (''malformed rpc: '' @ e)
           | Inr m \<Rightarrow> Got consumed m)
      | FrameError e \<Rightarrow> BadStream (''rpc framing error: '' @ e)
      | NeedMore \<Rightarrow> More)"

definition rpc_recv :: "(channel, rpc_message option) prog" where
  "rpc_recv ch = with_reads ch (recv_loop ''connection closed mid-rpc-frame'' rpc_decode_step (ch_buffer ch) (ch_reads ch))"

section \<open>The client's round trip\<close>

definition response_value :: "nat \<Rightarrow> rpc_message \<Rightarrow> string + jval" where
  "response_value request_id reply =
     (if rpc_request_id reply \<noteq> request_id then Inl ''rpc response correlation id mismatch''
      else if rpc_status reply \<noteq> rpc_status_code RpcOk then Inl (''rpc error: '' @ rpc_status_to_string (rpc_status reply))
      else case json_parse (rpc_body reply) of
             Inl e \<Rightarrow> Inl (''malformed rpc response body: '' @ what e)
           | Inr v \<Rightarrow> Inr v)"

definition check_response :: "nat \<Rightarrow> rpc_message \<Rightarrow> (channel, jval) prog" where
  "check_response request_id reply =
     (case response_value request_id reply of Inl e \<Rightarrow> raise_exc (TransportError e) | Inr v \<Rightarrow> ret v)"

definition call_rpc_raw :: "nat \<Rightarrow> nat \<Rightarrow> string \<Rightarrow> (channel, jval) prog" where
  "call_rpc_raw op request_id raw_body =
     seq (rpc_send \<lparr>rpc_op = op, rpc_request_id = request_id, rpc_status = 0, rpc_body = raw_body\<rparr>) (\<lambda>_.
     seq rpc_recv (\<lambda>m.
       case m of
         None \<Rightarrow> raise_exc (TransportError ''rpc closed before response'')
       | Some reply \<Rightarrow> check_response request_id reply))"

definition call_rpc :: "nat \<Rightarrow> nat \<Rightarrow> jval \<Rightarrow> (channel, jval) prog" where
  "call_rpc op request_id body = call_rpc_raw op request_id (json_dump 0 body)"

section \<open>The serve loop\<close>

datatype op_result = Reply jval | ReplyRaw string | BadBody | NoSuchOp

type_synonym 'b op_handler = "nat \<Rightarrow> string \<Rightarrow> 'b \<Rightarrow> op_result \<times> 'b"

definition rpc_response :: "rpc_message \<Rightarrow> rpc_status \<Rightarrow> string \<Rightarrow> rpc_message" where
  "rpc_response req status body =
     \<lparr>rpc_op = rpc_op req, rpc_request_id = rpc_request_id req, rpc_status = rpc_status_code status, rpc_body = body\<rparr>"

definition serve_request :: "'b op_handler \<Rightarrow> rpc_message \<Rightarrow> 'b \<Rightarrow> rpc_message \<times> 'b" where
  "serve_request handler req backend =
     (if rpc_status req \<noteq> 0 then (rpc_response req BadRequest [], backend)
      else let (res, backend') = handler (rpc_op req) (rpc_body req) backend in
        (case res of
           Reply v \<Rightarrow> rpc_response req RpcOk (json_dump 0 v)
         | ReplyRaw body \<Rightarrow> rpc_response req RpcOk body
         | BadBody \<Rightarrow> rpc_response req BadRequest []
         | NoSuchOp \<Rightarrow> rpc_response req UnknownOp [], backend'))"

record 'b worker =
  wk_channel :: channel
  wk_backend :: 'b

text \<open>
  One turn of the loop: the session ends on a clean end of the stream or on an exception, which the
  loop catches; a blocked read leaves it waiting.
\<close>

datatype 'w turn = Served 'w | Ended 'w | Waiting 'w

definition serve_turn :: "'b op_handler \<Rightarrow> 'b worker \<Rightarrow> 'b worker turn" where
  "serve_turn handler w =
     (case rpc_recv (wk_channel w) of
        Blocked ch \<Rightarrow> Waiting (w\<lparr>wk_channel := ch\<rparr>)
      | Raise e ch \<Rightarrow> Ended (w\<lparr>wk_channel := ch\<rparr>)
      | Ret None ch \<Rightarrow> Ended (w\<lparr>wk_channel := ch\<rparr>)
      | Ret (Some req) ch \<Rightarrow>
          (let (resp, backend') = serve_request handler req (wk_backend w) in
           case rpc_send resp ch of
             Ret _ ch' \<Rightarrow> Served \<lparr>wk_channel = ch', wk_backend = backend'\<rparr>
           | Raise e ch' \<Rightarrow> Ended \<lparr>wk_channel = ch', wk_backend = backend'\<rparr>
           | Blocked ch' \<Rightarrow> Waiting \<lparr>wk_channel = ch', wk_backend = backend'\<rparr>))"

text \<open>The loop, for at most \<open>n\<close> requests.\<close>

fun serve_vulkan_rpc :: "'b op_handler \<Rightarrow> nat \<Rightarrow> 'b worker \<Rightarrow> 'b worker turn" where
  "serve_vulkan_rpc handler 0 w = Served w"
| "serve_vulkan_rpc handler (Suc n) w =
     (case serve_turn handler w of Served w' \<Rightarrow> serve_vulkan_rpc handler n w' | stop \<Rightarrow> stop)"

section \<open>The envelope round-trips\<close>

definition rpc_ok :: "rpc_message \<Rightarrow> bool" where
  "rpc_ok m \<longleftrightarrow> rpc_op m < 2 ^ 32 \<and> rpc_request_id m < 2 ^ 32 \<and> rpc_status m < 2 ^ 32"

lemma decode_encode_rpc: "rpc_ok m \<Longrightarrow> decode_rpc (encode_rpc m) = Inr m"
  using load_store_le32 [of "rpc_op m"] load_store_le32 [of "rpc_request_id m"] load_store_le32 [of "rpc_status m"]
  by (simp add: decode_rpc_def encode_rpc_def rpc_ok_def kRpcHeaderBytes_def)

lemma length_encode_rpc [simp]: "length (encode_rpc m) = kRpcHeaderBytes + length (rpc_body m)"
  by (simp add: encode_rpc_def kRpcHeaderBytes_def)

definition rpc_frame :: "rpc_message \<Rightarrow> string option" where
  "rpc_frame m = (case encode_frame (encode_rpc m) of Inr f \<Rightarrow> if rpc_ok m then Some f else None | Inl _ \<Rightarrow> None)"

lemma rpc_frame_Some: "rpc_frame m = Some f \<longleftrightarrow> rpc_ok m \<and> encode_frame (encode_rpc m) = Inr f"
  by (auto simp: rpc_frame_def split: sum.splits)

interpretation rpc_chan: stream_codec rpc_frame rpc_decode_step
proof
  fix m f r
  assume "rpc_frame m = Some f"
  then show "rpc_decode_step (f @ r) = Got (length f) m"
    by (auto simp: rpc_frame_Some rpc_decode_step_def decode_encode_rpc dest: decode_encode_frame [of _ f r])
next
  fix m p q
  assume "rpc_frame m = Some (p @ q)" "q \<noteq> []"
  then show "rpc_decode_step p = More"
    by (auto simp: rpc_frame_Some rpc_decode_step_def decode_strict_prefix)
next
  show "rpc_decode_step [] = More"
    by (simp add: rpc_decode_step_def try_decode_frame_def)
qed

lemma rpc_recv_delivers:
  assumes "rpc_frame m = Some f" "ch_buffer ch @ concat ds = f @ rest" "ch_reads ch = map Data ds @ tail"
  shows "\<exists>ch' ds'. rpc_recv ch = Ret (Some m) ch' \<and> ch_reads ch' = map Data ds' @ tail \<and> ch_buffer ch' @ concat ds' = rest \<and>
    ch_write_plan ch' = ch_write_plan ch \<and> ch_written ch' = ch_written ch"
  using rpc_chan.recv_message [OF assms(1,2), of "''connection closed mid-rpc-frame''" tail] assms(3)
  by (auto simp: rpc_recv_def with_reads_def)

lemma rpc_send_writes:
  assumes "rpc_frame m = Some f" "ch_write_plan ch = []"
  shows "rpc_send m ch = Ret () (ch\<lparr>ch_written := ch_written ch @ f\<rparr>)"
  using assms by (simp add: rpc_send_def rpc_frame_Some write_all_def)

definition rpc_fits :: "rpc_message \<Rightarrow> bool" where
  "rpc_fits m \<longleftrightarrow> rpc_ok m \<and> kRpcHeaderBytes + length (rpc_body m) \<le> kMaxFrameBytes"

lemma rpc_fits_frame: "rpc_fits m \<Longrightarrow> rpc_frame m = Some (store_le32 (length (encode_rpc m)) @ encode_rpc m)"
  by (simp add: rpc_fits_def rpc_frame_Some encode_frame_cases)

lemma rpc_status_codes [simp]: "rpc_status_code s < 2 ^ 32" "rpc_status_code RpcOk = 0"
  by (simp_all add: rpc_status_code_def split: rpc_status.split)

text \<open>The worker's turn on a delivered request.\<close>

lemma serve_turn_delivered:
  assumes f: "rpc_frame req = Some f" and b: "ch_buffer (wk_channel w) @ concat ds = f @ rest"
    and r: "ch_reads (wk_channel w) = map Data ds @ tail" and p: "ch_write_plan (wk_channel w) = []"
    and s: "serve_request handler req (wk_backend w) = (resp, backend')" and g: "rpc_frame resp = Some g"
  shows "\<exists>w'. serve_turn handler w = Served w' \<and> wk_backend w' = backend' \<and>
    ch_written (wk_channel w') = ch_written (wk_channel w) @ g"
proof -
  obtain ch' where "rpc_recv (wk_channel w) = Ret (Some req) ch'" "ch_write_plan ch' = []"
    "ch_written ch' = ch_written (wk_channel w)"
    using rpc_recv_delivers [OF f b r] p by auto
  then show ?thesis using rpc_send_writes [OF g] s by (simp add: serve_turn_def)
qed

lemma call_rpc_raw_delivered:
  assumes req: "rpc_frame \<lparr>rpc_op = op, rpc_request_id = i, rpc_status = 0, rpc_body = body\<rparr> = Some f"
    and g: "rpc_frame resp = Some g" and b: "ch_buffer ch @ concat ds = g @ rest"
    and r: "ch_reads ch = map Data ds @ tail" and p: "ch_write_plan ch = []"
  shows "\<exists>ch'. call_rpc_raw op i body ch = check_response i resp ch' \<and> ch_written ch' = ch_written ch @ f"
proof -
  let ?ch = "ch\<lparr>ch_written := ch_written ch @ f\<rparr>"
  obtain ch' where "rpc_recv ?ch = Ret (Some resp) ch'" "ch_written ch' = ch_written ch @ f"
    using rpc_recv_delivers [OF g, of ?ch ds rest tail] b r by auto
  then show ?thesis using rpc_send_writes [OF req p] by (intro exI [of _ ch']) (simp add: call_rpc_raw_def)
qed

text \<open>
  C16: a call is served. When the client's request fits a frame, and the bytes it writes reach the
  worker split into chunks in any way, the worker runs the operation exactly once on its backend and
  goes on serving; and when the bytes it answers with reach the client, again split in any way, the
  client's call returns the answer of the operation.
\<close>

theorem rpc_call_served:
  assumes fits: "op < 2 ^ 32" "i < 2 ^ 32" "kRpcHeaderBytes + length body \<le> kMaxFrameBytes"
    and op: "handler op body backend = (Reply v, backend')"
    and v: "json_exact v" "kRpcHeaderBytes + length (json_dump 0 v) \<le> kMaxFrameBytes"
  shows "\<exists>f g.
    (\<forall>w ds rest tail. wk_backend w = backend \<and> ch_write_plan (wk_channel w) = [] \<and>
       ch_reads (wk_channel w) = map Data ds @ tail \<and> ch_buffer (wk_channel w) @ concat ds = f @ rest \<longrightarrow>
       (\<exists>w'. serve_turn handler w = Served w' \<and> wk_backend w' = backend' \<and>
          ch_written (wk_channel w') = ch_written (wk_channel w) @ g)) \<and>
    (\<forall>c ds rest tail. ch_write_plan c = [] \<and> ch_reads c = map Data ds @ tail \<and> ch_buffer c @ concat ds = g @ rest \<longrightarrow>
       (\<exists>c'. call_rpc_raw op i body c = Ret v c' \<and> ch_written c' = ch_written c @ f))"
proof -
  define req where "req = \<lparr>rpc_op = op, rpc_request_id = i, rpc_status = 0, rpc_body = body\<rparr>"
  define resp where "resp = rpc_response req RpcOk (json_dump 0 v)"
  define f where "f = store_le32 (length (encode_rpc req)) @ encode_rpc req"
  define g where "g = store_le32 (length (encode_rpc resp)) @ encode_rpc resp"
  have "rpc_fits req" "rpc_fits resp"
    using fits v by (simp_all add: req_def resp_def rpc_response_def rpc_fits_def rpc_ok_def)
  then have f: "rpc_frame req = Some f" and g: "rpc_frame resp = Some g"
    unfolding f_def g_def by (simp_all only: rpc_fits_frame)
  have serve: "serve_request handler req backend = (resp, backend')"
    using op by (simp add: serve_request_def req_def resp_def)
  have check: "check_response i resp ch = Ret v ch" for ch
    using json_parse_dump [OF v(1)] by (simp add: check_response_def response_value_def resp_def rpc_response_def req_def)
  show ?thesis
  proof (rule exI [of _ f], rule exI [of _ g], intro conjI allI impI; elim conjE)
    fix w :: "'a worker" and ds rest and tail :: "read_result list"
    assume "wk_backend w = backend" "ch_write_plan (wk_channel w) = []" "ch_reads (wk_channel w) = map Data ds @ tail"
      "ch_buffer (wk_channel w) @ concat ds = f @ rest"
    then show "\<exists>w'. serve_turn handler w = Served w' \<and> wk_backend w' = backend' \<and>
        ch_written (wk_channel w') = ch_written (wk_channel w) @ g"
      using serve_turn_delivered [OF f _ _ _ _ g, of w] serve by blast
  next
    fix c :: channel and ds rest and tail :: "read_result list"
    assume "ch_write_plan c = []" "ch_reads c = map Data ds @ tail" "ch_buffer c @ concat ds = g @ rest"
    then show "\<exists>c'. call_rpc_raw op i body c = Ret v c' \<and> ch_written c' = ch_written c @ f"
      using call_rpc_raw_delivered [OF f [unfolded req_def] g, of c ds rest tail] check by auto
  qed
qed

theorem rpc_call_served_witness:
  "\<exists>f g.
    (\<forall>w ds rest tail. wk_backend w = 7 \<and> ch_write_plan (wk_channel w) = [] \<and>
       ch_reads (wk_channel w) = map Data ds @ tail \<and> ch_buffer (wk_channel w) @ concat ds = f @ rest \<longrightarrow>
       (\<exists>w'. serve_turn (\<lambda>op body b. (Reply (JBool (op = 3)), b + length body)) w = Served w' \<and> wk_backend w' = (9::nat) \<and>
          ch_written (wk_channel w') = ch_written (wk_channel w) @ g)) \<and>
    (\<forall>c ds rest tail. ch_write_plan c = [] \<and> ch_reads c = map Data ds @ tail \<and> ch_buffer c @ concat ds = g @ rest \<longrightarrow>
       (\<exists>c'. call_rpc_raw 3 1 ''{}'' c = Ret (JBool True) c' \<and> ch_written c' = ch_written c @ f))"
  by (rule rpc_call_served) (simp_all add: kRpcHeaderBytes_def kMaxFrameBytes_def json_dump_def)

end
