(* ===== verification/Memory_Wire.thy ===== *)
theory Memory_Wire
  imports Memory_Correct Rpc
begin

unbundle bit_operations_syntax

text \<open>
  The request that carries memory ranges to the worker (src/vkrelay2/common/vkrpc/vulkan_session.cpp):
  64-bit handles as decimal strings, the binary envelope of a length-prefixed JSON header and a raw
  tail, \<open>WriteMemoryRangesRequest\<close> with its encoder and its validating decoder, and the memory of the
  mock backend that applies and reads ranges.
\<close>

section \<open>Handles\<close>

definition parse_handle_str :: "string \<Rightarrow> nat" where
  "parse_handle_str s =
     (if s = [] \<or> \<not> list_all is_digit s then 0
      else let v = dec_val s in if v < 2 ^ 64 then v else 0)"

definition handle_value :: "nat \<Rightarrow> jval" where
  "handle_value h = JStr (nat_str h)"

definition get_handle :: "jval \<Rightarrow> string \<Rightarrow> nat" where
  "get_handle obj key = (case json_find obj key of Some (JStr s) \<Rightarrow> parse_handle_str s | _ \<Rightarrow> 0)"

section \<open>The binary envelope\<close>

definition kMaxBinaryJsonHeaderBytes :: nat where
  "kMaxBinaryJsonHeaderBytes = 65536"

definition kMaxMemoryUploadBytes :: nat where
  "kMaxMemoryUploadBytes = 8388608"

definition start_binary_envelope :: "jval \<Rightarrow> nat \<Rightarrow> string \<Rightarrow> string + string" where
  "start_binary_envelope header tail_reserve label =
     (let json_text = json_dump 0 header;
          prefix_size = 4 + length json_text;
          max_body_size = kMaxFrameBytes - kRpcHeaderBytes
      in if length json_text > kMaxBinaryJsonHeaderBytes then Inl (label @ '' json header exceeds cap'')
         else if prefix_size > max_body_size \<or> tail_reserve > max_body_size - prefix_size
         then Inl (label @ '' encoded RPC frame exceeds cap'')
         else Inr (store_le32 (u32 (length json_text)) @ json_text))"

definition decode_binary_envelope :: "string \<Rightarrow> string \<Rightarrow> string + jval \<times> nat" where
  "decode_binary_envelope body label =
     (if length body < 4 then Inl (label @ '' body shorter than 4-byte length prefix'')
      else let json_len = load_le32 body in
        if json_len > kMaxBinaryJsonHeaderBytes then Inl (label @ '' json header exceeds cap'')
        else if 4 + json_len > length body then Inl (label @ '' json header runs past end of body'')
        else case json_parse (take json_len (drop 4 body)) of
               Inl e \<Rightarrow> Inl (label @ '' json header parse: '' @ what e)
             | Inr header \<Rightarrow>
                 if \<not> (case header of JObj _ \<Rightarrow> True | _ \<Rightarrow> False) then Inl (label @ '' json header is not an object'')
                 else if length body > kMaxFrameBytes - kRpcHeaderBytes
                 then Inl (label @ '' encoded RPC frame exceeds cap'')
                 else Inr (header, 4 + json_len))"

section \<open>The write request\<close>

record write_request =
  wr_uploads :: "upload list"
  wr_payload :: string

definition range_to_json :: "brange \<Rightarrow> jval" where
  "range_to_json r = obj_of [(''offset'', handle_value (br_offset r)), (''size'', handle_value (br_size r))]"

definition upload_to_json :: "upload \<Rightarrow> jval" where
  "upload_to_json u = obj_of [(''memory'', handle_value (up_memory u)), (''ranges'', JArr (map range_to_json (up_ranges u)))]"

definition write_header :: "write_request \<Rightarrow> jval" where
  "write_header req = obj_of [(''uploads'', JArr (map upload_to_json (wr_uploads req)))]"

text \<open>An encoding that does not fit is the empty string.\<close>

definition write_to_wire :: "write_request \<Rightarrow> string" where
  "write_to_wire req =
     (case start_binary_envelope (write_header req) (length (wr_payload req)) ''write_memory_ranges'' of
        Inl e \<Rightarrow> []
      | Inr out \<Rightarrow> out @ wr_payload req)"

text \<open>The loop over the ranges of an upload: \<open>prev\<close> is the end of the previous range, if there was one.\<close>

fun decode_ranges :: "jval list \<Rightarrow> nat option \<Rightarrow> nat \<Rightarrow> brange list \<Rightarrow> string + brange list \<times> nat" where
  "decode_ranges [] prev tot acc = Inr (acc, tot)"
| "decode_ranges (re # rs) prev tot acc =
     (let off = get_handle re ''offset''; n = get_handle re ''size'' in
      if n = 0 then Inl ''write_memory_ranges has a zero-size range''
      else if off > 2 ^ 64 - 1 - n then Inl ''write_memory_ranges range offset+size overflows''
      else if (case prev of None \<Rightarrow> False | Some e \<Rightarrow> off < e)
      then Inl ''write_memory_ranges ranges not sorted/disjoint per allocation''
      else if tot > 2 ^ 64 - 1 - n then Inl ''write_memory_ranges total size overflows''
      else decode_ranges rs (Some (off + n)) (tot + n) (acc @ [\<lparr>br_offset = off, br_size = n\<rparr>]))"

definition array_field :: "jval \<Rightarrow> string \<Rightarrow> jval list" where
  "array_field v key = (case json_find v key of Some (JArr vs) \<Rightarrow> vs | _ \<Rightarrow> [])"

fun decode_uploads :: "jval list \<Rightarrow> nat list \<Rightarrow> nat \<Rightarrow> upload list \<Rightarrow> string + upload list \<times> nat" where
  "decode_uploads [] seen tot acc = Inr (acc, tot)"
| "decode_uploads (ue # us) seen tot acc =
     (let m = get_handle ue ''memory'' in
      if m \<in> set seen then Inl ''write_memory_ranges has a duplicate memory handle''
      else rbind (decode_ranges (array_field ue ''ranges'') None tot []) (\<lambda>(rs, tot').
        decode_uploads us (m # seen) tot' (acc @ [\<lparr>up_memory = m, up_ranges = rs\<rparr>])))"

definition write_from_wire :: "string \<Rightarrow> string + write_request" where
  "write_from_wire body =
     rbind (decode_binary_envelope body ''write_memory_ranges'') (\<lambda>(h, tail_offset).
     rbind (decode_uploads (array_field h ''uploads'') [] 0 []) (\<lambda>(us, tot).
       let tail_len = length body - tail_offset in
       if tot \<noteq> tail_len then Inl ''write_memory_ranges payload length does not match the summed range sizes''
       else if tail_len > kMaxMemoryUploadBytes then Inl ''write_memory_ranges payload exceeds the per-call cap''
       else Inr \<lparr>wr_uploads = us, wr_payload = drop tail_offset body\<rparr>))"

section \<open>The memory of the mock backend\<close>

definition kMemoryPropertyHostVisible :: nat where "kMemoryPropertyHostVisible = 2"

definition kMemoryPropertyHostCoherent :: nat where "kMemoryPropertyHostCoherent = 4"

record memory_object =
  mo_device :: nat
  mo_size :: nat
  mo_type_index :: nat
  mo_property_flags :: nat
  mo_allocate_flags :: nat
  mo_bytes :: string

record mock_memory =
  mm_objects :: "(nat \<times> memory_object) list"
  mm_retired :: "nat list"

record status_response =
  sr_ok :: bool
  sr_reason :: string

definition status_to_body :: "status_response \<Rightarrow> jval" where
  "status_to_body r = obj_of [(''ok'', JBool (sr_ok r)), (''reason'', JStr (sr_reason r))]"

definition status_from_body :: "jval \<Rightarrow> status_response" where
  "status_from_body b = \<lparr>sr_ok = get_bool b ''ok'' False, sr_reason = get_string b ''reason'' []\<rparr>"

definition range_outside :: "nat \<Rightarrow> brange \<Rightarrow> bool" where
  "range_outside bytes r \<longleftrightarrow> br_offset r > bytes \<or> br_offset r > 2 ^ 64 - 1 - br_size r \<or> br_end r > bytes"

fun check_ranges :: "nat \<Rightarrow> nat \<Rightarrow> brange list \<Rightarrow> nat \<Rightarrow> string + nat" where
  "check_ranges bytes payload_len [] cursor = Inr cursor"
| "check_ranges bytes payload_len (r # rs) cursor =
     (if range_outside bytes r then Inl ''write_memory_ranges range outside the allocation''
      else if cursor + br_size r > payload_len then Inl ''write_memory_ranges payload shorter than its ranges''
      else check_ranges bytes payload_len rs (cursor + br_size r))"

definition check_upload :: "mock_memory \<Rightarrow> nat \<Rightarrow> upload \<Rightarrow> nat \<Rightarrow> string + nat" where
  "check_upload mm payload_len u cursor =
     (case map_of (mm_objects mm) (up_memory u) of
        None \<Rightarrow> Inl ''write_memory_ranges references unknown memory''
      | Some mo \<Rightarrow>
          let flags = kMemoryPropertyHostVisible OR kMemoryPropertyHostCoherent in
          if up_memory u \<in> set (mm_retired mm) then Inl ''write_memory_ranges references unknown memory''
          else if mo_property_flags mo AND flags \<noteq> flags
          then Inl ''write_memory_ranges target is not HOST_VISIBLE | HOST_COHERENT''
          else check_ranges (mo_size mo) payload_len (up_ranges u) cursor)"

fun check_uploads :: "mock_memory \<Rightarrow> nat \<Rightarrow> upload list \<Rightarrow> nat \<Rightarrow> string + nat" where
  "check_uploads mm payload_len [] cursor = Inr cursor"
| "check_uploads mm payload_len (u # us) cursor =
     rbind (check_upload mm payload_len u cursor) (check_uploads mm payload_len us)"

definition size_memory :: "nat \<Rightarrow> mock_memory \<Rightarrow> mock_memory" where
  "size_memory m mm = mm\<lparr>mm_objects := omap_at m (\<lambda>mo.
     if length (mo_bytes mo) < mo_size mo then mo\<lparr>mo_bytes := replicate (mo_size mo) (CHR 0x00)\<rparr> else mo) (mm_objects mm)\<rparr>"

definition apply_range :: "string \<Rightarrow> nat \<Rightarrow> brange \<Rightarrow> mock_memory \<times> nat \<Rightarrow> mock_memory \<times> nat" where
  "apply_range payload m r mc =
     (let (mm, cursor) = mc in
      (mm\<lparr>mm_objects := omap_at m (\<lambda>mo.
         mo\<lparr>mo_bytes := overwrite (mo_bytes mo) (br_offset r) (take (br_size r) (drop cursor payload))\<rparr>) (mm_objects mm)\<rparr>,
       cursor + br_size r))"

definition mock_write_memory_ranges :: "write_request \<Rightarrow> mock_memory \<Rightarrow> status_response \<times> mock_memory" where
  "mock_write_memory_ranges req mm =
     (case check_uploads mm (length (wr_payload req)) (wr_uploads req) 0 of
        Inl e \<Rightarrow> (\<lparr>sr_ok = False, sr_reason = e\<rparr>, mm)
      | Inr _ \<Rightarrow>
          (\<lparr>sr_ok = True, sr_reason = ''ok''\<rparr>,
           fst (fold (\<lambda>u mc. fold (apply_range (wr_payload req) (up_memory u)) (up_ranges u)
                  (size_memory (up_memory u) (fst mc), snd mc)) (wr_uploads req) (mm, 0))))"

definition read_range :: "memory_object \<Rightarrow> brange \<Rightarrow> string" where
  "read_range mo r =
     map (\<lambda>i. let idx = br_offset r + i in if idx < length (mo_bytes mo) then mo_bytes mo ! idx else CHR 0x00) [0..<br_size r]"

fun read_ranges :: "memory_object \<Rightarrow> brange list \<Rightarrow> string + string" where
  "read_ranges mo [] = Inr []"
| "read_ranges mo (r # rs) =
     (if range_outside (mo_size mo) r then Inl ''read_memory_ranges range outside the allocation''
      else rbind (read_ranges mo rs) (\<lambda>rest. Inr (read_range mo r @ rest)))"

fun mock_read_memory_ranges :: "upload list \<Rightarrow> mock_memory \<Rightarrow> string + string" where
  "mock_read_memory_ranges [] mm = Inr []"
| "mock_read_memory_ranges (u # us) mm =
     (case map_of (mm_objects mm) (up_memory u) of
        None \<Rightarrow> Inl ''read_memory_ranges references unknown memory''
      | Some mo \<Rightarrow>
          if up_memory u \<in> set (mm_retired mm) then Inl ''read_memory_ranges references unknown memory''
          else rbind (read_ranges mo (up_ranges u)) (\<lambda>bytes.
            rbind (mock_read_memory_ranges us mm) (\<lambda>rest. Inr (bytes @ rest))))"

section \<open>The encoded request is bounded and round-trips\<close>

lemma get_handle_value: "json_find obj key = Some (handle_value h) \<Longrightarrow> h < 2 ^ 64 \<Longrightarrow> get_handle obj key = h"
  using nat_str_digits [of h] by (simp add: get_handle_def handle_value_def parse_handle_str_def list_all_iff)

lemma length_nat_str: "n < 10 ^ k \<Longrightarrow> 0 < k \<Longrightarrow> length (nat_str n) \<le> k"
proof (induction n arbitrary: k rule: nat_str.induct)
  case (1 n)
  show ?case
  proof (cases "n < 10")
    case True
    then show ?thesis using "1.prems" by (subst nat_str.simps) simp
  next
    case False
    obtain k' where k: "k = Suc k'" using "1.prems"(2) by (cases k) auto
    have "n div 10 < 10 ^ k'" using "1.prems"(1) by (simp add: k less_mult_imp_div_less mult.commute)
    moreover have "0 < k'" using "1.prems"(1) False by (cases k') (auto simp: k)
    ultimately show ?thesis using "1.IH" [of k'] False by (subst nat_str.simps) (simp add: k)
  qed
qed

lemma escape_digits: "\<forall>c\<in>set s. is_digit c \<Longrightarrow> length (escape_string s) = length s + 2"
proof -
  have "escape_char c = [c]" if d: "is_digit c" for c
  proof -
    have "c \<notin> {DQUOTE, BSLASH, CHR 0x08, CHR 0x0C, CHR 0x0A, CHR 0x0D, CHR 0x09}"
      by (rule notI, elim insertE emptyE) (use d in \<open>simp_all add: is_digit_def\<close>)
    then show ?thesis using d by (simp add: escape_char_def is_digit_def)
  qed
  then have "\<forall>c\<in>set s. is_digit c \<Longrightarrow> concat (map escape_char s) = s" by (induction s) auto
  then show "\<forall>c\<in>set s. is_digit c \<Longrightarrow> length (escape_string s) = length s + 2"
    by (simp add: escape_string_def)
qed

lemma length_dump_handle: "h < 2 ^ 64 \<Longrightarrow> length (dump_to 0 d (handle_value h)) \<le> 22"
  using length_nat_str [of h 20] escape_digits [OF nat_str_digits, of h] by (simp add: handle_value_def)

lemma dump_flat [simp]: "pad 0 d = []" "newline 0 = []"
  by (simp_all add: pad_def newline_def)

lemma range_json: "range_to_json r = JObj [(''offset'', handle_value (br_offset r)), (''size'', handle_value (br_size r))]"
  by (simp add: range_to_json_def obj_of_eq)

lemma upload_json:
  "upload_to_json u = JObj [(''memory'', handle_value (up_memory u)), (''ranges'', JArr (map range_to_json (up_ranges u)))]"
  by (simp add: upload_to_json_def obj_of_eq)

lemma length_dump_range:
  assumes "br_offset r < 2 ^ 64" "br_size r < 2 ^ 64"
  shows "length (dump_to 0 d (range_to_json r)) \<le> 63"
  using length_dump_handle [OF assms(1), of "d + 1"] length_dump_handle [OF assms(2), of "d + 1"]
  by (simp add: range_json escape_string_def escape_char_def)

lemma length_dump_elems:
  assumes "\<forall>v\<in>set vs. length (dump_to 0 (d + 1) v) \<le> f v"
  shows "length (dump_elems 0 d vs) \<le> sum_list (map f vs) + length vs"
  using assms by (induction vs) (auto simp: add_mono)

definition handles_ok :: "upload list \<Rightarrow> bool" where
  "handles_ok us \<longleftrightarrow> (\<forall>u\<in>set us. up_memory u < 2 ^ 64)"

definition ranges_u64 :: "upload list \<Rightarrow> bool" where
  "ranges_u64 us \<longleftrightarrow> (\<forall>u\<in>set us. \<forall>r\<in>set (up_ranges u). br_offset r < 2 ^ 64 \<and> br_size r < 2 ^ 64)"

lemma uploads_ok_u64: "uploads_ok srt us \<Longrightarrow> ranges_u64 us"
  by (force simp: uploads_ok_def ranges_ok_def ranges_u64_def)

lemma length_dump_upload:
  assumes "up_memory u < 2 ^ 64" "\<forall>r\<in>set (up_ranges u). br_offset r < 2 ^ 64 \<and> br_size r < 2 ^ 64"
  shows "length (dump_to 0 d (upload_to_json u)) \<le> 45 + 64 * length (up_ranges u)"
proof -
  have "\<forall>v\<in>set (map range_to_json (up_ranges u)). length (dump_to 0 (Suc d + 1) v) \<le> 63"
    using length_dump_range assms(2) by auto
  from length_dump_elems [OF this]
  have "length (dump_elems 0 (Suc d) (map range_to_json (up_ranges u))) \<le> 64 * length (up_ranges u)"
    by (simp add: sum_list_triv comp_def)
  then show ?thesis
    using length_dump_handle [OF assms(1), of "d + 1"] by (simp add: upload_json escape_string_def escape_char_def)
qed

lemma length_write_header:
  assumes "ranges_u64 (wr_uploads req)" "handles_ok (wr_uploads req)"
  shows "length (json_dump 0 (write_header req)) \<le>
    14 + 46 * length (wr_uploads req) + 64 * sum_list (map (\<lambda>u. length (up_ranges u)) (wr_uploads req))"
proof -
  have "\<forall>u\<in>set (wr_uploads req). length (dump_to 0 (1 + 1) (upload_to_json u)) \<le> 45 + 64 * length (up_ranges u)"
    using assms length_dump_upload by (auto simp: ranges_u64_def handles_ok_def)
  then have "length (dump_elems 0 1 (map upload_to_json us)) \<le> sum_list (map (\<lambda>u. 46 + 64 * length (up_ranges u)) us)"
    if "set us \<subseteq> set (wr_uploads req)" for us
    using that by (induction us) fastforce+
  from this [of "wr_uploads req"]
  have "length (dump_elems 0 1 (map upload_to_json (wr_uploads req))) \<le>
      46 * length (wr_uploads req) + 64 * sum_list (map (\<lambda>u. length (up_ranges u)) (wr_uploads req))"
    by (simp add: sum_list_addf sum_list_const_mult sum_list_triv)
  moreover have "write_header req = JObj [(''uploads'', JArr (map upload_to_json (wr_uploads req)))]"
    by (simp add: write_header_def obj_of_eq)
  ultimately show ?thesis
    by (simp add: json_dump_def escape_string_def escape_char_def)
qed

text \<open>Every upload of a decodable request has a range, so there are no more uploads than ranges.\<close>

lemma uploads_le_ranges: "uploads_ok srt us \<Longrightarrow> length us \<le> sum_list (map (\<lambda>u. length (up_ranges u)) us)"
proof (induction us)
  case (Cons u us)
  then have "length us \<le> sum_list (map (\<lambda>u. length (up_ranges u)) us)" "0 < length (up_ranges u)"
    by (auto simp: uploads_ok_def)
  then show ?case by (simp del: length_greater_0_conv)
qed simp

lemma json_exact_write_header: "json_exact (write_header req)"
  by (auto simp: write_header_def obj_of_eq upload_json range_json handle_value_def)

lemma record_eta:
  "\<lparr>br_offset = br_offset r, br_size = br_size r\<rparr> = r" "\<lparr>up_memory = up_memory u, up_ranges = up_ranges u\<rparr> = u"
  by simp_all

lemma decode_ranges_rt:
  assumes "ranges_ok True rs" "case prev of None \<Rightarrow> True | Some e \<Rightarrow> \<forall>r\<in>set rs. e \<le> br_offset r"
    and "n + sum_list (map br_size rs) < 2 ^ 64"
  shows "decode_ranges (map range_to_json rs) prev n acc = Inr (acc @ rs, n + sum_list (map br_size rs))"
  using assms
proof (induction rs arbitrary: prev n acc)
  case (Cons r rs)
  have r: "0 < br_size r" "br_end r < 2 ^ 64" "\<forall>r'\<in>set rs. br_end r \<le> br_offset r'" "ranges_ok True rs"
    using Cons.prems(1) by (auto simp: ranges_ok_def)
  have g: "get_handle (range_to_json r) ''offset'' = br_offset r" "get_handle (range_to_json r) ''size'' = br_size r"
    using r(2) by (auto simp: range_to_json_def json_find_obj_of intro!: get_handle_value)
  have "\<not> (case prev of None \<Rightarrow> False | Some e \<Rightarrow> br_offset r < e)"
    using Cons.prems(2) by (auto split: option.splits)
  moreover have "\<not> br_offset r > 2 ^ 64 - 1 - br_size r" "\<not> n > 2 ^ 64 - 1 - br_size r"
    using r(2) Cons.prems(3) by auto
  moreover have "decode_ranges (map range_to_json rs) (Some (br_offset r + br_size r)) (n + br_size r) (acc @ [r]) =
      Inr ((acc @ [r]) @ rs, n + br_size r + sum_list (map br_size rs))"
    using r Cons.prems(3) by (intro Cons.IH) (simp_all add: add.assoc)
  ultimately show ?case using r(1) by (simp add: g Let_def add.assoc record_eta)
qed simp

lemma decode_uploads_rt:
  assumes "uploads_ok True us" "handles_ok us" "set seen \<inter> up_memory ` set us = {}" "n + length (uploads_cells us) < 2 ^ 64"
  shows "decode_uploads (map upload_to_json us) seen n acc = Inr (acc @ us, n + length (uploads_cells us))"
  using assms
proof (induction us arbitrary: seen n acc)
  case (Cons u us)
  have u: "ranges_ok True (up_ranges u)" "up_memory u < 2 ^ 64" "up_memory u \<notin> up_memory ` set us" "uploads_ok True us" "handles_ok us"
    using Cons.prems(1,2) by (auto simp: uploads_ok_def handles_ok_def)
  have g: "get_handle (upload_to_json u) ''memory'' = up_memory u"
    using u(2) by (auto simp: upload_to_json_def json_find_obj_of intro!: get_handle_value)
  have a: "array_field (upload_to_json u) ''ranges'' = map range_to_json (up_ranges u)"
    by (simp add: array_field_def upload_to_json_def json_find_obj_of)
  have "decode_ranges (map range_to_json (up_ranges u)) None n [] = Inr (up_ranges u, n + length (upload_cells u))"
    using decode_ranges_rt [OF u(1), of None n "[]"] Cons.prems(4) by (simp add: length_upload_cells)
  moreover have "decode_uploads (map upload_to_json us) (up_memory u # seen) (n + length (upload_cells u)) (acc @ [u]) =
      Inr ((acc @ [u]) @ us, n + length (upload_cells u) + length (uploads_cells us))"
    using u Cons.prems(3,4) by (intro Cons.IH) (auto simp: add.assoc)
  ultimately show ?case using Cons.prems(3) by (simp add: g a Let_def add.assoc record_eta)
qed simp

text \<open>A request that fits the caps is encoded, and the decoder accepts and returns it.\<close>

definition request_fits :: "bool \<Rightarrow> nat \<Rightarrow> write_request \<Rightarrow> bool" where
  "request_fits srt max_ranges req \<longleftrightarrow>
     uploads_ok srt (wr_uploads req) \<and> handles_ok (wr_uploads req) \<and> length (wr_payload req) = length (uploads_cells (wr_uploads req)) \<and>
     length (wr_payload req) \<le> kMaxMemoryUploadBytes \<and>
     sum_list (map (\<lambda>u. length (up_ranges u)) (wr_uploads req)) \<le> max_ranges"

lemma request_header_bound:
  assumes "request_fits srt 512 req"
  shows "length (json_dump 0 (write_header req)) \<le> 56334"
  using assms length_write_header [of req] uploads_le_ranges [of srt "wr_uploads req"]
    uploads_ok_u64 [of srt "wr_uploads req"]
  by (simp add: request_fits_def)

text \<open>A header and a tail inside their caps are encoded, and the envelope decodes to them.\<close>

lemma write_to_wire_eq:
  assumes "length (json_dump 0 (write_header req)) \<le> 65536" "length (wr_payload req) \<le> 8388608"
  shows "write_to_wire req =
    store_le32 (length (json_dump 0 (write_header req))) @ json_dump 0 (write_header req) @ wr_payload req"
  using assms
  by (simp add: write_to_wire_def start_binary_envelope_def Let_def kMaxBinaryJsonHeaderBytes_def kMaxFrameBytes_def
      kRpcHeaderBytes_def u32_def)

lemma write_envelope_rt:
  assumes "length (json_dump 0 (write_header req)) \<le> 65536" "length (wr_payload req) \<le> 8388608"
  shows "write_from_wire (write_to_wire req) =
    rbind (decode_uploads (map upload_to_json (wr_uploads req)) [] 0 []) (\<lambda>(us, tot).
      if tot \<noteq> length (wr_payload req)
      then Inl ''write_memory_ranges payload length does not match the summed range sizes''
      else Inr \<lparr>wr_uploads = us, wr_payload = wr_payload req\<rparr>)"
proof -
  define h where "h = write_header req"
  define js where "js = json_dump 0 h"
  define body where "body = write_to_wire req"
  have len: "length js \<le> 65536" using assms(1) by (simp add: js_def h_def)
  have body: "body = store_le32 (length js) @ js @ wr_payload req"
    using write_to_wire_eq [OF assms] by (simp add: body_def js_def h_def)
  have "load_le32 body = length js" using len by (simp add: body load_store_le32)
  moreover have "json_parse js = Inr h" by (simp add: js_def h_def json_parse_dump json_exact_write_header)
  moreover have "h = JObj [(''uploads'', JArr (map upload_to_json (wr_uploads req)))]"
    by (simp add: h_def write_header_def obj_of_eq)
  ultimately have env: "decode_binary_envelope body ''write_memory_ranges'' = Inr (h, 4 + length js)"
    using len assms(2)
    by (simp add: decode_binary_envelope_def body kMaxBinaryJsonHeaderBytes_def kMaxFrameBytes_def kRpcHeaderBytes_def)
  have arr: "array_field h ''uploads'' = map upload_to_json (wr_uploads req)"
    by (simp add: array_field_def h_def write_header_def json_find_obj_of)
  have tail: "length body - (4 + length js) = length (wr_payload req)" "drop (4 + length js) body = wr_payload req"
    by (simp_all add: body)
  show ?thesis
    unfolding write_from_wire_def body_def [symmetric] env using assms(2)
    by (cases "decode_uploads (map upload_to_json (wr_uploads req)) [] 0 []")
      (auto simp: arr tail kMaxMemoryUploadBytes_def)
qed

lemma write_wire_rt:
  assumes fits: "request_fits True 512 req"
  shows "write_from_wire (write_to_wire req) = Inr req"
proof -
  have pl: "length (wr_payload req) \<le> 8388608" "length (wr_payload req) = length (uploads_cells (wr_uploads req))"
    using fits by (simp_all add: request_fits_def kMaxMemoryUploadBytes_def)
  have "decode_uploads (map upload_to_json (wr_uploads req)) [] 0 [] = Inr (wr_uploads req, length (wr_payload req))"
    using decode_uploads_rt [of "wr_uploads req" "[]" 0 "[]"] fits pl by (simp add: request_fits_def)
  then show ?thesis using write_envelope_rt [of req] request_header_bound [OF fits] pl(1) by simp
qed

text \<open>Of a request whose ranges are not ascending the decoder returns the request or an error.\<close>

lemma decode_ranges_any:
  assumes "ranges_ok False rs" "n + sum_list (map br_size rs) < 2 ^ 64"
  shows "decode_ranges (map range_to_json rs) prev n acc \<in> insert (Inr (acc @ rs, n + sum_list (map br_size rs))) (range Inl)"
  using assms
proof (induction rs arbitrary: prev n acc)
  case (Cons r rs)
  have r: "br_end r < 2 ^ 64" "ranges_ok False rs" using Cons.prems(1) by (auto simp: ranges_ok_def)
  have g: "get_handle (range_to_json r) ''offset'' = br_offset r" "get_handle (range_to_json r) ''size'' = br_size r"
    using r(1) by (auto simp: range_to_json_def json_find_obj_of intro!: get_handle_value)
  show ?case
    using Cons.IH [OF r(2), of "n + br_size r" "Some (br_end r)" "acc @ [r]"] Cons.prems(2)
    by (simp add: g Let_def record_eta add.assoc)
qed simp

lemma decode_uploads_any:
  assumes "uploads_ok False us" "handles_ok us" "n + length (uploads_cells us) < 2 ^ 64"
  shows "decode_uploads (map upload_to_json us) seen n acc \<in> insert (Inr (acc @ us, n + length (uploads_cells us))) (range Inl)"
  using assms
proof (induction us arbitrary: seen n acc)
  case (Cons u us)
  have u: "ranges_ok False (up_ranges u)" "up_memory u < 2 ^ 64" "uploads_ok False us" "handles_ok us"
    using Cons.prems(1,2) by (auto simp: uploads_ok_def handles_ok_def)
  have g: "get_handle (upload_to_json u) ''memory'' = up_memory u"
    using u(2) by (auto simp: upload_to_json_def json_find_obj_of intro!: get_handle_value)
  have a: "array_field (upload_to_json u) ''ranges'' = map range_to_json (up_ranges u)"
    by (simp add: array_field_def upload_to_json_def json_find_obj_of)
  have len: "n + sum_list (map br_size (up_ranges u)) < 2 ^ 64" using Cons.prems(3) by (simp add: length_upload_cells)
  consider e where "decode_ranges (map range_to_json (up_ranges u)) None n [] = Inl e"
    | "decode_ranges (map range_to_json (up_ranges u)) None n [] = Inr (up_ranges u, n + length (upload_cells u))"
    using decode_ranges_any [OF u(1) len, of None "[]"] by (auto simp: length_upload_cells)
  then show ?case
  proof cases
    case 2
    show ?thesis
      using Cons.IH [OF u(3,4), of "n + length (upload_cells u)" "up_memory u # seen" "acc @ [u]"] Cons.prems(3) 2
      by (simp add: g a Let_def record_eta add.assoc)
  qed (simp add: g a Let_def)
qed simp

lemma write_wire_any:
  assumes fits: "request_fits srt 512 req"
  shows "write_from_wire (write_to_wire req) \<in> insert (Inr req) (range Inl)"
proof -
  have pl: "length (wr_payload req) \<le> 8388608" "length (wr_payload req) = length (uploads_cells (wr_uploads req))"
    using fits by (simp_all add: request_fits_def kMaxMemoryUploadBytes_def)
  have "uploads_ok False (wr_uploads req)" "handles_ok (wr_uploads req)"
    using fits by (auto simp: request_fits_def uploads_ok_def ranges_ok_def)
  from decode_uploads_any [OF this, of 0 "[]" "[]"] show ?thesis
    using write_envelope_rt [of req] request_header_bound [OF fits] pl by auto
qed

section \<open>The memory the worker holds\<close>

text \<open>What a read sees of an object: bytes that were never written are zero.\<close>

definition object_view :: "memory_object \<Rightarrow> string" where
  "object_view mo = (if length (mo_bytes mo) < mo_size mo then replicate (mo_size mo) (CHR 0x00) else mo_bytes mo)"

definition mock_view :: "mock_memory \<Rightarrow> mem_view" where
  "mock_view mm m = map_option object_view (map_of (mm_objects mm) m)"

definition sized :: "nat \<Rightarrow> mock_memory \<Rightarrow> bool" where
  "sized m mm \<longleftrightarrow> (\<forall>mo. map_of (mm_objects mm) m = Some mo \<longrightarrow> mo_size mo \<le> length (mo_bytes mo))"

interpretation mock_store: scatter mock_view sized size_memory apply_range
proof unfold_locales
  fix m mm
  show "mock_view (size_memory m mm) = mock_view mm"
    by (auto simp: mock_view_def size_memory_def map_of_omap_at object_view_def fun_eq_iff option.map_comp comp_def
        intro!: option.map_cong)
  show "sized m (size_memory m mm)"
    by (cases "map_of (mm_objects mm) m") (simp_all add: sized_def size_memory_def map_of_omap_at)
next
  fix m :: nat and mm :: mock_memory and b r cursor and p :: string
  assume a: "sized m mm" "mock_view mm m = Some b" "br_end r \<le> length b" "cursor + br_size r \<le> length p"
  then obtain mo where mo: "map_of (mm_objects mm) m = Some mo" "mo_bytes mo = b" "mo_size mo \<le> length b"
    by (auto simp: mock_view_def sized_def object_view_def split: if_splits)
  let ?d = "take (br_size r) (drop cursor p)"
  have "length (overwrite b (br_offset r) ?d) = length b" using a(3,4) by simp
  then show "sized m (fst (apply_range p m r (mm, cursor))) \<and>
      mock_view (fst (apply_range p m r (mm, cursor))) = (mock_view mm)(m \<mapsto> overwrite b (br_offset r) ?d) \<and>
      snd (apply_range p m r (mm, cursor)) = cursor + br_size r"
    using mo by (auto simp: apply_range_def mock_view_def sized_def map_of_omap_at object_view_def fun_eq_iff)
qed

text \<open>The objects an upload may target: known, not retired, host-visible and coherent.\<close>

definition writable :: "mock_memory \<Rightarrow> nat \<Rightarrow> bool" where
  "writable mm m \<longleftrightarrow>
     (\<exists>mo. map_of (mm_objects mm) m = Some mo \<and> m \<notin> set (mm_retired mm) \<and> mo_size mo < 2 ^ 64 \<and>
       length (mo_bytes mo) \<le> mo_size mo \<and>
       mo_property_flags mo AND (kMemoryPropertyHostVisible OR kMemoryPropertyHostCoherent) =
         (kMemoryPropertyHostVisible OR kMemoryPropertyHostCoherent))"

lemma check_ranges_ok:
  assumes "\<forall>r\<in>set rs. br_end r \<le> bytes" "bytes < 2 ^ 64" "cursor + sum_list (map br_size rs) \<le> n"
  shows "check_ranges bytes n rs cursor = Inr (cursor + sum_list (map br_size rs))"
  using assms by (induction rs arbitrary: cursor) (auto simp: range_outside_def)

lemma check_uploads_ok:
  assumes "\<forall>u\<in>set us. writable mm (up_memory u)" "uploads_fit (mock_view mm) us" "cursor + length (uploads_cells us) \<le> n"
  shows "check_uploads mm n us cursor = Inr (cursor + length (uploads_cells us))"
  using assms
proof (induction us arbitrary: cursor)
  case (Cons u us)
  obtain mo where mo: "map_of (mm_objects mm) (up_memory u) = Some mo" "up_memory u \<notin> set (mm_retired mm)" "mo_size mo < 2 ^ 64"
    "length (mo_bytes mo) \<le> mo_size mo"
    "mo_property_flags mo AND (kMemoryPropertyHostVisible OR kMemoryPropertyHostCoherent) =
       (kMemoryPropertyHostVisible OR kMemoryPropertyHostCoherent)"
    using Cons.prems(1) by (auto simp: writable_def)
  have "length (object_view mo) = mo_size mo" using mo(4) by (auto simp: object_view_def)
  then have "\<forall>r\<in>set (up_ranges u). br_end r \<le> mo_size mo"
    using Cons.prems(2) mo(1) by (auto simp: uploads_fit_def range_fits_def mock_view_def)
  then have "check_upload mm n u cursor = Inr (cursor + length (upload_cells u))"
    using check_ranges_ok [of "up_ranges u" "mo_size mo" cursor n] Cons.prems(3) mo
    by (simp add: check_upload_def length_upload_cells)
  then show ?case
    using Cons.IH [of "cursor + length (upload_cells u)"] Cons.prems by (simp add: uploads_fit_def add.assoc)
qed simp

lemma mock_write_ok:
  assumes "\<forall>u\<in>set (wr_uploads req). writable mm (up_memory u)" "uploads_fit (mock_view mm) (wr_uploads req)"
    and "length (wr_payload req) = length (uploads_cells (wr_uploads req))"
  shows "\<exists>mm'. mock_write_memory_ranges req mm = (\<lparr>sr_ok = True, sr_reason = ''ok''\<rparr>, mm') \<and>
    mock_view mm' = fold write_cell (zip (uploads_cells (wr_uploads req)) (wr_payload req)) (mock_view mm)"
  using check_uploads_ok [OF assms(1,2), of 0 "length (wr_payload req)"] assms(3)
    mock_store.scatter_uploads [OF assms(2), of 0 "wr_payload req"]
  by (simp add: mock_write_memory_ranges_def)

text \<open>A write changes nothing of an object but its bytes.\<close>

definition erase_bytes :: "mock_memory \<Rightarrow> mock_memory" where
  "erase_bytes mm = mm\<lparr>mm_objects := map (\<lambda>(k, mo). (k, mo\<lparr>mo_bytes := []\<rparr>)) (mm_objects mm)\<rparr>"

lemma erase_bytes_at:
  "(\<And>mo. (f mo)\<lparr>mo_bytes := []\<rparr> = mo\<lparr>mo_bytes := []\<rparr>) \<Longrightarrow>
     erase_bytes (mm\<lparr>mm_objects := omap_at m f (mm_objects mm)\<rparr>) = erase_bytes mm"
  by (auto simp: erase_bytes_def omap_at_def intro!: arg_cong [where f = "\<lambda>os. mm\<lparr>mm_objects := os\<rparr>"])

lemma mock_write_erase: "erase_bytes (snd (mock_write_memory_ranges req mm)) = erase_bytes mm"
proof -
  have sized: "erase_bytes (size_memory m s) = erase_bytes s" for m s
    unfolding size_memory_def by (rule erase_bytes_at) simp
  have step: "erase_bytes (fst (apply_range p m r sc)) = erase_bytes (fst sc)" for p m r sc
    by (cases sc) (simp add: apply_range_def erase_bytes_at)
  have ranges: "erase_bytes (fst (fold (apply_range p m) rs sc)) = erase_bytes (fst sc)" for p m rs sc
    by (induction rs arbitrary: sc) (simp_all add: step)
  have "erase_bytes (fst (fold (\<lambda>u mc. fold (apply_range p (up_memory u)) (up_ranges u)
      (size_memory (up_memory u) (fst mc), snd mc)) us sc)) = erase_bytes (fst sc)" for p sc and us :: "upload list"
    by (induction us arbitrary: sc) (simp_all add: ranges sized)
  then show ?thesis by (simp add: mock_write_memory_ranges_def split: sum.split)
qed

lemma writable_erase:
  "writable mm m \<longleftrightarrow> (\<exists>mo. map_of (mm_objects (erase_bytes mm)) m = Some mo \<and> m \<notin> set (mm_retired (erase_bytes mm)) \<and>
     mo_size mo < 2 ^ 64 \<and> map_option length (mock_view mm m) = Some (mo_size mo) \<and>
     mo_property_flags mo AND (kMemoryPropertyHostVisible OR kMemoryPropertyHostCoherent) =
       (kMemoryPropertyHostVisible OR kMemoryPropertyHostCoherent))"
proof -
  have "map_of (map (\<lambda>(k, mo). (k, mo\<lparr>mo_bytes := []\<rparr>)) t) m = map_option (\<lambda>mo. mo\<lparr>mo_bytes := []\<rparr>) (map_of t m)"
    for t :: "(nat \<times> memory_object) list"
    by (induction t) auto
  moreover have "length (object_view mo) = mo_size mo \<longleftrightarrow> length (mo_bytes mo) \<le> mo_size mo" for mo
    by (auto simp: object_view_def)
  ultimately show ?thesis by (auto simp: writable_def erase_bytes_def mock_view_def)
qed

lemma mock_write_writable:
  assumes "map_option length (mock_view mm' m) = map_option length (mock_view mm m)" "erase_bytes mm' = erase_bytes mm"
  shows "writable mm' m \<longleftrightarrow> writable mm m"
  by (simp only: writable_erase assms)

end
