(* ===== verification/Memory_Sweep.thy ===== *)
theory Memory_Sweep
  imports Memory_Correct
begin

text \<open>
  The two snapshots of the memory tracker. A sweep takes its payload from the shadows at its cells,
  names every cell in which shadow and mirror differ, and keeps the invariant of the tracker; the
  frames it is cut into satisfy what the worker's decoder demands. An explicit flush takes its
  payload in the same way, but two ranges inside one chunk make it visit that chunk twice.
\<close>

section \<open>Byte-level facts about the chunk scan\<close>

lemma slice_conv: "br_end r \<le> length b \<Longrightarrow> slice b r = map ((!) b) [br_offset r..<br_end r]"
  by (rule nth_equalityI) (simp_all add: slice_def)

lemma slice_eq_iff:
  assumes "length b = length b'" "br_end r \<le> length b"
  shows "slice b r = slice b' r \<longleftrightarrow> (\<forall>i. br_offset r \<le> i \<and> i < br_end r \<longrightarrow> b ! i = b' ! i)"
  using assms by (auto simp: slice_conv)

definition buffers_ok :: "alloc \<Rightarrow> bool" where
  "buffers_ok a \<longleftrightarrow> length (al_shadow a) = al_size a \<and> length (al_last_uploaded a) = al_size a"

lemma chunk_dirty_iff:
  assumes "buffers_ok a" "chunk_start a c"
  shows "chunk_dirty a c \<longleftrightarrow> (\<exists>i. in_chunk a c i \<and> al_shadow a ! i \<noteq> al_last_uploaded a ! i)"
  using assms slice_eq_iff [of "al_shadow a" "al_last_uploaded a" "chunk_of a c"] chunk_bounds [of a c]
  by (auto simp: chunk_dirty_def buffers_ok_def in_chunk_def)

lemma collect_dirty_base: "collect_dirty a cover base = (fst (collect_dirty a cover []), base @ snd (collect_dirty a cover []))"
proof -
  define pre where "pre sw = sw\<lparr>sw_payload := base @ sw_payload sw\<rparr>" for sw :: sweep
  have step: "visit_chunk a c (pre sw) = pre (visit_chunk a c sw)" for c sw
    by (simp add: visit_chunk_def pre_def emit_def Let_def)
  have "fold (visit_chunk a) cs (pre sw) = pre (fold (visit_chunk a) cs sw)" for cs sw
    by (induction cs arbitrary: sw) (simp_all add: step)
  from this [of _ "\<lparr>sw_have = False, sw_cur = \<lparr>br_offset = 0, br_size = 0\<rparr>, sw_prev_chunk = 0, sw_first = True,
      sw_ranges = [], sw_payload = []\<rparr>"]
  show ?thesis by (simp add: collect_dirty_def Let_def pre_def emit_def)
qed

text \<open>Reading the shadow at the cells of ranges inside it gives the collected payload.\<close>

lemma slices_cells:
  assumes "\<forall>r\<in>set rs. br_end r \<le> length b"
  shows "concat (map (slice b) rs) = map (\<lambda>(m, i). b ! i) (concat (map (range_cells m) rs))"
  using assms by (induction rs) (auto simp: slice_conv range_cells_def)

lemma mem_range_cells: "(m', i) \<in> set (concat (map (range_cells m) rs)) \<longleftrightarrow> m' = m \<and> covered rs i"
  by (fastforce simp: range_cells_def covered_def)

section \<open>One sweep over the table\<close>

text \<open>The ranges a sweep finds in one allocation.\<close>

definition sweep_ranges :: "page_filter option \<Rightarrow> nat \<Rightarrow> alloc \<Rightarrow> brange list" where
  "sweep_ranges flt m a =
     (if al_candidate a \<and> al_shadow a \<noteq> [] then fst (collect_dirty a (fst (sweep_cover flt m a)) []) else [])"

definition swept :: "page_filter option \<Rightarrow> nat \<Rightarrow> alloc \<Rightarrow> alloc" where
  "swept flt m a = fst (sweep_alloc flt m a (empty_snapshot, \<lparr>io_eligible_bytes = 0, io_diffed_bytes = 0\<rparr>))"

definition uploads_of :: "page_filter option \<Rightarrow> tracker \<Rightarrow> upload list" where
  "uploads_of flt t = concat (map (\<lambda>(m, a). let rs = sweep_ranges flt m a in
     if rs = [] then [] else [\<lparr>up_memory = m, up_ranges = rs\<rparr>]) t)"

lemma collect_payload:
  assumes "collect_dirty a cover [] = (rs, p)"
  shows "p = concat (map (slice (al_shadow a)) rs)"
  using collect_dirty_spec(1) [OF assms] by simp

lemma sweep_alloc_eq:
  "fst (sweep_alloc flt m a si) = swept flt m a"
  "fst (snd (sweep_alloc flt m a si)) =
     \<lparr>ds_uploads = ds_uploads (fst si) @ uploads_of flt [(m, a)],
      ds_payload = ds_payload (fst si) @ concat (map (slice (al_shadow a)) (sweep_ranges flt m a))\<rparr>"
proof -
  obtain snap io where si: "si = (snap, io)" by force
  obtain cover full where cf: "sweep_cover flt m a = (cover, full)" by force
  obtain rs p where rp: "collect_dirty a cover [] = (rs, p)" by force
  have b: "collect_dirty a cover base = (rs, base @ concat (map (slice (al_shadow a)) rs))" for base
    using collect_dirty_base [of a cover base] collect_payload [OF rp] by (simp add: rp)
  show "fst (sweep_alloc flt m a si) = swept flt m a"
    by (simp add: sweep_alloc_def swept_def si cf b Let_def)
  show "fst (snd (sweep_alloc flt m a si)) =
     \<lparr>ds_uploads = ds_uploads (fst si) @ uploads_of flt [(m, a)],
      ds_payload = ds_payload (fst si) @ concat (map (slice (al_shadow a)) (sweep_ranges flt m a))\<rparr>"
    by (simp add: sweep_alloc_def si cf b Let_def add_upload_def uploads_of_def sweep_ranges_def)
qed

lemma sweep_table_eq:
  "fst (sweep_table flt t si) = map (\<lambda>(m, a). (m, swept flt m a)) t \<and>
   fst (snd (sweep_table flt t si)) =
     \<lparr>ds_uploads = ds_uploads (fst si) @ uploads_of flt t,
      ds_payload = ds_payload (fst si) @ concat (map (\<lambda>(m, a). concat (map (slice (al_shadow a)) (sweep_ranges flt m a))) t)\<rparr>"
proof (induction t arbitrary: si)
  case (Cons x t)
  obtain m a where x: "x = (m, a)" by force
  define si' where "si' = snd (sweep_alloc flt m a si)"
  have run: "sweep_table flt (x # t) si = ((m, swept flt m a) # fst (sweep_table flt t si'), snd (sweep_table flt t si'))"
    using sweep_alloc_eq(1) [of flt m a si] by (simp add: x si'_def Let_def case_prod_beta)
  show ?case
    unfolding run using Cons.IH [of si'] sweep_alloc_eq(2) [of flt m a si, folded si'_def] by (simp add: x uploads_of_def)
qed (simp add: uploads_of_def)

lemma snapshot_pending_eq:
  assumes "snapshot_pending flt t = (t', snap, io)"
  shows "t' = map (\<lambda>(m, a). (m, swept flt m a)) t" and "ds_uploads snap = uploads_of flt t"
    and "ds_payload snap = concat (map (\<lambda>(m, a). concat (map (slice (al_shadow a)) (sweep_ranges flt m a))) t)"
  using sweep_table_eq [of flt t "(empty_snapshot, \<lparr>io_eligible_bytes = 0, io_diffed_bytes = 0\<rparr>)"] assms
  by (simp_all add: snapshot_pending_def)

text \<open>A sweep touches only the two bookkeeping flags.\<close>

lemma swept_keeps:
  "al_shadow (swept flt m a) = al_shadow a" "al_last_uploaded (swept flt m a) = al_last_uploaded a"
  "al_size (swept flt m a) = al_size a" "al_is_mapped (swept flt m a) = al_is_mapped a"
  "al_mapped_offset (swept flt m a) = al_mapped_offset a" "al_mapped_size (swept flt m a) = al_mapped_size a"
  "al_host_visible (swept flt m a) = al_host_visible a" "al_host_coherent (swept flt m a) = al_host_coherent a"
  "al_candidate (swept flt m a) \<longleftrightarrow> al_candidate a \<and> (sweep_ranges flt m a \<noteq> [] \<or> al_is_mapped a)"
  by (auto simp: swept_def sweep_alloc_def sweep_ranges_def Let_def split: prod.splits)

section \<open>What a sweep promises\<close>

text \<open>
  The contract of the page filter, as icd_memory.h states it: on an allocation that had its full
  diff, a byte it does not cover is equal in shadow and mirror. The filter of the driver answers with
  runs of pages, so between two of its ranges lies at least a page.
\<close>

definition filter_sound :: "page_filter option \<Rightarrow> tracker \<Rightarrow> bool" where
  "filter_sound flt t \<longleftrightarrow>
     (\<forall>f m a adm. flt = Some f \<longrightarrow> (m, a) \<in> set t \<longrightarrow> al_baseline_done a \<longrightarrow> f m (al_size a) = Some adm \<longrightarrow>
        (\<forall>i<al_size a. al_shadow a ! i \<noteq> al_last_uploaded a ! i \<longrightarrow> covered adm i))"

definition pages_apart :: "brange list \<Rightarrow> bool" where
  "pages_apart rs \<longleftrightarrow> sorted_wrt (\<lambda>r r'. br_end r + kChunkBytes \<le> br_offset r') rs"

definition filter_paged :: "page_filter option \<Rightarrow> bool" where
  "filter_paged flt \<longleftrightarrow> (\<forall>f m n adm. flt = Some f \<longrightarrow> f m n = Some adm \<longrightarrow> pages_apart adm)"

lemma no_filter [simp]: "filter_sound None t" "filter_paged None"
  by (simp_all add: filter_sound_def filter_paged_def)

lemma clamp_admitted_covered: "n < 2 ^ 64 \<Longrightarrow> i < n \<Longrightarrow> covered (clamp_admitted n rs) i \<longleftrightarrow> covered rs i"
  by (induction rs) (auto simp: clamp_admitted_def add_overflows_def)

lemma clamp_admitted_apart: "n < 2 ^ 64 \<Longrightarrow> pages_apart rs \<Longrightarrow> pages_apart (clamp_admitted n rs)"
proof -
  assume n: "n < 2 ^ 64" and ap: "pages_apart rs"
  define f where "f = (\<lambda>r :: brange. \<lparr>br_offset = br_offset r,
      br_size = min (if add_overflows (br_offset r) (br_size r) then n else br_end r) n - br_offset r\<rparr>)"
  define Q where "Q = (\<lambda>r :: brange. \<not> (n \<le> br_offset r \<or> br_size r = 0))"
  have le: "Q r \<Longrightarrow> br_end (f r) \<le> br_end r" for r
    using n by (auto simp: f_def Q_def add_overflows_def)
  have "sorted_wrt (\<lambda>r r'. br_end (f r) + kChunkBytes \<le> br_offset r') (filter Q rs)"
    using ap by (intro sorted_wrt_mono_rel [OF _ sorted_wrt_filter [of "\<lambda>r r'. br_end r + kChunkBytes \<le> br_offset r'"]])
      (auto simp: pages_apart_def dest: le)
  moreover have "clamp_admitted n rs = map f (filter Q rs)" by (simp add: clamp_admitted_def f_def Q_def)
  moreover have "br_offset (f r) = br_offset r" for r by (simp add: f_def)
  ultimately show "pages_apart (clamp_admitted n rs)" by (simp add: pages_apart_def sorted_wrt_map)
qed

lemma merge_into_id:
  "sorted_wrt (\<lambda>r r'. br_end r < br_offset r') (rev out @ rs) \<Longrightarrow> merge_into out rs = rev out @ rs"
  by (induction out rs rule: merge_into.induct) (auto simp: sorted_wrt_append)

lemma merge_cover_id:
  assumes "sorted_wrt (\<lambda>r r'. br_end r < br_offset r') rs"
  shows "merge_cover rs = rs"
proof -
  have "sorted (map br_offset rs)"
    unfolding sorted_map by (rule sorted_wrt_mono_rel [OF _ assms]) simp
  then have "sort_key br_offset rs = rs" by (simp add: sort_key_id_if_sorted)
  then show ?thesis using merge_into_id [of "[]" rs] assms by (simp add: merge_cover_def)
qed

lemma visited_sorted_apart:
  assumes "pages_apart cover"
  shows "sorted_wrt (<) (visited a cover)"
  using assms
proof (induction cover)
  case (Cons iv cover)
  have "x < y" if x: "x \<in> set (interval_chunks (al_size a) iv)" and y: "y \<in> set (visited a cover)" for x y
  proof -
    obtain iv' where iv': "iv' \<in> set cover" "y \<in> set (interval_chunks (al_size a) iv')" using y by (auto simp: visited_def)
    have "br_end iv + kChunkBytes \<le> br_offset iv'" using Cons.prems iv'(1) by (simp add: pages_apart_def)
    moreover have "br_offset iv' < br_offset iv' div kChunkBytes * kChunkBytes + kChunkBytes"
      using div_mult_mod_eq [of "br_offset iv'" kChunkBytes] mod_less_divisor [of kChunkBytes "br_offset iv'"]
      by (simp add: kChunkBytes_def)
    ultimately show ?thesis using x iv'(2) by (auto simp: interval_chunks_mem)
  qed
  moreover have "visited a (iv # cover) = interval_chunks (al_size a) iv @ visited a cover"
    by (simp add: visited_def)
  moreover have "sorted_wrt (<) (interval_chunks (al_size a) iv)"
    by (simp add: interval_chunks_def chunks_from_sorted)
  moreover have "sorted_wrt (<) (visited a cover)" using Cons by (simp add: pages_apart_def)
  ultimately show ?case by (simp only: sorted_wrt_append) blast
qed (simp add: visited_def)

lemma sweep_cover_sorted:
  assumes "filter_paged flt" "al_size a < 2 ^ 64"
  shows "sorted_wrt (<) (visited a (fst (sweep_cover flt m a)))"
proof (rule visited_sorted_apart)
  have "pages_apart (merge_cover (clamp_admitted (al_size a) adm))" if "pages_apart adm" for adm
  proof -
    have ap: "pages_apart (clamp_admitted (al_size a) adm)" using assms(2) that by (rule clamp_admitted_apart)
    then have "sorted_wrt (\<lambda>r r'. br_end r < br_offset r') (clamp_admitted (al_size a) adm)"
      unfolding pages_apart_def by (rule sorted_wrt_mono_rel [rotated]) (simp add: kChunkBytes_def)
    then show ?thesis using ap by (simp add: merge_cover_id)
  qed
  then show "pages_apart (fst (sweep_cover flt m a))"
    using assms(1) by (auto simp: sweep_cover_def Let_def filter_paged_def pages_apart_def split: option.splits)
qed

text \<open>The cover of a sweep contains every differing byte.\<close>

lemma sweep_cover_complete:
  assumes "filter_sound flt t" "(m, a) \<in> set t" "al_size a < 2 ^ 64" "i < al_size a" "al_shadow a ! i \<noteq> al_last_uploaded a ! i"
  shows "covered (fst (sweep_cover flt m a)) i"
  using assms clamp_admitted_covered [OF assms(3,4)]
  by (auto simp: sweep_cover_def Let_def filter_sound_def split: option.splits)

lemma covered_visited:
  assumes "covered cover i" "i < al_size a"
  shows "i div kChunkBytes * kChunkBytes \<in> set (visited a cover)" "in_chunk a (i div kChunkBytes * kChunkBytes) i"
proof -
  have i: "i div kChunkBytes * kChunkBytes \<le> i" "i < i div kChunkBytes * kChunkBytes + kChunkBytes"
    using div_mult_mod_eq [of i kChunkBytes] mod_less_divisor [of kChunkBytes i] by (simp_all add: kChunkBytes_def)
  obtain r where r: "r \<in> set cover" "br_offset r \<le> i" "i < br_end r" using assms(1) by (auto simp: covered_def)
  have "br_offset r div kChunkBytes * kChunkBytes \<le> i div kChunkBytes * kChunkBytes"
    using r(2) by (intro mult_le_mono1 div_le_mono)
  moreover have "i div kChunkBytes * kChunkBytes < br_end r" "i div kChunkBytes * kChunkBytes < al_size a"
    by (fact le_less_trans [OF i(1) r(3)] le_less_trans [OF i(1) assms(2)])+
  ultimately show "i div kChunkBytes * kChunkBytes \<in> set (visited a cover)"
    using r(1) by (auto simp: visited_def interval_chunks_mem intro!: bexI [of _ r])
  show "in_chunk a (i div kChunkBytes * kChunkBytes) i"
    using i assms(2) by (simp add: in_chunk_def chunk_end_def)
qed

lemma alloc_ok_buffers: "alloc_ok a \<Longrightarrow> al_shadow a \<noteq> [] \<Longrightarrow> buffers_ok a"
  by (simp add: alloc_ok_def buffers_ok_def)

lemma sweep_ranges_complete:
  assumes "filter_sound flt t" "tracker_ok t" "(m, a) \<in> set t" "i < length (al_shadow a)" "skips_clean t"
    and "al_shadow a ! i \<noteq> al_last_uploaded a ! i"
  shows "covered (sweep_ranges flt m a) i"
proof -
  have ok: "alloc_ok a" using assms(2,3) by (auto simp: tracker_ok_def)
  have ne: "al_shadow a \<noteq> []" using assms(4) by auto
  have "map_of t m = Some a" using assms(2,3) omap_ok_distinct [of t] by (simp add: tracker_ok_def)
  then have cand: "al_candidate a" using assms(5,6) unfolding skips_clean_def by metis
  have b: "buffers_ok a" and i: "i < al_size a" and sz: "al_size a < 2 ^ 64"
    using alloc_ok_buffers [OF ok ne] assms(4) ok by (simp_all add: buffers_ok_def alloc_ok_def)
  note cov = sweep_cover_complete [OF assms(1,3) sz i assms(6)]
  note v = covered_visited [OF cov i]
  have "chunk_start a (i div kChunkBytes * kChunkBytes)" using visited_start v(1) by blast
  then have "chunk_dirty a (i div kChunkBytes * kChunkBytes)"
    using chunk_dirty_iff [OF b] v(2) assms(6) by blast
  moreover obtain rs p where rp: "collect_dirty a (fst (sweep_cover flt m a)) [] = (rs, p)" by force
  ultimately have "covered rs i" using collect_dirty_spec(3) [OF rp, of i] v by blast
  then show ?thesis using ne cand by (simp add: sweep_ranges_def rp)
qed

lemma sweep_ranges_bounds:
  assumes "alloc_ok a"
  shows "\<forall>r\<in>set (sweep_ranges flt m a). 0 < br_size r \<and> br_end r \<le> length (al_shadow a) \<and> br_end r < 2 ^ 64"
    and "filter_paged flt \<Longrightarrow> sorted_wrt before (sweep_ranges flt m a)"
proof -
  obtain rs p where rp: "collect_dirty a (fst (sweep_cover flt m a)) [] = (rs, p)" by force
  have sz: "al_size a < 2 ^ 64" "al_shadow a \<noteq> [] \<Longrightarrow> length (al_shadow a) = al_size a"
    using assms by (simp_all add: alloc_ok_def)
  show "\<forall>r\<in>set (sweep_ranges flt m a). 0 < br_size r \<and> br_end r \<le> length (al_shadow a) \<and> br_end r < 2 ^ 64"
    using collect_dirty_spec(2) [OF rp] sz by (fastforce simp: sweep_ranges_def rp)
  show "filter_paged flt \<Longrightarrow> sorted_wrt before (sweep_ranges flt m a)"
    using collect_dirty_spec(4) [OF rp] sweep_cover_sorted [of flt a m] sz(1) by (simp add: sweep_ranges_def rp)
qed

lemma uploads_of_memories: "up_memory ` set (uploads_of flt t) \<subseteq> fst ` set t"
  by (force simp: uploads_of_def Let_def split: if_splits)

lemma uploads_of_Cons [simp]:
  "uploads_of flt ((m, a) # t) =
     (if sweep_ranges flt m a = [] then [] else [\<lparr>up_memory = m, up_ranges = sweep_ranges flt m a\<rparr>]) @ uploads_of flt t"
  by (simp add: uploads_of_def Let_def)

lemma uploads_of_Nil [simp]: "uploads_of flt [] = []"
  by (simp add: uploads_of_def)

lemma tracker_ok_Cons: "tracker_ok ((m, a) # t) \<longleftrightarrow> m < 2 ^ 64 \<and> alloc_ok a \<and> tracker_ok t \<and> (\<forall>k\<in>fst ` set t. m < k)"
  by (auto simp: tracker_ok_def omap_ok_def)

lemma uploads_of_ok: "tracker_ok t \<Longrightarrow> filter_paged flt \<Longrightarrow> uploads_ok True (uploads_of flt t)"
proof (induction t)
  case (Cons x t)
  obtain m a where x: "x = (m, a)" by force
  have "m \<notin> up_memory ` set (uploads_of flt t)"
    using Cons.prems(1) subsetD [OF uploads_of_memories, of m flt t] unfolding x tracker_ok_Cons by blast
  moreover have "uploads_ok True (uploads_of flt t)" using Cons by (simp add: x tracker_ok_Cons)
  moreover have "ranges_ok True (sweep_ranges flt m a)"
    using Cons.prems sweep_ranges_bounds [of a flt m] by (simp add: ranges_ok_def x tracker_ok_Cons)
  ultimately show ?case by (auto simp: x uploads_ok_def)
qed (simp add: uploads_ok_def)

lemma mem_uploads_of:
  "(m, i) \<in> set (uploads_cells (uploads_of flt t)) \<longleftrightarrow> (\<exists>a. (m, a) \<in> set t \<and> covered (sweep_ranges flt m a) i)"
proof (induction t)
  case (Cons x t)
  obtain m' a where x: "x = (m', a)" by force
  have "(m, i) \<in> set (upload_cells \<lparr>up_memory = m', up_ranges = sweep_ranges flt m' a\<rparr>) \<longleftrightarrow>
      m = m' \<and> covered (sweep_ranges flt m' a) i"
    unfolding upload_cells_def by (simp only: mem_range_cells upload.simps)
  then show ?case using Cons.IH by (auto simp: x)
qed simp

definition shadow_at :: "tracker \<Rightarrow> nat \<times> nat \<Rightarrow> char" where
  "shadow_at t = (\<lambda>(m, i). the (shadows t m) ! i)"

lemma sweep_payload:
  assumes "tracker_ok t" "snapshot_pending flt t = (t', snap, io)"
  shows "ds_payload snap = map (shadow_at t) (snap_cells snap)"
proof -
  have "concat (map (\<lambda>(m, a). concat (map (slice (al_shadow a)) (sweep_ranges flt m a))) us) =
      map (shadow_at t) (uploads_cells (uploads_of flt us))" if "set us \<subseteq> set t" for us
    using that
  proof (induction us)
    case (Cons x us)
    obtain m a where x: "x = (m, a)" by force
    have ma: "(m, a) \<in> set t" "map_of t m = Some a" "alloc_ok a"
      using Cons.prems assms(1) omap_ok_distinct [of t] by (auto simp: x tracker_ok_def)
    have "concat (map (slice (al_shadow a)) (sweep_ranges flt m a)) =
        map (shadow_at t) (concat (map (range_cells m) (sweep_ranges flt m a)))"
      using sweep_ranges_bounds(1) [OF ma(3), of flt m] ma(2) slices_cells [of "sweep_ranges flt m a" "al_shadow a" m]
      by (auto simp: shadow_at_def shadows_def range_cells_def)
    then show ?case using Cons by (auto simp: x upload_cells_def)
  qed simp
  from this [of t] show ?thesis using snapshot_pending_eq [OF assms(2)] by simp
qed

lemma map_of_swept: "map_of (map (\<lambda>(m, a). (m, swept flt m a)) t) k = map_option (swept flt k) (map_of t k)"
  by (induction t) auto

lemma shadows_mem: "tracker_ok t \<Longrightarrow> shadows t m = Some b \<longleftrightarrow> (\<exists>a. (m, a) \<in> set t \<and> al_shadow a = b)"
  using omap_ok_distinct [of t] by (auto simp: shadows_def tracker_ok_def map_of_eq_Some_iff)

lemma mirror_shadow_lengths:
  "tracker_ok t \<Longrightarrow> map_option length (mirror t m) = map_option length (shadows t m)"
  using tracker_ok_lookup [of t m] by (cases "map_of t m") (simp_all add: mirror_def shadows_def alloc_ok_def)

lemma sweep_tracker_ok:
  assumes ok: "tracker_ok t" and run: "snapshot_pending flt t = (t', snap, io)"
  shows "tracker_ok t'" "shadows t' = shadows t" "mirror t' = mirror t"
proof -
  note t' = snapshot_pending_eq(1) [OF run]
  have "m < 2 ^ 64 \<and> alloc_ok (swept flt m a)" if ma: "(m, a) \<in> set t" for m a
    using ok ma unfolding tracker_ok_def alloc_ok_def swept_keeps by auto
  moreover have "omap_ok t'" using ok by (simp add: t' tracker_ok_def omap_ok_def comp_def case_prod_beta)
  ultimately show "tracker_ok t'" by (auto simp: tracker_ok_def t')
  show "shadows t' = shadows t" "mirror t' = mirror t"
    by (auto simp: shadows_def mirror_def t' map_of_swept swept_keeps option.map_comp comp_def)
qed

text \<open>With a sound filter a sweep drops clean allocations only.\<close>

lemma sweep_skips_clean:
  assumes ok: "tracker_ok t" "skips_clean t" and flt: "filter_sound flt t" and run: "snapshot_pending flt t = (t', snap, io)"
  shows "skips_clean t'"
proof -
  have "al_shadow a = al_last_uploaded a" if a: "map_of t m = Some a" and none: "sweep_ranges flt m a = []" for m a
  proof (rule nth_equalityI)
    show "length (al_shadow a) = length (al_last_uploaded a)" using tracker_ok_lookup [OF ok(1) a] by (simp add: alloc_ok_def)
    fix i assume "i < length (al_shadow a)"
    then show "al_shadow a ! i = al_last_uploaded a ! i"
      using sweep_ranges_complete [OF flt ok(1) map_of_SomeD [OF a] _ ok(2), of i] none by auto
  qed
  then show ?thesis
    using ok(2) unfolding skips_clean_def snapshot_pending_eq(1) [OF run] map_of_swept
    by (auto simp: swept_keeps)
qed

lemma sweep_snap_ok:
  assumes "tracker_ok t" "filter_paged flt" "snapshot_pending flt t = (t', snap, io)"
  shows "snap_ok True snap" "uploads_fit (mirror t) (ds_uploads snap)"
proof -
  show "snap_ok True snap"
    using uploads_of_ok [OF assms(1,2)] sweep_payload [OF assms(1,3)] by (simp add: snap_ok_def snapshot_pending_eq(2) [OF assms(3)])
  have "range_fits (mirror t) m r" if ma: "(m, a) \<in> set t" and r: "r \<in> set (sweep_ranges flt m a)" for m a r
  proof -
    have "alloc_ok a" "map_of t m = Some a"
      using ma assms(1) omap_ok_distinct [of t] by (auto simp: tracker_ok_def)
    then show ?thesis
      using sweep_ranges_bounds(1) [of a flt m] r by (auto simp: range_fits_def mirror_def alloc_ok_def)
  qed
  then show "uploads_fit (mirror t) (ds_uploads snap)"
    unfolding snapshot_pending_eq(2) [OF assms(3)] by (fastforce simp: uploads_fit_def uploads_of_def Let_def split: if_splits)
qed

text \<open>Writing the cells of a sweep into the mirror makes it equal to the shadows.\<close>

lemma sweep_writes_sync:
  assumes ok: "tracker_ok t" and clean: "skips_clean t" and flt: "filter_sound flt t" and run: "snapshot_pending flt t = (t', snap, io)"
  shows "fold write_cell (snap_writes snap) (mirror t) = shadows t"
proof
  fix m
  have ws: "snap_writes snap = map (\<lambda>c. (c, shadow_at t c)) (snap_cells snap)"
    by (simp add: snap_writes_def sweep_payload [OF ok run] zip_map2 zip_same_conv_map)
  have v: "\<forall>((m, i), c)\<in>set (snap_writes snap). c = shadow_at t (m, i)" by (auto simp: ws)
  show "fold write_cell (snap_writes snap) (mirror t) m = shadows t m"
  proof (cases "map_of t m")
    case None
    then show ?thesis using write_cells_dom [of "snap_writes snap" "mirror t" m] by (simp add: mirror_def shadows_def)
  next
    case (Some a)
    have ma: "(m, a) \<in> set t" "alloc_ok a" using Some ok by (auto dest: map_of_SomeD simp: tracker_ok_def)
    have mt: "mirror t m = Some (al_last_uploaded a)" by (simp add: mirror_def Some)
    obtain b where b: "fold write_cell (snap_writes snap) (mirror t) m = Some b" "length b = length (al_last_uploaded a)"
      "\<forall>i<length (al_last_uploaded a). b ! i =
         (if (m, i) \<in> fst ` set (snap_writes snap) then shadow_at t (m, i) else al_last_uploaded a ! i)"
      using write_cells_nth [of "mirror t" m "al_last_uploaded a" "snap_writes snap" "\<lambda>m i. shadow_at t (m, i)"] mt v
      by auto
    have len: "length (al_last_uploaded a) = length (al_shadow a)" using ma(2) by (simp add: alloc_ok_def)
    have "b ! i = al_shadow a ! i" if i: "i < length (al_shadow a)" for i
    proof (cases "al_shadow a ! i = al_last_uploaded a ! i")
      case False
      then have "(m, i) \<in> set (snap_cells snap)"
        using sweep_ranges_complete [OF flt ok ma(1) i clean] ma(1)
        by (auto simp: snapshot_pending_eq(2) [OF run] mem_uploads_of)
      then show ?thesis using b(3) i len by (force simp: ws shadow_at_def shadows_def Some)
    qed (use b(3) i len in \<open>auto simp: shadow_at_def shadows_def Some\<close>)
    then have "b = al_shadow a" using b(2) len by (simp add: nth_equalityI)
    then show ?thesis using b(1) by (simp add: shadows_def Some)
  qed
qed

end
