(* ===== verification/Soft_Dirty.thy ===== *)
theory Soft_Dirty
  imports Memory_Sweep
begin

unbundle bit_operations_syntax

text \<open>
  The page filter of the driver (src/vkrelay2/linux/icd/icd_softdirty.h): it reads the kernel's page
  map in batches and turns the soft-dirty bits of the pages under a buffer into coalesced byte
  ranges. The read of the page map is a parameter: it answers with the entries of the pages asked
  for, or with too few.
\<close>

section \<open>Reading the dirty ranges\<close>

definition kSoftDirtyBit :: nat where
  "kSoftDirtyBit = 55"

definition kBatchEntries :: nat where
  "kBatchEntries = 8192"

record span =
  sp_addr :: nat
  sp_size :: nat
  sp_page_size :: nat

definition first_page :: "span \<Rightarrow> nat" where
  "first_page sp = sp_addr sp div sp_page_size sp"

definition last_page :: "span \<Rightarrow> nat" where
  "last_page sp = (sp_addr sp + sp_size sp - 1) div sp_page_size sp"

definition page_lo :: "span \<Rightarrow> nat \<Rightarrow> nat" where
  "page_lo sp pg = (if pg * sp_page_size sp > sp_addr sp then pg * sp_page_size sp - sp_addr sp else 0)"

definition page_hi :: "span \<Rightarrow> nat \<Rightarrow> nat" where
  "page_hi sp pg = min ((pg + 1) * sp_page_size sp - sp_addr sp) (sp_size sp)"

text \<open>The loop over the entries of a batch: the start of the open run, if one is open, and the ranges so far.\<close>

definition visit_page :: "span \<Rightarrow> nat \<Rightarrow> bool \<Rightarrow> nat option \<times> brange list \<Rightarrow> nat option \<times> brange list" where
  "visit_page sp pg dirty ro =
     (let (run, out) = ro in
      if dirty
      then let start = (case run of None \<Rightarrow> page_lo sp pg | Some s \<Rightarrow> s) in
           if pg = last_page sp then (None, out @ [\<lparr>br_offset = start, br_size = page_hi sp pg - start\<rparr>])
           else (Some start, out)
      else case run of
             None \<Rightarrow> (None, out)
           | Some s \<Rightarrow> (None, out @ [\<lparr>br_offset = s, br_size = page_lo sp pg - s\<rparr>]))"

fun visit_entries :: "span \<Rightarrow> nat \<Rightarrow> nat list \<Rightarrow> nat option \<times> brange list \<Rightarrow> nat option \<times> brange list" where
  "visit_entries sp pg [] ro = ro"
| "visit_entries sp pg (e # es) ro = visit_entries sp (pg + 1) es (visit_page sp pg (bit e kSoftDirtyBit) ro)"

function read_pages ::
  "(nat \<Rightarrow> nat \<Rightarrow> nat list) \<Rightarrow> span \<Rightarrow> nat \<Rightarrow> nat option \<times> brange list \<Rightarrow> (nat option \<times> brange list) option" where
  "read_pages pread sp page ro =
     (if page \<le> last_page sp
      then let batch = min kBatchEntries (last_page sp - page + 1); es = pread page batch in
           if length es \<noteq> batch then None else read_pages pread sp (page + batch) (visit_entries sp page es ro)
      else Some ro)"
  by pat_completeness auto
termination
  by (relation "measure (\<lambda>(pread, sp, page, ro). last_page sp + 1 - page)") (auto simp: kBatchEntries_def)

declare read_pages.simps [simp del]

definition read_dirty :: "bool \<Rightarrow> (nat \<Rightarrow> nat \<Rightarrow> nat list) \<Rightarrow> span \<Rightarrow> brange list option" where
  "read_dirty available pread sp =
     (if \<not> available \<or> sp_size sp = 0 then None
      else if sp_size sp > 2 ^ 64 - 1 - sp_addr sp then None
      else map_option snd (read_pages pread sp (first_page sp) (None, [])))"

section \<open>The ranges are the dirty pages\<close>

definition span_ok :: "span \<Rightarrow> bool" where
  "span_ok sp \<longleftrightarrow> 0 < sp_size sp \<and> kChunkBytes \<le> sp_page_size sp"

definition page_of :: "span \<Rightarrow> nat \<Rightarrow> nat" where
  "page_of sp i = (sp_addr sp + i) div sp_page_size sp"

lemma page_lo_eq: "page_lo sp pg = pg * sp_page_size sp - sp_addr sp"
  by (simp add: page_lo_def)

lemma page_of_iff:
  assumes "span_ok sp"
  shows "page_of sp i < pg \<longleftrightarrow> i < page_lo sp pg"
  using assms by (auto simp: page_of_def page_lo_eq div_less_iff_less_mult span_ok_def kChunkBytes_def)

lemma page_of_bounds:
  assumes "span_ok sp" "i < sp_size sp"
  shows "first_page sp \<le> page_of sp i" "page_of sp i \<le> last_page sp"
  using assms by (auto simp: page_of_def first_page_def last_page_def intro!: div_le_mono)

lemma page_lo_step:
  assumes "span_ok sp" "first_page sp < pg"
  shows "page_lo sp (Suc pg) = page_lo sp pg + sp_page_size sp" "0 < page_lo sp pg"
proof -
  have "sp_addr sp div sp_page_size sp < pg" "0 < sp_page_size sp"
    using assms by (auto simp: first_page_def span_ok_def kChunkBytes_def)
  then have "sp_addr sp < pg * sp_page_size sp" by (simp add: div_less_iff_less_mult)
  then show "page_lo sp (Suc pg) = page_lo sp pg + sp_page_size sp" "0 < page_lo sp pg"
    by (simp_all add: page_lo_eq)
qed

lemma page_lo_mono:
  assumes "span_ok sp" "first_page sp \<le> pg"
  shows "page_lo sp pg < page_lo sp (Suc pg)"
proof -
  have "sp_addr sp div sp_page_size sp < Suc pg" "0 < sp_page_size sp"
    using assms by (auto simp: first_page_def span_ok_def kChunkBytes_def)
  then have "sp_addr sp < Suc pg * sp_page_size sp" by (simp only: div_less_iff_less_mult)
  then show ?thesis using \<open>0 < sp_page_size sp\<close> by (auto simp: page_lo_eq)
qed

lemma page_lo_size:
  assumes "span_ok sp" "pg \<le> last_page sp"
  shows "page_lo sp pg < sp_size sp"
proof -
  have "page_of sp (sp_size sp - 1) = last_page sp" using assms(1) by (simp add: page_of_def last_page_def span_ok_def)
  then have "\<not> sp_size sp - 1 < page_lo sp pg" using page_of_iff [OF assms(1), of "sp_size sp - 1" pg] assms(2) by simp
  then show ?thesis using assms(1) unfolding span_ok_def by linarith
qed

lemma page_hi_last: "span_ok sp \<Longrightarrow> page_hi sp (last_page sp) = sp_size sp"
proof -
  assume ok: "span_ok sp"
  have "page_of sp (sp_size sp - 1) < Suc (last_page sp)" using ok by (simp add: page_of_def last_page_def span_ok_def)
  then have "sp_size sp - 1 < page_lo sp (Suc (last_page sp))" using page_of_iff [OF ok] by blast
  then show "page_hi sp (last_page sp) = sp_size sp" using ok unfolding page_hi_def page_lo_eq span_ok_def by simp
qed

text \<open>Before page \<open>n\<close> the closed ranges and the open run cover the dirty pages below \<open>n\<close>, a page apart.\<close>

definition open_run :: "span \<Rightarrow> nat \<Rightarrow> nat option \<Rightarrow> brange list" where
  "open_run sp n run = (case run of None \<Rightarrow> [] | Some s \<Rightarrow> [\<lparr>br_offset = s, br_size = page_lo sp n - s\<rparr>])"

definition pages_inv :: "span \<Rightarrow> (nat \<Rightarrow> bool) \<Rightarrow> nat \<Rightarrow> nat option \<times> brange list \<Rightarrow> bool" where
  "pages_inv sp D n ro \<longleftrightarrow>
     (let (run, out) = ro in
      pages_apart (out @ open_run sp n run) \<and>
      (\<forall>r\<in>set out. 0 < br_size r \<and> br_end r + sp_page_size sp \<le> (case run of None \<Rightarrow> page_lo sp n | Some s \<Rightarrow> s)) \<and>
      (case run of None \<Rightarrow> True | Some s \<Rightarrow> s < page_lo sp n \<and> first_page sp < n) \<and>
      (\<forall>i<sp_size sp. covered (out @ open_run sp n run) i \<longleftrightarrow> page_of sp i < n \<and> D (page_of sp i)))"

lemma pages_invI:
  assumes "pages_apart (out @ open_run sp n run)"
    and "\<forall>r\<in>set out. 0 < br_size r \<and> br_end r + sp_page_size sp \<le> (case run of None \<Rightarrow> page_lo sp n | Some s \<Rightarrow> s)"
    and "case run of None \<Rightarrow> True | Some s \<Rightarrow> s < page_lo sp n \<and> first_page sp < n"
    and "\<And>i. i < sp_size sp \<Longrightarrow> covered (out @ open_run sp n run) i \<longleftrightarrow> page_of sp i < n \<and> D (page_of sp i)"
  shows "pages_inv sp D n (run, out)"
  using assms by (simp add: pages_inv_def)

lemma visit_page_inv:
  assumes ok: "span_ok sp" and pg: "first_page sp \<le> pg" "pg < last_page sp" and inv: "pages_inv sp D pg ro"
  shows "pages_inv sp D (Suc pg) (visit_page sp pg (D pg) ro)"
proof -
  obtain run out where ro: "ro = (run, out)" by force
  have ap: "pages_apart (out @ open_run sp pg run)"
    and gap: "\<forall>r\<in>set out. 0 < br_size r \<and> br_end r + sp_page_size sp \<le> (case run of None \<Rightarrow> page_lo sp pg | Some s \<Rightarrow> s)"
    and run: "case run of None \<Rightarrow> True | Some s \<Rightarrow> s < page_lo sp pg \<and> first_page sp < pg"
    and cov: "\<And>i. i < sp_size sp \<Longrightarrow> covered (out @ open_run sp pg run) i \<longleftrightarrow> page_of sp i < pg \<and> D (page_of sp i)"
    using inv by (simp_all add: pages_inv_def ro)
  have step: "page_of sp i < Suc pg \<longleftrightarrow> page_of sp i < pg \<or> page_of sp i = pg" for i by auto
  have at: "page_of sp i = pg \<longleftrightarrow> page_lo sp pg \<le> i \<and> i < page_lo sp (Suc pg)" for i
    using page_of_iff [OF ok, of i pg] page_of_iff [OF ok, of i "Suc pg"] by auto
  note lt = page_lo_mono [OF ok pg(1)]
  have ps: "kChunkBytes \<le> sp_page_size sp" using ok by (simp add: span_ok_def)
  have ap_out: "pages_apart out" using ap by (simp add: pages_apart_def sorted_wrt_append)
  show ?thesis
  proof (cases "D pg")
    case True
    define s where "s = (case run of None \<Rightarrow> page_lo sp pg | Some s \<Rightarrow> s)"
    have v: "visit_page sp pg (D pg) ro = (Some s, out)" using True pg(2) by (simp add: visit_page_def ro s_def)
    have s: "s \<le> page_lo sp pg" "\<forall>r\<in>set out. 0 < br_size r \<and> br_end r + sp_page_size sp \<le> s"
      using run gap by (auto simp: s_def split: option.splits)
    have ext: "covered (out @ open_run sp (Suc pg) (Some s)) i \<longleftrightarrow> covered (out @ open_run sp pg run) i \<or> page_of sp i = pg" for i
      unfolding at using lt run by (cases run) (auto simp: open_run_def s_def)
    show ?thesis
      unfolding v
    proof (rule pages_invI)
      show "pages_apart (out @ open_run sp (Suc pg) (Some s))"
        using ap_out s(2) ps by (fastforce simp: open_run_def pages_apart_def sorted_wrt_append)
      show "covered (out @ open_run sp (Suc pg) (Some s)) i \<longleftrightarrow> page_of sp i < Suc pg \<and> D (page_of sp i)"
        if "i < sp_size sp" for i using ext cov [OF that] True step by auto
    qed (use s lt pg(1) in auto)
  next
    case False
    show ?thesis
    proof (cases run)
      case None
      then have v: "visit_page sp pg (D pg) ro = (None, out)" using False by (simp add: visit_page_def ro)
      have "covered out i \<longleftrightarrow> page_of sp i < Suc pg \<and> D (page_of sp i)" if "i < sp_size sp" for i
        using cov [OF that] None False step [of i] by (auto simp: open_run_def)
      then show ?thesis
        unfolding v using gap lt ap_out None by (intro pages_invI) (force simp: open_run_def)+
    next
      case (Some s)
      then have v: "visit_page sp pg (D pg) ro = (None, out @ open_run sp pg run)"
        using False by (simp add: visit_page_def ro open_run_def)
      have fp: "first_page sp < pg" using run Some by simp
      have "\<forall>r\<in>set (out @ open_run sp pg run). 0 < br_size r \<and> br_end r + sp_page_size sp \<le> page_lo sp (Suc pg)"
        using gap run Some page_lo_step [OF ok fp] by (fastforce simp: open_run_def)
      moreover have "covered (out @ open_run sp pg run) i \<longleftrightarrow> page_of sp i < Suc pg \<and> D (page_of sp i)"
        if "i < sp_size sp" for i using cov [OF that] False step [of i] by auto
      ultimately show ?thesis
        unfolding v using ap by (intro pages_invI) (simp_all add: open_run_def [of sp "Suc pg"])
    qed
  qed
qed

text \<open>The last page closes the run at the end of the buffer.\<close>

lemma visit_last_page:
  assumes ok: "span_ok sp" and inv: "pages_inv sp D (last_page sp) ro"
  defines "out \<equiv> snd (visit_page sp (last_page sp) (D (last_page sp)) ro)"
  shows "pages_apart out" and "i < sp_size sp \<Longrightarrow> covered out i \<longleftrightarrow> D (page_of sp i)"
    and "\<forall>r\<in>set out. 0 < br_size r \<and> br_end r \<le> sp_size sp"
proof -
  define n where "n = last_page sp"
  obtain run os where ro: "ro = (run, os)" by force
  have ap: "pages_apart (os @ open_run sp n run)"
    and gap: "\<forall>r\<in>set os. 0 < br_size r \<and> br_end r + sp_page_size sp \<le> (case run of None \<Rightarrow> page_lo sp n | Some s \<Rightarrow> s)"
    and run: "case run of None \<Rightarrow> True | Some s \<Rightarrow> s < page_lo sp n \<and> first_page sp < n"
    and cov: "\<And>i. i < sp_size sp \<Longrightarrow> covered (os @ open_run sp n run) i \<longleftrightarrow> page_of sp i < n \<and> D (page_of sp i)"
    using inv by (simp_all add: pages_inv_def ro n_def [symmetric])
  have lo: "page_lo sp n < sp_size sp" using page_lo_size [OF ok, of n] by (simp add: n_def)
  have hi: "page_hi sp n = sp_size sp" using page_hi_last [OF ok] by (simp add: n_def)
  have le: "i < sp_size sp \<Longrightarrow> page_of sp i \<le> n" for i using page_of_bounds(2) [OF ok] by (simp add: n_def)
  have at: "i < sp_size sp \<Longrightarrow> page_of sp i = n \<longleftrightarrow> page_lo sp n \<le> i" for i
    using page_of_iff [OF ok, of i n] le [of i] by auto
  have ps: "kChunkBytes \<le> sp_page_size sp" using ok by (simp add: span_ok_def)
  have "pages_apart out \<and> (\<forall>i<sp_size sp. covered out i \<longleftrightarrow> D (page_of sp i)) \<and>
      (\<forall>r\<in>set out. 0 < br_size r \<and> br_end r \<le> sp_size sp)"
  proof (cases "D n")
    case True
    define s where "s = (case run of None \<Rightarrow> page_lo sp n | Some s \<Rightarrow> s)"
    have o: "out = os @ [\<lparr>br_offset = s, br_size = sp_size sp - s\<rparr>]"
      using True hi by (simp add: out_def visit_page_def ro n_def [symmetric] s_def Let_def)
    have s: "s \<le> page_lo sp n" using run by (auto simp: s_def split: option.splits)
    have ext: "covered out i \<longleftrightarrow> covered (os @ open_run sp n run) i \<or> page_of sp i = n" if "i < sp_size sp" for i
      unfolding at [OF that] using that lo run s by (cases run) (auto simp: o open_run_def s_def)
    have "covered out i \<longleftrightarrow> D (page_of sp i)" if "i < sp_size sp" for i
      using ext [OF that] cov [OF that] le [OF that] True by (cases "page_of sp i = n") auto
    moreover have "pages_apart out"
      using ap gap ps unfolding o s_def by (cases run) (fastforce simp: pages_apart_def sorted_wrt_append)+
    moreover have "\<forall>r\<in>set out. 0 < br_size r \<and> br_end r \<le> sp_size sp"
      using gap lo s run unfolding o s_def by (cases run) fastforce+
    ultimately show ?thesis by blast
  next
    case False
    have o: "out = os @ open_run sp n run"
      using False by (auto simp: out_def visit_page_def ro n_def [symmetric] open_run_def split: option.splits)
    have "covered out i \<longleftrightarrow> D (page_of sp i)" if "i < sp_size sp" for i
      using cov [OF that] le [OF that] False unfolding o by (cases "page_of sp i = n") auto
    moreover have "\<forall>r\<in>set out. 0 < br_size r \<and> br_end r \<le> sp_size sp"
      using gap lo run unfolding o by (cases run) (fastforce simp: open_run_def)+
    ultimately show ?thesis using ap by (simp add: o)
  qed
  then show "pages_apart out" "i < sp_size sp \<Longrightarrow> covered out i \<longleftrightarrow> D (page_of sp i)"
    "\<forall>r\<in>set out. 0 < br_size r \<and> br_end r \<le> sp_size sp" by auto
qed

text \<open>
  An honest page map: where a read gives as many entries as were asked for, their bits tell which
  pages are dirty.
\<close>

definition pagemap_tells :: "(nat \<Rightarrow> nat \<Rightarrow> nat list) \<Rightarrow> (nat \<Rightarrow> bool) \<Rightarrow> bool" where
  "pagemap_tells pread D \<longleftrightarrow>
     (\<forall>page n i. length (pread page n) = n \<longrightarrow> i < n \<longrightarrow> bit (pread page n ! i) kSoftDirtyBit = D (page + i))"

definition pages_done :: "span \<Rightarrow> (nat \<Rightarrow> bool) \<Rightarrow> nat \<Rightarrow> nat option \<times> brange list \<Rightarrow> bool" where
  "pages_done sp D pg ro \<longleftrightarrow>
     (if pg \<le> last_page sp then first_page sp \<le> pg \<and> pages_inv sp D pg ro
      else pages_apart (snd ro) \<and> (\<forall>r\<in>set (snd ro). 0 < br_size r \<and> br_end r \<le> sp_size sp) \<and>
        (\<forall>i<sp_size sp. covered (snd ro) i \<longleftrightarrow> D (page_of sp i)))"

lemma visit_entries_done:
  assumes "span_ok sp" "pages_done sp D pg ro" "pg + length es \<le> Suc (last_page sp)"
    and "\<forall>i<length es. bit (es ! i) kSoftDirtyBit = D (pg + i)"
  shows "pages_done sp D (pg + length es) (visit_entries sp pg es ro)"
  using assms(2-4)
proof (induction es arbitrary: pg ro)
  case (Cons e es)
  have e: "bit e kSoftDirtyBit = D pg" using Cons.prems(3) by force
  have es: "\<forall>i<length es. bit (es ! i) kSoftDirtyBit = D (Suc pg + i)" using Cons.prems(3) by fastforce
  have pg: "pg \<le> last_page sp" "first_page sp \<le> pg" "pages_inv sp D pg ro"
    using Cons.prems(1,2) by (auto simp: pages_done_def split: if_splits)
  have "pages_done sp D (Suc pg) (visit_page sp pg (D pg) ro)"
  proof (cases "pg = last_page sp")
    case True
    then show ?thesis using visit_last_page [OF assms(1), of D ro] pg(3) by (simp add: pages_done_def)
  next
    case False
    then show ?thesis using visit_page_inv [OF assms(1) pg(2) _ pg(3)] pg by (simp add: pages_done_def)
  qed
  from Cons.IH [OF this _ es] Cons.prems(2) show ?case by (simp add: e)
qed simp

lemma read_pages_done:
  assumes "span_ok sp" "pagemap_tells pread D" "pages_done sp D pg ro" "pg \<le> Suc (last_page sp)"
    and "read_pages pread sp pg ro = Some ro'"
  shows "pages_done sp D (Suc (last_page sp)) ro'"
  using assms
proof (induction pread sp pg ro rule: read_pages.induct)
  case (1 pread sp pg ro)
  show ?case
  proof (cases "pg \<le> last_page sp")
    case True
    define batch where "batch = min kBatchEntries (last_page sp - pg + 1)"
    have b: "batch \<le> last_page sp - pg + 1" by (simp add: batch_def)
    have len: "length (pread pg batch) = batch"
      and run: "read_pages pread sp (pg + batch) (visit_entries sp pg (pread pg batch) ro) = Some ro'"
      using "1.prems"(5) True
      by (auto simp: read_pages.simps [of pread sp pg] Let_def batch_def split: if_splits)
    have "pages_done sp D (pg + length (pread pg batch)) (visit_entries sp pg (pread pg batch) ro)"
      using "1.prems"(2) b len True
      by (intro visit_entries_done [OF "1.prems"(1,3)]) (auto simp: pagemap_tells_def)
    then show ?thesis
      using "1.IH" [OF True batch_def refl _ "1.prems"(1,2)] b len True run by simp
  next
    case False
    then show ?thesis using "1.prems"(3-5) by (simp add: read_pages.simps le_Suc_eq)
  qed
qed

text \<open>The page map gives every entry of the span that is asked for.\<close>

definition pagemap_readable :: "(nat \<Rightarrow> nat \<Rightarrow> nat list) \<Rightarrow> span \<Rightarrow> bool" where
  "pagemap_readable pread sp \<longleftrightarrow>
     (\<forall>page n. first_page sp \<le> page \<longrightarrow> page + n \<le> last_page sp + 1 \<longrightarrow> length (pread page n) = n)"

lemma read_pages_answers:
  assumes "pagemap_readable pread sp" "first_page sp \<le> pg"
  shows "read_pages pread sp pg ro \<noteq> None"
  using assms
proof (induction pread sp pg ro rule: read_pages.induct)
  case (1 pread sp pg ro)
  define batch where "batch = min kBatchEntries (last_page sp - pg + 1)"
  have "length (pread pg batch) = batch" if "pg \<le> last_page sp"
    using "1.prems" that by (auto simp: pagemap_readable_def batch_def)
  then show ?case
    using "1.IH" [OF _ batch_def refl] "1.prems" by (subst read_pages.simps) (auto simp: Let_def batch_def)
qed

text \<open>
  C30: the filter answers exactly with the dirty pages. When the page map is honest and the page size
  is at least the tracker's chunk, every answer consists of non-empty ranges inside the buffer, at
  least a page apart, that cover a byte of the buffer if and only if the page of that byte is dirty.
  It does answer when it is available, the page map gives every entry asked for, and the buffer is
  not empty and does not wrap around the address space; without the filter, and on an empty or
  wrapping buffer, it never answers.
\<close>

theorem read_dirty_exact:
  assumes "pagemap_tells pread D" "kChunkBytes \<le> sp_page_size sp"
  shows "(case read_dirty available pread sp of
       None \<Rightarrow> \<not> (available \<and> 0 < sp_size sp \<and> sp_addr sp + sp_size sp < 2 ^ 64 \<and> pagemap_readable pread sp)
     | Some rs \<Rightarrow>
         available \<and> 0 < sp_size sp \<and> sp_addr sp + sp_size sp < 2 ^ 64 \<and> pages_apart rs \<and>
         (\<forall>r\<in>set rs. 0 < br_size r \<and> br_offset r + br_size r \<le> sp_size sp) \<and>
         (\<forall>i<sp_size sp. covered rs i \<longleftrightarrow> D ((sp_addr sp + i) div sp_page_size sp)))"
proof (cases "read_dirty available pread sp")
  case None
  then show ?thesis
    using read_pages_answers [of pread sp "first_page sp" "(None, [])"] by (auto simp: read_dirty_def split: if_splits)
next
  case (Some rs)
  have g: "available" "0 < sp_size sp" "\<not> sp_size sp > 2 ^ 64 - 1 - sp_addr sp"
    "map_option snd (read_pages pread sp (first_page sp) (None, [])) = Some rs"
    using Some by (auto simp: read_dirty_def split: if_splits)
  have ok: "span_ok sp" using g(2) assms(2) by (simp add: span_ok_def)
  obtain run where r: "read_pages pread sp (first_page sp) (None, []) = Some (run, rs)" using g(4) by auto
  have fl: "first_page sp \<le> last_page sp" using page_of_bounds [OF ok g(2)] by linarith
  have none: "\<not> page_of sp i < first_page sp" for i
    by (simp add: page_of_def first_page_def div_le_mono leD)
  have "pages_done sp D (first_page sp) (None, [])"
    using fl none by (simp add: pages_done_def pages_inv_def open_run_def pages_apart_def)
  from read_pages_done [OF ok assms(1) this _ r] fl have "pages_done sp D (Suc (last_page sp)) (run, rs)" by simp
  then show ?thesis using g Some by (auto simp: pages_done_def page_of_def)
qed

theorem read_dirty_exact_witness:
  "let rs = [\<lparr>br_offset = 0, br_size = 4096\<rparr>, \<lparr>br_offset = 8192, br_size = 1808\<rparr>] in
   pages_apart rs \<and> (\<forall>r\<in>set rs. 0 < br_size r \<and> br_offset r + br_size r \<le> 10000) \<and>
   (\<forall>i<10000. covered rs i \<longleftrightarrow> (8192 + i) div 4096 \<noteq> 3)"
proof -
  define pread where "pread = (\<lambda>page n. map (\<lambda>i. if page + i = 3 then 0 else 2 ^ 55) [0..<n] :: nat list)"
  have p: "pagemap_tells pread (\<lambda>page. page \<noteq> 3)"
    by (auto simp: pagemap_tells_def pread_def kSoftDirtyBit_def bit_exp_iff bit_Suc_0_iff)
  have "read_dirty True pread \<lparr>sp_addr = 8192, sp_size = 10000, sp_page_size = 4096\<rparr> =
      Some [\<lparr>br_offset = 0, br_size = 4096\<rparr>, \<lparr>br_offset = 8192, br_size = 1808\<rparr>]"
    by (simp add: read_dirty_def read_pages.simps first_page_def last_page_def pread_def kBatchEntries_def Let_def
        upt_rec visit_page_def page_lo_def page_hi_def kSoftDirtyBit_def bit_exp_iff bit_Suc_0_iff)
  then show ?thesis
    using read_dirty_exact [OF p, of "\<lparr>sp_addr = 8192, sp_size = 10000, sp_page_size = 4096\<rparr>" True]
    by (simp add: kChunkBytes_def)
qed

end
