(* ===== verification/Memory_Link.thy ===== *)
theory Memory_Link
  imports Memory_Wire Soft_Dirty
begin

unbundle bit_operations_syntax

text \<open>
  The driver's upload path end to end (src/vkrelay2/linux/icd/icd.cpp and the serve loop of
  src/vkrelay2/common/vkrpc/vulkan_session.cpp): the conversion of a frame to a request, the call that
  carries it to the worker, shipping a snapshot frame by frame, the sweep before a submit with the
  epoch protocol of the page filter, the explicit flush, the download of clean allocations, and the
  free of an allocation with the upload that precedes it.

  The operating system is an input of each sweep: whether the page filter can be initialised and
  reset, and what it answers. The connection is an input of each call: it carries the request and
  its answer, it loses the request, or it loses the answer of a request that the worker has served.
\<close>

section \<open>The write call\<close>

definition kFrameMaxRanges :: nat where
  "kFrameMaxRanges = 512"

definition kOpWriteMemoryRanges :: nat where
  "kOpWriteMemoryRanges = 50"

definition to_write_request :: "dirty_snapshot \<Rightarrow> write_request" where
  "to_write_request snap = \<lparr>wr_uploads = ds_uploads snap, wr_payload = ds_payload snap\<rparr>"

text \<open>The arm of the worker's dispatch that serves it; the other operations are not part of this model.\<close>

definition write_op_handler :: "mock_memory op_handler" where
  "write_op_handler op body mm =
     (if op = kOpWriteMemoryRanges
      then case write_from_wire body of
             Inl e \<Rightarrow> (BadBody, mm)
           | Inr req \<Rightarrow> (let (s, mm') = mock_write_memory_ranges req mm in (Reply (status_to_body s), mm'))
      else (NoSuchOp, mm))"

text \<open>What the connection does with a call.\<close>

datatype call_fate = Carried | Lost | AnswerLost

definition write_memory_ranges ::
  "call_fate \<Rightarrow> nat \<Rightarrow> write_request \<Rightarrow> mock_memory \<Rightarrow> (string + status_response) \<times> mock_memory" where
  "write_memory_ranges fate request_id req mm =
     (if fate = Lost then (Inl ''connection lost'', mm)
      else let (resp, mm') = serve_request write_op_handler
                 \<lparr>rpc_op = kOpWriteMemoryRanges, rpc_request_id = request_id, rpc_status = 0, rpc_body = write_to_wire req\<rparr> mm
           in (if fate = AnswerLost then Inl ''rpc closed before response''
               else case response_value request_id resp of Inl e \<Rightarrow> Inl e | Inr v \<Rightarrow> Inr (status_from_body v), mm'))"

section \<open>Shipping a snapshot\<close>

datatype ship_result = Shipped | Refused | Threw string

text \<open>The calls are numbered: \<open>link n\<close> is what the connection does with call \<open>n\<close>.\<close>

fun ship_frames :: "(nat \<Rightarrow> call_fate) \<Rightarrow> nat \<Rightarrow> dirty_snapshot list \<Rightarrow> tracker \<times> mock_memory \<Rightarrow> ship_result \<times> tracker \<times> mock_memory" where
  "ship_frames link n [] tm = (Shipped, tm)"
| "ship_frames link n (f # fs) tm =
     (let (t, mm) = tm; (r, mm') = write_memory_ranges (link n) (u32 n) (to_write_request f) mm in
      case r of
        Inl e \<Rightarrow> (Threw e, t, mm')
      | Inr s \<Rightarrow> if \<not> sr_ok s then (Refused, t, mm') else ship_frames link (n + 1) fs (commit f t, mm'))"

definition ship_snapshot :: "(nat \<Rightarrow> call_fate) \<Rightarrow> dirty_snapshot \<Rightarrow> tracker \<times> mock_memory \<Rightarrow> ship_result \<times> tracker \<times> mock_memory" where
  "ship_snapshot link snap tm = ship_frames link 0 (split_for_upload snap kMaxMemoryUploadBytes kFrameMaxRanges) tm"

section \<open>The sweep before a submit\<close>

record icd_memory =
  ic_tracker :: tracker
  ic_softdirty_tried :: bool
  ic_softdirty_on :: bool
  ic_sweep_counter :: nat

record sweep_env =
  se_disabled :: bool
  se_init :: bool
  se_reset :: bool
  se_read :: page_filter
  se_every :: nat

definition try_softdirty :: "sweep_env \<Rightarrow> icd_memory \<Rightarrow> icd_memory" where
  "try_softdirty env s =
     (if ic_softdirty_tried s then s
      else s\<lparr>ic_softdirty_tried := True, ic_softdirty_on := \<not> se_disabled env \<and> se_init env\<rparr>)"

definition resets :: "sweep_env \<Rightarrow> icd_memory \<Rightarrow> bool" where
  "resets env s \<longleftrightarrow> ic_softdirty_on s \<and> ic_sweep_counter s mod se_every env = 0"

definition begin_epoch :: "sweep_env \<Rightarrow> icd_memory \<Rightarrow> icd_memory" where
  "begin_epoch env s =
     (if resets env s
      then if se_reset env then s\<lparr>ic_tracker := force_rebaseline (ic_tracker s)\<rparr> else s\<lparr>ic_softdirty_on := False\<rparr>
      else s)"

definition rebaseline_if_on :: "icd_memory \<Rightarrow> icd_memory" where
  "rebaseline_if_on s = (if ic_softdirty_on s then s\<lparr>ic_tracker := force_rebaseline (ic_tracker s)\<rparr> else s)"

definition coherent_flush_at_submit_locked ::
  "sweep_env \<Rightarrow> (nat \<Rightarrow> call_fate) \<Rightarrow> icd_memory \<times> mock_memory \<Rightarrow> ship_result \<times> icd_memory \<times> mock_memory" where
  "coherent_flush_at_submit_locked env link sm =
     (let (s0, mm) = sm;
          s1 = begin_epoch env (try_softdirty env s0);
          s2 = s1\<lparr>ic_sweep_counter := u64 (ic_sweep_counter s1 + 1)\<rparr>;
          flt = (if ic_softdirty_on s2 then Some (se_read env) else None);
          (t', snap, io) = snapshot_pending flt (ic_tracker s2);
          s3 = s2\<lparr>ic_tracker := t'\<rparr>
      in if ds_uploads snap = [] then (Shipped, s3, mm)
         else case ship_snapshot link snap (t', mm) of
                (Shipped, t'', mm') \<Rightarrow> (Shipped, s3\<lparr>ic_tracker := t''\<rparr>, mm')
              | (Refused, t'', mm') \<Rightarrow> (Refused, rebaseline_if_on (s3\<lparr>ic_tracker := t''\<rparr>), mm')
              | (Threw e, t'', mm') \<Rightarrow> (Threw e, s3\<lparr>ic_tracker := t''\<rparr>, mm'))"

text \<open>The memory part of a submit: an exception is caught there and forces a new baseline.\<close>

definition submit_flush ::
  "sweep_env \<Rightarrow> (nat \<Rightarrow> call_fate) \<Rightarrow> icd_memory \<times> mock_memory \<Rightarrow> ship_result \<times> icd_memory \<times> mock_memory" where
  "submit_flush env link sm =
     (case coherent_flush_at_submit_locked env link sm of
        (Threw e, s, mm) \<Rightarrow> (Threw e, rebaseline_if_on s, mm)
      | r \<Rightarrow> r)"

section \<open>The explicit flush\<close>

datatype flush_result = FlushSuccess | FlushMapFailed string | FlushFault | FlushOutOfDeviceMemory

definition flush_mapped_memory_ranges ::
  "(nat \<Rightarrow> call_fate) \<Rightarrow> mem_range list \<Rightarrow> icd_memory \<times> mock_memory \<Rightarrow> flush_result \<times> icd_memory \<times> mock_memory" where
  "flush_mapped_memory_ranges link rs sm =
     (let (s, mm) = sm in
      case snapshot_explicit rs (ic_tracker s) of
        Inl e \<Rightarrow> (FlushMapFailed e, s, mm)
      | Inr snap \<Rightarrow>
          if ds_uploads snap = [] then (FlushSuccess, s, mm)
          else case ship_snapshot link snap (ic_tracker s, mm) of
                 (Shipped, t, mm') \<Rightarrow> (FlushSuccess, s\<lparr>ic_tracker := t\<rparr>, mm')
               | (Refused, t, mm') \<Rightarrow> (FlushFault, s\<lparr>ic_tracker := t\<rparr>, mm')
               | (Threw e, t, mm') \<Rightarrow> (FlushOutOfDeviceMemory, s\<lparr>ic_tracker := t\<rparr>, mm'))"

section \<open>Downloading clean allocations\<close>

definition readback_candidates :: "nat list \<Rightarrow> tracker \<Rightarrow> (nat \<times> nat) list" where
  "readback_candidates ready t =
     map (\<lambda>m. (m, allocation_size m t)) (filter (\<lambda>m. mapped m t \<and> readback_clean m t) ready)"

fun apply_downloads :: "(nat \<times> nat) list \<Rightarrow> string \<Rightarrow> tracker \<times> nat list \<Rightarrow> tracker \<times> nat list" where
  "apply_downloads [] payload tr = tr"
| "apply_downloads ((m, n) # cs) payload tr =
     (if n > length payload then tr
      else apply_downloads cs (drop n payload) (apply_readback m (take n payload) (fst tr), removeAll m (snd tr)))"

definition download_readback_locked :: "nat list \<Rightarrow> tracker \<Rightarrow> mock_memory \<Rightarrow> tracker \<times> nat list" where
  "download_readback_locked ready t mm =
     (let cands = readback_candidates ready t in
      if cands = [] then (t, ready)
      else case mock_read_memory_ranges (map (\<lambda>(m, n). \<lparr>up_memory = m, up_ranges = [\<lparr>br_offset = 0, br_size = n\<rparr>]\<rparr>) cands) mm of
             Inl e \<Rightarrow> (t, ready)
           | Inr payload \<Rightarrow> apply_downloads cands payload (t, ready))"

section \<open>Freeing an allocation\<close>

text \<open>
  Freeing an allocation that a recorded command buffer still uses ships the pending bytes first. The
  handler catches an exception of that upload and leaves the driver's state as the upload left it.
\<close>

definition free_memory_flush ::
  "sweep_env \<Rightarrow> (nat \<Rightarrow> call_fate) \<Rightarrow> bool \<Rightarrow> icd_memory \<times> mock_memory \<Rightarrow> ship_result \<times> icd_memory \<times> mock_memory" where
  "free_memory_flush env link retained_by_lease sm =
     (if retained_by_lease then coherent_flush_at_submit_locked env link sm else (Shipped, sm))"

definition kMaxRetiredMemoryAllocationsPerDevice :: nat where
  "kMaxRetiredMemoryAllocationsPerDevice = 4096"

text \<open>
  The worker's side. The tables of images, buffers and device children are not part of this model:
  \<open>retained\<close> tells whether a retired image or buffer is bound to the memory, and \<open>leaf\<close> is the reason
  for which the device refuses to destroy its child, if it does.
\<close>

definition mock_free_memory :: "bool \<Rightarrow> string option \<Rightarrow> nat \<Rightarrow> mock_memory \<Rightarrow> status_response \<times> mock_memory" where
  "mock_free_memory retained leaf m mm =
     (case map_of (mm_objects mm) m of
        None \<Rightarrow> (\<lparr>sr_ok = False, sr_reason = ''unknown handle for this object type''\<rparr>, mm)
      | Some mo \<Rightarrow>
          if m \<in> set (mm_retired mm) then (\<lparr>sr_ok = False, sr_reason = ''unknown handle for this object type''\<rparr>, mm)
          else if retained
          then if kMaxRetiredMemoryAllocationsPerDevice \<le>
                  length (filter (\<lambda>h. map_option mo_device (map_of (mm_objects mm) h) = Some (mo_device mo)) (mm_retired mm))
               then (\<lparr>sr_ok = False, sr_reason = ''recording resource retired-memory capacity exceeded''\<rparr>, mm)
               else (\<lparr>sr_ok = True, sr_reason = ''ok''\<rparr>, mm\<lparr>mm_retired := mm_retired mm @ [m]\<rparr>)
          else case leaf of
                 Some reason \<Rightarrow> (\<lparr>sr_ok = False, sr_reason = reason\<rparr>, mm)
               | None \<Rightarrow> (\<lparr>sr_ok = True, sr_reason = ''ok''\<rparr>,
                          mm\<lparr>mm_objects := filter (\<lambda>kv. fst kv \<noteq> m) (mm_objects mm)\<rparr>))"

definition free_memory_call ::
  "call_fate \<Rightarrow> bool \<Rightarrow> string option \<Rightarrow> nat \<Rightarrow> mock_memory \<Rightarrow> (string + status_response) \<times> mock_memory" where
  "free_memory_call fate retained leaf m mm =
     (if fate = Lost then (Inl ''connection lost'', mm)
      else let (response, mm') = mock_free_memory retained leaf m mm
           in (if fate = AnswerLost then Inl ''rpc closed before response'' else Inr response, mm'))"

text \<open>
  What a free depends on beside the memory: whether a leased resource of the driver is bound to it, the
  worker's two inputs above, and the outcome of the fallback when the worker's table of retired memory
  is full (an exception, or whether the device is idle and the recordings that retain the memory are
  retired), after which a retired resource may still be bound to it or not.
\<close>

record free_env =
  fe_leased :: bool
  fe_retained :: bool
  fe_leaf :: "string option"
  fe_fallback :: "string + bool"
  fe_retained_after :: bool

datatype free_result = Freed | FreeKept | FreeFlushThrew string | FreeCallThrew string

definition capacity_exceeded :: "string + status_response \<Rightarrow> bool" where
  "capacity_exceeded response =
     (case response of
        Inl e \<Rightarrow> False
      | Inr r \<Rightarrow> \<not> sr_ok r \<and> sr_reason r = ''recording resource retired-memory capacity exceeded'')"

definition finish_free :: "bool \<Rightarrow> nat \<Rightarrow> string + status_response \<Rightarrow> icd_memory \<times> mock_memory \<Rightarrow> free_result \<times> icd_memory \<times> mock_memory" where
  "finish_free keep m response sm =
     (let (s, mm) = sm in
      case response of
        Inl e \<Rightarrow> (FreeCallThrew e, s, mm)
      | Inr r \<Rightarrow>
          if \<not> sr_ok r \<and> keep then (FreeKept, s, mm)
          else (Freed, s\<lparr>ic_tracker := snd (on_free m (ic_tracker s))\<rparr>, mm))"

definition free_memory ::
  "sweep_env \<Rightarrow> (nat \<Rightarrow> call_fate) \<Rightarrow> (nat \<Rightarrow> call_fate) \<Rightarrow> free_env \<Rightarrow> nat \<Rightarrow> icd_memory \<times> mock_memory \<Rightarrow>
   free_result \<times> icd_memory \<times> mock_memory" where
  "free_memory env link calls fe m sm =
     (if m = 0 then (FreeKept, sm)
      else case free_memory_flush env link (fe_leased fe) sm of
        (Threw e, s, mm) \<Rightarrow> (FreeFlushThrew e, s, mm)
      | (Refused, s, mm) \<Rightarrow> (FreeKept, s, mm)
      | (Shipped, s, mm) \<Rightarrow>
          let (response, mm1) = free_memory_call (calls 0) (fe_retained fe) (fe_leaf fe) m mm in
          if capacity_exceeded response
          then (case fe_fallback fe of
                  Inl e \<Rightarrow> (FreeCallThrew e, s, mm1)
                | Inr False \<Rightarrow> (FreeKept, s, mm1)
                | Inr True \<Rightarrow>
                    let (response, mm2) = free_memory_call (calls 1) (fe_retained_after fe) (fe_leaf fe) m mm1
                    in finish_free True m response (s, mm2))
          else finish_free (fe_leased fe) m response (s, mm1))"

section \<open>One call\<close>

lemma status_rt: "status_from_body (status_to_body r) = r"
  by (simp add: status_from_body_def status_to_body_def get_bool_def get_string_def json_find_obj_of)

lemma status_exact: "json_exact (status_to_body r)"
  by (simp add: status_to_body_def obj_of_eq)

lemma response_value_reply:
  "json_exact v \<Longrightarrow> response_value i (rpc_response \<lparr>rpc_op = op, rpc_request_id = i, rpc_status = st, rpc_body = b\<rparr> RpcOk (json_dump 0 v)) = Inr v"
  by (simp add: response_value_def rpc_response_def json_parse_dump)

lemma write_call:
  assumes fits: "request_fits srt kFrameMaxRanges req" and w: "\<forall>u\<in>set (wr_uploads req). writable mm (up_memory u)"
    and b: "uploads_fit (mock_view mm) (wr_uploads req)" and run: "write_memory_ranges fate i req mm = (r, mm')"
  shows "(\<exists>e. r = Inl e) \<and> (fate = AnswerLost \<or> mm' = mm \<and> (fate = Lost \<or> \<not> srt)) \<or>
    r = Inr \<lparr>sr_ok = True, sr_reason = ''ok''\<rparr> \<and> fate = Carried \<and> erase_bytes mm' = erase_bytes mm \<and>
    mock_view mm' = fold write_cell (zip (uploads_cells (wr_uploads req)) (wr_payload req)) (mock_view mm)"
proof (cases fate)
  case Carried
  have fits': "request_fits srt 512 req" using fits by (simp add: kFrameMaxRanges_def)
  have len: "length (wr_payload req) = length (uploads_cells (wr_uploads req))" using fits by (simp add: request_fits_def)
  obtain mm1 where mm1: "mock_write_memory_ranges req mm = (\<lparr>sr_ok = True, sr_reason = ''ok''\<rparr>, mm1)"
    "mock_view mm1 = fold write_cell (zip (uploads_cells (wr_uploads req)) (wr_payload req)) (mock_view mm)"
    using mock_write_ok [OF w b len] by blast
  have er: "erase_bytes mm1 = erase_bytes mm" using mock_write_erase [of req mm] mm1(1) by simp
  from write_wire_any [OF fits'] consider "write_from_wire (write_to_wire req) = Inr req"
    | e where "write_from_wire (write_to_wire req) = Inl e" "\<not> srt"
    using write_wire_rt [of req] fits' by (cases srt) auto
  then show ?thesis
  proof cases
    case 1
    then have "r = Inr \<lparr>sr_ok = True, sr_reason = ''ok''\<rparr> \<and> mm' = mm1"
      using run Carried mm1(1)
      by (simp add: write_memory_ranges_def serve_request_def write_op_handler_def response_value_reply status_exact status_rt)
    then show ?thesis using mm1(2) er Carried by simp
  next
    case 2
    then show ?thesis
      using run Carried by (auto simp: write_memory_ranges_def serve_request_def write_op_handler_def rpc_response_def
          response_value_def rpc_status_code_def)
  qed
qed (use run in \<open>auto simp: write_memory_ranges_def Let_def split: prod.splits\<close>)

section \<open>The mirror and the worker agree\<close>

definition alloc_linked :: "mock_memory \<Rightarrow> nat \<Rightarrow> alloc \<Rightarrow> bool" where
  "alloc_linked mm m a \<longleftrightarrow>
     (al_shadow a \<noteq> [] \<longrightarrow> al_host_visible a \<and> al_host_coherent a) \<and>
     (al_host_visible a \<and> al_host_coherent a \<longrightarrow> writable mm m \<and>
        mock_view mm m = Some (if al_shadow a = [] then replicate (al_size a) (CHR 0x00) else al_last_uploaded a))"

definition linked :: "tracker \<Rightarrow> mock_memory \<Rightarrow> bool" where
  "linked t mm \<longleftrightarrow> tracker_ok t \<and> (\<forall>m a. map_of t m = Some a \<longrightarrow> alloc_linked mm m a)"

lemma tracker_okI: "omap_ok t \<Longrightarrow> (\<And>m a. map_of t m = Some a \<Longrightarrow> m < 2 ^ 64 \<and> alloc_ok a) \<Longrightarrow> tracker_ok t"
  using omap_ok_distinct [of t] by (auto simp: tracker_ok_def)

lemma uploads_fit_cells:
  assumes "\<forall>u\<in>set us. \<forall>r\<in>set (up_ranges u). 0 < br_size r"
  shows "uploads_fit M us \<longleftrightarrow> (\<forall>(m, i)\<in>set (uploads_cells us). \<exists>b. M m = Some b \<and> i < length b)"
proof -
  have r: "range_fits M m r \<longleftrightarrow> (\<forall>(m, i)\<in>set (range_cells m r). \<exists>b. M m = Some b \<and> i < length b)" if "0 < br_size r" for m r
  proof
    assume "\<forall>(m, i)\<in>set (range_cells m r). \<exists>b. M m = Some b \<and> i < length b"
    moreover have "(m, br_end r - 1) \<in> set (range_cells m r)" using that by (auto simp: range_cells_def)
    ultimately obtain b where "M m = Some b" "br_end r - 1 < length b" by blast
    then show "range_fits M m r" using that by (auto simp: range_fits_def)
  qed (fastforce simp: range_fits_def range_cells_def)
  have "uploads_fit M us \<longleftrightarrow> (\<forall>u\<in>set us. \<forall>r\<in>set (up_ranges u). \<forall>(m, i)\<in>set (range_cells (up_memory u) r). \<exists>b. M m = Some b \<and> i < length b)"
    unfolding uploads_fit_def using assms r by (intro ball_cong) auto
  then show ?thesis by (fastforce simp: uploads_cells_def upload_cells_def)
qed

lemma upload_has_cell:
  assumes "uploads_ok srt us" "u \<in> set us"
  shows "\<exists>i. (up_memory u, i) \<in> set (uploads_cells us)"
proof -
  obtain r where r: "r \<in> set (up_ranges u)" "0 < br_size r"
    using assms by (cases "up_ranges u") (auto simp: uploads_ok_def ranges_ok_def)
  then have "(up_memory u, br_offset r) \<in> set (range_cells (up_memory u) r)" by (auto simp: range_cells_def)
  then show ?thesis using r assms(2) by (force simp: uploads_cells_def upload_cells_def)
qed

lemma write_cells_local: "M m = N m \<Longrightarrow> fold write_cell ws M m = fold write_cell ws N m"
proof (induction ws arbitrary: M N)
  case (Cons w ws)
  obtain m' j c where w: "w = ((m', j), c)" by (metis surj_pair)
  have "write_cell w M m = write_cell w N m" using Cons.prems by (auto simp: w)
  then show ?case using Cons.IH [of "write_cell w M" "write_cell w N"] by simp
qed simp

lemma write_cells_other: "(\<forall>i. (m, i) \<notin> fst ` set ws) \<Longrightarrow> fold write_cell ws M m = M m"
proof (induction ws arbitrary: M)
  case (Cons w ws)
  obtain m' j c where w: "w = ((m', j), c)" by (metis surj_pair)
  have "m' \<noteq> m" "\<forall>i. (m, i) \<notin> fst ` set ws" using Cons.prems by (auto simp: w)
  then show ?case using Cons.IH by (simp add: w)
qed simp

text \<open>A frame that carries bytes of the shadows.\<close>

definition frame_good :: "bool \<Rightarrow> tracker \<Rightarrow> dirty_snapshot \<Rightarrow> bool" where
  "frame_good srt t f \<longleftrightarrow>
     frame_fits srt kMaxMemoryUploadBytes kFrameMaxRanges f \<and> ds_payload f = map (shadow_at t) (snap_cells f) \<and>
     (\<forall>(m, i)\<in>set (snap_cells f). \<exists>b. shadows t m = Some b \<and> i < length b)"

lemma erase_mirror_lookup:
  assumes "erase_mirror t' = erase_mirror t" "map_of t' m = Some a'"
  shows "\<exists>a. map_of t m = Some a \<and> a' = a\<lparr>al_last_uploaded := al_last_uploaded a'\<rparr>"
proof -
  have e: "map_of (erase_mirror t) m = map_option (\<lambda>a. a\<lparr>al_last_uploaded := []\<rparr>) (map_of t m)" for t
    by (induction t) (auto simp: erase_mirror_def)
  obtain a where a: "map_of t m = Some a" "a\<lparr>al_last_uploaded := []\<rparr> = a'\<lparr>al_last_uploaded := []\<rparr>"
    using e [of t] e [of t'] assms by auto
  have "a\<lparr>al_last_uploaded := []\<rparr>\<lparr>al_last_uploaded := al_last_uploaded a'\<rparr> =
      a'\<lparr>al_last_uploaded := []\<rparr>\<lparr>al_last_uploaded := al_last_uploaded a'\<rparr>" by (simp only: a(2))
  then show ?thesis using a(1) by simp
qed

lemma erase_mirror_keys: "erase_mirror t' = erase_mirror t \<Longrightarrow> map fst t' = map fst t"
proof -
  have "map fst (erase_mirror t) = map fst t" for t by (simp add: erase_mirror_def comp_def case_prod_beta)
  then show "erase_mirror t' = erase_mirror t \<Longrightarrow> map fst t' = map fst t" by metis
qed

lemma frame_good_fits:
  assumes "frame_good srt t f" "tracker_ok t"
  shows "uploads_fit (mirror t) (ds_uploads f)" "length (ds_payload f) = length (snap_cells f)"
proof -
  have pos: "\<forall>u\<in>set (ds_uploads f). \<forall>r\<in>set (up_ranges u). 0 < br_size r"
    using assms(1) by (auto simp: frame_good_def frame_fits_def snap_ok_def uploads_ok_def ranges_ok_def)
  have "\<exists>b. mirror t m = Some b \<and> i < length b" if "(m, i) \<in> set (snap_cells f)" for m i
    using that assms(1) mirror_shadow_lengths [OF assms(2), of m] by (force simp: frame_good_def)
  then show "uploads_fit (mirror t) (ds_uploads f)" unfolding uploads_fit_cells [OF pos] by blast
  show "length (ds_payload f) = length (snap_cells f)" using assms(1) by (simp add: frame_good_def)
qed

lemma frame_good_writes:
  "frame_good srt t f \<Longrightarrow> snap_writes f = map (\<lambda>c. (c, shadow_at t c)) (snap_cells f)"
  by (simp add: frame_good_def snap_writes_def zip_map2 zip_same_conv_map)

text \<open>Committing such a frame moves mirror bytes to shadow bytes, so the invariant of the tracker stays.\<close>

lemma commit_good:
  assumes good: "frame_good srt t f" and ok: "tracker_ok t"
  shows "tracker_ok (commit f t)" "shadows (commit f t) = shadows t"
    "mirror (commit f t) = fold write_cell (snap_writes f) (mirror t)"
proof -
  note er = commit_erase [of f t]
  show m: "mirror (commit f t) = fold write_cell (snap_writes f) (mirror t)"
    using commit_view frame_good_fits [OF good ok] by blast
  have sh: "shadows (commit f t) k = shadows t k" for k
  proof (cases "map_of (commit f t) k")
    case None
    then have "map_of t k = None" using erase_mirror_keys [OF er] by (metis map_of_eq_None_iff list.set_map)
    then show ?thesis using None by (simp add: shadows_def)
  next
    case (Some a')
    then obtain a where a: "map_of t k = Some a" "a' = a\<lparr>al_last_uploaded := al_last_uploaded a'\<rparr>"
      using erase_mirror_lookup [OF er] by blast
    have "al_shadow a' = al_shadow a" by (subst a(2)) simp
    then show ?thesis using Some a(1) by (simp add: shadows_def)
  qed
  then show "shadows (commit f t) = shadows t" by blast
  show "tracker_ok (commit f t)"
  proof (rule tracker_okI)
    show "omap_ok (commit f t)" using ok erase_mirror_keys [OF er] by (simp add: tracker_ok_def omap_ok_def)
    fix k a' assume k: "map_of (commit f t) k = Some a'"
    obtain a where a: "map_of t k = Some a" "a' = a\<lparr>al_last_uploaded := al_last_uploaded a'\<rparr>"
      using erase_mirror_lookup [OF er k] by blast
    have aok: "alloc_ok a" using tracker_ok_lookup [OF ok a(1)] .
    have ws: "\<forall>((m, i), c)\<in>set (snap_writes f). c = shadow_at t (m, i)" by (auto simp: frame_good_writes [OF good])
    have mt: "mirror t k = Some (al_last_uploaded a)" by (simp add: mirror_def a)
    obtain b where b: "fold write_cell (snap_writes f) (mirror t) k = Some b" "length b = length (al_last_uploaded a)"
      "\<forall>i<length (al_last_uploaded a). b ! i =
         (if (k, i) \<in> fst ` set (snap_writes f) then shadow_at t (k, i) else al_last_uploaded a ! i)"
      using write_cells_nth [of "mirror t" k "al_last_uploaded a" "snap_writes f" "\<lambda>m i. shadow_at t (m, i)"] mt ws by auto
    have l: "al_last_uploaded a' = b" using b(1) k m by (simp add: mirror_def fun_eq_iff) (metis option.map(2) option.inject)
    have len: "length (al_last_uploaded a) = length (al_shadow a)" using aok by (simp add: alloc_ok_def)
    have "alloc_ok (a\<lparr>al_last_uploaded := b\<rparr>)" using aok b(2) by (simp add: alloc_ok_def)
    moreover have "k < 2 ^ 64" using ok map_of_SomeD [OF a(1)] by (auto simp: tracker_ok_def)
    ultimately show "k < 2 ^ 64 \<and> alloc_ok a'" by (subst a(2)) (simp add: l)
  qed
qed

text \<open>The cells in which shadow and mirror differ.\<close>

definition differs :: "tracker \<Rightarrow> nat \<Rightarrow> nat \<Rightarrow> bool" where
  "differs t m i \<longleftrightarrow> (\<exists>a. map_of t m = Some a \<and> i < length (al_shadow a) \<and> al_shadow a ! i \<noteq> al_last_uploaded a ! i)"

lemma commit_differs:
  assumes good: "frame_good srt t f" and ok: "tracker_ok t" and d: "differs (commit f t) m i"
  shows "differs t m i"
proof -
  obtain a' where a': "map_of (commit f t) m = Some a'" "i < length (al_shadow a')" "al_shadow a' ! i \<noteq> al_last_uploaded a' ! i"
    using d by (auto simp: differs_def)
  obtain a where a: "map_of t m = Some a" "a' = a\<lparr>al_last_uploaded := al_last_uploaded a'\<rparr>"
    using erase_mirror_lookup [OF commit_erase a'(1)] by blast
  have sh: "al_shadow a' = al_shadow a" by (subst a(2)) simp
  have len: "length (al_last_uploaded a) = length (al_shadow a)" using tracker_ok_lookup [OF ok a(1)] by (simp add: alloc_ok_def)
  have ws: "\<forall>((m, i), c)\<in>set (snap_writes f). c = shadow_at t (m, i)" by (auto simp: frame_good_writes [OF good])
  obtain b where b: "fold write_cell (snap_writes f) (mirror t) m = Some b"
    "\<forall>i<length (al_last_uploaded a). b ! i =
       (if (m, i) \<in> fst ` set (snap_writes f) then shadow_at t (m, i) else al_last_uploaded a ! i)"
    using write_cells_nth [of "mirror t" m "al_last_uploaded a" "snap_writes f" "\<lambda>m i. shadow_at t (m, i)"] ws a(1)
    by (auto simp: mirror_def)
  have "mirror (commit f t) m = Some (al_last_uploaded a')" by (simp add: mirror_def a'(1))
  then have "al_last_uploaded a' = b" using b(1) by (simp add: commit_good(3) [OF good ok])
  then have "al_shadow a ! i \<noteq> al_last_uploaded a ! i"
    using a'(2,3) b(2) len by (auto simp: sh shadow_at_def shadows_def a(1) split: if_splits)
  then show ?thesis using a(1) a'(2) sh by (auto simp: differs_def)
qed

lemma linked_view:
  assumes "linked t mm" "shadows t m = Some b" "i < length b"
  shows "writable mm m" "mock_view mm m = mirror t m"
proof -
  obtain a where a: "map_of t m = Some a" "al_shadow a = b" using assms(2) by (auto simp: shadows_def)
  have "al_shadow a \<noteq> []" using assms(3) a(2) by auto
  moreover have "alloc_linked mm m a" using assms(1) a(1) by (simp add: linked_def)
  ultimately show "writable mm m" "mock_view mm m = mirror t m"
    using a(1) by (auto simp: alloc_linked_def mirror_def)
qed

lemma frame_good_request:
  assumes good: "frame_good srt t f" and ok: "tracker_ok t"
  shows "request_fits srt kFrameMaxRanges (to_write_request f)"
proof -
  have us: "uploads_ok srt (ds_uploads f)" using good by (simp add: frame_good_def frame_fits_def snap_ok_def)
  have "m < 2 ^ 64" if "(m, i) \<in> set (snap_cells f)" for m i
    using that good ok by (fastforce simp: frame_good_def shadows_def tracker_ok_def dest!: map_of_SomeD)
  then have "up_memory u < 2 ^ 64" if "u \<in> set (ds_uploads f)" for u using upload_has_cell [OF us that] by blast
  then have "handles_ok (ds_uploads f)" by (simp add: handles_ok_def)
  then show ?thesis
    using good us
    by (simp add: request_fits_def to_write_request_def frame_good_def frame_fits_def snap_ok_def range_count_def)
qed

lemma frame_good_worker:
  assumes good: "frame_good srt t f" and ln: "linked t mm"
  shows "\<forall>u\<in>set (ds_uploads f). writable mm (up_memory u)" "uploads_fit (mock_view mm) (ds_uploads f)"
proof -
  have us: "uploads_ok srt (ds_uploads f)" using good by (simp add: frame_good_def frame_fits_def snap_ok_def)
  have cell: "writable mm m \<and> mock_view mm m = mirror t m" if "(m, i) \<in> set (snap_cells f)" for m i
    using that good linked_view [OF ln, of m _ i] by (fastforce simp: frame_good_def)
  have up: "writable mm (up_memory u) \<and> mock_view mm (up_memory u) = mirror t (up_memory u)" if "u \<in> set (ds_uploads f)" for u
    using upload_has_cell [OF us that] cell by blast
  then show "\<forall>u\<in>set (ds_uploads f). writable mm (up_memory u)" by blast
  have "uploads_fit (mirror t) (ds_uploads f)" using frame_good_fits(1) [OF good] ln by (simp add: linked_def)
  then show "uploads_fit (mock_view mm) (ds_uploads f)" using up by (simp add: uploads_fit_def range_fits_def)
qed

lemma commit_linked:
  assumes good: "frame_good srt t f" and ln: "linked t mm"
    and v: "mock_view mm' = fold write_cell (snap_writes f) (mock_view mm)" and er: "erase_bytes mm' = erase_bytes mm"
  shows "linked (commit f t) mm'"
proof -
  have ok: "tracker_ok t" using ln by (simp add: linked_def)
  note c = commit_good [OF good ok]
  have "alloc_linked mm' m a'" if m: "map_of (commit f t) m = Some a'" for m a'
  proof -
    obtain a where a: "map_of t m = Some a" "a' = a\<lparr>al_last_uploaded := al_last_uploaded a'\<rparr>"
      using erase_mirror_lookup [OF commit_erase m] by blast
    have same: "al_shadow a' = al_shadow a" "al_size a' = al_size a" "al_host_visible a' = al_host_visible a"
      "al_host_coherent a' = al_host_coherent a" by (subst a(2), simp)+
    have al: "alloc_linked mm m a" using ln a(1) by (simp add: linked_def)
    have wr: "writable mm' m = writable mm m"
      by (rule mock_write_writable [OF _ er]) (simp only: v write_cells_length)
    have view: "mock_view mm' m = (if al_shadow a = [] then mock_view mm m else Some (al_last_uploaded a'))"
      if hv: "al_host_visible a \<and> al_host_coherent a"
    proof (cases "al_shadow a = []")
      case True
      then have "\<forall>i. (m, i) \<notin> fst ` set (snap_writes f)"
        using good a(1) by (force simp: frame_good_writes [OF good] frame_good_def shadows_def)
      then show ?thesis using True by (simp add: v write_cells_other)
    next
      case False
      then have "mock_view mm m = mirror t m" using al hv a(1) by (simp add: alloc_linked_def mirror_def)
      then have "mock_view mm' m = mirror (commit f t) m" unfolding v c(3) by (rule write_cells_local)
      then show ?thesis using False m by (simp add: mirror_def)
    qed
    show ?thesis using al wr view same unfolding alloc_linked_def by auto
  qed
  then show ?thesis using c(1) by (simp add: linked_def)
qed

section \<open>Shipping keeps the two sides in agreement\<close>

lemma frame_good_commit: "frame_good srt t f \<Longrightarrow> tracker_ok t \<Longrightarrow> frame_good srt' t g \<Longrightarrow> frame_good srt' (commit f t) g"
  using commit_good(2) [of srt t f] by (simp add: frame_good_def shadow_at_def)

text \<open>
  The driver's side, whatever the worker and the connection do: the frames that were acknowledged are a
  prefix, the mirror has exactly these, and nothing else of the tracker changes.
\<close>

lemma ship_frames_tracker:
  assumes "\<forall>f\<in>set fs. frame_good srt t f" "tracker_ok t" "ship_frames link n fs (t, mm) = (r, t', mm')"
  shows "tracker_ok t' \<and> erase_mirror t' = erase_mirror t \<and> shadows t' = shadows t \<and>
    (\<forall>m i. differs t' m i \<longrightarrow> differs t m i) \<and>
    (r = Shipped \<longrightarrow> mirror t' = fold write_cell (concat (map snap_writes fs)) (mirror t))"
  using assms
proof (induction fs arbitrary: n t mm)
  case Nil
  then show ?case by simp
next
  case (Cons f fs)
  have good: "frame_good srt t f" using Cons.prems by simp
  obtain res mm1 where call: "write_memory_ranges (link n) (u32 n) (to_write_request f) mm = (res, mm1)" by force
  show ?case
  proof (cases "\<exists>st. res = Inr st \<and> sr_ok st")
    case True
    then have run: "ship_frames link (n + 1) fs (commit f t, mm1) = (r, t', mm')" using Cons.prems(3) call by auto
    have "\<forall>g\<in>set fs. frame_good srt (commit f t) g" using Cons.prems(1) frame_good_commit [OF good Cons.prems(2)] by simp
    from Cons.IH [OF this commit_good(1) [OF good Cons.prems(2)] run]
    show ?thesis
      using commit_good [OF good Cons.prems(2)] commit_erase [of f t] commit_differs [OF good Cons.prems(2)] by auto
  next
    case False
    then show ?thesis using Cons.prems(2,3) call by (cases res) auto
  qed
qed

text \<open>
  Both sides: while no answer is lost the worker has exactly what the mirror has. Ascending frames are
  never refused, and they are all shipped when the connection carries the calls.
\<close>

lemma ship_frames_linked:
  assumes "\<forall>f\<in>set fs. frame_good srt t f" "linked t mm" "ship_frames link n fs (t, mm) = (r, t', mm')"
  shows "((\<forall>k. link k \<noteq> AnswerLost) \<or> r = Shipped \<longrightarrow> linked t' mm') \<and> r \<noteq> Refused \<and> (srt \<longrightarrow> (\<forall>k. link k = Carried) \<longrightarrow> r = Shipped)"
  using assms
proof (induction fs arbitrary: n t mm)
  case Nil
  then show ?case by simp
next
  case (Cons f fs)
  have good: "frame_good srt t f" and ok: "tracker_ok t" using Cons.prems by (auto simp: linked_def)
  obtain res mm1 where call: "write_memory_ranges (link n) (u32 n) (to_write_request f) mm = (res, mm1)" by force
  have "(\<exists>e. res = Inl e) \<and> (link n = AnswerLost \<or> mm1 = mm \<and> (link n = Lost \<or> \<not> srt)) \<or>
      res = Inr \<lparr>sr_ok = True, sr_reason = ''ok''\<rparr> \<and> link n = Carried \<and> erase_bytes mm1 = erase_bytes mm \<and>
      mock_view mm1 = fold write_cell (snap_writes f) (mock_view mm)"
    using write_call [OF frame_good_request [OF good ok] _ _ call] frame_good_worker [OF good Cons.prems(2)]
    by (simp add: to_write_request_def snap_writes_def)
  then consider (lost) e where "res = Inl e" "link n = AnswerLost \<or> mm1 = mm \<and> (link n = Lost \<or> \<not> srt)"
    | (acked) "res = Inr \<lparr>sr_ok = True, sr_reason = ''ok''\<rparr>" "erase_bytes mm1 = erase_bytes mm"
      "mock_view mm1 = fold write_cell (snap_writes f) (mock_view mm)"
    by blast
  then show ?case
  proof cases
    case lost
    have "r = Threw e" "t' = t" "mm' = mm1" using Cons.prems(3) call lost(1) by auto
    then show ?thesis using Cons.prems(2) lost(2) by (metis call_fate.distinct ship_result.distinct)
  next
    case acked
    have run: "ship_frames link (n + 1) fs (commit f t, mm1) = (r, t', mm')"
      using Cons.prems(3) call acked(1) by simp
    have "\<forall>g\<in>set fs. frame_good srt (commit f t) g" using Cons.prems(1) frame_good_commit [OF good ok] by simp
    from Cons.IH [OF this commit_linked [OF good Cons.prems(2) acked(3,2)] run] show ?thesis .
  qed
qed

lemma concat_payloads:
  assumes "concat (map ds_payload fs) = map g (concat (map snap_cells fs))"
    and "\<forall>f\<in>set fs. length (ds_payload f) = length (snap_cells f)"
  shows "\<forall>f\<in>set fs. ds_payload f = map g (snap_cells f)"
  using assms by (induction fs) auto

text \<open>What a snapshot must be for its frames to be good.\<close>

definition snap_good :: "bool \<Rightarrow> tracker \<Rightarrow> dirty_snapshot \<Rightarrow> bool" where
  "snap_good srt t snap \<longleftrightarrow>
     snap_ok srt snap \<and> ds_payload snap = map (shadow_at t) (snap_cells snap) \<and>
     (\<forall>(m, i)\<in>set (snap_cells snap). \<exists>b. shadows t m = Some b \<and> i < length b)"

lemma split_good:
  assumes "snap_good srt t snap"
  defines "fs \<equiv> split_for_upload snap kMaxMemoryUploadBytes kFrameMaxRanges"
  shows "\<forall>f\<in>set fs. frame_good srt t f" "concat (map snap_writes fs) = snap_writes snap"
proof -
  have ok: "snap_ok srt snap" using assms(1) by (simp add: snap_good_def)
  have cap: "0 < kMaxMemoryUploadBytes" "0 < kFrameMaxRanges" by (simp_all add: kMaxMemoryUploadBytes_def kFrameMaxRanges_def)
  note sp = split_for_upload_correct [OF ok cap, folded fs_def]
  have len: "\<forall>f\<in>set fs. length (ds_payload f) = length (snap_cells f)"
    using sp(1) by (simp add: frame_fits_def snap_ok_def)
  have pay: "\<forall>f\<in>set fs. ds_payload f = map (shadow_at t) (snap_cells f)"
    using concat_payloads [OF _ len, of "shadow_at t"] sp(2,3) assms(1) by (simp add: snap_good_def)
  have "\<exists>b. shadows t m = Some b \<and> i < length b" if "f \<in> set fs" "(m, i) \<in> set (snap_cells f)" for f m i
  proof -
    have "(m, i) \<in> set (concat (map snap_cells fs))" using that by auto
    then show ?thesis using assms(1) unfolding sp(2) snap_good_def by blast
  qed
  then show "\<forall>f\<in>set fs. frame_good srt t f" using sp(1) pay by (fastforce simp: frame_good_def)
  have "concat (map snap_writes gs) = map (\<lambda>c. (c, shadow_at t c)) (concat (map snap_cells gs))"
    if "set gs \<subseteq> set fs" for gs
    using that pay by (induction gs) (auto simp: snap_writes_def zip_map2 zip_same_conv_map)
  from this [of fs] show "concat (map snap_writes fs) = snap_writes snap"
    using assms(1) by (simp add: sp(2) snap_good_def snap_writes_def zip_map2 zip_same_conv_map)
qed

lemma ship_snapshot_tracker:
  assumes "snap_good srt t snap" "tracker_ok t" "ship_snapshot link snap (t, mm) = (r, t', mm')"
  shows "tracker_ok t' \<and> erase_mirror t' = erase_mirror t \<and> shadows t' = shadows t \<and>
    (\<forall>m i. differs t' m i \<longrightarrow> differs t m i) \<and>
    (r = Shipped \<longrightarrow> mirror t' = fold write_cell (snap_writes snap) (mirror t))"
  using ship_frames_tracker [OF split_good(1) [OF assms(1)] assms(2)] assms(3) split_good(2) [OF assms(1)]
  unfolding ship_snapshot_def by metis

lemma ship_snapshot_linked:
  assumes "snap_good srt t snap" "linked t mm" "ship_snapshot link snap (t, mm) = (r, t', mm')"
  shows "((\<forall>k. link k \<noteq> AnswerLost) \<or> r = Shipped \<longrightarrow> linked t' mm') \<and> r \<noteq> Refused \<and> (srt \<longrightarrow> (\<forall>k. link k = Carried) \<longrightarrow> r = Shipped)"
  using ship_frames_linked [OF split_good(1) [OF assms(1)] assms(2)] assms(3) unfolding ship_snapshot_def by blast

lemma sweep_good:
  assumes "tracker_ok t" "filter_paged flt" "snapshot_pending flt t = (t', snap, io)"
  shows "snap_good True t' snap"
proof -
  have sh: "shadows t' = shadows t" using sweep_tracker_ok(2) [OF assms(1,3)] .
  have "\<exists>b. shadows t m = Some b \<and> i < length b" if c: "(m, i) \<in> set (snap_cells snap)" for m i
  proof -
    obtain a where a: "(m, a) \<in> set t" "covered (sweep_ranges flt m a) i"
      using c unfolding snapshot_pending_eq(2) [OF assms(3)] mem_uploads_of by blast
    have aok: "alloc_ok a" using assms(1) a(1) by (auto simp: tracker_ok_def)
    have "i < length (al_shadow a)"
      using a(2) sweep_ranges_bounds(1) [OF aok, of flt m] unfolding covered_def by fastforce
    then show ?thesis using a(1) shadows_mem [OF assms(1)] by blast
  qed
  then show ?thesis
    using sweep_snap_ok(1) [OF assms] sweep_payload [OF assms(1,3)] sh
    by (auto simp: snap_good_def shadow_at_def)
qed

section \<open>The explicit flush\<close>

lemma flush_extent_mapped:
  "flush_extent t r = Inr iv \<Longrightarrow> \<exists>a. map_of t (mr_memory r) = Some a \<and> al_is_mapped a"
  by (auto simp: flush_extent_def Let_def split: option.splits if_splits)

lemma flush_covers_mapped:
  assumes "flush_covers t rs cover = Inr cover'" "distinct (map fst cover)"
    and "\<forall>k\<in>fst ` set cover. \<exists>a. map_of t k = Some a \<and> al_is_mapped a"
  shows "distinct (map fst cover') \<and> (\<forall>k\<in>fst ` set cover'. \<exists>a. map_of t k = Some a \<and> al_is_mapped a)"
  using assms
proof (induction t rs cover rule: flush_covers.induct)
  case (2 t r rs cover)
  obtain iv where iv: "flush_extent t r = Inr iv" using "2.prems"(1) by (cases "flush_extent t r") auto
  have d: "distinct (map fst kvs) \<Longrightarrow> distinct (map fst (assoc_set k v kvs))" for k :: nat and v :: "brange list" and kvs
    using keys_assoc_set [of k v kvs] by (induction k v kvs rule: assoc_set.induct) (auto simp: keys_assoc_set)
  show ?case
    using "2.IH" [OF _ _ d] "2.prems" iv flush_extent_mapped [OF iv] by (auto simp: keys_assoc_set)
qed simp

lemma add_upload_good:
  assumes good: "snap_good False t snap" and a: "map_of t m = Some a" "alloc_ok a" "al_is_mapped a"
    and fresh: "m \<notin> up_memory ` set (ds_uploads snap)"
  shows "snap_good False t (add_upload m (collect_dirty a cover (ds_payload snap)) snap)"
proof -
  obtain rs p where rp: "collect_dirty a cover (ds_payload snap) = (rs, p)" by force
  note cd = collect_dirty_spec [OF rp]
  have len: "length (al_shadow a) = al_size a" "al_size a < 2 ^ 64" using a(2,3) by (auto simp: alloc_ok_def)
  have p: "p = ds_payload snap @ map (shadow_at t) (upload_cells \<lparr>up_memory = m, up_ranges = rs\<rparr>)"
    using cd(1,2) slices_cells [of rs "al_shadow a" m] len a(1)
    by (auto simp: upload_cells_def shadow_at_def shadows_def range_cells_def)
  have ok: "ranges_ok False rs" using cd(2) len(2) by (fastforce simp: ranges_ok_def)
  have b: "\<exists>b. shadows t k = Some b \<and> i < length b" if "(k, i) \<in> set (upload_cells \<lparr>up_memory = m, up_ranges = rs\<rparr>)" for k i
    using that cd(2) len(1) a(1) by (fastforce simp: upload_cells_def range_cells_def shadows_def)
  show ?thesis
  proof (cases "rs = []")
    case True
    then show ?thesis unfolding rp using good p by (simp add: add_upload_def snap_good_def snap_ok_def upload_cells_def)
  next
    case False
    then show ?thesis
      unfolding rp using good p ok fresh b by (auto simp: add_upload_def snap_good_def snap_ok_def uploads_ok_def)
  qed
qed

lemma snapshot_explicit_good:
  assumes ok: "tracker_ok t" and run: "snapshot_explicit rs t = Inr snap"
  shows "snap_good False t snap"
proof -
  define add where "add = (\<lambda>(mem, ivs) snap. case map_of t mem of None \<Rightarrow> snap
      | Some a \<Rightarrow> add_upload mem (collect_dirty a (merge_cover ivs) (ds_payload snap)) snap)"
  obtain cover where c: "flush_covers t rs [] = Inr cover" "snap = fold add cover empty_snapshot"
    using run by (cases "flush_covers t rs []") (auto simp: snapshot_explicit_def add_def)
  have "snap_good False t (fold add cs s)"
    if "distinct (map fst cs)" "\<forall>k\<in>fst ` set cs. \<exists>a. map_of t k = Some a \<and> al_is_mapped a" "snap_good False t s"
      "fst ` set cs \<inter> up_memory ` set (ds_uploads s) = {}" for cs s
    using that
  proof (induction cs arbitrary: s)
    case (Cons x cs)
    obtain m ivs where x: "x = (m, ivs)" by force
    obtain a where a: "map_of t m = Some a" "al_is_mapped a" using Cons.prems(2) by (auto simp: x)
    define s1 where "s1 = add x s"
    have s1: "s1 = add_upload m (collect_dirty a (merge_cover ivs) (ds_payload s)) s" by (simp add: s1_def add_def x a(1))
    have "snap_good False t s1"
      unfolding s1 using Cons.prems(3,4) a tracker_ok_lookup [OF ok a(1)] by (intro add_upload_good) (auto simp: x)
    moreover have "fst ` set cs \<inter> up_memory ` set (ds_uploads s1) = {}"
      using Cons.prems(1,4) by (auto simp: s1 add_upload_def x)
    ultimately show ?case using Cons.IH [of s1] Cons.prems(1,2) by (simp add: s1_def)
  qed simp
  moreover have "snap_good False t empty_snapshot" by (simp add: snap_good_def snap_ok_def uploads_ok_def)
  ultimately show ?thesis
    using flush_covers_mapped [OF c(1)] by (simp add: c(2))
qed

end
