(* ===== verification/Memory_System.thy ===== *)
theory Memory_System
  imports Memory_Link
begin

unbundle bit_operations_syntax

text \<open>
  Application, driver, worker and kernel as one transition system: allocation, free with the upload
  before it, mapping, writes of the application through its pointer, submits, explicit flushes and
  downloads, in any order and with a connection and a page filter that may fail at any call. The
  worker's memory is changed by uploads only, so writes of the GPU itself are outside the system.
\<close>

section \<open>The whole system\<close>

text \<open>
  Beside the driver's state and the worker's memory the system has what the kernel knows, the cells
  written since the last reset of the soft-dirty bits; and two facts of the past that no component
  records: whether the connection has lost an answer of the worker, after which the driver cannot know
  what the worker did, and whether a free has swallowed an exception of the upload before it. (Over one
  connection a lost answer is final: the answers that still come are one call late, and the client
  refuses each by its request id.)
\<close>

record mem_system =
  ms_icd :: icd_memory
  ms_worker :: mock_memory
  ms_touched :: "(nat \<times> nat) set"
  ms_answer_lost :: bool
  ms_swallowed :: bool

abbreviation ms_tracker :: "mem_system \<Rightarrow> tracker" where
  "ms_tracker s \<equiv> ic_tracker (ms_icd s)"

definition set_tracker :: "tracker \<Rightarrow> mem_system \<Rightarrow> mem_system" where
  "set_tracker t s = s\<lparr>ms_icd := (ms_icd s)\<lparr>ic_tracker := t\<rparr>\<rparr>"

text \<open>
  The soft-dirty contract of the kernel: after the reset, if there is one, every cell written since
  is in a page that a successful read reports; the ranges are runs of pages.
\<close>

definition touched_after :: "sweep_env \<Rightarrow> mem_system \<Rightarrow> (nat \<times> nat) set" where
  "touched_after env s = (if resets env (try_softdirty env (ms_icd s)) \<and> se_reset env then {} else ms_touched s)"

definition kernel_honest :: "sweep_env \<Rightarrow> mem_system \<Rightarrow> bool" where
  "kernel_honest env s \<longleftrightarrow>
     filter_paged (Some (se_read env)) \<and>
     (\<forall>m n rs i. se_read env m n = Some rs \<longrightarrow> i < n \<longrightarrow> (m, i) \<in> touched_after env s \<longrightarrow> covered rs i)"

definition host_flags :: "nat \<Rightarrow> bool \<times> bool" where
  "host_flags flags = (flags AND kMemoryPropertyHostVisible \<noteq> 0, flags AND kMemoryPropertyHostCoherent \<noteq> 0)"

definition loses_answer :: "(nat \<Rightarrow> call_fate) \<Rightarrow> bool" where
  "loses_answer link \<longleftrightarrow> (\<exists>n. link n = AnswerLost)"

definition worker_allocate :: "nat \<Rightarrow> memory_object \<Rightarrow> mock_memory \<Rightarrow> mock_memory" where
  "worker_allocate m mo mm = mm\<lparr>mm_objects := omap_put m mo (mm_objects mm)\<rparr>"

inductive mem_step :: "mem_system \<Rightarrow> mem_system \<Rightarrow> bool" where
  allocate: "mem_step s (set_tracker (on_allocate m bytes ty (fst (host_flags flags)) (snd (host_flags flags)) (ms_tracker s))
      (s\<lparr>ms_worker := worker_allocate m
         \<lparr>mo_device = dev, mo_size = bytes, mo_type_index = ty, mo_property_flags = flags, mo_allocate_flags = af, mo_bytes = []\<rparr>
         (ms_worker s)\<rparr>))"
    if "m < 2 ^ 64" "0 < bytes" "bytes < 2 ^ 64" "map_of (ms_tracker s) m = None" "m \<notin> set (mm_retired (ms_worker s))"
| allocate_unanswered: "mem_step s (s\<lparr>ms_worker := worker_allocate m
         \<lparr>mo_device = dev, mo_size = bytes, mo_type_index = ty, mo_property_flags = flags, mo_allocate_flags = af, mo_bytes = []\<rparr>
         (ms_worker s), ms_answer_lost := True\<rparr>)"
| free: "mem_step s \<lparr>ms_icd = i, ms_worker = mm, ms_touched = (if fe_leased fe then touched_after env s else ms_touched s),
      ms_answer_lost = (ms_answer_lost s \<or> loses_answer link \<or> loses_answer calls),
      ms_swallowed = (ms_swallowed s \<or> (\<exists>e. r = FreeFlushThrew e))\<rparr>"
    if "m \<noteq> 0" "kernel_honest env s" "0 < se_every env" "free_memory env link calls fe m (ms_icd s, ms_worker s) = (r, i, mm)"
| map: "mem_step s (set_tracker (snd (on_map m offset bytes (ms_tracker s))) s)"
| unmap: "mem_step s (set_tracker (snd (on_unmap m (ms_tracker s))) s)"
| app_write: "mem_step s (set_tracker (app_write m offset bytes (ms_tracker s))
      (s\<lparr>ms_touched := ms_touched s \<union> Pair m ` {offset..<offset + length bytes}\<rparr>))"
| submit: "mem_step s \<lparr>ms_icd = i, ms_worker = mm, ms_touched = touched_after env s,
      ms_answer_lost = (ms_answer_lost s \<or> loses_answer link), ms_swallowed = ms_swallowed s\<rparr>"
    if "kernel_honest env s" "0 < se_every env" "submit_flush env link (ms_icd s, ms_worker s) = (r, i, mm)"
| flush: "mem_step s (s\<lparr>ms_icd := i, ms_worker := mm, ms_answer_lost := ms_answer_lost s \<or> loses_answer link\<rparr>)"
    if "flush_mapped_memory_ranges link rs (ms_icd s, ms_worker s) = (r, i, mm)"
| download: "mem_step s (set_tracker t (s\<lparr>ms_touched := ms_touched s \<union> set ready \<times> UNIV\<rparr>))"
    if "download_readback_locked ready (ms_tracker s) (ms_worker s) = (t, ready')"

definition initial_system :: mem_system where
  "initial_system =
     \<lparr>ms_icd = \<lparr>ic_tracker = [], ic_softdirty_tried = False, ic_softdirty_on = False, ic_sweep_counter = 0\<rparr>,
      ms_worker = \<lparr>mm_objects = [], mm_retired = []\<rparr>, ms_touched = {}, ms_answer_lost = False, ms_swallowed = False\<rparr>"

inductive mem_reachable :: "mem_system \<Rightarrow> bool" where
  start: "mem_reachable initial_system"
| step: "mem_reachable s \<Longrightarrow> mem_step s s' \<Longrightarrow> mem_reachable s'"

section \<open>The invariant\<close>

definition filter_inv :: "mem_system \<Rightarrow> bool" where
  "filter_inv s \<longleftrightarrow>
     (ic_softdirty_on (ms_icd s) \<longrightarrow>
       (\<forall>m a i. map_of (ms_tracker s) m = Some a \<longrightarrow> al_baseline_done a \<longrightarrow> differs (ms_tracker s) m i \<longrightarrow> (m, i) \<in> ms_touched s))"

text \<open>
  The table of the driver is always well-formed. While no answer was lost the mirror is the worker's
  memory; while no free swallowed an exception the sweeps find every byte that waits.
\<close>

definition system_ok :: "mem_system \<Rightarrow> bool" where
  "system_ok s \<longleftrightarrow>
     tracker_ok (ms_tracker s) \<and>
     (\<not> ms_answer_lost s \<longrightarrow> linked (ms_tracker s) (ms_worker s)) \<and>
     (\<not> ms_swallowed s \<longrightarrow> skips_clean (ms_tracker s) \<and> filter_inv s) \<and>
     (\<not> ic_softdirty_tried (ms_icd s) \<longrightarrow> \<not> ic_softdirty_on (ms_icd s) \<and> ic_sweep_counter (ms_icd s) = 0)"

lemma system_okI:
  assumes "tracker_ok (ms_tracker s)" "\<not> ms_answer_lost s \<Longrightarrow> linked (ms_tracker s) (ms_worker s)"
    and "\<not> ms_swallowed s \<Longrightarrow> skips_clean (ms_tracker s)" "\<not> ms_swallowed s \<Longrightarrow> filter_inv s"
    and "\<not> ic_softdirty_tried (ms_icd s) \<Longrightarrow> \<not> ic_softdirty_on (ms_icd s) \<and> ic_sweep_counter (ms_icd s) = 0"
  shows "system_ok s"
  using assms by (simp add: system_ok_def)

lemma set_tracker_simps [simp]:
  "ms_tracker (set_tracker t s) = t" "ms_worker (set_tracker t s) = ms_worker s" "ms_touched (set_tracker t s) = ms_touched s"
  "ms_answer_lost (set_tracker t s) = ms_answer_lost s" "ms_swallowed (set_tracker t s) = ms_swallowed s"
  "ic_softdirty_on (ms_icd (set_tracker t s)) = ic_softdirty_on (ms_icd s)"
  "ic_softdirty_tried (ms_icd (set_tracker t s)) = ic_softdirty_tried (ms_icd s)"
  "ic_sweep_counter (ms_icd (set_tracker t s)) = ic_sweep_counter (ms_icd s)"
  by (simp_all add: set_tracker_def)

lemma set_tracker_id [simp]: "set_tracker (ms_tracker s) s = s"
  by (simp add: set_tracker_def)

lemma host_flags_both:
  "host_flags flags = (True, True) \<Longrightarrow>
     flags AND (kMemoryPropertyHostVisible OR kMemoryPropertyHostCoherent) = (kMemoryPropertyHostVisible OR kMemoryPropertyHostCoherent)"
proof -
  assume "host_flags flags = (True, True)"
  then have b: "bit flags 1" "bit flags 2"
    using and_exp_eq_0_iff_not_bit [of flags 1] and_exp_eq_0_iff_not_bit [of flags 2]
    by (simp_all add: host_flags_def kMemoryPropertyHostVisible_def kMemoryPropertyHostCoherent_def)
  have e: "kMemoryPropertyHostVisible = 2 ^ 1" "kMemoryPropertyHostCoherent = 2 ^ 2"
    by (simp_all add: kMemoryPropertyHostVisible_def kMemoryPropertyHostCoherent_def)
  show ?thesis
    unfolding e by (rule bit_eqI, simp only: bit_and_iff bit_or_iff bit_exp_iff) (use b in \<open>auto\<close>)
qed

text \<open>A change of one allocation, given what it does to that allocation.\<close>

lemma system_ok_at:
  assumes s: "system_ok s" and f: "\<And>a. map_of (ms_tracker s) m = Some a \<Longrightarrow> alloc_ok a \<Longrightarrow>
      alloc_ok (f a) \<and> (alloc_linked (ms_worker s) m a \<longrightarrow> alloc_linked (ms_worker s) m (f a)) \<and>
      (al_candidate (f a) \<or> \<not> al_candidate a \<and> al_shadow (f a) = al_shadow a \<and> al_last_uploaded (f a) = al_last_uploaded a) \<and>
      (al_baseline_done (f a) \<longrightarrow> al_baseline_done a) \<and>
      (\<forall>i<length (al_shadow (f a)). al_shadow (f a) ! i \<noteq> al_last_uploaded (f a) ! i \<longrightarrow>
         (i < length (al_shadow a) \<and> al_shadow a ! i \<noteq> al_last_uploaded a ! i) \<or> (m, i) \<in> T)"
  shows "system_ok (set_tracker (omap_at m f (ms_tracker s)) (s\<lparr>ms_touched := ms_touched s \<union> T\<rparr>))"
proof -
  let ?t = "ms_tracker s"
  have ok: "tracker_ok ?t" using s by (simp add: system_ok_def)
  note look = tracker_ok_lookup [OF ok]
  have ok': "tracker_ok (omap_at m f ?t)" using ok by (rule tracker_ok_at) (use f in blast)
  have "linked (omap_at m f ?t) (ms_worker s)" if "\<not> ms_answer_lost s"
  proof -
    have "\<And>k a. map_of ?t k = Some a \<Longrightarrow> alloc_linked (ms_worker s) k a" using s that by (auto simp: system_ok_def linked_def)
    then show ?thesis using ok' f look by (auto simp: linked_def map_of_omap_at split: if_splits)
  qed
  moreover have "skips_clean (omap_at m f ?t)" if "\<not> ms_swallowed s"
  proof -
    have "\<And>k a. map_of ?t k = Some a \<Longrightarrow> \<not> al_candidate a \<Longrightarrow> al_shadow a = al_last_uploaded a"
      using s that by (auto simp: system_ok_def skips_clean_def)
    then show ?thesis using f look by (fastforce simp: skips_clean_def map_of_omap_at split: if_splits)
  qed
  moreover have "(k, i) \<in> ms_touched s \<union> T"
    if sw: "\<not> ms_swallowed s" and on: "ic_softdirty_on (ms_icd s)" and k: "map_of (omap_at m f ?t) k = Some a'"
      "al_baseline_done a'" "differs (omap_at m f ?t) k i" for k a' i
  proof (cases "k = m")
    case True
    then obtain a where a: "map_of ?t m = Some a" "a' = f a" using k(1) by (auto simp: map_of_omap_at)
    note fa = f [OF a(1) look [OF a(1)]]
    have "i < length (al_shadow (f a))" "al_shadow (f a) ! i \<noteq> al_last_uploaded (f a) ! i"
      using k(3) True a(1) by (auto simp: differs_def map_of_omap_at)
    then have "differs ?t m i \<or> (m, i) \<in> T" using fa a(1) by (auto simp: differs_def)
    moreover have "al_baseline_done a" using fa k(2) a(2) by blast
    ultimately show ?thesis using s on sw a(1) True by (auto simp: system_ok_def filter_inv_def)
  next
    case False
    then show ?thesis using s on sw k by (auto simp: system_ok_def filter_inv_def differs_def map_of_omap_at)
  qed
  ultimately show ?thesis using s ok' by (intro system_okI) (auto simp: system_ok_def filter_inv_def)
qed

lemma system_ok_at_same:
  assumes s: "system_ok s" and f: "\<And>a. map_of (ms_tracker s) m = Some a \<Longrightarrow> alloc_ok a \<Longrightarrow>
      alloc_ok (f a) \<and> (alloc_linked (ms_worker s) m a \<longrightarrow> alloc_linked (ms_worker s) m (f a)) \<and>
      (al_candidate (f a) \<or> \<not> al_candidate a \<and> al_shadow (f a) = al_shadow a \<and> al_last_uploaded (f a) = al_last_uploaded a) \<and>
      (al_baseline_done (f a) \<longrightarrow> al_baseline_done a) \<and>
      (\<forall>i<length (al_shadow (f a)). al_shadow (f a) ! i \<noteq> al_last_uploaded (f a) ! i \<longrightarrow>
         i < length (al_shadow a) \<and> al_shadow a ! i \<noteq> al_last_uploaded a ! i)"
  shows "system_ok (set_tracker (omap_at m f (ms_tracker s)) s)"
  using system_ok_at [OF s, of m f "{}"] f by simp

lemma on_map_system:
  assumes s: "system_ok s"
  shows "system_ok (set_tracker (snd (on_map m offset bytes (ms_tracker s))) s)"
proof -
  consider "snd (on_map m offset bytes (ms_tracker s)) = ms_tracker s"
    | a n where "map_of (ms_tracker s) m = Some a" "map_extent a offset bytes = Inr n"
      "snd (on_map m offset bytes (ms_tracker s)) = omap_at m (\<lambda>a. (ensure_sized a)\<lparr>al_is_mapped := True,
         al_mapped_offset := offset, al_mapped_size := n, al_candidate := True\<rparr>) (ms_tracker s)"
    by (cases "map_of (ms_tracker s) m"; cases "map_extent (the (map_of (ms_tracker s) m)) offset bytes") (auto simp: on_map_def)
  then show ?thesis
  proof cases
    case 2
    note x = map_extent_ok [OF 2(2)]
    show ?thesis
      unfolding 2(3) by (rule system_ok_at_same [OF s])
        (use x 2(1) in \<open>auto simp: alloc_ok_def ensure_sized_def alloc_linked_def\<close>)
  qed (use s in simp)
qed

lemma on_unmap_system:
  assumes s: "system_ok s"
  shows "system_ok (set_tracker (snd (on_unmap m (ms_tracker s))) s)"
proof -
  have "system_ok (set_tracker (omap_at m (\<lambda>a. a\<lparr>al_is_mapped := False\<rparr>) (ms_tracker s)) s)"
    by (rule system_ok_at_same [OF s]) (simp add: alloc_ok_def alloc_linked_def)
  then show ?thesis using s by (simp add: on_unmap_def split: option.split)
qed

lemma nth_overwrite:
  assumes "off + length d \<le> length b" "i < length b"
  shows "overwrite b off d ! i = (if off \<le> i \<and> i < off + length d then d ! (i - off) else b ! i)"
  using assms by (auto simp: overwrite_def nth_append min_def)

lemma app_write_system:
  assumes s: "system_ok s"
  shows "system_ok (set_tracker (app_write m offset bytes (ms_tracker s))
    (s\<lparr>ms_touched := ms_touched s \<union> Pair m ` {offset..<offset + length bytes}\<rparr>))"
  unfolding app_write_def
proof (rule system_ok_at [OF s])
  fix a assume a: "alloc_ok a"
  let ?w = "overwrite (al_shadow a) offset bytes"
  let ?f = "if al_is_mapped a \<and> al_mapped_offset a \<le> offset \<and> offset + length bytes \<le> al_mapped_offset a + al_mapped_size a
    then a\<lparr>al_shadow := ?w\<rparr> else a"
  have w: "length ?w = length (al_shadow a) \<and> ?w \<noteq> [] \<and> al_shadow a \<noteq> [] \<and> offset + length bytes \<le> length (al_shadow a) \<and> al_candidate a"
    if "al_is_mapped a" "offset + length bytes \<le> al_mapped_offset a + al_mapped_size a"
  proof -
    have "al_shadow a \<noteq> []" "offset + length bytes \<le> length (al_shadow a)" "al_candidate a"
      using that a by (auto simp: alloc_ok_def)
    moreover from this have "length ?w = length (al_shadow a)" by simp
    ultimately show ?thesis by (metis length_0_conv)
  qed
  show "alloc_ok ?f \<and> (alloc_linked (ms_worker s) m a \<longrightarrow> alloc_linked (ms_worker s) m ?f) \<and>
      (al_candidate ?f \<or> \<not> al_candidate a \<and> al_shadow ?f = al_shadow a \<and> al_last_uploaded ?f = al_last_uploaded a) \<and> (al_baseline_done ?f \<longrightarrow> al_baseline_done a) \<and>
      (\<forall>i<length (al_shadow ?f). al_shadow ?f ! i \<noteq> al_last_uploaded ?f ! i \<longrightarrow>
        i < length (al_shadow a) \<and> al_shadow a ! i \<noteq> al_last_uploaded a ! i \<or> (m, i) \<in> Pair m ` {offset..<offset + length bytes})"
  proof (cases "al_is_mapped a \<and> al_mapped_offset a \<le> offset \<and> offset + length bytes \<le> al_mapped_offset a + al_mapped_size a")
    case True
    then have w': "length ?w = length (al_shadow a)" "?w \<noteq> []" "al_shadow a \<noteq> []" "offset + length bytes \<le> length (al_shadow a)" "al_candidate a"
      using w by blast+
    have "alloc_ok (a\<lparr>al_shadow := ?w\<rparr>)" using a w' by (simp add: alloc_ok_def)
    moreover have "alloc_linked (ms_worker s) m a \<longrightarrow> alloc_linked (ms_worker s) m (a\<lparr>al_shadow := ?w\<rparr>)" using w' by (simp add: alloc_linked_def)
    moreover have "al_shadow a ! i \<noteq> al_last_uploaded a ! i \<or> (m, i) \<in> Pair m ` {offset..<offset + length bytes}"
      if "i < length (al_shadow a)" "?w ! i \<noteq> al_last_uploaded a ! i" for i
      using that nth_overwrite [OF w'(4) that(1)] by (auto split: if_splits)
    ultimately show ?thesis using True w'(1,5) by simp
  qed (use a in auto)
qed

text \<open>Memory that comes and goes on both sides.\<close>

lemma linked_other:
  assumes "alloc_linked mm m a" "map_of (mm_objects mm') m = map_of (mm_objects mm) m"
    "m \<in> set (mm_retired mm') \<longleftrightarrow> m \<in> set (mm_retired mm)"
  shows "alloc_linked mm' m a"
  using assms by (simp add: alloc_linked_def writable_def mock_view_def)

lemma allocate_system:
  assumes s: "system_ok s" and m: "m < 2 ^ 64" "0 < bytes" "bytes < 2 ^ 64" "map_of (ms_tracker s) m = None"
    "m \<notin> set (mm_retired (ms_worker s))"
    and mo: "mo = \<lparr>mo_device = dev, mo_size = bytes, mo_type_index = ty, mo_property_flags = flags, mo_allocate_flags = af, mo_bytes = []\<rparr>"
  shows "system_ok (set_tracker (on_allocate m bytes ty (fst (host_flags flags)) (snd (host_flags flags)) (ms_tracker s))
      (s\<lparr>ms_worker := worker_allocate m mo (ms_worker s)\<rparr>))"
proof -
  let ?t = "on_allocate m bytes ty (fst (host_flags flags)) (snd (host_flags flags)) (ms_tracker s)"
  let ?mm = "worker_allocate m mo (ms_worker s)"
  have ok: "tracker_ok ?t" using s m(1,3) by (simp add: system_ok_def on_allocate_ok)
  have t: "map_of ?t k = (if k = m then Some (new_alloc bytes ty (fst (host_flags flags)) (snd (host_flags flags)))
      else map_of (ms_tracker s) k)" for k
    by (simp add: on_allocate_def map_of_omap_put)
  have "alloc_linked ?mm k a" if lk: "linked (ms_tracker s) (ms_worker s)" and k: "map_of ?t k = Some a" for k a
  proof (cases "k = m")
    case True
    have "fst (host_flags flags) \<and> snd (host_flags flags) \<longrightarrow> host_flags flags = (True, True)"
      by (cases "host_flags flags") simp
    then show ?thesis
      using True k m host_flags_both [of flags]
      by (auto simp: t alloc_linked_def new_alloc_def writable_def mock_view_def object_view_def map_of_omap_put worker_allocate_def mo)
  next
    case False
    then show ?thesis
      using k lk by (auto simp: t linked_def map_of_omap_put worker_allocate_def intro: linked_other [of "ms_worker s"])
  qed
  moreover have "differs ?t k i \<Longrightarrow> differs (ms_tracker s) k i \<and> k \<noteq> m" for k i
    by (auto simp: differs_def t new_alloc_def split: if_splits)
  ultimately show ?thesis
    using s ok by (intro system_okI) (auto simp: system_ok_def linked_def filter_inv_def skips_clean_def t new_alloc_def split: if_splits)
qed

lemma unanswered_system: "system_ok s \<Longrightarrow> system_ok (s\<lparr>ms_worker := mm, ms_answer_lost := True\<rparr>)"
  by (simp add: system_ok_def filter_inv_def)

lemma map_of_on_free: "map_of (snd (on_free m t)) k = (if k = m then None else map_of t k)"
proof -
  have "map_of (filter (\<lambda>kv. fst kv \<noteq> m) kvs) k = (if k = m then None else map_of kvs k)" for kvs :: tracker
    by (induction kvs) auto
  then show ?thesis by (auto simp: on_free_def split: option.split)
qed

section \<open>The sweep before a submit\<close>

lemma map_of_rebaseline: "map_of (force_rebaseline t) m = map_option (\<lambda>a. a\<lparr>al_baseline_done := False\<rparr>) (map_of t m)"
  by (induction t) (auto simp: force_rebaseline_def)

lemma rebaseline_views [simp]: "shadows (force_rebaseline t) = shadows t" "mirror (force_rebaseline t) = mirror t"
  by (auto simp: shadows_def mirror_def map_of_rebaseline option.map_comp comp_def)

lemma linked_rebaseline: "linked t mm \<Longrightarrow> linked (force_rebaseline t) mm"
  by (auto simp: linked_def force_rebaseline_ok map_of_rebaseline alloc_linked_def)

lemma skips_rebaseline: "skips_clean t \<Longrightarrow> skips_clean (force_rebaseline t)"
  by (auto simp: skips_clean_def map_of_rebaseline)

lemma rebaseline_not_done: "map_of (force_rebaseline t) m = Some a \<Longrightarrow> \<not> al_baseline_done a"
  by (auto simp: map_of_rebaseline)

text \<open>At the start of the sweep the filter satisfies its contract.\<close>

lemma begin_epoch_keeps:
  assumes s: "system_ok s" and s1_def: "s1 = begin_epoch env (try_softdirty env (ms_icd s))"
  shows "tracker_ok (ic_tracker s1)" "\<not> ms_answer_lost s \<Longrightarrow> linked (ic_tracker s1) (ms_worker s)"
    "\<not> ms_swallowed s \<Longrightarrow> skips_clean (ic_tracker s1)" "shadows (ic_tracker s1) = shadows (ms_tracker s)"
    "mirror (ic_tracker s1) = mirror (ms_tracker s)" "ic_softdirty_tried s1"
proof -
  have t0: "ic_tracker (try_softdirty env (ms_icd s)) = ms_tracker s" by (simp add: try_softdirty_def)
  show "tracker_ok (ic_tracker s1)"
    using s force_rebaseline_ok [of "ms_tracker s"] by (simp add: s1_def begin_epoch_def t0 system_ok_def)
  show "\<not> ms_answer_lost s \<Longrightarrow> linked (ic_tracker s1) (ms_worker s)"
    using s linked_rebaseline [of "ms_tracker s" "ms_worker s"] by (simp add: s1_def begin_epoch_def t0 system_ok_def)
  show "\<not> ms_swallowed s \<Longrightarrow> skips_clean (ic_tracker s1)"
    using s skips_rebaseline [of "ms_tracker s"] by (simp add: s1_def begin_epoch_def t0 system_ok_def)
  show "shadows (ic_tracker s1) = shadows (ms_tracker s)" "mirror (ic_tracker s1) = mirror (ms_tracker s)"
    by (simp_all add: s1_def begin_epoch_def t0)
  show "ic_softdirty_tried s1" by (simp add: s1_def begin_epoch_def try_softdirty_def)
qed

lemma begin_epoch_filter:
  assumes s: "system_ok s" "\<not> ms_swallowed s" and k: "kernel_honest env s" and e: "0 < se_every env"
  defines "s1 \<equiv> begin_epoch env (try_softdirty env (ms_icd s))"
  shows "filter_sound (if ic_softdirty_on s1 then Some (se_read env) else None) (ic_tracker s1)"
proof (cases "ic_softdirty_on s1")
  case on: True
  let ?s0 = "try_softdirty env (ms_icd s)"
  have t0: "ic_tracker ?s0 = ms_tracker s" by (simp add: try_softdirty_def)
  have ok: "tracker_ok (ms_tracker s)" using s(1) by (simp add: system_ok_def)
  show ?thesis
  proof (cases "resets env ?s0")
    case True
    then have "ic_tracker s1 = force_rebaseline (ms_tracker s)"
      using on by (auto simp: s1_def begin_epoch_def t0 split: if_splits)
    then show ?thesis
      by (auto simp: filter_sound_def force_rebaseline_def)
  next
    case False
    then have s1: "s1 = ?s0" by (simp add: s1_def begin_epoch_def)
    have tried: "ic_softdirty_tried (ms_icd s)"
      using False on s(1) e by (auto simp: s1 resets_def try_softdirty_def system_ok_def)
    then have icd: "s1 = ms_icd s" by (simp add: s1 try_softdirty_def)
    have "covered adm i" if ma: "(m, a) \<in> set (ms_tracker s)" "al_baseline_done a" "se_read env m (al_size a) = Some adm"
      "i < al_size a" "al_shadow a ! i \<noteq> al_last_uploaded a ! i" for m a adm i
    proof -
      have a: "map_of (ms_tracker s) m = Some a" "alloc_ok a"
        using ma(1) ok omap_ok_distinct [of "ms_tracker s"] by (auto simp: tracker_ok_def)
      have "al_shadow a \<noteq> []" using ma(5) a(2) by (auto simp: alloc_ok_def)
      then have "differs (ms_tracker s) m i" using a ma(4,5) by (auto simp: differs_def alloc_ok_def)
      then have "(m, i) \<in> ms_touched s" using s on a(1) ma(2) by (auto simp: icd system_ok_def filter_inv_def)
      then show ?thesis using k ma(3,4) False by (auto simp: kernel_honest_def touched_after_def)
    qed
    then show ?thesis using on by (auto simp: filter_sound_def icd)
  qed
qed simp

lemma honest_paged: "kernel_honest env s \<Longrightarrow> filter_paged (if on then Some (se_read env) else None)"
  by (simp add: kernel_honest_def)

lemma views_differ: "tracker_ok t \<Longrightarrow> mirror t = shadows t \<Longrightarrow> \<not> differs t m i"
  by (auto simp: differs_def mirror_def shadows_def fun_eq_iff) (metis option.inject option.simps(9))

text \<open>Moving mirror bytes to shadow bytes keeps clean what was clean.\<close>

lemma skips_clean_ship:
  assumes "skips_clean t" "tracker_ok t" "tracker_ok t'" "erase_mirror t' = erase_mirror t" "\<forall>m i. differs t' m i \<longrightarrow> differs t m i"
  shows "skips_clean t'"
  unfolding skips_clean_def
proof (intro allI impI)
  fix m a' assume a': "map_of t' m = Some a'" "\<not> al_candidate a'"
  obtain a where a: "map_of t m = Some a" "a' = a\<lparr>al_last_uploaded := al_last_uploaded a'\<rparr>"
    using erase_mirror_lookup [OF assms(4) a'(1)] by blast
  have "al_candidate a' = al_candidate a" by (subst a(2)) simp
  then have "al_shadow a = al_last_uploaded a" using assms(1) a(1) a'(2) by (simp add: skips_clean_def)
  then have "\<not> differs t m i" for i using a(1) by (simp add: differs_def)
  then have "\<not> differs t' m i" for i using assms(5) by blast
  then have "\<forall>i<length (al_shadow a'). al_shadow a' ! i = al_last_uploaded a' ! i" using a'(1) by (auto simp: differs_def)
  moreover have "length (al_last_uploaded a') = length (al_shadow a')" using tracker_ok_lookup [OF assms(3) a'(1)] by (simp add: alloc_ok_def)
  ultimately show "al_shadow a' = al_last_uploaded a'" by (auto intro: nth_equalityI)
qed

lemma linked_swept:
  assumes "linked t mm" "tracker_ok t'" "t' = map (\<lambda>(m, a). (m, swept flt m a)) t"
  shows "linked t' mm"
  using assms(1,2)
  by (auto simp: linked_def assms(3) map_of_swept alloc_linked_def swept_keeps)

lemma coherent_flush_ok:
  assumes s: "system_ok s" and k: "kernel_honest env s" and e: "0 < se_every env"
    and run: "coherent_flush_at_submit_locked env link (ms_icd s, ms_worker s) = (r, i, mm)"
  shows "tracker_ok (ic_tracker i)" "shadows (ic_tracker i) = shadows (ms_tracker s)" "ic_softdirty_tried i"
    "\<not> ms_answer_lost s \<Longrightarrow> r \<noteq> Refused \<and> ((\<forall>n. link n = Carried) \<longrightarrow> r = Shipped) \<and>
       (\<not> loses_answer link \<or> r = Shipped \<longrightarrow> linked (ic_tracker i) mm)"
    "\<not> ms_swallowed s \<Longrightarrow> skips_clean (ic_tracker i) \<and> (r = Shipped \<longrightarrow> mirror (ic_tracker i) = shadows (ms_tracker s))"
    "r = Refused \<Longrightarrow> ic_softdirty_on i \<Longrightarrow> map_of (ic_tracker i) m = Some a \<Longrightarrow> \<not> al_baseline_done a"
proof -
  define s1 where "s1 = begin_epoch env (try_softdirty env (ms_icd s))"
  define flt where "flt = (if ic_softdirty_on s1 then Some (se_read env) else None)"
  note b = begin_epoch_keeps [OF s s1_def]
  have snd: "\<not> ms_swallowed s \<Longrightarrow> filter_sound flt (ic_tracker s1)"
    using begin_epoch_filter [OF s _ k e, folded s1_def, folded flt_def] .
  have paged: "filter_paged flt" unfolding flt_def by (rule honest_paged [OF k])
  obtain t' snap io where sn: "snapshot_pending flt (ic_tracker s1) = (t', snap, io)" by (metis surj_pair)
  define s3 where "s3 = s1\<lparr>ic_sweep_counter := u64 (ic_sweep_counter s1 + 1), ic_tracker := t'\<rparr>"
  note sw = sweep_tracker_ok [OF b(1) sn]
  have lk: "\<not> ms_answer_lost s \<Longrightarrow> linked t' (ms_worker s)"
    using linked_swept [OF b(2) sw(1) snapshot_pending_eq(1) [OF sn]] .
  have cl: "skips_clean t' \<and> fold write_cell (snap_writes snap) (mirror t') = shadows (ms_tracker s)" if "\<not> ms_swallowed s"
    using that sweep_skips_clean [OF b(1) _ _ sn] sweep_writes_sync [OF b(1) _ _ sn] b(3,4) snd sw(3) by simp
  have "tracker_ok (ic_tracker i) \<and> shadows (ic_tracker i) = shadows (ms_tracker s) \<and> ic_softdirty_tried i \<and>
    (\<not> ms_answer_lost s \<longrightarrow> r \<noteq> Refused \<and> ((\<forall>n. link n = Carried) \<longrightarrow> r = Shipped) \<and>
       (\<not> loses_answer link \<or> r = Shipped \<longrightarrow> linked (ic_tracker i) mm)) \<and>
    (\<not> ms_swallowed s \<longrightarrow> skips_clean (ic_tracker i) \<and> (r = Shipped \<longrightarrow> mirror (ic_tracker i) = shadows (ms_tracker s))) \<and>
    (r = Refused \<longrightarrow> ic_softdirty_on i \<longrightarrow> (\<forall>m a. map_of (ic_tracker i) m = Some a \<longrightarrow> \<not> al_baseline_done a))"
  proof (cases "ds_uploads snap = []")
    case True
    then have "r = Shipped \<and> i = s3 \<and> mm = ms_worker s"
      using run sn by (simp add: coherent_flush_at_submit_locked_def Let_def s1_def s3_def flt_def)
    moreover have "snap_writes snap = []" using True by (simp add: snap_writes_def)
    ultimately show ?thesis using lk cl b(4,6) sw(1,2) by (simp add: s3_def)
  next
    case False
    obtain r' t'' mm' where sh: "ship_snapshot link snap (t', ms_worker s) = (r', t'', mm')" by (metis surj_pair)
    have good: "snap_good True t' snap" by (rule sweep_good [OF b(1) paged sn])
    note o = ship_snapshot_tracker [OF good sw(1) sh]
    have l: "r' \<noteq> Refused \<and> ((\<forall>n. link n = Carried) \<longrightarrow> r' = Shipped) \<and> (\<not> loses_answer link \<or> r' = Shipped \<longrightarrow> linked t'' mm')"
      if "\<not> ms_answer_lost s"
      using ship_snapshot_linked [OF good lk [OF that] sh] by (simp add: loses_answer_def)
    have c: "skips_clean t'' \<and> (r' = Shipped \<longrightarrow> mirror t'' = shadows (ms_tracker s))" if "\<not> ms_swallowed s"
      using skips_clean_ship [of t' t''] cl [OF that] sw(1) o by auto
    have i: "r = r' \<and> mm = mm' \<and> i = (if r' = Refused then rebaseline_if_on (s3\<lparr>ic_tracker := t''\<rparr>) else s3\<lparr>ic_tracker := t''\<rparr>)"
      using run False sn sh
      by (cases r') (auto simp: coherent_flush_at_submit_locked_def Let_def s1_def s3_def flt_def)
    show ?thesis
    proof (cases "r' = Refused")
      case True
      then show ?thesis
        using i l c o b(4,6) sw(2) skips_rebaseline [of t''] force_rebaseline_ok [of t''] rebaseline_not_done [of t'']
        by (auto simp: rebaseline_if_on_def s3_def)
    next
      case False
      then show ?thesis using i l c o b(4,6) sw(2) by (auto simp: s3_def)
    qed
  qed
  then show "tracker_ok (ic_tracker i)" "shadows (ic_tracker i) = shadows (ms_tracker s)" "ic_softdirty_tried i"
    "\<not> ms_answer_lost s \<Longrightarrow> r \<noteq> Refused \<and> ((\<forall>n. link n = Carried) \<longrightarrow> r = Shipped) \<and>
       (\<not> loses_answer link \<or> r = Shipped \<longrightarrow> linked (ic_tracker i) mm)"
    "\<not> ms_swallowed s \<Longrightarrow> skips_clean (ic_tracker i) \<and> (r = Shipped \<longrightarrow> mirror (ic_tracker i) = shadows (ms_tracker s))"
    "r = Refused \<Longrightarrow> ic_softdirty_on i \<Longrightarrow> map_of (ic_tracker i) m = Some a \<Longrightarrow> \<not> al_baseline_done a"
    by blast+
qed

text \<open>After a sweep that shipped everything nothing differs; after one that forced a new baseline nothing is filtered.\<close>

lemma filter_inv_after:
  assumes "tracker_ok (ic_tracker i)"
    and "mirror (ic_tracker i) = shadows (ic_tracker i) \<or> (ic_softdirty_on i \<longrightarrow> (\<forall>m a. map_of (ic_tracker i) m = Some a \<longrightarrow> \<not> al_baseline_done a))"
  shows "filter_inv \<lparr>ms_icd = i, ms_worker = mm, ms_touched = T, ms_answer_lost = x, ms_swallowed = y\<rparr>"
  using assms views_differ [OF assms(1)] by (auto simp: filter_inv_def)

lemma submit_flush_ok:
  assumes s: "system_ok s" and k: "kernel_honest env s" and e: "0 < se_every env"
    and run: "submit_flush env link (ms_icd s, ms_worker s) = (r, i, mm)"
  shows "tracker_ok (ic_tracker i)" "shadows (ic_tracker i) = shadows (ms_tracker s)" "ic_softdirty_tried i"
    "\<not> ms_answer_lost s \<Longrightarrow> r \<noteq> Refused \<and> ((\<forall>n. link n = Carried) \<longrightarrow> r = Shipped) \<and>
       (\<not> loses_answer link \<or> r = Shipped \<longrightarrow> linked (ic_tracker i) mm)"
    "\<not> ms_swallowed s \<Longrightarrow> skips_clean (ic_tracker i) \<and> (r = Shipped \<longrightarrow> mirror (ic_tracker i) = shadows (ms_tracker s))"
    "r \<noteq> Shipped \<Longrightarrow> ic_softdirty_on i \<Longrightarrow> map_of (ic_tracker i) m = Some a \<Longrightarrow> \<not> al_baseline_done a"
proof -
  obtain r0 i0 mm0 where c: "coherent_flush_at_submit_locked env link (ms_icd s, ms_worker s) = (r0, i0, mm0)" by (metis surj_pair)
  note o = coherent_flush_ok [OF s k e c]
  have ri: "r = r0 \<and> mm = mm0 \<and> i = (case r0 of Threw err \<Rightarrow> rebaseline_if_on i0 | _ \<Rightarrow> i0)"
    using run c by (cases r0) (auto simp: submit_flush_def)
  have v: "ic_tracker i = ic_tracker i0 \<or> ic_tracker i = force_rebaseline (ic_tracker i0)" "ic_softdirty_tried i = ic_softdirty_tried i0"
    using ri by (auto simp: rebaseline_if_on_def split: ship_result.splits)
  show "tracker_ok (ic_tracker i)" using v(1) o(1) force_rebaseline_ok by auto
  show "shadows (ic_tracker i) = shadows (ms_tracker s)" using v(1) o(2) by auto
  show "ic_softdirty_tried i" using v(2) o(3) by simp
  show "\<not> ms_answer_lost s \<Longrightarrow> r \<noteq> Refused \<and> ((\<forall>n. link n = Carried) \<longrightarrow> r = Shipped) \<and>
       (\<not> loses_answer link \<or> r = Shipped \<longrightarrow> linked (ic_tracker i) mm)"
    using v(1) o(4) ri linked_rebaseline by auto
  show "\<not> ms_swallowed s \<Longrightarrow> skips_clean (ic_tracker i) \<and> (r = Shipped \<longrightarrow> mirror (ic_tracker i) = shadows (ms_tracker s))"
    using v(1) o(5) ri skips_rebaseline by auto
  show "r \<noteq> Shipped \<Longrightarrow> ic_softdirty_on i \<Longrightarrow> map_of (ic_tracker i) m = Some a \<Longrightarrow> \<not> al_baseline_done a"
    using o(6) ri rebaseline_not_done [of "ic_tracker i0"] by (cases r0) (auto simp: rebaseline_if_on_def split: if_splits)
qed

lemma submit_system:
  assumes s: "system_ok s" and k: "kernel_honest env s" and e: "0 < se_every env"
    and run: "submit_flush env link (ms_icd s, ms_worker s) = (r, i, mm)"
  shows "system_ok \<lparr>ms_icd = i, ms_worker = mm, ms_touched = T,
    ms_answer_lost = (ms_answer_lost s \<or> loses_answer link), ms_swallowed = ms_swallowed s\<rparr>"
proof -
  note o = submit_flush_ok [OF assms]
  have "filter_inv \<lparr>ms_icd = i, ms_worker = mm, ms_touched = T, ms_answer_lost = x, ms_swallowed = y\<rparr>" if "\<not> ms_swallowed s" for x y
    using o(2,5,6) that by (intro filter_inv_after [OF o(1)]) auto
  then show ?thesis using o by (intro system_okI) auto
qed

section \<open>The free\<close>

lemma free_call_cases:
  assumes "free_memory_call fate retained leaf m mm = (response, mm')"
  shows "(case response of Inl e \<Rightarrow> fate = AnswerLost \<or> mm' = mm | Inr r \<Rightarrow> sr_ok r \<or> mm' = mm) \<and>
    (\<forall>k. k \<noteq> m \<longrightarrow> map_of (mm_objects mm') k = map_of (mm_objects mm) k \<and> (k \<in> set (mm_retired mm') \<longleftrightarrow> k \<in> set (mm_retired mm))) \<and>
    set (mm_objects mm') \<subseteq> set (mm_objects mm)"
proof -
  have f: "map_of (filter (\<lambda>kv. fst kv \<noteq> m) kvs) k = map_of kvs k" if "k \<noteq> m" for kvs :: "(nat \<times> memory_object) list" and k
    using that by (induction kvs) auto
  obtain st mm1 where fm: "mock_free_memory retained leaf m mm = (st, mm1)" by force
  have "(sr_ok st \<or> mm1 = mm) \<and>
    (\<forall>k. k \<noteq> m \<longrightarrow> map_of (mm_objects mm1) k = map_of (mm_objects mm) k \<and> (k \<in> set (mm_retired mm1) \<longleftrightarrow> k \<in> set (mm_retired mm))) \<and>
    set (mm_objects mm1) \<subseteq> set (mm_objects mm)"
    using fm by (auto simp: mock_free_memory_def f split: option.splits if_splits)
  then show ?thesis using assms fm by (cases fate) (auto simp: free_memory_call_def)
qed

lemma linked_free:
  assumes "linked t mm" "\<forall>k. k \<noteq> m \<longrightarrow> map_of (mm_objects mm') k = map_of (mm_objects mm) k \<and> (k \<in> set (mm_retired mm') \<longleftrightarrow> k \<in> set (mm_retired mm))"
  shows "linked (snd (on_free m t)) mm'"
  using assms on_free_ok [of t m] by (auto simp: linked_def map_of_on_free split: if_splits intro: linked_other [of mm])

lemma finish_free_ok:
  assumes call: "free_memory_call fate retained leaf m mm = (response, mm1)" and run: "finish_free keep m response (s, mm1) = (r, i, mm')"
  shows "(i = s \<or> i = s\<lparr>ic_tracker := snd (on_free m (ic_tracker s))\<rparr>) \<and> (\<forall>e. r \<noteq> FreeFlushThrew e) \<and>
    (fate \<noteq> AnswerLost \<longrightarrow> linked (ic_tracker s) mm \<longrightarrow> linked (ic_tracker i) mm') \<and> set (mm_objects mm') \<subseteq> set (mm_objects mm)"
proof (cases response)
  case (Inl e)
  then show ?thesis using run free_call_cases [OF call] by (auto simp: finish_free_def)
next
  case (Inr res)
  note c = free_call_cases [OF call]
  show ?thesis
  proof (cases "\<not> sr_ok res \<and> keep")
    case True
    then show ?thesis using run c Inr by (auto simp: finish_free_def)
  next
    case False
    then have "r = Freed" "i = s\<lparr>ic_tracker := snd (on_free m (ic_tracker s))\<rparr>" "mm' = mm1"
      using run Inr by (auto simp: finish_free_def)
    then show ?thesis using c linked_free [of "ic_tracker s" mm m mm1] by simp
  qed
qed

lemma free_memory_cases:
  assumes run: "free_memory env link calls fe m sm = (r, i, mm)" and m: "m \<noteq> 0"
  obtains (threw) e where "free_memory_flush env link (fe_leased fe) sm = (Threw e, i, mm)" "r = FreeFlushThrew e"
    | (refused) "free_memory_flush env link (fe_leased fe) sm = (Refused, i, mm)" "r = FreeKept"
    | (shipped) s1 mm1 where "free_memory_flush env link (fe_leased fe) sm = (Shipped, s1, mm1)"
      "i = s1 \<or> i = s1\<lparr>ic_tracker := snd (on_free m (ic_tracker s1))\<rparr>" "\<forall>e. r \<noteq> FreeFlushThrew e"
      "\<not> loses_answer calls \<Longrightarrow> linked (ic_tracker s1) mm1 \<Longrightarrow> linked (ic_tracker i) mm" "set (mm_objects mm) \<subseteq> set (mm_objects mm1)"
proof -
  obtain r1 s1 mm1 where fl: "free_memory_flush env link (fe_leased fe) sm = (r1, s1, mm1)" by (metis surj_pair)
  show thesis
  proof (cases r1)
    case Shipped
    obtain resp mm2 where c1: "free_memory_call (calls 0) (fe_retained fe) (fe_leaf fe) m mm1 = (resp, mm2)" by force
    note cc = free_call_cases [OF c1]
    show thesis
    proof (cases "capacity_exceeded resp")
      case True
      have same: "mm2 = mm1" using cc True by (auto simp: capacity_exceeded_def split: sum.splits)
      show thesis
      proof (cases "fe_fallback fe = Inr True")
        case again: True
        obtain resp' mm3 where c2: "free_memory_call (calls 1) (fe_retained_after fe) (fe_leaf fe) m mm2 = (resp', mm3)" by force
        have fin: "finish_free True m resp' (s1, mm3) = (r, i, mm)"
          using run m fl Shipped c1 c2 again True by (simp add: free_memory_def)
        show thesis using finish_free_ok [OF c2 fin] fl Shipped same by (intro shipped [of s1 mm1]) (auto simp: loses_answer_def)
      next
        case False
        then have "i = s1 \<and> mm = mm2 \<and> (\<forall>e. r \<noteq> FreeFlushThrew e)"
          using run m fl Shipped c1 True by (auto simp: free_memory_def split: sum.splits bool.splits)
        then show thesis using fl Shipped same by (intro shipped [of s1 mm1]) auto
      qed
    next
      case False
      have fin: "finish_free (fe_leased fe) m resp (s1, mm2) = (r, i, mm)"
        using run m fl Shipped c1 False by (simp add: free_memory_def)
      show thesis using finish_free_ok [OF c1 fin] fl Shipped by (intro shipped [of s1 mm1]) (auto simp: loses_answer_def)
    qed
  qed (use run m fl threw refused in \<open>auto simp: free_memory_def\<close>)
qed

lemma free_flush_ok:
  assumes s: "system_ok s" and k: "kernel_honest env s" and e: "0 < se_every env"
    and run: "free_memory_flush env link leased (ms_icd s, ms_worker s) = (r, i, mm)"
  shows "system_ok \<lparr>ms_icd = i, ms_worker = mm, ms_touched = (if leased then touched_after env s else ms_touched s),
    ms_answer_lost = (ms_answer_lost s \<or> loses_answer link), ms_swallowed = (ms_swallowed s \<or> (\<exists>e. r = Threw e))\<rparr>"
proof (cases leased)
  case True
  then have c: "coherent_flush_at_submit_locked env link (ms_icd s, ms_worker s) = (r, i, mm)" using run by (simp add: free_memory_flush_def)
  note o = coherent_flush_ok [OF s k e c]
  have "filter_inv \<lparr>ms_icd = i, ms_worker = mm, ms_touched = T, ms_answer_lost = x, ms_swallowed = y\<rparr>"
    if "\<not> ms_swallowed s" "\<forall>e. r \<noteq> Threw e" for T x y
    using o(2,5,6) that by (cases r) (auto intro!: filter_inv_after [OF o(1)])
  then show ?thesis using o by (intro system_okI) auto
next
  case False
  then have "r = Shipped" "i = ms_icd s" "mm = ms_worker s" using run by (auto simp: free_memory_flush_def)
  then show ?thesis using s False by (auto simp: system_ok_def filter_inv_def)
qed

lemma free_system:
  assumes s: "system_ok s" and m: "m \<noteq> 0" and k: "kernel_honest env s" and e: "0 < se_every env"
    and run: "free_memory env link calls fe m (ms_icd s, ms_worker s) = (r, i, mm)"
  shows "system_ok \<lparr>ms_icd = i, ms_worker = mm, ms_touched = (if fe_leased fe then touched_after env s else ms_touched s),
      ms_answer_lost = (ms_answer_lost s \<or> loses_answer link \<or> loses_answer calls),
      ms_swallowed = (ms_swallowed s \<or> (\<exists>e. r = FreeFlushThrew e))\<rparr>"
  using run m
proof (cases rule: free_memory_cases)
  case (threw e')
  show ?thesis using free_flush_ok [OF s k e threw(1)] threw(2) by (auto simp: system_ok_def filter_inv_def)
next
  case refused
  show ?thesis using free_flush_ok [OF s k e refused(1)] refused(2) by (auto simp: system_ok_def filter_inv_def)
next
  case (shipped s1 mm1)
  note f = free_flush_ok [OF s k e shipped(1)]
  have d: "differs (snd (on_free m (ic_tracker s1))) k' j \<Longrightarrow> differs (ic_tracker s1) k' j" for k' j
    by (auto simp: differs_def map_of_on_free split: if_splits)
  have ok: "tracker_ok (ic_tracker i)" using f shipped(2) on_free_ok by (auto simp: system_ok_def)
  have cl: "skips_clean (ic_tracker i)" if "\<not> ms_swallowed s"
    using f shipped(2) that by (auto simp: system_ok_def skips_clean_def map_of_on_free split: if_splits)
  have inv: "filter_inv \<lparr>ms_icd = i, ms_worker = mm, ms_touched = (if fe_leased fe then touched_after env s else ms_touched s),
      ms_answer_lost = x, ms_swallowed = y\<rparr>" if "\<not> ms_swallowed s" for x y
    using f shipped(2) that d by (auto simp: system_ok_def filter_inv_def map_of_on_free split: if_splits)
  have lk: "linked (ic_tracker i) mm" if "\<not> ms_answer_lost s" "\<not> loses_answer link" "\<not> loses_answer calls"
    using f shipped(4) that by (simp add: system_ok_def)
  have "\<not> ic_softdirty_tried i \<longrightarrow> \<not> ic_softdirty_on i \<and> ic_sweep_counter i = 0" using f shipped(2) by (auto simp: system_ok_def)
  then show ?thesis using ok cl inv lk shipped(3) by (intro system_okI) auto
qed

section \<open>The explicit flush and the download\<close>

lemma erase_mirror_baseline:
  assumes "erase_mirror t' = erase_mirror t" "map_of t' m = Some a'" "al_baseline_done a'"
  shows "\<exists>a. map_of t m = Some a \<and> al_baseline_done a"
proof -
  obtain a where a: "map_of t m = Some a" "a' = a\<lparr>al_last_uploaded := al_last_uploaded a'\<rparr>"
    using erase_mirror_lookup [OF assms(1,2)] by blast
  have "al_baseline_done a' = al_baseline_done a" by (subst a(2)) simp
  then show ?thesis using a(1) assms(3) by blast
qed

lemma flush_system:
  assumes s: "system_ok s" and run: "flush_mapped_memory_ranges link rs (ms_icd s, ms_worker s) = (r, i, mm)"
  shows "system_ok (s\<lparr>ms_icd := i, ms_worker := mm, ms_answer_lost := ms_answer_lost s \<or> loses_answer link\<rparr>)"
proof (cases "snapshot_explicit rs (ms_tracker s)")
  case (Inr snap)
  show ?thesis
  proof (cases "ds_uploads snap = []")
    case False
    obtain r' t mm' where sh: "ship_snapshot link snap (ms_tracker s, ms_worker s) = (r', t, mm')" by (metis surj_pair)
    have im: "i = (ms_icd s)\<lparr>ic_tracker := t\<rparr> \<and> mm = mm'"
      using run Inr False sh by (cases r') (auto simp: flush_mapped_memory_ranges_def)
    have ok: "tracker_ok (ms_tracker s)" using s by (simp add: system_ok_def)
    note good = snapshot_explicit_good [OF ok Inr]
    note o = ship_snapshot_tracker [OF good ok sh]
    have "linked t mm'" if "\<not> ms_answer_lost s" "\<not> loses_answer link"
      using ship_snapshot_linked [OF good _ sh] s that by (simp add: system_ok_def loses_answer_def)
    moreover have "skips_clean t" if "\<not> ms_swallowed s"
      using skips_clean_ship [of "ms_tracker s" t] s o that by (simp add: system_ok_def)
    moreover have "(m, j) \<in> ms_touched s"
      if "\<not> ms_swallowed s" "ic_softdirty_on (ms_icd s)" "map_of t m = Some a" "al_baseline_done a" "differs t m j" for m a j
      using s o that erase_mirror_baseline [of t "ms_tracker s" m a] by (auto simp: system_ok_def filter_inv_def)
    ultimately show ?thesis using s o im by (intro system_okI) (auto simp: system_ok_def filter_inv_def)
  qed (use run s Inr in \<open>auto simp: flush_mapped_memory_ranges_def system_ok_def filter_inv_def\<close>)
qed (use run s in \<open>auto simp: flush_mapped_memory_ranges_def system_ok_def filter_inv_def\<close>)

text \<open>A download replaces shadow and mirror of clean allocations by the same bytes.\<close>

lemma apply_downloads_keeps:
  assumes "tracker_ok t" "apply_downloads cs payload (t, ready) = (t', ready')"
  shows "tracker_ok t' \<and> (\<forall>m i. differs t' m i \<longrightarrow> differs t m i) \<and> (skips_clean t \<longrightarrow> skips_clean t') \<and>
    (\<forall>m a'. map_of t' m = Some a' \<longrightarrow> (\<exists>a. map_of t m = Some a \<and> al_baseline_done a' = al_baseline_done a))"
  using assms
proof (induction cs arbitrary: payload t ready)
  case (Cons c cs)
  obtain m n where c: "c = (m, n)" by force
  show ?case
  proof (cases "n > length payload")
    case False
    define t1 where "t1 = apply_readback m (take n payload) t"
    have "tracker_ok t1" using Cons.prems(1) by (simp add: t1_def apply_readback_ok)
    moreover have "apply_downloads cs (drop n payload) (t1, removeAll m ready) = (t', ready')"
      using Cons.prems(2) False by (simp add: t1_def c)
    ultimately have "tracker_ok t' \<and> (\<forall>m i. differs t' m i \<longrightarrow> differs t1 m i) \<and> (skips_clean t1 \<longrightarrow> skips_clean t') \<and>
        (\<forall>m a'. map_of t' m = Some a' \<longrightarrow> (\<exists>a. map_of t1 m = Some a \<and> al_baseline_done a' = al_baseline_done a))"
      by (rule Cons.IH)
    moreover have "differs t1 k i \<Longrightarrow> differs t k i" for k i
      by (auto simp: differs_def t1_def apply_readback_def map_of_omap_at split: if_splits)
    moreover have "skips_clean t \<Longrightarrow> skips_clean t1"
      by (auto simp: skips_clean_def t1_def apply_readback_def map_of_omap_at split: if_splits)
    moreover have "map_of t1 k = Some a' \<Longrightarrow> \<exists>a. map_of t k = Some a \<and> al_baseline_done a' = al_baseline_done a" for k a'
      by (auto simp: t1_def apply_readback_def map_of_omap_at split: if_splits)
    ultimately show ?thesis by metis
  qed (use Cons.prems in \<open>auto simp: c\<close>)
qed auto

text \<open>Without writes of the GPU the downloaded bytes are the bytes the shadow has.\<close>

lemma omap_at_same: "(\<And>a. map_of t m = Some a \<Longrightarrow> f a = a) \<Longrightarrow> distinct (map fst t) \<Longrightarrow> omap_at m f t = t"
  unfolding omap_at_def by (rule map_idI) auto

text \<open>The bytes of an object are absent or complete.\<close>

definition whole :: "mock_memory \<Rightarrow> bool" where
  "whole mm \<longleftrightarrow> (\<forall>k mo. (k, mo) \<in> set (mm_objects mm) \<longrightarrow> mo_bytes mo = [] \<or> mo_size mo \<le> length (mo_bytes mo))"

definition whole_sized :: "nat \<Rightarrow> mock_memory \<Rightarrow> bool" where
  "whole_sized m mm \<longleftrightarrow> whole mm \<and> (\<forall>mo. (m, mo) \<in> set (mm_objects mm) \<longrightarrow> mo_size mo \<le> length (mo_bytes mo))"

lemma whole_write: "whole mm \<Longrightarrow> whole (snd (mock_write_memory_ranges req mm))"
proof -
  have sz: "whole_sized m (size_memory m mm)" if "whole mm" for m mm
    using that by (auto simp: whole_sized_def whole_def size_memory_def omap_at_def split: if_splits) blast+
  have len: "length b \<le> length (overwrite b off d)" for b off and d :: string
    by (simp add: overwrite_def)
  have ap: "whole_sized m (fst (apply_range p m r mc))" if "whole_sized m (fst mc)" for p m r mc
    using that
    by (auto simp: whole_sized_def whole_def apply_range_def omap_at_def case_prod_beta split: if_splits) (meson len order_trans)+
  have rs: "whole_sized m (fst (fold (apply_range p m) rs mc))" if "whole_sized m (fst mc)" for p m rs mc
    using that by (induction rs arbitrary: mc) (simp_all add: ap)
  have "whole (fst (fold (\<lambda>u mc. fold (apply_range p (up_memory u)) (up_ranges u)
      (size_memory (up_memory u) (fst mc), snd mc)) us mc))" if "whole (fst mc)" for p mc and us :: "upload list"
    using that
  proof (induction us arbitrary: mc)
    case (Cons u us)
    have "whole (fst (fold (apply_range p (up_memory u)) (up_ranges u) (size_memory (up_memory u) (fst mc), snd mc)))"
      using rs [of "up_memory u"] sz [OF Cons.prems] by (simp add: whole_sized_def)
    then show ?case using Cons.IH by simp
  qed simp
  then show "whole mm \<Longrightarrow> whole (snd (mock_write_memory_ranges req mm))"
    by (simp add: mock_write_memory_ranges_def split: sum.split)
qed

lemma whole_call: "whole mm \<Longrightarrow> whole (snd (write_memory_ranges up i req mm))"
  using whole_write [of mm]
  by (auto simp: write_memory_ranges_def serve_request_def write_op_handler_def Let_def split: prod.splits sum.splits)
     (metis snd_conv)+

lemma whole_ship: "whole mm \<Longrightarrow> whole (snd (snd (ship_frames link n fs (t, mm))))"
proof (induction fs arbitrary: n t mm)
  case (Cons f fs)
  then show ?case
    using whole_call [OF Cons.prems, of "link n" "u32 n" "to_write_request f"]
    by (auto simp: Let_def split: prod.splits sum.splits)
qed simp

lemma read_whole:
  assumes "mock_view mm m = Some b" "map_of (mm_objects mm) m = Some mo" "whole mm"
  shows "read_range mo \<lparr>br_offset = 0, br_size = length b\<rparr> = b"
proof -
  have "mo_bytes mo = [] \<or> mo_size mo \<le> length (mo_bytes mo)"
    using assms(2,3) by (auto simp: whole_def dest!: map_of_SomeD)
  then show ?thesis
    using assms(1,2) by (intro nth_equalityI) (auto simp: read_range_def mock_view_def object_view_def split: if_splits)
qed

definition clean_at :: "tracker \<Rightarrow> mock_memory \<Rightarrow> nat \<times> nat \<Rightarrow> bool" where
  "clean_at t mm c \<longleftrightarrow>
     (\<exists>a. map_of t (fst c) = Some a \<and> al_shadow a = al_last_uploaded a \<and> length (al_shadow a) = snd c \<and>
        mock_view mm (fst c) = Some (al_shadow a))"

lemma readback_candidates_clean:
  assumes "linked t mm"
  shows "\<forall>c\<in>set (readback_candidates ready t). clean_at t mm c"
proof -
  have "clean_at t mm (m, allocation_size m t)" if m: "readback_clean m t" for m
  proof -
    obtain a where a: "map_of t m = Some a" "al_shadow a \<noteq> []" "al_shadow a = al_last_uploaded a"
      using m by (auto simp: readback_clean_def split: option.splits)
    have "alloc_ok a" "alloc_linked mm m a" using assms a(1) tracker_ok_lookup [of t m a] by (auto simp: linked_def)
    then show ?thesis using a by (auto simp: clean_at_def alloc_linked_def alloc_ok_def allocation_size_def)
  qed
  then show ?thesis by (auto simp: readback_candidates_def)
qed

lemma read_clean:
  assumes "whole mm" "\<forall>c\<in>set cands. clean_at t mm c"
    and "mock_read_memory_ranges (map (\<lambda>(m, n). \<lparr>up_memory = m, up_ranges = [\<lparr>br_offset = 0, br_size = n\<rparr>]\<rparr>) cands) mm = Inr payload"
  shows "payload = concat (map (\<lambda>c. the (shadows t (fst c))) cands)"
  using assms(2,3)
proof (induction cands arbitrary: payload)
  case (Cons c cands)
  obtain m n where c: "c = (m, n)" by force
  obtain a where a: "map_of t m = Some a" "length (al_shadow a) = n" "mock_view mm m = Some (al_shadow a)"
    using Cons.prems(1) by (auto simp: c clean_at_def)
  obtain mo where mo: "map_of (mm_objects mm) m = Some mo" using a(3) by (auto simp: mock_view_def)
  have "read_range mo \<lparr>br_offset = 0, br_size = n\<rparr> = al_shadow a" using read_whole [OF a(3) mo assms(1)] a(2) by simp
  moreover obtain rest where
    "mock_read_memory_ranges (map (\<lambda>(m, n). \<lparr>up_memory = m, up_ranges = [\<lparr>br_offset = 0, br_size = n\<rparr>]\<rparr>) cands) mm = Inr rest"
    "payload = read_range mo \<lparr>br_offset = 0, br_size = n\<rparr> @ rest"
    using Cons.prems(2) mo by (auto simp: c result_simps split: if_splits)
  ultimately show ?case using Cons.IH [of rest] Cons.prems(1) a(1) by (simp add: c shadows_def)
qed simp

lemma apply_clean:
  assumes "\<forall>c\<in>set cands. clean_at t mm c" "tracker_ok t"
  shows "fst (apply_downloads cands (concat (map (\<lambda>c. the (shadows t (fst c))) cands)) (t, ready)) = t"
  using assms(1)
proof (induction cands arbitrary: ready)
  case (Cons c cands)
  obtain m n where c: "c = (m, n)" by force
  obtain a where a: "map_of t m = Some a" "al_shadow a = al_last_uploaded a" "length (al_shadow a) = n"
    using Cons.prems by (auto simp: c clean_at_def)
  have "apply_readback m (al_shadow a) t = t"
    unfolding apply_readback_def using assms(2) omap_ok_distinct [of t] by (intro omap_at_same) (auto simp: a tracker_ok_def)
  then show ?case using Cons a by (simp add: c shadows_def)
qed simp

lemma download_same:
  assumes "linked t mm" "whole mm" "download_readback_locked ready t mm = (t', ready')"
  shows "t' = t"
proof (cases "mock_read_memory_ranges (map (\<lambda>(m, n). \<lparr>up_memory = m, up_ranges = [\<lparr>br_offset = 0, br_size = n\<rparr>]\<rparr>)
    (readback_candidates ready t)) mm")
  case (Inr payload)
  note c = readback_candidates_clean [OF assms(1), of ready]
  have "fst (apply_downloads (readback_candidates ready t) payload (t, ready)) = t"
    using apply_clean [OF c] read_clean [OF assms(2) c Inr] assms(1) by (simp add: linked_def)
  then show ?thesis using assms(3) Inr by (auto simp: download_readback_locked_def Let_def split: if_splits)
qed (use assms(3) in \<open>auto simp: download_readback_locked_def Let_def split: if_splits\<close>)

section \<open>Every reachable state\<close>

lemma whole_subset: "whole mm \<Longrightarrow> set (mm_objects mm') \<subseteq> set (mm_objects mm) \<Longrightarrow> whole mm'"
  by (fastforce simp: whole_def)

lemma whole_coherent:
  "whole mm \<Longrightarrow> coherent_flush_at_submit_locked env link (s, mm) = (r, i, mm') \<Longrightarrow> whole mm'"
  using whole_ship [of mm]
  by (auto simp: coherent_flush_at_submit_locked_def Let_def ship_snapshot_def
      split: prod.splits ship_result.splits if_splits) (metis snd_conv)+

lemma whole_allocate: "whole mm \<Longrightarrow> mo_bytes mo = [] \<Longrightarrow> whole (worker_allocate m mo mm)"
  using set_omap_put [of m mo "mm_objects mm"] by (fastforce simp: whole_def worker_allocate_def)

lemma whole_free:
  assumes "whole mm" "free_memory env link calls fe m (s, mm) = (r, i, mm')" "m \<noteq> 0"
  shows "whole mm'"
proof -
  have fl: "whole mm1" if "free_memory_flush env link (fe_leased fe) (s, mm) = (r1, s1, mm1)" for r1 s1 mm1
    using that whole_coherent [OF assms(1)] assms(1) by (auto simp: free_memory_flush_def split: if_splits)
  show ?thesis using assms(2,3)
    by (cases rule: free_memory_cases) (use fl whole_subset in blast)+
qed

lemma whole_step:
  assumes "mem_step s s'" "whole (ms_worker s)"
  shows "whole (ms_worker s')"
  using assms(1)
proof (cases rule: mem_step.cases)
  case submit
  then show ?thesis
    using whole_coherent [OF assms(2)] by (auto simp: submit_flush_def split: prod.splits ship_result.splits)
next
  case flush
  then show ?thesis
    using assms(2) whole_ship [of "ms_worker s"]
    by (auto simp: flush_mapped_memory_ranges_def Let_def ship_snapshot_def
        split: prod.splits ship_result.splits if_splits sum.splits) (metis snd_conv)+
next
  case free
  then show ?thesis using whole_free [OF assms(2)] by simp
qed (use assms(2) in \<open>auto simp: whole_allocate\<close>)

lemma download_system:
  assumes s: "system_ok s" "whole (ms_worker s)" and run: "download_readback_locked ready (ms_tracker s) (ms_worker s) = (t, ready')"
  shows "system_ok (set_tracker t (s\<lparr>ms_touched := ms_touched s \<union> set ready \<times> UNIV\<rparr>))"
proof -
  have ok: "tracker_ok (ms_tracker s)" using s(1) by (simp add: system_ok_def)
  consider "t = ms_tracker s" | cs payload where "apply_downloads cs payload (ms_tracker s, ready) = (t, ready')"
    using run by (auto simp: download_readback_locked_def Let_def split: if_splits sum.splits)
  then have k: "tracker_ok t \<and> (\<forall>m i. differs t m i \<longrightarrow> differs (ms_tracker s) m i) \<and> (skips_clean (ms_tracker s) \<longrightarrow> skips_clean t) \<and>
      (\<forall>m a'. map_of t m = Some a' \<longrightarrow> (\<exists>a. map_of (ms_tracker s) m = Some a \<and> al_baseline_done a' = al_baseline_done a))"
    using apply_downloads_keeps [OF ok] ok by cases auto
  have "linked t (ms_worker s)" if "\<not> ms_answer_lost s"
    using download_same [OF _ s(2) run] s(1) that by (simp add: system_ok_def)
  moreover have "(m, j) \<in> ms_touched s"
    if "\<not> ms_swallowed s" "ic_softdirty_on (ms_icd s)" "map_of t m = Some a" "al_baseline_done a" "differs t m j" for m a j
    using s(1) k that by (metis filter_inv_def system_ok_def)
  ultimately show ?thesis using s(1) k by (intro system_okI) (auto simp: system_ok_def filter_inv_def)
qed

lemma step_system:
  assumes "mem_step s s'" "system_ok s" "whole (ms_worker s)"
  shows "system_ok s'"
  using assms(1)
proof (cases rule: mem_step.cases)
  case free
  then show ?thesis using free_system [OF assms(2)] by simp
qed (use assms(2,3) allocate_system unanswered_system on_map_system on_unmap_system app_write_system submit_system flush_system
      download_system in \<open>auto\<close>)

lemma initial_system_ok: "system_ok initial_system" "whole (ms_worker initial_system)"
  by (simp_all add: initial_system_def system_ok_def filter_inv_def linked_def tracker_ok_def omap_ok_def whole_def differs_def skips_clean_def)

lemma reachable_ok: "mem_reachable s \<Longrightarrow> system_ok s \<and> whole (ms_worker s)"
  by (induction rule: mem_reachable.induct) (auto simp: initial_system_ok intro: step_system whole_step)

end
