(* ===== verification/Memory_Theorems.thy ===== *)
theory Memory_Theorems
  imports Memory_System
begin

unbundle bit_operations_syntax

text \<open>
  What the upload path promises its application, over every reachable state of the system of driver,
  worker and kernel; and two places where it does not keep what its comments say: an explicit flush of
  two ranges inside one chunk, and the upload before the free of a leased allocation.
\<close>

section \<open>A small run\<close>

text \<open>An application allocates eight bytes, maps them and writes through its pointer.\<close>

definition run_allocated :: mem_system where
  "run_allocated = set_tracker (on_allocate 5 8 0 (fst (host_flags 6)) (snd (host_flags 6)) (ms_tracker initial_system))
      (initial_system\<lparr>ms_worker := worker_allocate 5
         \<lparr>mo_device = 7, mo_size = 8, mo_type_index = 0, mo_property_flags = 6, mo_allocate_flags = 0, mo_bytes = []\<rparr>
         (ms_worker initial_system)\<rparr>)"

definition run_mapped :: mem_system where
  "run_mapped = set_tracker (snd (on_map 5 0 8 (ms_tracker run_allocated))) run_allocated"

definition run_written :: mem_system where
  "run_written = set_tracker (app_write 5 0 ''hello'' (ms_tracker run_mapped))
      (run_mapped\<lparr>ms_touched := ms_touched run_mapped \<union> Pair 5 ` {0..<0 + length ''hello''}\<rparr>)"

lemma run_written_reachable: "mem_reachable run_written"
proof -
  have "mem_step initial_system run_allocated"
    unfolding run_allocated_def by (rule mem_step.allocate) (simp_all add: initial_system_def)
  moreover have "mem_step run_allocated run_mapped" unfolding run_mapped_def by (rule mem_step.map)
  moreover have "mem_step run_mapped run_written" unfolding run_written_def by (rule mem_step.app_write)
  ultimately show ?thesis by (meson mem_reachable.intros)
qed

definition run_alloc :: alloc where
  "run_alloc = \<lparr>al_size = 8, al_type_index = 0, al_host_visible = True, al_host_coherent = True,
     al_is_mapped = True, al_candidate = True, al_baseline_done = False, al_mapped_offset = 0, al_mapped_size = 8,
     al_shadow = ''hello'' @ replicate 3 (CHR 0x00), al_last_uploaded = replicate 8 (CHR 0x00)\<rparr>"

lemma run_host_flags: "host_flags 6 = (True, True)"
  by (simp add: host_flags_def kMemoryPropertyHostVisible_def kMemoryPropertyHostCoherent_def)

lemma run_mapped_tracker: "ms_tracker run_mapped = [(5, run_alloc\<lparr>al_shadow := replicate 8 (CHR 0x00)\<rparr>)]"
  by (simp add: run_mapped_def run_allocated_def run_host_flags initial_system_def on_map_def on_allocate_def new_alloc_def
      map_extent_def ensure_def kWholeSize_def add_overflows_def omap_at_def ensure_sized_def run_alloc_def)

lemma run_written_tracker: "ms_tracker run_written = [(5, run_alloc)]"
  by (simp add: run_written_def run_mapped_tracker app_write_def omap_at_def overwrite_def run_alloc_def eval_nat_numeral)

lemma run_shadow: "shadows (ms_tracker run_written) 5 = Some (''hello'' @ replicate 3 (CHR 0x00))"
  by (simp add: run_written_tracker shadows_def run_alloc_def)

lemma run_worker: "ms_worker run_written = \<lparr>mm_objects = [(5, \<lparr>mo_device = 7, mo_size = 8, mo_type_index = 0,
    mo_property_flags = 6, mo_allocate_flags = 0, mo_bytes = []\<rparr>)], mm_retired = []\<rparr>"
  by (simp add: run_written_def run_mapped_def run_allocated_def initial_system_def worker_allocate_def)

lemma run_history: "\<not> ms_answer_lost run_written" "\<not> ms_swallowed run_written"
  by (simp_all add: run_written_def run_mapped_def run_allocated_def initial_system_def)

lemma run_icd: "ms_icd run_written = \<lparr>ic_tracker = [(5, run_alloc)], ic_softdirty_tried = False, ic_softdirty_on = False, ic_sweep_counter = 0\<rparr>"
proof -
  have "ic_softdirty_tried (ms_icd run_written) = False" "ic_softdirty_on (ms_icd run_written) = False"
    "ic_sweep_counter (ms_icd run_written) = 0"
    by (simp_all add: run_written_def run_mapped_def run_allocated_def initial_system_def)
  then show ?thesis using run_written_tracker by (cases "ms_icd run_written") simp
qed

text \<open>A kernel whose page map can be reset, and that reports no page after a reset.\<close>

definition quiet_kernel :: sweep_env where
  "quiet_kernel = \<lparr>se_disabled = False, se_init = True, se_reset = True, se_read = \<lambda>_ _. Some [], se_every = 8\<rparr>"

lemma quiet_kernel_honest: "touched_after quiet_kernel s = {} \<Longrightarrow> kernel_honest quiet_kernel s"
  by (simp add: kernel_honest_def quiet_kernel_def filter_paged_def pages_apart_def)

lemma run_resets: "touched_after quiet_kernel run_written = {}"
  by (simp add: touched_after_def quiet_kernel_def run_icd resets_def try_softdirty_def)

section \<open>After a submit the worker has the application's bytes\<close>

text \<open>
  C1: a submit ships what the application wrote. In every reachable state of driver, worker and kernel
  in which the connection has lost no answer and no free has swallowed an exception of its upload,
  whatever else failed before, the sweep of a submit is never refused by the worker, it succeeds
  when the connection carries its calls, and when it succeeds the worker's memory holds the
  application's bytes for every allocation that was ever mapped. In every reachable state the
  application's bytes are not touched.
\<close>

theorem submit_syncs:
  assumes "mem_reachable s" "kernel_honest env s" "0 < se_every env"
    and "submit_flush env link (ms_icd s, ms_worker s) = (r, i, mm)"
  shows "shadows (ic_tracker i) = shadows (ms_tracker s) \<and>
    (\<not> ms_answer_lost s \<longrightarrow> r \<noteq> Refused \<and> ((\<forall>n. link n = Carried) \<longrightarrow> r = Shipped)) \<and>
    (\<not> ms_answer_lost s \<longrightarrow> \<not> ms_swallowed s \<longrightarrow> r = Shipped \<longrightarrow>
      (\<forall>m b. shadows (ms_tracker s) m = Some b \<longrightarrow> b \<noteq> [] \<longrightarrow> mock_view mm m = Some b))"
proof -
  note o = submit_flush_ok [OF conjunct1 [OF reachable_ok [OF assms(1)]] assms(2-4)]
  have "mock_view mm m = Some b"
    if "\<not> ms_answer_lost s" "\<not> ms_swallowed s" "r = Shipped" "shadows (ms_tracker s) m = Some b" "b \<noteq> []" for m b
    using linked_view(2) [of "ic_tracker i" mm m b 0] o(2,4,5) that by simp
  then show ?thesis using o(2,4) by blast
qed

theorem submit_syncs_witness:
  "fst (submit_flush quiet_kernel (\<lambda>_. Carried) (ms_icd run_written, ms_worker run_written)) = Shipped \<and>
   mock_view (snd (snd (submit_flush quiet_kernel (\<lambda>_. Carried) (ms_icd run_written, ms_worker run_written)))) 5 =
     Some (''hello'' @ replicate 3 (CHR 0x00))"
proof -
  obtain r i mm where run: "submit_flush quiet_kernel (\<lambda>_. Carried) (ms_icd run_written, ms_worker run_written) = (r, i, mm)"
    by (metis surj_pair)
  have e: "0 < se_every quiet_kernel" by (simp add: quiet_kernel_def)
  show ?thesis
    using submit_syncs [OF run_written_reachable quiet_kernel_honest [OF run_resets] e run] run_shadow run_history by (simp add: run)
qed

text \<open>
  C8: the driver's mirror is the worker's memory. In every reachable state in which the connection has
  lost no answer, the bytes the driver remembers as uploaded are the bytes the worker holds, for every
  allocation that was ever mapped. In every reachable state in which no free has swallowed an
  exception of its upload, an allocation that sweeps skip has no byte waiting.
\<close>

theorem mirror_is_worker:
  assumes "mem_reachable s" "map_of (ms_tracker s) m = Some a" "al_shadow a \<noteq> []"
  shows "length (al_shadow a) = al_size a \<and>
    (\<not> ms_answer_lost s \<longrightarrow> mock_view (ms_worker s) m = Some (al_last_uploaded a)) \<and>
    (\<not> ms_swallowed s \<longrightarrow> al_candidate a \<or> al_shadow a = al_last_uploaded a)"
proof -
  have ok: "system_ok s" using reachable_ok [OF assms(1)] by blast
  then have "alloc_ok a" using tracker_ok_lookup [OF _ assms(2)] by (simp add: system_ok_def)
  moreover have "alloc_linked (ms_worker s) m a" if "\<not> ms_answer_lost s" using ok assms(2) that by (simp add: system_ok_def linked_def)
  moreover have "al_candidate a \<or> al_shadow a = al_last_uploaded a" if "\<not> ms_swallowed s"
    using ok assms(2) that by (auto simp: system_ok_def skips_clean_def)
  ultimately show ?thesis using assms(3) unfolding alloc_linked_def alloc_ok_def by auto
qed

theorem mirror_is_worker_witness:
  "mock_view (ms_worker run_written) 5 = Some (replicate 8 (CHR 0x00)) \<and> al_shadow run_alloc \<noteq> al_last_uploaded run_alloc"
  using mirror_is_worker [OF run_written_reachable, of 5 run_alloc] run_history
  by (simp add: run_written_tracker run_alloc_def eval_nat_numeral)

section \<open>The frames of a sweep fit the protocol\<close>

text \<open>
  C12: the frames of a sweep are inside every cap. In every reachable state a sweep is cut into frames of
  at most 512 ranges and 8 MiB; the encoded request, header included, fits the body of an RPC frame,
  and the worker decodes exactly the request from it.
\<close>

theorem sweep_frames_bounded:
  assumes "mem_reachable s" "kernel_honest env s" "0 < se_every env"
    and "s1 = begin_epoch env (try_softdirty env (ms_icd s))"
    and "snapshot_pending (if ic_softdirty_on s1 then Some (se_read env) else None) (ic_tracker s1) = (t', snap, io)"
    and "f \<in> set (split_for_upload snap kMaxMemoryUploadBytes kFrameMaxRanges)"
  shows "length (ds_payload f) \<le> 8 * 1024 * 1024 \<and> range_count f \<le> 512 \<and>
    length (json_dump 0 (write_header (to_write_request f))) \<le> kMaxBinaryJsonHeaderBytes \<and>
    kRpcHeaderBytes + length (write_to_wire (to_write_request f)) \<le> kMaxFrameBytes \<and>
    write_from_wire (write_to_wire (to_write_request f)) = Inr (to_write_request f)"
proof -
  have s: "system_ok s" using reachable_ok [OF assms(1)] by blast
  have ok: "tracker_ok (ic_tracker s1)" by (rule begin_epoch_keeps(1) [OF s assms(4)])
  have good: "frame_good True t' f"
    using split_good(1) [OF sweep_good [OF ok honest_paged [OF assms(2)] assms(5)]] assms(6) by blast
  have fits: "request_fits True 512 (to_write_request f)"
    using frame_good_request [OF good sweep_tracker_ok(1) [OF ok assms(5)]] by (simp add: kFrameMaxRanges_def)
  have h: "length (json_dump 0 (write_header (to_write_request f))) \<le> 56334" by (rule request_header_bound [OF fits])
  have p: "length (ds_payload f) \<le> 8388608" "range_count f \<le> 512"
    using conjunct1 [OF good [unfolded frame_good_def]]
    by (simp_all add: frame_fits_def kMaxMemoryUploadBytes_def kFrameMaxRanges_def)
  have "length (write_to_wire (to_write_request f)) \<le> 4 + 56334 + 8388608"
    using h p(1) write_to_wire_eq [of "to_write_request f"] by (simp add: to_write_request_def)
  then show ?thesis
    using h p write_wire_rt [OF fits] by (simp add: kMaxBinaryJsonHeaderBytes_def kRpcHeaderBytes_def kMaxFrameBytes_def)
qed

definition run_snapshot :: dirty_snapshot where
  "run_snapshot = \<lparr>ds_uploads = [\<lparr>up_memory = 5, up_ranges = [\<lparr>br_offset = 0, br_size = 8\<rparr>]\<rparr>],
     ds_payload = ''hello'' @ replicate 3 (CHR 0x00)\<rparr>"

lemmas scan_defs = collect_dirty_def interval_chunks_def visit_chunk_def chunk_end_def chunk_of_def chunk_dirty_def slice_def
  emit_def add_upload_def Let_def

lemma one_chunk: "0 < n \<Longrightarrow> n \<le> 4096 \<Longrightarrow> chunks_from 0 n = [0]"
  by (simp add: chunks_from.simps kChunkBytes_def)

lemma run_dirty: "''hello'' @ replicate 3 (CHR 0x00) \<noteq> replicate 8 (CHR 0x00)"
  by (simp add: eval_nat_numeral)

lemma run_chunk: "min kChunkBytes 8 = 8" "4 div kChunkBytes = 0"
  by (simp_all add: kChunkBytes_def)

lemma run_pending:
  "snapshot_pending (Some (se_read quiet_kernel)) (force_rebaseline [(5, run_alloc)]) =
     ([(5, run_alloc\<lparr>al_baseline_done := True\<rparr>)], run_snapshot, \<lparr>io_eligible_bytes = 8, io_diffed_bytes = 8\<rparr>)"
  using run_dirty by (simp add: snapshot_pending_def force_rebaseline_def run_alloc_def sweep_alloc_def sweep_cover_def scan_defs
      run_snapshot_def one_chunk run_chunk)

lemma run_split: "split_for_upload run_snapshot kMaxMemoryUploadBytes kFrameMaxRanges = [run_snapshot]"
  by (simp add: split_for_upload_def split_upload_def split_range.simps append_range_def flush_cur_def run_snapshot_def
      kMaxMemoryUploadBytes_def kFrameMaxRanges_def)

theorem sweep_frames_bounded_witness:
  "write_from_wire (write_to_wire (to_write_request run_snapshot)) = Inr (to_write_request run_snapshot) \<and>
   range_count run_snapshot = 1"
proof -
  define s1 where "s1 = begin_epoch quiet_kernel (try_softdirty quiet_kernel (ms_icd run_written))"
  have s1: "ic_softdirty_on s1" "ic_tracker s1 = force_rebaseline [(5, run_alloc)]"
    by (simp_all add: s1_def begin_epoch_def try_softdirty_def resets_def quiet_kernel_def run_icd)
  have pend: "snapshot_pending (if ic_softdirty_on s1 then Some (se_read quiet_kernel) else None) (ic_tracker s1) =
      ([(5, run_alloc\<lparr>al_baseline_done := True\<rparr>)], run_snapshot, \<lparr>io_eligible_bytes = 8, io_diffed_bytes = 8\<rparr>)"
    using run_pending by (simp only: s1 if_True)
  have e: "0 < se_every quiet_kernel" by (simp add: quiet_kernel_def)
  have "write_from_wire (write_to_wire (to_write_request run_snapshot)) = Inr (to_write_request run_snapshot)"
    using sweep_frames_bounded [OF run_written_reachable quiet_kernel_honest [OF run_resets] e s1_def pend, of run_snapshot]
    by (simp add: run_split)
  then show ?thesis by (simp add: range_count_def run_snapshot_def)
qed

section \<open>An explicit flush of two ranges inside one chunk\<close>

lemma split_range_once:
  assumes "bytes \<noteq> []" "length (ds_payload (sp_cur s)) + length bytes \<le> mp" "sp_cur_ranges s < mr"
  shows "split_range mp mr m off bytes s =
    s\<lparr>sp_cur := \<lparr>ds_uploads = append_range m \<lparr>br_offset = off, br_size = length bytes\<rparr> (ds_uploads (sp_cur s)),
                 ds_payload = ds_payload (sp_cur s) @ bytes\<rparr>, sp_cur_ranges := sp_cur_ranges s + 1\<rparr>"
proof -
  have pos: "0 < length bytes" using assms(1) by simp
  have "\<not> mp \<le> length (ds_payload (sp_cur s))" "mp \<noteq> 0" using pos assms(2) by linarith+
  moreover have "min (length bytes) (mp - length (ds_payload (sp_cur s))) = length bytes" using assms(2) by simp
  ultimately show ?thesis
    using assms by (subst split_range.simps) (simp add: Let_def split_range.simps [of _ _ _ _ "[]"])
qed

text \<open>Up to two ranges of one small chunk are one frame.\<close>

lemma split_small:
  assumes "length p = br_size C" "p \<noteq> []" "length p \<le> 4096" "rs = [C] \<and> q = p \<or> rs = [C, C] \<and> q = p @ p"
    and snap: "snap = \<lparr>ds_uploads = [\<lparr>up_memory = m, up_ranges = rs\<rparr>], ds_payload = q\<rparr>"
  shows "split_for_upload snap kMaxMemoryUploadBytes kFrameMaxRanges = [snap]"
proof -
  have C: "\<lparr>br_offset = br_offset C, br_size = length p\<rparr> = C" using assms(1) by (cases C) simp
  show ?thesis
    using assms(2-4)
    by (auto simp: split_for_upload_def split_upload_def split_range_once append_range_def flush_cur_def snap
        kMaxMemoryUploadBytes_def kFrameMaxRanges_def assms(1) [symmetric] C)
qed

lemma one_chunk_of:
  assumes "br_offset iv div kChunkBytes = (br_end iv - 1) div kChunkBytes" "0 < br_size iv" "br_end iv \<le> n"
  shows "interval_chunks n iv = [br_offset iv div kChunkBytes * kChunkBytes]"
proof -
  let ?c = "br_offset iv div kChunkBytes * kChunkBytes"
  have "(br_end iv - 1) mod kChunkBytes < kChunkBytes" by (simp add: kChunkBytes_def)
  moreover have "(br_end iv - 1) div kChunkBytes * kChunkBytes + (br_end iv - 1) mod kChunkBytes = br_end iv - 1" by (rule div_mult_mod_eq)
  ultimately have "br_end iv \<le> ?c + kChunkBytes" using assms(2) unfolding assms(1) by linarith
  moreover have "?c < br_end iv" using assms(2) div_times_less_eq_dividend [of "br_offset iv" kChunkBytes] by linarith
  moreover have "min (br_end iv) n = br_end iv" using assms(3) by simp
  ultimately show ?thesis
    by (simp add: interval_chunks_def chunks_from.simps [of ?c] chunks_from.simps [of "?c + kChunkBytes"])
qed

lemma collect_same_chunk:
  assumes "chunk_dirty a c" "concat (map (interval_chunks (al_size a)) cover) = replicate n c"
  shows "n = 1 \<Longrightarrow> collect_dirty a cover [] = ([chunk_of a c], slice (al_shadow a) (chunk_of a c))"
    "n = 2 \<Longrightarrow> collect_dirty a cover [] =
       ([chunk_of a c, chunk_of a c], slice (al_shadow a) (chunk_of a c) @ slice (al_shadow a) (chunk_of a c))"
  using assms by (simp_all add: collect_dirty_def visit_chunk_def emit_def Let_def numeral_2_eq_2)

text \<open>A range of a mapped allocation as the application names it.\<close>

definition app_range :: "nat \<Rightarrow> brange \<Rightarrow> mem_range" where
  "app_range m iv = \<lparr>mr_memory = m, mr_offset = br_offset iv, mr_size = br_size iv\<rparr>"

lemma app_range_extent:
  assumes "map_of t m = Some a" "al_is_mapped a" "al_size a < 2 ^ 64" "al_mapped_offset a + al_mapped_size a \<le> al_size a"
    and "0 < br_size iv" "br_size iv \<noteq> kWholeSize" "al_mapped_offset a \<le> br_offset iv" "br_end iv \<le> al_mapped_offset a + al_mapped_size a"
  shows "flush_extent t (app_range m iv) = Inr iv"
  using assms by (cases iv) (simp add: flush_extent_def app_range_def add_overflows_def)

lemma twice_refused:
  assumes "br_offset C < 2 ^ 64" "br_size C < 2 ^ 64" "0 < br_size C"
  shows "\<exists>e. decode_uploads [upload_to_json \<lparr>up_memory = m, up_ranges = [C, C]\<rparr>] [] 0 [] = Inl e"
proof -
  have g: "get_handle (range_to_json C) ''offset'' = br_offset C" "get_handle (range_to_json C) ''size'' = br_size C"
    using assms(1,2) by (auto simp: range_to_json_def json_find_obj_of intro!: get_handle_value)
  have "\<exists>e. decode_ranges [range_to_json C, range_to_json C] None 0 [] = Inl e" using assms(3) by (simp add: g Let_def)
  then show ?thesis by (auto simp: upload_to_json_def array_field_def json_find_obj_of Let_def simp del: decode_ranges.simps)
qed

lemma write_undecodable:
  assumes "\<exists>e. write_from_wire (write_to_wire req) = Inl e"
  shows "\<exists>e. write_memory_ranges fate i req mm = (Inl e, mm)"
  using assms by (cases fate) (auto simp: write_memory_ranges_def serve_request_def write_op_handler_def rpc_response_def
      response_value_def rpc_status_code_def)

text \<open>
  C32: a valid flush that fails. In any reachable state, the application flushes two ranges of a mapped
  allocation that lie in one chunk, with a gap between them, and some byte of the chunk is dirty. The
  scan visits the chunk once per range, the snapshot names it twice, and the worker's decoder refuses
  the request: the flush fails with no byte uploaded, whatever the connection does. With one of the
  ranges alone it succeeds when the connection carries its calls and has lost no answer.
\<close>

theorem flush_two_ranges_refused:
  assumes "mem_reachable s" "map_of (ms_tracker s) m = Some a" "al_is_mapped a"
    and "0 < br_size r1" "0 < br_size r2" "al_mapped_offset a \<le> br_offset r1" "br_end r1 < br_offset r2"
    and "br_end r2 \<le> al_mapped_offset a + al_mapped_size a" "br_offset r1 div kChunkBytes = (br_end r2 - 1) div kChunkBytes"
    and "chunk_dirty a (br_offset r1 div kChunkBytes * kChunkBytes)"
  shows "flush_mapped_memory_ranges link [app_range m r1, app_range m r2] (ms_icd s, ms_worker s) =
      (FlushOutOfDeviceMemory, ms_icd s, ms_worker s) \<and>
    (\<not> ms_answer_lost s \<longrightarrow> fst (flush_mapped_memory_ranges (\<lambda>_. Carried) [app_range m r1] (ms_icd s, ms_worker s)) = FlushSuccess)"
proof -
  let ?t = "ms_tracker s"
  have sys: "system_ok s" using reachable_ok [OF assms(1)] by blast
  then have ok: "tracker_ok ?t" by (simp add: system_ok_def)
  have aok: "al_size a < 2 ^ 64" "length (al_shadow a) = al_size a" "al_mapped_offset a + al_mapped_size a \<le> al_size a"
    using tracker_ok_lookup [OF ok assms(2)] assms(3) by (auto simp: alloc_ok_def)
  define c where "c = br_offset r1 div kChunkBytes * kChunkBytes"
  define C where "C = chunk_of a c"
  define p where "p = slice (al_shadow a) C"
  have "br_offset r1 div kChunkBytes * kChunkBytes \<le> br_offset r1" by (rule div_times_less_eq_dividend)
  moreover have "br_offset r1 < al_size a" using assms(4-8) aok(3) by linarith
  ultimately have "c < al_size a" unfolding c_def by linarith
  then have cs: "chunk_start a c" by (simp add: chunk_start_def c_def)
  note cb = chunk_bounds(1) [OF cs] chunk_bounds(2) [of a c]
  have C: "0 < br_size C" "br_offset C < 2 ^ 64" "br_size C < 2 ^ 64" "br_size C \<le> 4096" "br_end C \<le> length (al_shadow a)"
    using cb aok(1,2) by (auto simp: C_def chunk_of_def chunk_end_def kChunkBytes_def)
  have p: "length p = br_size C" "p \<noteq> []" using C(1,5) by (auto simp: p_def slice_def)
  have mid: "br_offset r2 div kChunkBytes = br_offset r1 div kChunkBytes" "(br_end r1 - 1) div kChunkBytes = br_offset r1 div kChunkBytes"
    using assms(4-9) div_le_mono [of "br_offset r1" "br_offset r2" kChunkBytes] div_le_mono [of "br_offset r2" "br_end r2 - 1" kChunkBytes]
      div_le_mono [of "br_offset r1" "br_end r1 - 1" kChunkBytes] div_le_mono [of "br_end r1 - 1" "br_end r2 - 1" kChunkBytes]
    by linarith+
  have ch: "interval_chunks (al_size a) r1 = [c]" "interval_chunks (al_size a) r2 = [c]"
    using assms(4-9) aok(3) mid one_chunk_of [of r1 "al_size a"] one_chunk_of [of r2 "al_size a"] by (simp_all add: c_def)
  have whole: "br_size r1 \<noteq> kWholeSize" "br_size r2 \<noteq> kWholeSize"
    using assms(4-8) aok(1,3) by (auto simp: kWholeSize_def)
  have ext: "flush_extent ?t (app_range m r1) = Inr r1" "flush_extent ?t (app_range m r2) = Inr r2"
    using assms(4-8) aok(1,3) whole by (auto intro!: app_range_extent [OF assms(2,3)])
  have dirty: "chunk_dirty a c" using assms(10) by (simp add: c_def)
  define one where "one = \<lparr>ds_uploads = [\<lparr>up_memory = m, up_ranges = [C]\<rparr>], ds_payload = p\<rparr>"
  define two where "two = \<lparr>ds_uploads = [\<lparr>up_memory = m, up_ranges = [C, C]\<rparr>], ds_payload = p @ p\<rparr>"
  have s1: "snapshot_explicit [app_range m r1] ?t = Inr one"
    using collect_same_chunk(1) [OF dirty, of "[r1]" 1] ch assms(2) ext(1)
    by (simp add: snapshot_explicit_def merge_cover_def one_def add_upload_def C_def p_def app_range_def empty_snapshot_def)
  have s2: "snapshot_explicit [app_range m r1, app_range m r2] ?t = Inr two"
    using collect_same_chunk(2) [OF dirty, of "[r1, r2]" 2] ch assms(2,7) ext
    by (simp add: snapshot_explicit_def merge_cover_def two_def add_upload_def C_def p_def app_range_def empty_snapshot_def numeral_2_eq_2)
  have fr: "split_for_upload two kMaxMemoryUploadBytes kFrameMaxRanges = [two]"
    using p C(4) by (intro split_small [of p C "[C, C]" "p @ p", OF _ _ _ _ two_def]) auto
  have good2: "snap_good False ?t two" by (rule snapshot_explicit_good [OF ok s2])
  have "frame_good False ?t two" using split_good(1) [OF good2] fr by simp
  then have fits: "request_fits False 512 (to_write_request two)" using frame_good_request [OF _ ok] by (simp add: kFrameMaxRanges_def)
  have "length (json_dump 0 (write_header (to_write_request two))) \<le> 65536" using request_header_bound [OF fits] by simp
  moreover have "length (wr_payload (to_write_request two)) \<le> 8388608" using p(1) C(4) by (simp add: to_write_request_def two_def)
  ultimately have "\<exists>e. write_from_wire (write_to_wire (to_write_request two)) = Inl e"
    using write_envelope_rt [of "to_write_request two"] twice_refused [OF C(2,3,1), of m]
    by (auto simp: to_write_request_def two_def)
  from write_undecodable [OF this] obtain e where
    "write_memory_ranges (link 0) (u32 0) (to_write_request two) (ms_worker s) = (Inl e, ms_worker s)" by blast
  then have "ship_snapshot link two (?t, ms_worker s) = (Threw e, ?t, ms_worker s)" by (simp add: ship_snapshot_def fr)
  then have "flush_mapped_memory_ranges link [app_range m r1, app_range m r2] (ms_icd s, ms_worker s) =
      (FlushOutOfDeviceMemory, ms_icd s, ms_worker s)"
    by (simp add: flush_mapped_memory_ranges_def s2) (simp add: two_def)
  moreover have "fst (flush_mapped_memory_ranges (\<lambda>_. Carried) [app_range m r1] (ms_icd s, ms_worker s)) = FlushSuccess"
    if "\<not> ms_answer_lost s"
  proof -
    have "snap_good False ?t one" by (rule snapshot_explicit_good [OF ok s1])
    then have g: "snap_good True ?t one" by (simp add: snap_good_def snap_ok_def uploads_ok_def ranges_ok_def one_def)
    obtain r t mm where sh: "ship_snapshot (\<lambda>_. Carried) one (?t, ms_worker s) = (r, t, mm)" by (metis surj_pair)
    have "r = Shipped" using ship_snapshot_linked [OF g _ sh] sys that by (simp add: system_ok_def)
    then show ?thesis using sh by (simp add: flush_mapped_memory_ranges_def s1)
  qed
  ultimately show ?thesis by blast
qed

theorem flush_two_ranges_refused_witness:
  "flush_mapped_memory_ranges (\<lambda>_. Carried)
     [\<lparr>mr_memory = 5, mr_offset = 0, mr_size = 2\<rparr>, \<lparr>mr_memory = 5, mr_offset = 4, mr_size = 2\<rparr>]
     (ms_icd run_written, ms_worker run_written) = (FlushOutOfDeviceMemory, ms_icd run_written, ms_worker run_written)"
proof -
  have "chunk_dirty run_alloc 0"
    using run_dirty by (simp add: chunk_dirty_def chunk_of_def chunk_end_def slice_def run_alloc_def run_chunk)
  then show ?thesis
    using flush_two_ranges_refused [OF run_written_reachable, of 5 run_alloc "\<lparr>br_offset = 0, br_size = 2\<rparr>" "\<lparr>br_offset = 4, br_size = 2\<rparr>"
        "\<lambda>_. Carried"]
    by (simp add: run_written_tracker run_alloc_def kChunkBytes_def app_range_def)
qed

section \<open>The upload before the free of a leased allocation\<close>

text \<open>
  C33: bytes that are never uploaded. The upload before a free starts a new epoch of the page filter
  and then fails with an exception; no new baseline is forced, as a submit would do. The next submit
  reports that everything is shipped, with an honest kernel and a connection that carries every call,
  but the worker's memory does not have the application's bytes.
\<close>

theorem free_flush_stale:
  "\<exists>s env e i mm i' mm'. mem_reachable s \<and> kernel_honest env s \<and>
     free_memory_flush env (\<lambda>_. Lost) True (ms_icd s, ms_worker s) = (Threw e, i, mm) \<and>
     (let s' = \<lparr>ms_icd = i, ms_worker = mm, ms_touched = touched_after env s, ms_answer_lost = False, ms_swallowed = True\<rparr> in
      mem_reachable s' \<and> kernel_honest env s' \<and>
      submit_flush env (\<lambda>_. Carried) (ms_icd s', ms_worker s') = (Shipped, i', mm')) \<and>
     shadows (ic_tracker i') 5 = Some (''hello'' @ replicate 3 (CHR 0x00)) \<and> mock_view mm' 5 = Some (replicate 8 (CHR 0x00))"
proof -
  define t where "t = [(5 :: nat, run_alloc\<lparr>al_baseline_done := True\<rparr>)]"
  define i where "i n = \<lparr>ic_tracker = t, ic_softdirty_tried = True, ic_softdirty_on = True, ic_sweep_counter = n\<rparr>" for n
  have sent: "ship_snapshot (\<lambda>_. Lost) run_snapshot (t, ms_worker run_written) = (Threw ''connection lost'', t, ms_worker run_written)"
    by (simp add: ship_snapshot_def run_split write_memory_ranges_def)
  have "ds_uploads run_snapshot \<noteq> []" by (simp add: run_snapshot_def)
  then have a: "free_memory_flush quiet_kernel (\<lambda>_. Lost) True (ms_icd run_written, ms_worker run_written) =
      (Threw ''connection lost'', i 1, ms_worker run_written)"
    using sent run_pending
    by (simp add: free_memory_flush_def coherent_flush_at_submit_locked_def Let_def begin_epoch_def try_softdirty_def resets_def
        run_icd i_def t_def quiet_kernel_def u64_def)
  have quiet: "snapshot_pending (Some (\<lambda>_ _. Some [])) t = (t, empty_snapshot, \<lparr>io_eligible_bytes = 8, io_diffed_bytes = 0\<rparr>)"
    by (simp add: snapshot_pending_def t_def run_alloc_def sweep_alloc_def sweep_cover_def clamp_admitted_def merge_cover_def
        collect_dirty_def add_upload_def empty_snapshot_def Let_def)
  then have b: "submit_flush quiet_kernel (\<lambda>_. Carried) (i 1, ms_worker run_written) = (Shipped, i 2, ms_worker run_written)"
    by (simp add: submit_flush_def coherent_flush_at_submit_locked_def Let_def begin_epoch_def try_softdirty_def resets_def
        i_def quiet_kernel_def u64_def empty_snapshot_def)
  define s' where "s' = \<lparr>ms_icd = i 1, ms_worker = ms_worker run_written, ms_touched = touched_after quiet_kernel run_written,
    ms_answer_lost = False, ms_swallowed = True\<rparr>"
  have c: "kernel_honest quiet_kernel s'"
    by (rule quiet_kernel_honest, subst touched_after_def) (simp add: run_resets s'_def)
  define fe where "fe = \<lparr>fe_leased = True, fe_retained = True, fe_leaf = None, fe_fallback = Inr True, fe_retained_after = False\<rparr>"
  have "free_memory quiet_kernel (\<lambda>_. Lost) (\<lambda>_. Lost) fe 5 (ms_icd run_written, ms_worker run_written) =
      (FreeFlushThrew ''connection lost'', i 1, ms_worker run_written)"
    using a by (simp add: free_memory_def fe_def)
  from mem_step.free [OF _ quiet_kernel_honest [OF run_resets] _ this] have "mem_step run_written s'"
    by (simp add: s'_def fe_def run_history loses_answer_def quiet_kernel_def)
  then have r: "mem_reachable s'" using run_written_reachable mem_reachable.step by blast
  have d: "shadows (ic_tracker (i 2)) 5 = Some (''hello'' @ replicate 3 (CHR 0x00))"
    "mock_view (ms_worker run_written) 5 = Some (replicate 8 (CHR 0x00))"
    by (simp_all add: i_def t_def shadows_def run_alloc_def mock_view_def object_view_def run_worker)
  have "submit_flush quiet_kernel (\<lambda>_. Carried) (ms_icd s', ms_worker s') = (Shipped, i 2, ms_worker run_written)" using b by (simp add: s'_def)
  then show ?thesis
    using run_written_reachable quiet_kernel_honest [OF run_resets] a c d r unfolding Let_def s'_def by blast
qed

section \<open>Cutting a snapshot into frames loses nothing\<close>

text \<open>
  C31: the frames of a snapshot are the snapshot. For any two positive caps, every frame is inside the caps,
  names each allocation at most once with non-empty ranges, ascending when the snapshot's are, and
  carries one byte per cell; the frames one after the other write the same bytes to the same cells
  in the same order as the uncut snapshot.
\<close>

theorem split_is_snapshot:
  assumes "snap_ok srt snap" "0 < max_payload" "0 < max_ranges"
  shows "(\<forall>f\<in>set (split_for_upload snap max_payload max_ranges). frame_fits srt max_payload max_ranges f) \<and>
    concat (map snap_writes (split_for_upload snap max_payload max_ranges)) = snap_writes snap"
proof -
  note sp = split_for_upload_correct [OF assms]
  have zips: "concat (map snap_writes fs) = zip (concat (map snap_cells fs)) (concat (map ds_payload fs))"
    if "\<forall>f\<in>set fs. length (ds_payload f) = length (snap_cells f)" for fs
    using that by (induction fs) (simp_all add: snap_writes_def)
  have "\<forall>f\<in>set (split_for_upload snap max_payload max_ranges). length (ds_payload f) = length (snap_cells f)"
    using sp(1) by (simp add: frame_fits_def snap_ok_def)
  then show ?thesis using sp zips by (simp add: snap_writes_def)
qed

theorem split_is_snapshot_witness:
  "concat (map snap_writes (split_for_upload run_snapshot 3 2)) = snap_writes run_snapshot \<and>
   snap_writes run_snapshot \<noteq> []"
proof -
  have "snap_ok True run_snapshot"
    by (simp add: snap_ok_def uploads_ok_def ranges_ok_def run_snapshot_def uploads_cells_def upload_cells_def range_cells_def)
  then show ?thesis
    using split_is_snapshot [of True run_snapshot 3 2]
    by (simp add: run_snapshot_def snap_writes_def uploads_cells_def upload_cells_def range_cells_def upt_rec)
qed

end
