(* ===== verification/Window_Registry.thy ===== *)
theory Window_Registry
  imports Prelude
begin

text \<open>
  The worker's window registry (src/vkrelay2/common/sidecar/window_registry.hpp): the table that joins
  a guest toplevel to its host representation. Every mutator returns the new table and an effect the
  backend has to execute. Enumerations that arrive on the wire by a cast keep every 32-bit value, so
  they are numbers with named constants. The three counters wrap at 64 bits.
\<close>

section \<open>Entries and effects\<close>

datatype representation = NoRep | Placeholder | SurfaceRep

record toplevel_geometry =
  tg_x :: int
  tg_y :: int
  tg_width :: nat
  tg_height :: nat

abbreviation no_geometry :: toplevel_geometry where
  "no_geometry \<equiv> \<lparr>tg_x = 0, tg_y = 0, tg_width = 0, tg_height = 0\<rparr>"

definition kZOrderNone :: nat where "kZOrderNone = 0"

definition kVisible :: nat where "kVisible = 0"

definition kHidden :: nat where "kHidden = 1"

definition kIconic :: nat where "kIconic = 2"

datatype effect_kind = NoEffect | CreatePlaceholder | DestroyPlaceholder | PromotePlaceholderToSurface | ApplyGeometry | SetVisibility

record registry_effect =
  ef_kind :: effect_kind
  ef_applied :: bool
  ef_xid :: nat
  ef_placeholder_id :: nat
  ef_surface :: nat
  ef_geometry :: toplevel_geometry
  ef_is_popup :: bool
  ef_owner_xid :: nat
  ef_popup_kind :: nat
  ef_host_apply_seq :: nat
  ef_apply_size :: bool
  ef_z_order :: nat
  ef_visibility_state :: nat

definition no_effect :: registry_effect where
  "no_effect = \<lparr>ef_kind = NoEffect, ef_applied = False, ef_xid = 0, ef_placeholder_id = 0, ef_surface = 0, ef_geometry = no_geometry,
     ef_is_popup = False, ef_owner_xid = 0, ef_popup_kind = 0, ef_host_apply_seq = 0, ef_apply_size = False,
     ef_z_order = kZOrderNone, ef_visibility_state = kVisible\<rparr>"

definition representation_name :: "representation \<Rightarrow> string" where
  "representation_name r = (case r of Placeholder \<Rightarrow> ''placeholder'' | SurfaceRep \<Rightarrow> ''surface'' | NoRep \<Rightarrow> ''none'')"

record reg_entry =
  en_xid :: nat
  en_surface :: nat
  en_representation :: representation
  en_placeholder_id :: nat
  en_toplevel_registered :: bool
  en_generation :: nat
  en_representation_epoch :: nat
  en_role :: string
  en_title :: string
  en_geometry :: toplevel_geometry
  en_extent_authoritative :: bool
  en_last_z_order :: nat
  en_visibility_state :: nat
  en_is_popup :: bool
  en_owner_xid :: nat
  en_popup_kind :: nat
  en_shown :: bool
  en_last_paint_seq :: nat

definition new_entry :: reg_entry where
  "new_entry = \<lparr>en_xid = 0, en_surface = 0, en_representation = NoRep, en_placeholder_id = 0, en_toplevel_registered = False,
     en_generation = 0, en_representation_epoch = 0, en_role = [], en_title = [], en_geometry = no_geometry,
     en_extent_authoritative = False, en_last_z_order = kZOrderNone, en_visibility_state = kVisible, en_is_popup = False,
     en_owner_xid = 0, en_popup_kind = 0, en_shown = False, en_last_paint_seq = 0\<rparr>"

record registry =
  rg_entries :: "(nat \<times> reg_entry) list"
  rg_next_placeholder_id :: nat
  rg_next_epoch :: nat
  rg_next_host_apply_seq :: nat

definition empty_registry :: registry where
  "empty_registry = \<lparr>rg_entries = [], rg_next_placeholder_id = 0, rg_next_epoch = 0, rg_next_host_apply_seq = 0\<rparr>"

definition find_entry :: "nat \<Rightarrow> registry \<Rightarrow> reg_entry option" where
  "find_entry xid r = map_of (rg_entries r) xid"

definition put_entry :: "nat \<Rightarrow> reg_entry \<Rightarrow> registry \<Rightarrow> registry" where
  "put_entry xid e r = r\<lparr>rg_entries := omap_put xid e (rg_entries r)\<rparr>"

definition erase_entry :: "nat \<Rightarrow> registry \<Rightarrow> registry" where
  "erase_entry xid r = r\<lparr>rg_entries := filter (\<lambda>kv. fst kv \<noteq> xid) (rg_entries r)\<rparr>"

text \<open>Minting a representation epoch: the new value and the registry that remembers it.\<close>

definition mint_epoch :: "registry \<Rightarrow> nat \<times> registry" where
  "mint_epoch r = (let n = u64 (rg_next_epoch r + 1) in (n, r\<lparr>rg_next_epoch := n\<rparr>))"

definition mint_placeholder :: "registry \<Rightarrow> nat \<times> registry" where
  "mint_placeholder r = (let n = u64 (rg_next_placeholder_id r + 1) in (n, r\<lparr>rg_next_placeholder_id := n\<rparr>))"

definition mint_seq :: "registry \<Rightarrow> nat \<times> registry" where
  "mint_seq r = (let n = u64 (rg_next_host_apply_seq r + 1) in (n, r\<lparr>rg_next_host_apply_seq := n\<rparr>))"

definition stamp_geometry_placement :: "registry_effect \<Rightarrow> reg_entry \<Rightarrow> registry \<Rightarrow> registry_effect \<times> registry" where
  "stamp_geometry_placement eff e r =
     (let (n, r') = mint_seq r in
      (eff\<lparr>ef_geometry := en_geometry e, ef_host_apply_seq := n, ef_apply_size := en_extent_authoritative e\<rparr>, r'))"

section \<open>The surface side\<close>

definition bind_surface :: "nat \<Rightarrow> nat \<Rightarrow> registry \<Rightarrow> registry_effect \<times> registry" where
  "bind_surface xid surface r =
     (if xid = 0 then (no_effect, r)
      else case find_entry xid r of
        None \<Rightarrow>
          (let (n, r1) = mint_epoch r in
           (no_effect\<lparr>ef_applied := True, ef_xid := xid, ef_surface := surface\<rparr>,
            put_entry xid (new_entry\<lparr>en_xid := xid, en_surface := surface, en_representation := SurfaceRep,
              en_representation_epoch := n\<rparr>) r1))
      | Some e \<Rightarrow>
          if en_representation e = Placeholder
          then let eff = no_effect\<lparr>ef_kind := PromotePlaceholderToSurface, ef_applied := True, ef_xid := xid,
                           ef_placeholder_id := en_placeholder_id e, ef_surface := surface\<rparr>;
                   (n, r1) = mint_epoch r;
                   e' = e\<lparr>en_surface := surface, en_representation := SurfaceRep, en_placeholder_id := 0, en_representation_epoch := n\<rparr>
               in stamp_geometry_placement eff e' (put_entry xid e' r1)
          else let (n, r1) = mint_epoch r;
                   e' = e\<lparr>en_surface := surface, en_representation := SurfaceRep, en_representation_epoch := n\<rparr>;
                   eff = no_effect\<lparr>ef_applied := True, ef_xid := xid, ef_surface := surface\<rparr>;
                   r2 = put_entry xid e' r1
               in if en_toplevel_registered e' then stamp_geometry_placement eff e' r2 else (eff, r2))"

definition unbind_surface :: "nat \<Rightarrow> nat \<Rightarrow> registry \<Rightarrow> registry_effect \<times> registry" where
  "unbind_surface xid surface r =
     (if xid = 0 then (no_effect, r)
      else case find_entry xid r of
        None \<Rightarrow> (no_effect, r)
      | Some e \<Rightarrow>
          if en_surface e \<noteq> surface then (no_effect, r)
          else (no_effect\<lparr>ef_applied := True\<rparr>,
                if en_toplevel_registered e
                then put_entry xid (e\<lparr>en_surface := 0, en_representation := NoRep\<rparr>) r
                else erase_entry xid r))"

section \<open>The toplevel side\<close>

definition owner_live :: "nat \<Rightarrow> registry \<Rightarrow> bool" where
  "owner_live owner_xid r \<longleftrightarrow>
     owner_xid \<noteq> 0 \<and> (case find_entry owner_xid r of None \<Rightarrow> False | Some e \<Rightarrow> en_toplevel_registered e \<and> \<not> en_is_popup e)"

definition stale :: "nat \<Rightarrow> nat \<Rightarrow> registry \<Rightarrow> bool" where
  "stale xid generation r \<longleftrightarrow> (case find_entry xid r of None \<Rightarrow> False | Some e \<Rightarrow> generation \<le> en_generation e)"

record toplevel_info =
  ti_role :: string
  ti_title :: string
  ti_geometry :: toplevel_geometry
  ti_is_popup :: bool
  ti_owner_xid :: nat
  ti_popup_kind :: nat

definition register_toplevel :: "nat \<Rightarrow> nat \<Rightarrow> toplevel_info \<Rightarrow> registry \<Rightarrow> registry_effect \<times> registry" where
  "register_toplevel xid generation ti r =
     (if xid = 0 \<or> stale xid generation r \<or> ti_is_popup ti \<and> \<not> owner_live (ti_owner_xid ti) r then (no_effect, r)
      else
        let prior = find_entry xid r;
            was_registered = (case prior of None \<Rightarrow> False | Some e \<Rightarrow> en_toplevel_registered e);
            prior_generation = (case prior of None \<Rightarrow> 0 | Some e \<Rightarrow> en_generation e);
            e = (case prior of None \<Rightarrow> new_entry | Some e \<Rightarrow> e)
                  \<lparr>en_xid := xid, en_generation := generation, en_toplevel_registered := True, en_visibility_state := kVisible,
                   en_role := ti_role ti, en_title := ti_title ti, en_geometry := ti_geometry ti, en_is_popup := ti_is_popup ti,
                   en_owner_xid := ti_owner_xid ti, en_popup_kind := ti_popup_kind ti\<rparr>;
            eff = no_effect\<lparr>ef_applied := True, ef_xid := xid\<rparr>
        in if en_surface e \<noteq> 0
           then let e1 = e\<lparr>en_representation := SurfaceRep\<rparr>;
                    (e2, r1) = (if prior \<noteq> None \<and> \<not> was_registered \<and> prior_generation > 0
                                then (let (n, r1) = mint_epoch r in (e1\<lparr>en_representation_epoch := n\<rparr>, r1)) else (e1, r))
                in stamp_geometry_placement eff e2 (put_entry xid e2 r1)
           else if en_representation e = Placeholder then stamp_geometry_placement eff e (put_entry xid e r)
           else let (pid, r1) = mint_placeholder r;
                    (n, r2) = mint_epoch r1;
                    e1 = e\<lparr>en_representation := Placeholder, en_placeholder_id := pid, en_representation_epoch := n,
                           en_shown := False, en_last_paint_seq := 0\<rparr>
                in stamp_geometry_placement
                     (eff\<lparr>ef_kind := CreatePlaceholder, ef_placeholder_id := pid, ef_geometry := ti_geometry ti,
                          ef_is_popup := ti_is_popup ti, ef_owner_xid := ti_owner_xid ti, ef_popup_kind := ti_popup_kind ti\<rparr>)
                     e1 (put_entry xid e1 r2))"

definition update_toplevel :: "nat \<Rightarrow> nat \<Rightarrow> string \<Rightarrow> toplevel_geometry \<Rightarrow> nat \<Rightarrow> registry \<Rightarrow> registry_effect \<times> registry" where
  "update_toplevel xid generation role geometry z_order r =
     (if xid = 0 \<or> stale xid generation r then (no_effect, r)
      else case find_entry xid r of
        None \<Rightarrow> (no_effect, r)
      | Some e \<Rightarrow>
          let prior = en_geometry e;
              has_geometry = (tg_width geometry > 0 \<and> tg_height geometry > 0);
              effective = (if has_geometry then geometry else prior);
              pos_changed = (has_geometry \<and> (tg_x effective \<noteq> tg_x prior \<or> tg_y effective \<noteq> tg_y prior));
              size_changed = (has_geometry \<and> (tg_width effective \<noteq> tg_width prior \<or> tg_height effective \<noteq> tg_height prior));
              e' = e\<lparr>en_generation := generation, en_role := (if role = [] then en_role e else role), en_geometry := effective,
                     en_extent_authoritative := en_extent_authoritative e \<or> size_changed,
                     en_last_z_order := (if z_order \<noteq> kZOrderNone then z_order else en_last_z_order e)\<rparr>;
              eff = no_effect\<lparr>ef_applied := True, ef_xid := xid\<rparr>;
              r1 = put_entry xid e' r
          in if pos_changed \<or> size_changed \<or> z_order \<noteq> kZOrderNone
             then let (n, r2) = mint_seq r1 in
                  (eff\<lparr>ef_kind := ApplyGeometry, ef_geometry := effective, ef_host_apply_seq := n,
                       ef_apply_size := en_extent_authoritative e', ef_z_order := z_order\<rparr>, r2)
             else (eff, r1))"

definition set_visibility :: "nat \<Rightarrow> nat \<Rightarrow> nat \<Rightarrow> registry \<Rightarrow> registry_effect \<times> registry" where
  "set_visibility xid generation state r =
     (if xid = 0 \<or> stale xid generation r then (no_effect, r)
      else case find_entry xid r of
        None \<Rightarrow> (no_effect, r)
      | Some e \<Rightarrow>
          let r1 = put_entry xid (e\<lparr>en_generation := generation, en_visibility_state := state\<rparr>) r;
              eff = no_effect\<lparr>ef_applied := True, ef_xid := xid\<rparr>
          in if en_visibility_state e \<noteq> state
             then let (n, r2) = mint_seq r1 in
                  (eff\<lparr>ef_kind := SetVisibility, ef_visibility_state := state, ef_host_apply_seq := n\<rparr>, r2)
             else (eff, r1))"

definition unregister_toplevel :: "nat \<Rightarrow> nat \<Rightarrow> registry \<Rightarrow> registry_effect \<times> registry" where
  "unregister_toplevel xid generation r =
     (if xid = 0 \<or> stale xid generation r then (no_effect, r)
      else case find_entry xid r of
        None \<Rightarrow> (no_effect, r)
      | Some e \<Rightarrow>
          let eff = no_effect\<lparr>ef_applied := True, ef_xid := xid\<rparr> in
          if en_representation e = Placeholder
          then (eff\<lparr>ef_kind := DestroyPlaceholder, ef_placeholder_id := en_placeholder_id e\<rparr>, erase_entry xid r)
          else if en_surface e = 0 then (eff, erase_entry xid r)
          else (eff, put_entry xid (e\<lparr>en_generation := generation, en_toplevel_registered := False, en_role := [], en_title := [],
                       en_geometry := no_geometry, en_extent_authoritative := False, en_last_z_order := kZOrderNone\<rparr>) r))"

definition owned_popup :: "nat \<Rightarrow> reg_entry \<Rightarrow> bool" where
  "owned_popup owner_xid e \<longleftrightarrow> en_is_popup e \<and> en_owner_xid e = owner_xid"

definition orphan_effect :: "nat \<Rightarrow> reg_entry \<Rightarrow> registry_effect" where
  "orphan_effect owner_xid e =
     (let eff = no_effect\<lparr>ef_applied := True, ef_xid := en_xid e, ef_is_popup := True, ef_owner_xid := owner_xid\<rparr> in
      if en_representation e = Placeholder
      then eff\<lparr>ef_kind := DestroyPlaceholder, ef_placeholder_id := en_placeholder_id e\<rparr> else eff)"

definition take_orphaned_popups :: "nat \<Rightarrow> registry \<Rightarrow> registry_effect list \<times> registry" where
  "take_orphaned_popups owner_xid r =
     (if owner_xid = 0 then ([], r)
      else (map (\<lambda>kv. orphan_effect owner_xid (snd kv)) (filter (\<lambda>kv. owned_popup owner_xid (snd kv)) (rg_entries r)),
            r\<lparr>rg_entries := filter (\<lambda>kv. \<not> owned_popup owner_xid (snd kv)) (rg_entries r)\<rparr>))"

section \<open>Chrome paint\<close>

record paint_decision =
  pd_accepted :: bool
  pd_first_paint :: bool
  pd_placeholder_id :: nat

definition paintable :: "nat \<Rightarrow> nat \<Rightarrow> nat \<Rightarrow> registry \<Rightarrow> reg_entry option" where
  "paintable xid lifecycle_generation seq r =
     (case find_entry xid r of
        None \<Rightarrow> None
      | Some e \<Rightarrow>
          if en_representation e \<noteq> Placeholder \<or> lifecycle_generation \<noteq> en_generation e \<or> seq \<le> en_last_paint_seq e
          then None else Some e)"

definition accept_placeholder_paint :: "nat \<Rightarrow> nat \<Rightarrow> nat \<Rightarrow> registry \<Rightarrow> paint_decision" where
  "accept_placeholder_paint xid lifecycle_generation seq r =
     (case paintable xid lifecycle_generation seq r of
        None \<Rightarrow> \<lparr>pd_accepted = False, pd_first_paint = False, pd_placeholder_id = 0\<rparr>
      | Some e \<Rightarrow> \<lparr>pd_accepted = True, pd_first_paint = \<not> en_shown e, pd_placeholder_id = en_placeholder_id e\<rparr>)"

definition commit_placeholder_paint :: "nat \<Rightarrow> nat \<Rightarrow> nat \<Rightarrow> registry \<Rightarrow> bool \<times> registry" where
  "commit_placeholder_paint xid lifecycle_generation seq r =
     (case paintable xid lifecycle_generation seq r of
        None \<Rightarrow> (False, r)
      | Some e \<Rightarrow> (True, put_entry xid (e\<lparr>en_shown := True, en_last_paint_seq := seq\<rparr>) r))"

section \<open>Accessors\<close>

definition at_entry :: "'a \<Rightarrow> (reg_entry \<Rightarrow> 'a) \<Rightarrow> nat \<Rightarrow> registry \<Rightarrow> 'a" where
  "at_entry d f xid r = (case find_entry xid r of None \<Rightarrow> d | Some e \<Rightarrow> f e)"

definition surface_for_xid :: "nat \<Rightarrow> registry \<Rightarrow> nat" where
  "surface_for_xid = at_entry 0 en_surface"

definition representation_for_xid :: "nat \<Rightarrow> registry \<Rightarrow> representation" where
  "representation_for_xid = at_entry NoRep en_representation"

definition placeholder_id_for_xid :: "nat \<Rightarrow> registry \<Rightarrow> nat" where
  "placeholder_id_for_xid = at_entry 0 en_placeholder_id"

definition toplevel_registered :: "nat \<Rightarrow> registry \<Rightarrow> bool" where
  "toplevel_registered = at_entry False en_toplevel_registered"

definition generation_for_xid :: "nat \<Rightarrow> registry \<Rightarrow> nat" where
  "generation_for_xid = at_entry 0 en_generation"

definition visibility_state_for_xid :: "nat \<Rightarrow> registry \<Rightarrow> nat" where
  "visibility_state_for_xid = at_entry kVisible en_visibility_state"

definition is_popup :: "nat \<Rightarrow> registry \<Rightarrow> bool" where
  "is_popup = at_entry False en_is_popup"

definition epoch_for_xid :: "nat \<Rightarrow> registry \<Rightarrow> nat" where
  "epoch_for_xid = at_entry 0 en_representation_epoch"

definition placeholder_shown :: "nat \<Rightarrow> registry \<Rightarrow> bool" where
  "placeholder_shown = at_entry False en_shown"

definition last_paint_seq :: "nat \<Rightarrow> registry \<Rightarrow> nat" where
  "last_paint_seq = at_entry 0 en_last_paint_seq"

text \<open>The extents: whether one is known, width and height.\<close>

definition authoritative_extent_for_xid :: "nat \<Rightarrow> registry \<Rightarrow> bool \<times> nat \<times> nat" where
  "authoritative_extent_for_xid = at_entry (False, 0, 0)
     (\<lambda>e. if \<not> en_extent_authoritative e then (False, 0, 0) else (True, tg_width (en_geometry e), tg_height (en_geometry e)))"

definition geometry_for_xid :: "nat \<Rightarrow> registry \<Rightarrow> bool \<times> nat \<times> nat" where
  "geometry_for_xid = at_entry (False, 0, 0)
     (\<lambda>e. if tg_width (en_geometry e) = 0 \<or> tg_height (en_geometry e) = 0 then (False, 0, 0)
          else (True, tg_width (en_geometry e), tg_height (en_geometry e)))"

definition owned_popups :: "nat \<Rightarrow> registry \<Rightarrow> (nat \<times> nat) list" where
  "owned_popups owner_xid r =
     (if owner_xid = 0 then []
      else map (\<lambda>kv. (en_xid (snd kv), en_visibility_state (snd kv))) (filter (\<lambda>kv. owned_popup owner_xid (snd kv)) (rg_entries r)))"

definition wants_placeholder :: "nat \<Rightarrow> nat \<Rightarrow> registry \<Rightarrow> bool" where
  "wants_placeholder xid placeholder_id r =
     at_entry False (\<lambda>e. en_representation e = Placeholder \<and> en_placeholder_id e = placeholder_id) xid r"

definition wants_popup :: "nat \<Rightarrow> nat \<Rightarrow> nat \<Rightarrow> registry \<Rightarrow> bool" where
  "wants_popup xid placeholder_id owner_xid r \<longleftrightarrow> wants_placeholder xid placeholder_id r \<and> owner_live owner_xid r"

definition registry_snapshot :: "registry \<Rightarrow> reg_entry list" where
  "registry_snapshot r = map snd (rg_entries r)"

definition placeholder_count :: "registry \<Rightarrow> nat" where
  "placeholder_count r = length (filter (\<lambda>kv. en_representation (snd kv) = Placeholder) (rg_entries r))"

end
