(* ===== verification/Registry_Correct.thy ===== *)
theory Registry_Correct
  imports Window_Registry
begin

text \<open>
  The invariant of the window registry and what one operation does: to the set of placeholder windows,
  to the epochs of the representations, and to the sequence numbers of the effects.
\<close>

section \<open>The table as a map\<close>

lemma find_put [simp]: "find_entry k (put_entry x e r) = (if k = x then Some e else find_entry k r)"
  by (simp add: find_entry_def put_entry_def map_of_omap_put)

lemma map_of_filter_key: "map_of (filter (\<lambda>kv. fst kv \<noteq> x) kvs) k = (if k = x then None else map_of kvs k)"
  by (induction kvs) auto

lemma find_erase [simp]: "find_entry k (erase_entry x r) = (if k = x then None else find_entry k r)"
  by (simp add: find_entry_def erase_entry_def map_of_filter_key)

lemma counters_put [simp]:
  "rg_next_placeholder_id (put_entry x e r) = rg_next_placeholder_id r" "rg_next_epoch (put_entry x e r) = rg_next_epoch r"
  "rg_next_host_apply_seq (put_entry x e r) = rg_next_host_apply_seq r"
  "rg_next_placeholder_id (erase_entry x r) = rg_next_placeholder_id r" "rg_next_epoch (erase_entry x r) = rg_next_epoch r"
  "rg_next_host_apply_seq (erase_entry x r) = rg_next_host_apply_seq r"
  by (simp_all add: put_entry_def erase_entry_def)

section \<open>The invariant\<close>

definition entry_ok :: "registry \<Rightarrow> nat \<Rightarrow> reg_entry \<Rightarrow> bool" where
  "entry_ok r k e \<longleftrightarrow>
     k \<noteq> 0 \<and> en_xid e = k \<and> (en_representation e = SurfaceRep \<longleftrightarrow> en_surface e \<noteq> 0) \<and>
     (en_representation e = Placeholder \<longleftrightarrow> en_placeholder_id e \<noteq> 0) \<and>
     (en_representation e = NoRep \<longrightarrow> en_toplevel_registered e) \<and>
     en_placeholder_id e \<le> rg_next_placeholder_id r \<and> 0 < en_representation_epoch e \<and> en_representation_epoch e \<le> rg_next_epoch r"

definition registry_ok :: "registry \<Rightarrow> bool" where
  "registry_ok r \<longleftrightarrow>
     omap_ok (rg_entries r) \<and> (\<forall>k e. find_entry k r = Some e \<longrightarrow> entry_ok r k e) \<and>
     (\<forall>k k' e e'. find_entry k r = Some e \<longrightarrow> find_entry k' r = Some e' \<longrightarrow> k \<noteq> k' \<longrightarrow>
        en_representation_epoch e \<noteq> en_representation_epoch e' \<and> (en_placeholder_id e \<noteq> 0 \<longrightarrow> en_placeholder_id e \<noteq> en_placeholder_id e'))"

lemma registry_okD:
  assumes "registry_ok r" "find_entry k r = Some e"
  shows "k \<noteq> 0" "en_xid e = k" "en_representation e = SurfaceRep \<longleftrightarrow> en_surface e \<noteq> 0"
    "en_representation e = Placeholder \<longleftrightarrow> en_placeholder_id e \<noteq> 0" "en_representation e = NoRep \<longrightarrow> en_toplevel_registered e"
    "en_placeholder_id e \<le> rg_next_placeholder_id r" "0 < en_representation_epoch e" "en_representation_epoch e \<le> rg_next_epoch r"
  using assms by (auto simp: registry_ok_def entry_ok_def)

text \<open>The placeholder windows that the table asks for.\<close>

definition placeholders :: "registry \<Rightarrow> nat set" where
  "placeholders r = {p. p \<noteq> 0 \<and> (\<exists>k e. find_entry k r = Some e \<and> en_placeholder_id e = p)}"

text \<open>Executing an effect on the set of placeholder windows.\<close>

definition execute :: "registry_effect \<Rightarrow> nat set \<Rightarrow> nat set" where
  "execute eff W =
     (case ef_kind eff of
        CreatePlaceholder \<Rightarrow> insert (ef_placeholder_id eff) W
      | DestroyPlaceholder \<Rightarrow> W - {ef_placeholder_id eff}
      | PromotePlaceholderToSurface \<Rightarrow> W - {ef_placeholder_id eff}
      | _ \<Rightarrow> W)"

definition executable :: "registry_effect \<Rightarrow> nat set \<Rightarrow> bool" where
  "executable eff W =
     (case ef_kind eff of
        CreatePlaceholder \<Rightarrow> ef_placeholder_id eff \<noteq> 0 \<and> ef_placeholder_id eff \<notin> W
      | DestroyPlaceholder \<Rightarrow> ef_placeholder_id eff \<in> W
      | PromotePlaceholderToSurface \<Rightarrow> ef_placeholder_id eff \<in> W
      | _ \<Rightarrow> True)"

text \<open>
  What one operation may do: it keeps the invariant, its effect turns the windows of the old table into
  those of the new one, each counter grows by at most one, an epoch is kept, dropped or new, and the
  sequence number of the effect, if it has one, is the next one.
\<close>

definition counters_step :: "registry \<Rightarrow> registry \<Rightarrow> bool" where
  "counters_step r r' \<longleftrightarrow>
     rg_next_placeholder_id r' \<in> {rg_next_placeholder_id r, Suc (rg_next_placeholder_id r)} \<and>
     rg_next_epoch r' \<in> {rg_next_epoch r, Suc (rg_next_epoch r)} \<and>
     rg_next_host_apply_seq r' \<in> {rg_next_host_apply_seq r, Suc (rg_next_host_apply_seq r)}"

definition epoch_step :: "registry \<Rightarrow> registry \<Rightarrow> bool" where
  "epoch_step r r' \<longleftrightarrow>
     (\<forall>k. epoch_for_xid k r' \<in> {epoch_for_xid k r, 0} \<or> rg_next_epoch r < epoch_for_xid k r') \<and>
     (\<forall>k e e'. find_entry k r = Some e \<longrightarrow> find_entry k r' = Some e' \<longrightarrow> en_representation_epoch e' = en_representation_epoch e \<longrightarrow>
        en_placeholder_id e' = en_placeholder_id e \<and> en_surface e' \<in> {en_surface e, 0})"

definition seq_step :: "registry \<Rightarrow> registry_effect \<Rightarrow> registry \<Rightarrow> bool" where
  "seq_step r eff r' \<longleftrightarrow>
     (if ef_host_apply_seq eff = 0 then rg_next_host_apply_seq r' = rg_next_host_apply_seq r
      else ef_host_apply_seq eff = Suc (rg_next_host_apply_seq r) \<and> rg_next_host_apply_seq r' = Suc (rg_next_host_apply_seq r))"

definition good_step :: "registry \<Rightarrow> registry_effect \<times> registry \<Rightarrow> bool" where
  "good_step r er \<longleftrightarrow>
     registry_ok (snd er) \<and> placeholders (snd er) = execute (fst er) (placeholders r) \<and> executable (fst er) (placeholders r) \<and>
     counters_step r (snd er) \<and> epoch_step r (snd er) \<and> seq_step r (fst er) (snd er)"

definition has_room :: "registry \<Rightarrow> bool" where
  "has_room r \<longleftrightarrow>
     rg_next_placeholder_id r < 2 ^ 64 - 1 \<and> rg_next_epoch r < 2 ^ 64 - 1 \<and> rg_next_host_apply_seq r < 2 ^ 64 - 1"

lemma mint_fresh:
  assumes "has_room r"
  shows "mint_epoch r = (Suc (rg_next_epoch r), r\<lparr>rg_next_epoch := Suc (rg_next_epoch r)\<rparr>)"
    "mint_placeholder r = (Suc (rg_next_placeholder_id r), r\<lparr>rg_next_placeholder_id := Suc (rg_next_placeholder_id r)\<rparr>)"
    "mint_seq r = (Suc (rg_next_host_apply_seq r), r\<lparr>rg_next_host_apply_seq := Suc (rg_next_host_apply_seq r)\<rparr>)"
  using assms by (simp_all add: has_room_def mint_epoch_def mint_placeholder_def mint_seq_def u64_def)

section \<open>Changing one entry\<close>

text \<open>A registry that differs in its counters only, each grown by at most one.\<close>

definition bumped :: "registry \<Rightarrow> registry \<Rightarrow> bool" where
  "bumped r r' \<longleftrightarrow> rg_entries r' = rg_entries r \<and> counters_step r r'"

lemma bumped_find: "bumped r r' \<Longrightarrow> find_entry k r' = find_entry k r"
  by (simp add: bumped_def find_entry_def)

lemma bumped_le:
  "bumped r r' \<Longrightarrow> rg_next_placeholder_id r \<le> rg_next_placeholder_id r'"
  "bumped r r' \<Longrightarrow> rg_next_epoch r \<le> rg_next_epoch r'"
  by (auto simp: bumped_def counters_step_def)

text \<open>The windows of the other entries.\<close>

lemma placeholders_others:
  assumes "registry_ok r" "p \<noteq> 0"
  shows "(\<exists>k e. k \<noteq> x \<and> find_entry k r = Some e \<and> en_placeholder_id e = p) \<longleftrightarrow>
    p \<in> placeholders r - {placeholder_id_for_xid x r}"
proof -
  have u: "en_placeholder_id e1 \<noteq> en_placeholder_id e2"
    if "find_entry k r = Some e1" "find_entry k' r = Some e2" "k \<noteq> k'" "en_placeholder_id e1 \<noteq> 0" for k k' e1 e2
    using that assms(1) unfolding registry_ok_def by blast
  have other: "p \<noteq> placeholder_id_for_xid x r" if "find_entry k r = Some e" "k \<noteq> x" "en_placeholder_id e = p" for k e
    using that u [OF that(1) _ that(2)] assms(2) by (cases "find_entry x r") (auto simp: placeholder_id_for_xid_def at_entry_def)
  have same: "en_placeholder_id e = placeholder_id_for_xid x r" if "find_entry x r = Some e" for e
    using that by (simp add: placeholder_id_for_xid_def at_entry_def)
  show ?thesis
  proof
    assume "\<exists>k e. k \<noteq> x \<and> find_entry k r = Some e \<and> en_placeholder_id e = p"
    then show "p \<in> placeholders r - {placeholder_id_for_xid x r}"
      using other assms(2) unfolding placeholders_def by blast
  next
    assume "p \<in> placeholders r - {placeholder_id_for_xid x r}"
    then obtain k e where "find_entry k r = Some e" "en_placeholder_id e = p" "p \<noteq> placeholder_id_for_xid x r"
      unfolding placeholders_def by blast
    moreover from this have "k \<noteq> x" using same by auto
    ultimately show "\<exists>k e. k \<noteq> x \<and> find_entry k r = Some e \<and> en_placeholder_id e = p" by blast
  qed
qed

lemma placeholders_put:
  assumes "registry_ok r" "bumped r r'"
  shows "placeholders (put_entry x e r') = placeholders r - {placeholder_id_for_xid x r} \<union> ({en_placeholder_id e} - {0})" (is "?l = ?r")
proof -
  have mem: "p \<in> placeholders (put_entry x e r') \<longleftrightarrow>
      p \<noteq> 0 \<and> (p = en_placeholder_id e \<or> (\<exists>k e'. k \<noteq> x \<and> find_entry k r = Some e' \<and> en_placeholder_id e' = p))" for p
    unfolding placeholders_def using bumped_find [OF assms(2)] by (auto split: if_splits)
  have z: "0 \<notin> placeholders r" by (simp add: placeholders_def)
  show ?thesis
  proof (rule set_eqI)
    fix p
    show "p \<in> ?l \<longleftrightarrow> p \<in> ?r" using mem [of p] placeholders_others [OF assms(1), of p x] z by (cases "p = 0") auto
  qed
qed

lemma placeholders_erase:
  assumes "registry_ok r"
  shows "placeholders (erase_entry x r) = placeholders r - {placeholder_id_for_xid x r}" (is "?l = ?r")
proof -
  have mem: "p \<in> placeholders (erase_entry x r) \<longleftrightarrow>
      p \<noteq> 0 \<and> (\<exists>k e'. k \<noteq> x \<and> find_entry k r = Some e' \<and> en_placeholder_id e' = p)" for p
    unfolding placeholders_def by (auto split: if_splits)
  have z: "0 \<notin> placeholders r" by (simp add: placeholders_def)
  show ?thesis
  proof (rule set_eqI)
    fix p
    show "p \<in> ?l \<longleftrightarrow> p \<in> ?r" using mem [of p] placeholders_others [OF assms(1), of p x] z by (cases "p = 0") auto
  qed
qed

lemma registry_ok_put:
  assumes ok: "registry_ok r" and b: "bumped r r'" and e: "entry_ok r' x e"
    and ep: "rg_next_epoch r < en_representation_epoch e \<or> en_representation_epoch e = epoch_for_xid x r"
    and pid: "en_placeholder_id e = 0 \<or> rg_next_placeholder_id r < en_placeholder_id e \<or> en_placeholder_id e = placeholder_id_for_xid x r"
  shows "registry_ok (put_entry x e r')"
proof -
  have f: "find_entry k r' = find_entry k r" for k using b by (rule bumped_find)
  have old: "entry_ok r' k e'" if "find_entry k r = Some e'" for k e'
    using registry_okD [OF ok that] bumped_le [OF b] by (auto simp: entry_ok_def)
  have ent: "entry_ok (put_entry x e r') k e' = entry_ok r' k e'" for k e' by (simp add: entry_ok_def)
  have neq: "en_representation_epoch e \<noteq> en_representation_epoch e' \<and> (en_placeholder_id e \<noteq> 0 \<longrightarrow> en_placeholder_id e \<noteq> en_placeholder_id e')"
    if k: "find_entry k r = Some e'" "k \<noteq> x" for k e'
  proof (cases "find_entry x r")
    case None
    then show ?thesis using registry_okD [OF ok k(1)] ep pid e
      by (auto simp: epoch_for_xid_def placeholder_id_for_xid_def at_entry_def entry_ok_def)
  next
    case (Some e0)
    have "en_representation_epoch e0 \<noteq> en_representation_epoch e'" "en_placeholder_id e0 \<noteq> 0 \<longrightarrow> en_placeholder_id e0 \<noteq> en_placeholder_id e'"
      using ok Some k unfolding registry_ok_def by blast+
    then show ?thesis using registry_okD [OF ok k(1)] ep pid Some
      by (auto simp: epoch_for_xid_def placeholder_id_for_xid_def at_entry_def)
  qed
  have "omap_ok (rg_entries (put_entry x e r'))"
    using ok b by (simp add: registry_ok_def put_entry_def bumped_def omap_ok_put)
  moreover have "entry_ok (put_entry x e r') k e'" if "find_entry k (put_entry x e r') = Some e'" for k e'
    using that e old unfolding ent by (auto simp: f split: if_splits)
  moreover have "en_representation_epoch e1 \<noteq> en_representation_epoch e2 \<and> (en_placeholder_id e1 \<noteq> 0 \<longrightarrow> en_placeholder_id e1 \<noteq> en_placeholder_id e2)"
    if e12: "find_entry k (put_entry x e r') = Some e1" "find_entry k' (put_entry x e r') = Some e2" "k \<noteq> k'" for k k' e1 e2
  proof -
    have look: "i = x \<and> e' = e \<or> i \<noteq> x \<and> find_entry i r = Some e'" if "find_entry i (put_entry x e r') = Some e'" for i e'
      using that by (simp add: f split: if_splits)
    consider "k = x" "e1 = e" "find_entry k' r = Some e2" | "k' = x" "e2 = e" "find_entry k r = Some e1"
      | "find_entry k r = Some e1" "find_entry k' r = Some e2"
      using look [OF e12(1)] look [OF e12(2)] e12(3) by blast
    then show ?thesis
    proof cases
      case 1
      then show ?thesis using neq e12(3) by simp
    next
      case 2
      then show ?thesis using neq [of k e1] e12(3) by metis
    next
      case 3
      then show ?thesis using ok e12(3) unfolding registry_ok_def by blast
    qed
  qed
  ultimately show ?thesis unfolding registry_ok_def by blast
qed

lemma registry_ok_sub:
  assumes "registry_ok r" "rg_next_placeholder_id r' = rg_next_placeholder_id r" "rg_next_epoch r' = rg_next_epoch r"
    "omap_ok (rg_entries r')" "\<And>k e. find_entry k r' = Some e \<Longrightarrow> find_entry k r = Some e"
  shows "registry_ok r'"
  unfolding registry_ok_def
proof (intro conjI allI impI)
  fix k e assume "find_entry k r' = Some e"
  then show "entry_ok r' k e" using assms(1,5) unfolding registry_ok_def entry_ok_def assms(2,3) by blast
next
  fix k k' e e' assume "find_entry k r' = Some e" "find_entry k' r' = Some e'" "k \<noteq> k'"
  then show "en_representation_epoch e \<noteq> en_representation_epoch e'" "en_placeholder_id e \<noteq> 0 \<Longrightarrow> en_placeholder_id e \<noteq> en_placeholder_id e'"
    using assms(1,5) unfolding registry_ok_def by blast+
qed (rule assms(4))

lemma registry_ok_erase:
  assumes "registry_ok r"
  shows "registry_ok (erase_entry x r)"
proof (rule registry_ok_sub [OF assms])
  show "omap_ok (rg_entries (erase_entry x r))"
    using assms by (simp add: erase_entry_def registry_ok_def omap_ok_filter)
qed (simp_all split: if_splits)

section \<open>One operation\<close>

lemma placeholder_there: "placeholder_id_for_xid x r \<noteq> 0 \<Longrightarrow> placeholder_id_for_xid x r \<in> placeholders r"
  by (auto simp: placeholder_id_for_xid_def at_entry_def placeholders_def split: option.splits)

lemma no_window_0: "0 \<notin> placeholders r"
  by (simp add: placeholders_def)

lemma placeholder_new: "registry_ok r \<Longrightarrow> rg_next_placeholder_id r < p \<Longrightarrow> p \<notin> placeholders r"
  using registry_okD(6) [of r] by (fastforce simp: placeholders_def)

lemma bumped_simps:
  "bumped r r" "bumped r r' \<Longrightarrow> rg_next_epoch r' = rg_next_epoch r \<Longrightarrow> bumped r (r'\<lparr>rg_next_epoch := Suc (rg_next_epoch r)\<rparr>)"
  "bumped r r' \<Longrightarrow> rg_next_placeholder_id r' = rg_next_placeholder_id r \<Longrightarrow>
     bumped r (r'\<lparr>rg_next_placeholder_id := Suc (rg_next_placeholder_id r)\<rparr>)"
  "bumped r r' \<Longrightarrow> rg_next_host_apply_seq r' = rg_next_host_apply_seq r \<Longrightarrow>
     bumped r (r'\<lparr>rg_next_host_apply_seq := Suc (rg_next_host_apply_seq r)\<rparr>)"
  by (auto simp: bumped_def counters_step_def)

lemma put_bump:
  "(put_entry x e r)\<lparr>rg_next_host_apply_seq := n\<rparr> = put_entry x e (r\<lparr>rg_next_host_apply_seq := n\<rparr>)"
  by (simp add: put_entry_def)

lemma good_put:
  assumes ok: "registry_ok r" and b: "bumped r r'" and e: "entry_ok r' x e"
    and ep: "rg_next_epoch r < en_representation_epoch e \<or>
      (\<exists>e0. find_entry x r = Some e0 \<and> en_representation_epoch e = en_representation_epoch e0 \<and>
         en_placeholder_id e = en_placeholder_id e0 \<and> en_surface e \<in> {en_surface e0, 0})"
    and pid: "en_placeholder_id e = 0 \<or> rg_next_placeholder_id r < en_placeholder_id e \<or> en_placeholder_id e = placeholder_id_for_xid x r"
    and ph: "execute eff (placeholders r) = placeholders r - {placeholder_id_for_xid x r} \<union> ({en_placeholder_id e} - {0})"
    and ex: "executable eff (placeholders r)" and sq: "seq_step r eff r'"
  shows "good_step r (eff, put_entry x e r')"
proof -
  have ep': "rg_next_epoch r < en_representation_epoch e \<or> en_representation_epoch e = epoch_for_xid x r"
    using ep by (auto simp: epoch_for_xid_def at_entry_def)
  have "registry_ok (put_entry x e r')" by (rule registry_ok_put [OF ok b e ep' pid])
  moreover have "placeholders (put_entry x e r') = execute eff (placeholders r)" unfolding ph by (rule placeholders_put [OF ok b])
  moreover have "counters_step r (put_entry x e r')" using b by (simp add: bumped_def counters_step_def)
  moreover have "epoch_step r (put_entry x e r')"
    unfolding epoch_step_def
  proof (intro conjI allI impI)
    show "epoch_for_xid k (put_entry x e r') \<in> {epoch_for_xid k r, 0} \<or> rg_next_epoch r < epoch_for_xid k (put_entry x e r')" for k
      using ep' bumped_find [OF b, of k] by (cases "k = x") (auto simp: epoch_for_xid_def at_entry_def)
  next
    fix k e0 e1
    assume k: "find_entry k r = Some e0" "find_entry k (put_entry x e r') = Some e1"
      "en_representation_epoch e1 = en_representation_epoch e0"
    have "en_representation_epoch e0 \<le> rg_next_epoch r" using registry_okD(8) [OF ok k(1)] .
    then show "en_placeholder_id e1 = en_placeholder_id e0" "en_surface e1 \<in> {en_surface e0, 0}"
      using k ep bumped_find [OF b, of k] by (auto split: if_splits)
  qed
  moreover have "seq_step r eff (put_entry x e r')" using sq by (simp add: seq_step_def)
  ultimately show ?thesis using ex by (simp add: good_step_def)
qed

lemma good_erase:
  assumes ok: "registry_ok r"
    and ph: "execute eff (placeholders r) = placeholders r - {placeholder_id_for_xid x r}"
    and ex: "executable eff (placeholders r)" and sq: "ef_host_apply_seq eff = 0"
  shows "good_step r (eff, erase_entry x r)"
proof -
  have "epoch_step r (erase_entry x r)"
    by (auto simp: epoch_step_def epoch_for_xid_def at_entry_def split: if_splits)
  then show ?thesis
    using registry_ok_erase [OF ok] placeholders_erase [OF ok] ph ex sq
    by (simp add: good_step_def counters_step_def seq_step_def)
qed

lemma good_none: "registry_ok r \<Longrightarrow> good_step r (no_effect, r)"
  by (auto simp: good_step_def no_effect_def execute_def executable_def counters_step_def epoch_step_def seq_step_def)

lemma stamp_put:
  assumes "rg_next_host_apply_seq r < 2 ^ 64 - 1"
  shows "stamp_geometry_placement eff e (put_entry x e' r) =
    (eff\<lparr>ef_geometry := en_geometry e, ef_host_apply_seq := Suc (rg_next_host_apply_seq r), ef_apply_size := en_extent_authoritative e\<rparr>,
     put_entry x e' (r\<lparr>rg_next_host_apply_seq := Suc (rg_next_host_apply_seq r)\<rparr>))"
  using assms by (simp add: stamp_geometry_placement_def mint_seq_def u64_def put_bump)

lemma pid_at:
  "find_entry x r = Some e \<Longrightarrow> placeholder_id_for_xid x r = en_placeholder_id e"
  "find_entry x r = None \<Longrightarrow> placeholder_id_for_xid x r = 0"
  by (simp_all add: placeholder_id_for_xid_def at_entry_def)

lemmas host_defs = execute_def executable_def no_effect_def seq_step_def

lemma bind_surface_good:
  assumes ok: "registry_ok r" and room: "has_room r" and s: "surface \<noteq> 0"
  shows "good_step r (bind_surface xid surface r)"
proof (cases "find_entry xid r")
  case None
  show ?thesis
  proof (cases "xid = 0")
    case False
    then show ?thesis
      using None room s ok
      by (auto simp: bind_surface_def mint_fresh new_entry_def entry_ok_def pid_at host_defs bumped_simps intro!: good_put)
        (auto simp: placeholders_def)
  qed (simp add: bind_surface_def good_none ok)
next
  case (Some e)
  note e = registry_okD [OF ok Some]
  have seq: "rg_next_host_apply_seq r < 2 ^ 64 - 1" using room by (simp add: has_room_def)
  have z: "0 \<notin> placeholders r" by (simp add: placeholders_def)
  show ?thesis
  proof (cases "en_representation e = Placeholder")
    case True
    then have "en_placeholder_id e \<in> placeholders r" using placeholder_there [of xid r] e(4) by (simp add: pid_at(1) [OF Some])
    then show ?thesis
      using Some True e(1,2) ok s seq room
      by (auto simp: bind_surface_def Let_def mint_fresh stamp_put entry_ok_def pid_at host_defs bumped_simps intro!: good_put)
  next
    case False
    then have p0: "en_placeholder_id e = 0" using e(4) by simp
    show ?thesis
      using Some False p0 z e(1,2) ok s seq room
      by (auto simp: bind_surface_def Let_def mint_fresh stamp_put entry_ok_def pid_at host_defs bumped_simps intro!: good_put)
  qed
qed

lemma unbind_surface_good:
  assumes ok: "registry_ok r" and s: "surface \<noteq> 0"
  shows "good_step r (unbind_surface xid surface r)"
proof (cases "find_entry xid r")
  case (Some e)
  note e = registry_okD [OF ok Some]
  show ?thesis
  proof (cases "en_surface e = surface")
    case True
    then have p0: "en_placeholder_id e = 0" using e(3,4) s by simp
    have z: "0 \<notin> placeholders r" by (simp add: placeholders_def)
    show ?thesis
    proof (cases "en_toplevel_registered e")
      case reg: True
      have "good_step r (no_effect\<lparr>ef_applied := True\<rparr>, put_entry xid (e\<lparr>en_surface := 0, en_representation := NoRep\<rparr>) r)"
        by (rule good_put) (use ok e reg p0 z Some in \<open>auto simp: entry_ok_def pid_at host_defs bumped_simps\<close>)
      then show ?thesis using Some True reg e(1) by (simp add: unbind_surface_def)
    next
      case False
      have "good_step r (no_effect\<lparr>ef_applied := True\<rparr>, erase_entry xid r)"
        by (rule good_erase) (use ok p0 z Some in \<open>auto simp: pid_at host_defs\<close>)
      then show ?thesis using Some True False e(1) by (simp add: unbind_surface_def)
    qed
  qed (simp add: unbind_surface_def Some good_none ok)
qed (simp add: unbind_surface_def good_none ok)

text \<open>A change that keeps the representation: no window and no epoch is touched.\<close>

lemma good_same:
  assumes ok: "registry_ok r" and b: "bumped r r'" and e: "find_entry x r = Some e" and k: "ef_kind eff \<in> {NoEffect, ApplyGeometry, SetVisibility}"
    and sq: "seq_step r eff r'"
    and same: "en_xid e' = en_xid e" "en_surface e' = en_surface e" "en_representation e' = en_representation e"
      "en_placeholder_id e' = en_placeholder_id e" "en_toplevel_registered e' = en_toplevel_registered e \<or> en_toplevel_registered e' \<or> en_surface e \<noteq> 0"
      "en_representation_epoch e' = en_representation_epoch e"
  shows "good_step r (eff, put_entry x e' r')"
proof (rule good_put [OF ok b _ _ _ _ _ sq])
  show "entry_ok r' x e'"
    using registry_okD [OF ok e] bumped_le [OF b] same by (auto simp: entry_ok_def)
  show "execute eff (placeholders r) = placeholders r - {placeholder_id_for_xid x r} \<union> ({en_placeholder_id e'} - {0})"
    using k placeholder_there [of x r] no_window_0 [of r]
    by (cases "en_placeholder_id e = 0") (auto simp: execute_def same pid_at(1) [OF e])
  show "executable eff (placeholders r)" using k by (auto simp: executable_def)
qed (use e same in \<open>auto simp: pid_at(1) [OF e]\<close>)

lemma update_toplevel_good:
  assumes ok: "registry_ok r" and room: "has_room r"
  shows "good_step r (update_toplevel xid generation role geometry z_order r)"
proof (cases "find_entry xid r")
  case (Some e)
  have seq: "u64 (Suc (rg_next_host_apply_seq r)) = Suc (rg_next_host_apply_seq r)" using room by (simp add: has_room_def u64_def)
  show ?thesis
    using ok seq
    by (auto simp: update_toplevel_def Some Let_def mint_seq_def put_bump good_none split: prod.splits
        intro!: good_same [OF ok _ Some] bumped_simps) (auto simp: seq_step_def no_effect_def)
qed (simp add: update_toplevel_def good_none ok)

lemma set_visibility_good:
  assumes ok: "registry_ok r" and room: "has_room r"
  shows "good_step r (set_visibility xid generation state r)"
proof (cases "find_entry xid r")
  case (Some e)
  have seq: "u64 (Suc (rg_next_host_apply_seq r)) = Suc (rg_next_host_apply_seq r)" using room by (simp add: has_room_def u64_def)
  show ?thesis
    using ok seq
    by (auto simp: set_visibility_def Some Let_def mint_seq_def put_bump good_none split: prod.splits
        intro!: good_same [OF ok _ Some] bumped_simps) (auto simp: seq_step_def no_effect_def)
qed (simp add: set_visibility_def good_none ok)

lemma unregister_toplevel_good:
  assumes ok: "registry_ok r"
  shows "good_step r (unregister_toplevel xid generation r)"
proof (cases "find_entry xid r")
  case (Some e)
  note e = registry_okD [OF ok Some]
  have z: "0 \<notin> placeholders r" by (simp add: placeholders_def)
  consider "xid = 0 \<or> stale xid generation r" | "\<not> (xid = 0 \<or> stale xid generation r)" "en_representation e = Placeholder"
    | "\<not> (xid = 0 \<or> stale xid generation r)" "en_representation e \<noteq> Placeholder" "en_surface e = 0"
    | "\<not> (xid = 0 \<or> stale xid generation r)" "en_representation e \<noteq> Placeholder" "en_surface e \<noteq> 0"
    by blast
  then show ?thesis
  proof cases
    case 2
    then have "good_step r (no_effect\<lparr>ef_applied := True, ef_xid := xid, ef_kind := DestroyPlaceholder, ef_placeholder_id := en_placeholder_id e\<rparr>,
        erase_entry xid r)"
      using placeholder_there [of xid r] e(4)
      by (intro good_erase [OF ok]) (auto simp: host_defs pid_at(1) [OF Some])
    then show ?thesis using 2 Some by (simp add: unregister_toplevel_def)
  next
    case 3
    then have "good_step r (no_effect\<lparr>ef_applied := True, ef_xid := xid\<rparr>, erase_entry xid r)"
      using e(4) z by (intro good_erase [OF ok]) (auto simp: host_defs pid_at(1) [OF Some])
    then show ?thesis using 3 Some by (simp add: unregister_toplevel_def)
  next
    case 4
    then show ?thesis using Some
      by (auto simp: unregister_toplevel_def intro!: good_same [OF ok _ Some] bumped_simps) (auto simp: host_defs)
  qed (auto simp: unregister_toplevel_def good_none ok)
qed (simp add: unregister_toplevel_def good_none ok)

text \<open>A change that creates a placeholder.\<close>

lemma good_create:
  assumes ok: "registry_ok r" and b: "bumped r r'" and sq: "seq_step r eff r'"
    and eff: "ef_kind eff = CreatePlaceholder" "ef_placeholder_id eff = Suc (rg_next_placeholder_id r)"
    and r': "rg_next_placeholder_id r' = Suc (rg_next_placeholder_id r)" "rg_next_epoch r' = Suc (rg_next_epoch r)"
    and e': "x \<noteq> 0" "en_xid e' = x" "en_surface e' = 0" "en_representation e' = Placeholder"
      "en_placeholder_id e' = Suc (rg_next_placeholder_id r)" "en_representation_epoch e' = Suc (rg_next_epoch r)"
    and old: "placeholder_id_for_xid x r = 0"
  shows "good_step r (eff, put_entry x e' r')"
proof (rule good_put [OF ok b _ _ _ _ _ sq])
  have new: "Suc (rg_next_placeholder_id r) \<notin> placeholders r" using placeholder_new [OF ok] by simp
  show "entry_ok r' x e'" using r' e' by (simp add: entry_ok_def)
  show "execute eff (placeholders r) = placeholders r - {placeholder_id_for_xid x r} \<union> ({en_placeholder_id e'} - {0})"
    using no_window_0 [of r] by (simp add: execute_def eff old e')
  show "executable eff (placeholders r)" using new by (simp add: executable_def eff)
qed (simp_all add: e')

text \<open>A change of an entry that a surface represents: the epoch is kept or new.\<close>

lemma good_surface:
  assumes ok: "registry_ok r" and b: "bumped r r'" and sq: "seq_step r eff r'" and e: "find_entry x r = Some e" "en_surface e \<noteq> 0"
    and eff: "ef_kind eff = NoEffect"
    and e': "en_xid e' = x" "en_surface e' = en_surface e" "en_representation e' = SurfaceRep" "en_placeholder_id e' = en_placeholder_id e"
      "en_representation_epoch e' = en_representation_epoch e \<or>
       en_representation_epoch e' = Suc (rg_next_epoch r) \<and> rg_next_epoch r' = Suc (rg_next_epoch r)"
  shows "good_step r (eff, put_entry x e' r')"
proof (rule good_put [OF ok b _ _ _ _ _ sq])
  note eo = registry_okD [OF ok e(1)]
  have p0: "en_placeholder_id e = 0" using eo(3,4) e(2) by simp
  show "entry_ok r' x e'" using eo(1,7,8) e' e(2) p0 bumped_le [OF b] by (auto simp: entry_ok_def)
  show "execute eff (placeholders r) = placeholders r - {placeholder_id_for_xid x r} \<union> ({en_placeholder_id e'} - {0})"
    using no_window_0 [of r] by (simp add: execute_def eff pid_at(1) [OF e(1)] e' p0)
  show "executable eff (placeholders r)" by (simp add: executable_def eff)
qed (use e' e in \<open>auto simp: pid_at(1) [OF e(1)]\<close>)

lemma register_toplevel_good:
  assumes ok: "registry_ok r" and room: "has_room r"
  shows "good_step r (register_toplevel xid generation ti r)"
proof (cases "xid = 0 \<or> stale xid generation r \<or> ti_is_popup ti \<and> \<not> owner_live (ti_owner_xid ti) r")
  case True
  then show ?thesis by (simp add: register_toplevel_def good_none ok)
next
  case go: False
  have seq: "rg_next_host_apply_seq r < 2 ^ 64 - 1" using room by (simp add: has_room_def)
  have epoch: "u64 (Suc (rg_next_epoch r)) = Suc (rg_next_epoch r)" using room by (simp add: has_room_def u64_def)
  note start = register_toplevel_def if_not_P [OF go]
  note unfold = Let_def mint_fresh [OF room] mint_epoch_def epoch stamp_put
  have steps: "bumped r (r\<lparr>rg_next_placeholder_id := Suc (rg_next_placeholder_id r), rg_next_epoch := Suc (rg_next_epoch r),
      rg_next_host_apply_seq := Suc (rg_next_host_apply_seq r)\<rparr>)"
    "bumped r (r\<lparr>rg_next_epoch := Suc (rg_next_epoch r), rg_next_host_apply_seq := Suc (rg_next_host_apply_seq r)\<rparr>)"
    "bumped r (r\<lparr>rg_next_host_apply_seq := Suc (rg_next_host_apply_seq r)\<rparr>)"
    by (simp_all add: bumped_def counters_step_def)
  show ?thesis
  proof (cases "find_entry xid r")
    case None
    show ?thesis
      unfolding start using go seq by (simp add: unfold None new_entry_def)
        (rule good_create [OF ok steps(1)], simp_all add: seq_step_def pid_at(2) [OF None])
  next
    case (Some e)
    note e = registry_okD [OF ok Some]
    consider "en_surface e \<noteq> 0" | "en_surface e = 0" "en_representation e = Placeholder" | "en_surface e = 0" "en_representation e \<noteq> Placeholder"
      by blast
    then show ?thesis
    proof cases
      case 1
      show ?thesis
        unfolding start using go seq 1
        by (simp add: unfold Some) (auto intro!: good_surface [OF ok _ _ Some] steps simp: seq_step_def no_effect_def)
    next
      case 2
      show ?thesis
        unfolding start using go seq 2
        by (simp add: unfold Some) (rule good_same [OF ok steps(3) Some], simp_all add: seq_step_def no_effect_def e(2))
    next
      case 3
      then have "en_placeholder_id e = 0" using e(4) by simp
      then show ?thesis
        unfolding start using go seq 3
        by (simp add: unfold Some)
          (rule good_create [OF ok steps(1)], simp_all add: seq_step_def pid_at(1) [OF Some])
    qed
  qed
qed

lemma commit_paint_good:
  assumes ok: "registry_ok r"
  shows "good_step r (no_effect, snd (commit_placeholder_paint xid generation seq r))"
proof (cases "paintable xid generation seq r")
  case (Some e)
  then have e: "find_entry xid r = Some e" by (auto simp: paintable_def split: option.splits if_splits)
  show ?thesis
    by (simp add: commit_placeholder_paint_def Some)
      (rule good_same [OF ok _ e], auto simp: seq_step_def no_effect_def bumped_simps)
qed (simp add: commit_placeholder_paint_def good_none ok)

section \<open>Sequences of effects\<close>

fun run_effects :: "registry_effect list \<Rightarrow> nat set \<Rightarrow> nat set option" where
  "run_effects [] W = Some W"
| "run_effects (eff # effs) W = (if executable eff W then run_effects effs (execute eff W) else None)"

lemma run_orphans:
  assumes "\<forall>e\<in>set es. (en_representation e = Placeholder \<longleftrightarrow> en_placeholder_id e \<noteq> 0) \<and> (en_placeholder_id e \<noteq> 0 \<longrightarrow> en_placeholder_id e \<in> W)"
    and "distinct (filter (\<lambda>p. p \<noteq> 0) (map en_placeholder_id es))" and "0 \<notin> W"
  shows "run_effects (map (orphan_effect owner) es) W = Some (W - en_placeholder_id ` set es)"
  using assms
proof (induction es arbitrary: W)
  case (Cons e es)
  show ?case
  proof (cases "en_placeholder_id e = 0")
    case True
    then have "executable (orphan_effect owner e) W" "execute (orphan_effect owner e) W = W" "W - {0} = W"
      using Cons.prems by (simp_all add: orphan_effect_def executable_def execute_def no_effect_def Let_def)
    moreover have "W - en_placeholder_id ` set (e # es) = W - {0} - en_placeholder_id ` set es" using True by auto
    ultimately show ?thesis using Cons.IH [of W] Cons.prems True by simp
  next
    case False
    then have p: "executable (orphan_effect owner e) W" "execute (orphan_effect owner e) W = W - {en_placeholder_id e}"
      using Cons.prems(1) by (simp_all add: orphan_effect_def executable_def execute_def Let_def)
    have "en_placeholder_id e \<notin> en_placeholder_id ` set es" using Cons.prems(2) False by simp
    then have "\<forall>e'\<in>set es. en_placeholder_id e' \<noteq> 0 \<longrightarrow> en_placeholder_id e' \<in> W - {en_placeholder_id e}"
      using Cons.prems(1) by (auto simp: image_iff)
    then have "run_effects (map (orphan_effect owner) es) (W - {en_placeholder_id e}) = Some (W - {en_placeholder_id e} - en_placeholder_id ` set es)"
      using Cons.IH [of "W - {en_placeholder_id e}"] Cons.prems False by simp
    moreover have "W - en_placeholder_id ` set (e # es) = W - {en_placeholder_id e} - en_placeholder_id ` set es" by auto
    ultimately show ?thesis using p by simp
  qed
qed simp

lemma take_orphaned_good:
  assumes ok: "registry_ok r" and run: "take_orphaned_popups owner r = (effs, r')"
  shows "registry_ok r' \<and> run_effects effs (placeholders r) = Some (placeholders r') \<and> counters_step r r' \<and> epoch_step r r' \<and>
    rg_next_host_apply_seq r' = rg_next_host_apply_seq r \<and> (\<forall>eff\<in>set effs. ef_host_apply_seq eff = 0) \<and>
    (\<forall>k e. find_entry k r' = Some e \<longleftrightarrow> find_entry k r = Some e \<and> \<not> (owner \<noteq> 0 \<and> owned_popup owner e))"
proof (cases "owner = 0")
  case True
  then show ?thesis using run ok by (auto simp: take_orphaned_popups_def counters_step_def epoch_step_def)
next
  case False
  let ?own = "\<lambda>kv. owned_popup owner (snd kv)"
  define es where "es = filter ?own (rg_entries r)"
  have r': "r' = r\<lparr>rg_entries := filter (\<lambda>kv. \<not> ?own kv) (rg_entries r)\<rparr>" and effs: "effs = map (orphan_effect owner) (map snd es)"
    using run False by (auto simp: take_orphaned_popups_def es_def)
  have om: "omap_ok (rg_entries r)" using ok by (simp add: registry_ok_def)
  have dist: "distinct (map fst (rg_entries r))" using om by (rule omap_ok_distinct)
  have mem: "find_entry k r = Some e \<longleftrightarrow> (k, e) \<in> set (rg_entries r)" for k e
    using dist by (simp add: find_entry_def)
  have dist': "distinct (map fst (filter P (rg_entries r)))" for P
    using omap_ok_distinct [OF omap_ok_filter [OF om]] .
  have find': "find_entry k r' = Some e \<longleftrightarrow> find_entry k r = Some e \<and> \<not> owned_popup owner e" for k e
    unfolding mem using dist' by (auto simp: find_entry_def r')
  have ok': "registry_ok r'"
    by (rule registry_ok_sub [OF ok]) (simp_all add: r' omap_ok_filter om, use find' in \<open>simp add: r'\<close>)
  have "distinct (filter (\<lambda>p. p \<noteq> 0) (map (\<lambda>kv. en_placeholder_id (snd kv)) es))"
  proof -
    have "distinct (filter (\<lambda>p. p \<noteq> 0) (map (\<lambda>kv. en_placeholder_id (snd kv)) kvs))"
      if "set kvs \<subseteq> set (rg_entries r)" "distinct (map fst kvs)" for kvs
      using that
    proof (induction kvs)
      case (Cons kv kvs)
      have "en_placeholder_id (snd kv) \<noteq> en_placeholder_id (snd kv')" if "kv' \<in> set kvs" "en_placeholder_id (snd kv) \<noteq> 0" for kv'
      proof -
        have "find_entry (fst kv) r = Some (snd kv)" "find_entry (fst kv') r = Some (snd kv')"
          using Cons.prems(1) that(1) unfolding mem by auto
        moreover have "fst kv \<noteq> fst kv'" using Cons.prems(2) that(1) by (auto simp: image_iff)
        ultimately have "find_entry (fst kv) r = Some (snd kv)" "find_entry (fst kv') r = Some (snd kv')" "fst kv \<noteq> fst kv'" by blast+
        then show ?thesis using ok that(2) unfolding registry_ok_def by blast
      qed
      then show ?case using Cons by auto
    qed simp
    then show ?thesis using dist' by (simp add: es_def)
  qed
  moreover have "\<forall>kv\<in>set es. (en_representation (snd kv) = Placeholder \<longleftrightarrow> en_placeholder_id (snd kv) \<noteq> 0) \<and>
      (en_placeholder_id (snd kv) \<noteq> 0 \<longrightarrow> en_placeholder_id (snd kv) \<in> placeholders r)"
  proof
    fix kv assume "kv \<in> set es"
    then have "find_entry (fst kv) r = Some (snd kv)" unfolding mem by (simp add: es_def)
    then show "(en_representation (snd kv) = Placeholder \<longleftrightarrow> en_placeholder_id (snd kv) \<noteq> 0) \<and>
      (en_placeholder_id (snd kv) \<noteq> 0 \<longrightarrow> en_placeholder_id (snd kv) \<in> placeholders r)"
      using registry_okD(4) [OF ok] unfolding placeholders_def by blast
  qed
  ultimately have eff: "run_effects effs (placeholders r) = Some (placeholders r - en_placeholder_id ` snd ` set es)"
    using run_orphans [of "map snd es" "placeholders r" owner] no_window_0 [of r] by (simp add: effs comp_def image_image)
  have "placeholders r' = placeholders r - en_placeholder_id ` snd ` set es"
  proof (rule set_eqI)
    fix p
    have es: "p \<in> en_placeholder_id ` snd ` set es \<longleftrightarrow> (\<exists>k e. find_entry k r = Some e \<and> owned_popup owner e \<and> en_placeholder_id e = p)"
      unfolding mem by (force simp: es_def)
    have u: "k = k'" if "find_entry k r = Some e" "find_entry k' r = Some e'" "en_placeholder_id e = p" "en_placeholder_id e' = p" "p \<noteq> 0" for k k' e e'
      using ok that unfolding registry_ok_def by metis
    show "p \<in> placeholders r' \<longleftrightarrow> p \<in> placeholders r - en_placeholder_id ` snd ` set es"
      unfolding Diff_iff es placeholders_def mem_Collect_eq find' using u by (metis option.inject)
  qed
  moreover have "epoch_step r r'"
    unfolding epoch_step_def
  proof (intro conjI allI impI)
    show "epoch_for_xid k r' \<in> {epoch_for_xid k r, 0} \<or> rg_next_epoch r < epoch_for_xid k r'" for k
    proof (cases "find_entry k r'")
      case (Some e)
      then have "find_entry k r = Some e" using find' by blast
      then show ?thesis using Some by (simp add: epoch_for_xid_def at_entry_def)
    qed (simp add: epoch_for_xid_def at_entry_def)
  qed (use find' in \<open>auto\<close>)
  ultimately show ?thesis
    using ok' eff find' False
    by (auto simp: counters_step_def r' effs orphan_effect_def no_effect_def Let_def)
qed

end
