(* ===== verification/Input_Queue.thy ===== *)
theory Input_Queue
  imports Prelude
begin

text \<open>
  The input ring of the worker (src/vkrelay2/common/sidecar/input_queue.hpp): window events are pushed
  with the epoch of the representation they were captured on, and polled with a cursor. The ring is
  bounded, only pointer motion is disposable, and of each window at most one motion is pending.
\<close>

section \<open>Events\<close>

record input_event =
  ie_xid :: nat
  ie_epoch :: nat
  ie_seq :: nat
  ie_kind :: nat
  ie_client_x :: int
  ie_client_y :: int
  ie_button :: int
  ie_wheel :: int
  ie_vk :: int
  ie_scancode :: int
  ie_modifiers :: nat
  ie_pressed :: bool
  ie_root_x :: int
  ie_root_y :: int
  ie_req_w :: nat
  ie_req_h :: nat
  ie_host_request :: nat

definition kInvalid :: nat where "kInvalid = 0"

definition kMotion :: nat where "kMotion = 1"

definition kGeometryRequest :: nat where "kGeometryRequest = 7"

definition kMaxInputQueueEvents :: nat where "kMaxInputQueueEvents = 4096"

definition kMaxPollInputEvents :: nat where "kMaxPollInputEvents = 256"

definition kMaxInputQueueHardCeiling :: nat where "kMaxInputQueueHardCeiling = kMaxInputQueueEvents + 1024"

datatype input_epoch_decision = Accept | AdoptThenAccept | DropStale

definition reconcile_input_epoch :: "nat \<Rightarrow> nat \<Rightarrow> input_epoch_decision" where
  "reconcile_input_epoch tracked event_epoch =
     (if event_epoch > tracked then AdoptThenAccept else if event_epoch < tracked then DropStale else Accept)"

section \<open>The ring\<close>

record input_queue =
  iq_events :: "input_event list"
  iq_next_seq :: nat
  iq_dropped :: bool

definition empty_queue :: input_queue where
  "empty_queue = \<lparr>iq_events = [], iq_next_seq = 0, iq_dropped = False\<rparr>"

fun erase_first :: "('a \<Rightarrow> bool) \<Rightarrow> 'a list \<Rightarrow> 'a list" where
  "erase_first P [] = []"
| "erase_first P (x # xs) = (if P x then xs else x # erase_first P xs)"

text \<open>The scan from the back that drops the pending motion of a window.\<close>

definition drop_pending_motion :: "nat \<Rightarrow> input_event list \<Rightarrow> input_event list" where
  "drop_pending_motion xid es = rev (erase_first (\<lambda>e. ie_kind e = kMotion \<and> ie_xid e = xid) (rev es))"

definition drop_oldest_motion_locked :: "input_queue \<Rightarrow> bool \<times> input_queue" where
  "drop_oldest_motion_locked q =
     (if list_ex (\<lambda>e. ie_kind e = kMotion) (iq_events q)
      then (True, q\<lparr>iq_events := erase_first (\<lambda>e. ie_kind e = kMotion) (iq_events q), iq_dropped := True\<rparr>)
      else (False, q))"

definition enqueue :: "nat \<Rightarrow> nat \<Rightarrow> input_event \<Rightarrow> input_queue \<Rightarrow> input_queue" where
  "enqueue xid epoch ev q =
     (if xid = 0 \<or> ie_kind ev = kInvalid \<or> ie_kind ev > kGeometryRequest then q
      else
        let n = u64 (iq_next_seq q + 1);
            ev' = ev\<lparr>ie_xid := xid, ie_epoch := epoch, ie_seq := n\<rparr>;
            q1 = q\<lparr>iq_next_seq := n,
                   iq_events := (if ie_kind ev = kMotion then drop_pending_motion xid (iq_events q) else iq_events q)\<rparr>
        in if length (iq_events q1) \<ge> kMaxInputQueueEvents
           then let (evicted, q2) = drop_oldest_motion_locked q1 in
                if evicted then q2\<lparr>iq_events := iq_events q2 @ [ev']\<rparr>
                else if ie_kind ev = kMotion then q2\<lparr>iq_dropped := True\<rparr>
                else q2\<lparr>iq_dropped := True,
                        iq_events := (if length (iq_events q2) \<ge> kMaxInputQueueHardCeiling then tl (iq_events q2) else iq_events q2) @ [ev']\<rparr>
           else q1\<lparr>iq_events := iq_events q1 @ [ev']\<rparr>)"

text \<open>Draining returns the events, the new cursor and whether an overflow was recorded.\<close>

definition drain :: "nat \<Rightarrow> input_queue \<Rightarrow> (input_event list \<times> nat \<times> bool) \<times> input_queue" where
  "drain since_seq q =
     (let live = dropWhile (\<lambda>e. ie_seq e \<le> since_seq) (iq_events q);
          out = take kMaxPollInputEvents live
      in ((out, if out = [] then since_seq else ie_seq (last out), iq_dropped q),
          q\<lparr>iq_events := drop kMaxPollInputEvents live, iq_dropped := False\<rparr>))"

section \<open>Erasing one element\<close>

lemma erase_first_sub: "set (erase_first P xs) \<subseteq> set xs"
  by (induction xs) auto

lemma erase_first_sorted: "sorted_wrt R xs \<Longrightarrow> sorted_wrt R (erase_first P xs)"
  using erase_first_sub by (induction xs) (auto, fastforce)

lemma erase_first_filter: "(\<And>x. P x \<Longrightarrow> \<not> Q x) \<Longrightarrow> filter Q (erase_first P xs) = filter Q xs"
  by (induction xs) auto

lemma erase_first_filter_other: "(\<And>x. P x \<Longrightarrow> Q x) \<Longrightarrow> filter Q (erase_first P xs) = erase_first P (filter Q xs)"
  by (induction xs) auto

lemma erase_last_filter:
  assumes "\<And>x. P x \<Longrightarrow> \<not> Q x"
  shows "filter Q (rev (erase_first P (rev xs))) = filter Q xs"
  using erase_first_filter [of P Q "rev xs", OF assms] by (metis rev_filter rev_rev_ident)

lemma erase_last_filter_other:
  assumes "\<And>x. P x \<Longrightarrow> Q x"
  shows "filter Q (rev (erase_first P (rev xs))) = rev (erase_first P (rev (filter Q xs)))"
  using erase_first_filter_other [of P Q "rev xs", OF assms] by (metis rev_filter)

lemma erase_first_length: "length (erase_first P xs) = (if list_ex P xs then length xs - 1 else length xs)"
  by (induction xs) (auto simp: neq_Nil_conv split: nat.splits, metis Suc_pred length_pos_if_in_set list_ex_iff)

lemma drop_pending_sub: "set (drop_pending_motion x es) \<subseteq> set es"
  using erase_first_sub [of _ "rev es"] by (auto simp: drop_pending_motion_def)

lemma drop_pending_sorted: "sorted_wrt R es \<Longrightarrow> sorted_wrt R (drop_pending_motion x es)"
  by (simp add: drop_pending_motion_def sorted_wrt_rev erase_first_sorted)

lemma drop_pending_length: "length (drop_pending_motion x es) \<le> length es"
  by (simp add: drop_pending_motion_def erase_first_length)

section \<open>Pushing and polling in any order\<close>

text \<open>
  A ring with its poller, which passes the cursor of its last poll. Beside the state of the code it
  records what was pushed, what was delivered, whether a poll reported an overflow, and whether an
  event found the ring at its hard ceiling.
\<close>

datatype queue_op = Push nat nat input_event | Poll

record polled =
  po_queue :: input_queue
  po_cursor :: nat
  po_pushed :: "input_event list"
  po_delivered :: "input_event list"
  po_reported :: bool
  po_ceiling :: bool

definition valid_event :: "nat \<Rightarrow> input_event \<Rightarrow> bool" where
  "valid_event xid ev \<longleftrightarrow> xid \<noteq> 0 \<and> ie_kind ev \<noteq> kInvalid \<and> ie_kind ev \<le> kGeometryRequest"

definition stamped :: "nat \<Rightarrow> nat \<Rightarrow> input_event \<Rightarrow> input_queue \<Rightarrow> input_event" where
  "stamped xid epoch ev q = ev\<lparr>ie_xid := xid, ie_epoch := epoch, ie_seq := u64 (iq_next_seq q + 1)\<rparr>"

fun queue_step :: "queue_op \<Rightarrow> polled \<Rightarrow> polled" where
  "queue_step (Push xid epoch ev) p =
     (let q = po_queue p; ok = valid_event xid ev in
      p\<lparr>po_queue := enqueue xid epoch ev q,
        po_pushed := po_pushed p @ (if ok then [stamped xid epoch ev q] else []),
        po_ceiling := po_ceiling p \<or> ok \<and> length (iq_events q) \<ge> kMaxInputQueueHardCeiling\<rparr>)"
| "queue_step Poll p =
     (let ((out, next_seq, was_dropped), q) = drain (po_cursor p) (po_queue p) in
      p\<lparr>po_queue := q, po_cursor := next_seq, po_delivered := po_delivered p @ out, po_reported := po_reported p \<or> was_dropped\<rparr>)"

definition polled_start :: polled where
  "polled_start = \<lparr>po_queue = empty_queue, po_cursor = 0, po_pushed = [], po_delivered = [], po_reported = False, po_ceiling = False\<rparr>"

definition protected_events :: "input_event list \<Rightarrow> input_event list" where
  "protected_events es = filter (\<lambda>e. ie_kind e \<noteq> kMotion) es"

definition motions :: "nat \<Rightarrow> input_event list \<Rightarrow> input_event list" where
  "motions xid es = filter (\<lambda>e. ie_kind e = kMotion \<and> ie_xid e = xid) es"

lemma motions_simps [simp]:
  "motions x (es @ fs) = motions x es @ motions x fs" "motions x [] = []"
  "motions x [e] = (if ie_kind e = kMotion \<and> ie_xid e = x then [e] else [])"
  by (simp_all add: motions_def)

lemma protected_simps [simp]:
  "protected_events (es @ fs) = protected_events es @ protected_events fs" "protected_events [] = []"
  "protected_events [e] = (if ie_kind e \<noteq> kMotion then [e] else [])"
  by (simp_all add: protected_events_def)

text \<open>What is known of the ring's events, apart from the poller.\<close>

definition ring_ok :: "input_queue \<Rightarrow> bool" where
  "ring_ok q \<longleftrightarrow>
     sorted_wrt (\<lambda>e f. ie_seq e < ie_seq f) (iq_events q) \<and> (\<forall>e\<in>set (iq_events q). ie_seq e \<le> iq_next_seq q) \<and>
     length (iq_events q) \<le> kMaxInputQueueHardCeiling \<and> (\<forall>x. length (motions x (iq_events q)) \<le> 1)"

lemma motions_pending:
  assumes "length (motions x es) \<le> 1"
  shows "motions y (drop_pending_motion x es) = (if y = x then [] else motions y es)"
proof (cases "y = x")
  case True
  have "motions x (drop_pending_motion x es) = rev (erase_first (\<lambda>e. ie_kind e = kMotion \<and> ie_xid e = x) (rev (motions x es)))"
    unfolding drop_pending_motion_def motions_def by (rule erase_last_filter_other)
  also have "\<dots> = []"
  proof (cases "motions x es")
    case (Cons e fs)
    then have "fs = []" using assms by simp
    moreover have "e \<in> set (motions x es)" using Cons by simp
    then have "ie_kind e = kMotion \<and> ie_xid e = x" by (simp add: motions_def)
    ultimately show ?thesis using Cons by simp
  qed simp
  finally show ?thesis using True by simp
next
  case False
  then show ?thesis by (simp add: drop_pending_motion_def motions_def) (rule erase_last_filter, auto)
qed

lemma protected_pending: "protected_events (drop_pending_motion x es) = protected_events es"
  unfolding drop_pending_motion_def protected_events_def by (rule erase_last_filter) simp

text \<open>The outcomes of a push of a valid event.\<close>

lemma enqueue_cases:
  fixes q :: input_queue and epoch :: nat
  assumes "valid_event xid ev"
  defines "es \<equiv> (if ie_kind ev = kMotion then drop_pending_motion xid (iq_events q) else iq_events q)"
    and "ev' \<equiv> stamped xid epoch ev q"
  obtains (room) "length es < kMaxInputQueueEvents"
      "enqueue xid epoch ev q = q\<lparr>iq_next_seq := ie_seq ev', iq_events := es @ [ev']\<rparr>"
    | (evicted) "length es \<ge> kMaxInputQueueEvents" "list_ex (\<lambda>e. ie_kind e = kMotion) es"
      "enqueue xid epoch ev q = q\<lparr>iq_next_seq := ie_seq ev', iq_dropped := True, iq_events := erase_first (\<lambda>e. ie_kind e = kMotion) es @ [ev']\<rparr>"
    | (refused) "length es \<ge> kMaxInputQueueEvents" "ie_kind ev = kMotion" "enqueue xid epoch ev q = q\<lparr>iq_next_seq := ie_seq ev', iq_dropped := True, iq_events := es\<rparr>"
    | (overrun) "ie_kind ev \<noteq> kMotion" "es = iq_events q" "length es < kMaxInputQueueHardCeiling"
      "enqueue xid epoch ev q = q\<lparr>iq_next_seq := ie_seq ev', iq_dropped := True, iq_events := es @ [ev']\<rparr>"
    | (ceiling) "ie_kind ev \<noteq> kMotion" "es = iq_events q" "length es \<ge> kMaxInputQueueHardCeiling"
      "enqueue xid epoch ev q = q\<lparr>iq_next_seq := ie_seq ev', iq_dropped := True, iq_events := tl es @ [ev']\<rparr>"
proof -
  have v: "\<not> (xid = 0 \<or> ie_kind ev = kInvalid \<or> ie_kind ev > kGeometryRequest)" using assms(1) by (auto simp: valid_event_def)
  note unfold = enqueue_def [of xid epoch ev q, unfolded if_not_P [OF v]] Let_def drop_oldest_motion_locked_def ev'_def stamped_def es_def
  consider "length es < kMaxInputQueueEvents" | "length es \<ge> kMaxInputQueueEvents" "list_ex (\<lambda>e. ie_kind e = kMotion) es"
    | "length es \<ge> kMaxInputQueueEvents" "\<not> list_ex (\<lambda>e. ie_kind e = kMotion) es" "ie_kind ev = kMotion"
    | "length es \<ge> kMaxInputQueueEvents" "\<not> list_ex (\<lambda>e. ie_kind e = kMotion) es" "ie_kind ev \<noteq> kMotion" "length es < kMaxInputQueueHardCeiling"
    | "length es \<ge> kMaxInputQueueEvents" "\<not> list_ex (\<lambda>e. ie_kind e = kMotion) es" "ie_kind ev \<noteq> kMotion" "length es \<ge> kMaxInputQueueHardCeiling"
    by linarith
  then show thesis
  proof cases
    case 1
    then show thesis by (intro room) (simp_all add: unfold)
  next
    case 2
    then show thesis by (intro evicted) (simp_all add: unfold)
  next
    case 3
    then show thesis by (intro refused) (simp_all add: unfold)
  next
    case 4
    then show thesis by (intro overrun) (simp_all add: unfold)
  next
    case 5
    then show thesis by (intro ceiling) (simp_all add: unfold)
  qed
qed

definition polled_ok :: "nat \<Rightarrow> polled \<Rightarrow> bool" where
  "polled_ok n p \<longleftrightarrow>
     ring_ok (po_queue p) \<and> iq_next_seq (po_queue p) \<le> n \<and> po_cursor p \<le> iq_next_seq (po_queue p) \<and>
     (\<forall>e\<in>set (iq_events (po_queue p)). po_cursor p < ie_seq e) \<and>
     sorted_wrt (\<lambda>e f. ie_seq e < ie_seq f) (po_delivered p) \<and> (\<forall>e\<in>set (po_delivered p). ie_seq e \<le> po_cursor p) \<and>
     set (po_delivered p @ iq_events (po_queue p)) \<subseteq> set (po_pushed p) \<and>
     (\<not> po_ceiling p \<longrightarrow> protected_events (po_delivered p @ iq_events (po_queue p)) = protected_events (po_pushed p)) \<and>
     (po_ceiling p \<longrightarrow> po_reported p \<or> iq_dropped (po_queue p)) \<and>
     (\<not> po_reported p \<longrightarrow> \<not> iq_dropped (po_queue p) \<longrightarrow>
       (\<forall>x. motions x (po_pushed p) \<noteq> [] \<longrightarrow> last (motions x (po_pushed p)) \<in> set (po_delivered p @ iq_events (po_queue p))))"

text \<open>
  One push: the ring keeps a part \<open>es\<close> of its events and takes the new one, or drops the new one if it is
  a motion. Unless the ring was at its ceiling no protected event goes; unless an overflow is recorded
  only the pending motion of the same window goes.
\<close>

lemma enqueue_outcome:
  fixes epoch :: nat
  assumes "valid_event xid ev" "ring_ok q" "iq_next_seq q < 2 ^ 64 - 1"
  defines "ev' \<equiv> stamped xid epoch ev q" and "q' \<equiv> enqueue xid epoch ev q"
  shows "\<exists>es. set es \<subseteq> set (iq_events q) \<and> sorted_wrt (\<lambda>e f. ie_seq e < ie_seq f) es \<and> (\<forall>x. length (motions x es) \<le> 1) \<and>
    (ie_kind ev = kMotion \<longrightarrow> motions xid es = []) \<and>
    (length (iq_events q) < kMaxInputQueueHardCeiling \<longrightarrow> protected_events es = protected_events (iq_events q)) \<and>
    iq_next_seq q' = ie_seq ev' \<and> ie_seq ev' = Suc (iq_next_seq q) \<and>
    (iq_events q' = es @ [ev'] \<and> length es < kMaxInputQueueHardCeiling \<or>
     iq_events q' = es \<and> ie_kind ev = kMotion \<and> iq_dropped q' \<and> length es \<le> kMaxInputQueueHardCeiling) \<and>
    (iq_dropped q \<longrightarrow> iq_dropped q') \<and> (length (iq_events q) \<ge> kMaxInputQueueHardCeiling \<longrightarrow> iq_dropped q') \<and>
    (\<not> iq_dropped q' \<longrightarrow> (\<forall>x. x \<noteq> xid \<or> ie_kind ev \<noteq> kMotion \<longrightarrow> motions x es = motions x (iq_events q)))"
proof -
  define es where "es = (if ie_kind ev = kMotion then drop_pending_motion xid (iq_events q) else iq_events q)"
  have r: "sorted_wrt (\<lambda>e f. ie_seq e < ie_seq f) (iq_events q)" "\<forall>x. length (motions x (iq_events q)) \<le> 1"
    "length (iq_events q) \<le> kMaxInputQueueHardCeiling" using assms(2) by (auto simp: ring_ok_def)
  have es: "set es \<subseteq> set (iq_events q)" "sorted_wrt (\<lambda>e f. ie_seq e < ie_seq f) es" "protected_events es = protected_events (iq_events q)"
    "length es \<le> length (iq_events q)" "\<forall>x. motions x es = (if x = xid \<and> ie_kind ev = kMotion then [] else motions x (iq_events q))"
    using r drop_pending_sub [of xid "iq_events q"] drop_pending_length [of xid "iq_events q"]
    by (auto simp: es_def protected_pending motions_pending drop_pending_sorted)
  have sq: "ie_seq ev' = Suc (iq_next_seq q)" using assms(3) by (simp add: ev'_def stamped_def u64_def)
  have ceil: "kMaxInputQueueEvents < kMaxInputQueueHardCeiling" by (simp add: kMaxInputQueueHardCeiling_def)
  have shrink: "length (iq_events q) \<le> Suc (length es)"
    by (auto simp: es_def drop_pending_motion_def erase_first_length)
  have ceil1: "Suc kMaxInputQueueEvents < kMaxInputQueueHardCeiling" by (simp add: kMaxInputQueueHardCeiling_def)
  have part: ?thesis
    if "set fs \<subseteq> set es" "sorted_wrt (\<lambda>e f. ie_seq e < ie_seq f) fs" "\<And>x. length (motions x fs) \<le> length (motions x es)"
      "length (iq_events q) < kMaxInputQueueHardCeiling \<Longrightarrow> protected_events fs = protected_events es"
      "q' = q\<lparr>iq_next_seq := ie_seq ev', iq_dropped := True, iq_events := fs @ [ev']\<rparr>" "length fs < kMaxInputQueueHardCeiling" for fs
  proof -
    have m1: "length (motions x es) \<le> 1" for x using es(5) r(2) by simp
    have "length (motions x fs) \<le> 1" for x using that(3) [of x] m1 [of x] by linarith
    moreover have "motions xid fs = []" if "ie_kind ev = kMotion" using \<open>\<And>x. length (motions x fs) \<le> length (motions x es)\<close> [of xid] es(5) that by simp
    moreover have "set fs \<subseteq> set (iq_events q)" using that(1) es(1) by (rule subset_trans)
    ultimately show ?thesis using that(2,4,5,6) es(3) sq by (intro exI [of _ fs]) simp
  qed
  show ?thesis
  proof (rule enqueue_cases [OF assms(1), of q epoch, folded es_def ev'_def q'_def], goal_cases)
    case room: 1
    show ?thesis
      by (rule exI [of _ es]) (use room es r sq ceil1 shrink in \<open>auto\<close>)
  next
    case evicted: 2
    let ?es = "erase_first (\<lambda>e. ie_kind e = kMotion) es"
    have "protected_events ?es = protected_events es" by (simp add: protected_events_def erase_first_filter)
    moreover have "length (motions x ?es) \<le> length (motions x es)" for x
    proof -
      have "length (filter P (erase_first Q xs)) \<le> length (filter P xs)" for P Q and xs :: "input_event list"
        by (induction xs) auto
      then show ?thesis by (simp add: motions_def)
    qed
    moreover have "length ?es < length es"
      using evicted(2) by (cases "es = []") (simp_all add: erase_first_length)
    ultimately show ?thesis
      using evicted(3) r(3) es(4) erase_first_sub [of _ es] erase_first_sorted [OF es(2)] by (intro part [of ?es]) auto
  next
    case refused: 3
    then show ?thesis
      by (intro exI [of _ es]) (use es r sq in \<open>auto\<close>)
  next
    case overrun: 4
    show ?thesis
      by (rule exI [of _ es]) (use overrun es r sq in \<open>auto\<close>)
  next
    case ceiling: 5
    have "motions x (tl es) = motions x es \<or> motions x (tl es) = tl (motions x es)" for x
      by (cases es) (auto simp: motions_def)
    then have "length (motions x (tl es)) \<le> length (motions x es)" for x
      by (metis diff_le_self length_tl order_refl)
    moreover have "sorted_wrt (\<lambda>e f. ie_seq e < ie_seq f) (tl es)" "set (tl es) \<subseteq> set es"
      using es(2) by (cases es, auto)+
    moreover have "length (tl es) < kMaxInputQueueHardCeiling"
      using r(3) es(4) ceil ceiling(3) by (cases es) auto
    ultimately show ?thesis
      using ceiling by (intro part [of "tl es"]) auto
  qed
qed

lemma push_ok:
  assumes ok: "polled_ok n p" and n: "n < 2 ^ 64 - 1"
  shows "polled_ok (Suc n) (queue_step (Push xid epoch ev) p)"
proof (cases "valid_event xid ev")
  case False
  then have "enqueue xid epoch ev (po_queue p) = po_queue p" by (auto simp: enqueue_def valid_event_def)
  then show ?thesis using ok False by (auto simp: polled_ok_def Let_def)
next
  case v: True
  define q where "q = po_queue p"
  define ev' where "ev' = stamped xid epoch ev q"
  define q' where "q' = enqueue xid epoch ev q"
  define p' where "p' = queue_step (Push xid epoch ev) p"
  have rq: "ring_ok q" "iq_next_seq q < 2 ^ 64 - 1" using ok n by (auto simp: polled_ok_def q_def)
  obtain es where es: "set es \<subseteq> set (iq_events q)" "sorted_wrt (\<lambda>e f. ie_seq e < ie_seq f) es" "\<forall>x. length (motions x es) \<le> 1"
      "ie_kind ev = kMotion \<longrightarrow> motions xid es = []"
      "length (iq_events q) < kMaxInputQueueHardCeiling \<longrightarrow> protected_events es = protected_events (iq_events q)"
      "iq_next_seq q' = ie_seq ev'" "ie_seq ev' = Suc (iq_next_seq q)"
      "iq_events q' = es @ [ev'] \<and> length es < kMaxInputQueueHardCeiling \<or>
       iq_events q' = es \<and> ie_kind ev = kMotion \<and> iq_dropped q' \<and> length es \<le> kMaxInputQueueHardCeiling"
      "iq_dropped q \<longrightarrow> iq_dropped q'" "length (iq_events q) \<ge> kMaxInputQueueHardCeiling \<longrightarrow> iq_dropped q'"
      "\<not> iq_dropped q' \<longrightarrow> (\<forall>x. x \<noteq> xid \<or> ie_kind ev \<noteq> kMotion \<longrightarrow> motions x es = motions x (iq_events q))"
    using enqueue_outcome [OF v rq, of epoch, folded ev'_def q'_def] by blast
  have ev': "ie_kind ev' = ie_kind ev" "ie_xid ev' = xid" by (simp_all add: ev'_def stamped_def)
  have p': "po_queue p' = q'" "po_pushed p' = po_pushed p @ [ev']" "po_delivered p' = po_delivered p" "po_cursor p' = po_cursor p"
    "po_reported p' = po_reported p" "po_ceiling p' = (po_ceiling p \<or> length (iq_events q) \<ge> kMaxInputQueueHardCeiling)"
    using v by (simp_all add: p'_def q'_def q_def ev'_def Let_def)
  have P: "iq_next_seq q \<le> n" "po_cursor p \<le> iq_next_seq q" "\<forall>e\<in>set (iq_events q). po_cursor p < ie_seq e"
    "set (po_delivered p @ iq_events q) \<subseteq> set (po_pushed p)" "\<forall>e\<in>set (iq_events q). ie_seq e \<le> iq_next_seq q"
    using ok by (auto simp: polled_ok_def q_def ring_ok_def)
  have seqs: "\<forall>e\<in>set es. ie_seq e < ie_seq ev'" using es(1,7) P(5) by (auto simp: less_Suc_eq_le)
  have ring: "ring_ok q'"
    using es(8) es(2,3,4,6) seqs ev' by (auto simp: ring_ok_def sorted_wrt_append intro: less_imp_le)
  have prot: "protected_events (po_delivered p @ iq_events q') = protected_events (po_pushed p @ [ev'])" if "\<not> po_ceiling p'"
    using that ok es(5,8) ev' by (auto simp: p'(6) polled_ok_def q_def)
  have lastm: "last (motions x (po_pushed p @ [ev'])) \<in> set (po_delivered p @ iq_events q')"
    if nd: "\<not> po_reported p" "\<not> iq_dropped q'" and ne: "motions x (po_pushed p @ [ev']) \<noteq> []" for x
  proof -
    have e: "iq_events q' = es @ [ev']" using es(8) nd(2) by blast
    show ?thesis
    proof (cases "ie_kind ev = kMotion \<and> xid = x")
      case True
      then show ?thesis using e ev' by simp
    next
      case False
      then have m: "motions x (po_pushed p @ [ev']) = motions x (po_pushed p)" and k: "motions x es = motions x (iq_events q)"
        using ev' es(11) nd(2) by auto
      have "last (motions x (po_pushed p)) \<in> set (po_delivered p @ iq_events q)"
        using ok nd es(9) ne m by (auto simp: polled_ok_def q_def)
      moreover have "last (motions x (po_pushed p)) \<in> set (motions x (po_pushed p))" using ne m by simp
      then have "ie_kind (last (motions x (po_pushed p))) = kMotion \<and> ie_xid (last (motions x (po_pushed p))) = x" by (simp add: motions_def)
      ultimately have "last (motions x (po_pushed p)) \<in> set (po_delivered p) \<union> set (motions x (iq_events q))" by (auto simp: motions_def)
      moreover have "set (motions x es) \<subseteq> set es" by (auto simp: motions_def)
      ultimately show ?thesis unfolding m using k e by auto
    qed
  qed
  have "set (iq_events q') \<subseteq> insert ev' (set (iq_events q))" using es(1,8) by auto
  then have sub: "set (po_delivered p @ iq_events q') \<subseteq> set (po_pushed p @ [ev'])" "\<forall>e\<in>set (iq_events q'). po_cursor p < ie_seq e"
    using P es(7) by auto
  show ?thesis
    unfolding polled_ok_def p'_def [symmetric] p'(1-5)
    using ok ring prot lastm sub P(1,2) es(6,7,9,10) by (auto simp: polled_ok_def p'(6) q_def)
qed

lemma poll_ok:
  assumes ok: "polled_ok n p"
  shows "polled_ok n (queue_step Poll p)"
proof -
  define q where "q = po_queue p"
  define out where "out = take kMaxPollInputEvents (iq_events q)"
  define rest where "rest = drop kMaxPollInputEvents (iq_events q)"
  have split: "iq_events q = out @ rest" by (simp add: out_def rest_def)
  have live: "dropWhile (\<lambda>e. ie_seq e \<le> po_cursor p) (iq_events q) = iq_events q"
    using ok by (cases "iq_events q") (auto simp: polled_ok_def q_def)
  define c where "c = (if out = [] then po_cursor p else ie_seq (last out))"
  define p' where "p' = queue_step Poll p"
  have p': "p' = p\<lparr>po_queue := q\<lparr>iq_events := rest, iq_dropped := False\<rparr>, po_cursor := c, po_delivered := po_delivered p @ out,
      po_reported := po_reported p \<or> iq_dropped q\<rparr>"
    using live by (simp add: p'_def drain_def q_def [symmetric] Let_def out_def rest_def c_def)
  have srt: "sorted_wrt (\<lambda>e f. ie_seq e < ie_seq f) (out @ rest)" and low: "\<forall>e\<in>set (out @ rest). po_cursor p < ie_seq e"
    and high: "\<forall>e\<in>set (out @ rest). ie_seq e \<le> iq_next_seq q"
    using ok split by (simp_all add: polled_ok_def ring_ok_def q_def [symmetric])
  have co: "(\<forall>e\<in>set out. ie_seq e \<le> c) \<and> po_cursor p \<le> c \<and> (\<forall>e\<in>set rest. c < ie_seq e) \<and> c \<le> iq_next_seq q"
  proof (cases out rule: rev_cases)
    case Nil
    then show ?thesis
      using low ok by (simp add: c_def polled_ok_def q_def)
  next
    case (snoc xs x)
    then show ?thesis
      using low high srt by (auto simp: c_def sorted_wrt_append intro: less_imp_le)
  qed
  have mot: "length (motions x rest) \<le> 1" for x
  proof -
    have "length (motions x (out @ rest)) \<le> 1" using ok split by (simp add: polled_ok_def ring_ok_def q_def [symmetric])
    then show ?thesis by simp
  qed
  have len: "length rest \<le> kMaxInputQueueHardCeiling" using ok split by (simp add: polled_ok_def ring_ok_def q_def [symmetric])
  have ring: "ring_ok (q\<lparr>iq_events := rest, iq_dropped := False\<rparr>)"
    using srt high mot len by (simp add: ring_ok_def sorted_wrt_append)
  have del: "sorted_wrt (\<lambda>e f. ie_seq e < ie_seq f) (po_delivered p @ out)" "\<forall>e\<in>set (po_delivered p @ out). ie_seq e \<le> c"
  proof -
    have d: "sorted_wrt (\<lambda>e f. ie_seq e < ie_seq f) (po_delivered p)" "\<forall>e\<in>set (po_delivered p). ie_seq e \<le> po_cursor p"
      using ok by (simp_all add: polled_ok_def)
    have "ie_seq e < ie_seq f" if "e \<in> set (po_delivered p)" "f \<in> set out" for e f
      using d(2) low that by (meson UnCI le_less_trans set_append [THEN equalityD2, THEN subsetD])
    then show "sorted_wrt (\<lambda>e f. ie_seq e < ie_seq f) (po_delivered p @ out)" using d(1) srt by (simp add: sorted_wrt_append)
    show "\<forall>e\<in>set (po_delivered p @ out). ie_seq e \<le> c" using d(2) co by (auto intro: order_trans)
  qed
  show ?thesis
    unfolding p'_def [symmetric] p' using ok ring del co split
    by (auto simp: polled_ok_def q_def [symmetric])
qed

lemma polled_ok_mono: "polled_ok n p \<Longrightarrow> polled_ok (Suc n) p"
  unfolding polled_ok_def by (elim conjE, intro conjI) (assumption | simp)+

lemma runs_ok:
  assumes "length ops < 2 ^ 64"
  shows "polled_ok (length ops) (fold queue_step ops polled_start)"
  using assms
proof (induction ops rule: rev_induct)
  case Nil
  show ?case
    by (simp add: polled_ok_def polled_start_def empty_queue_def ring_ok_def)
next
  case (snoc op ops)
  then have IH: "polled_ok (length ops) (fold queue_step ops polled_start)" and n: "length ops < 2 ^ 64 - 1" by simp_all
  show ?case
  proof (cases op)
    case (Push xid epoch ev)
    show ?thesis using push_ok [OF IH n, of xid epoch ev] by (simp add: Push del: queue_step.simps)
  next
    case Poll
    have "polled_ok (Suc (length ops)) (queue_step Poll (fold queue_step ops polled_start))"
      by (rule polled_ok_mono [OF poll_ok [OF IH]])
    then show ?thesis by (simp add: Poll del: queue_step.simps)
  qed
qed

text \<open>A poll hands over the next events of the ring, so polling alone empties it.\<close>

lemma poll_delivers:
  assumes "polled_ok n p"
  shows "po_delivered (queue_step Poll p) = po_delivered p @ take kMaxPollInputEvents (iq_events (po_queue p))"
    "iq_events (po_queue (queue_step Poll p)) = drop kMaxPollInputEvents (iq_events (po_queue p))"
proof -
  have "dropWhile (\<lambda>e. ie_seq e \<le> po_cursor p) (iq_events (po_queue p)) = iq_events (po_queue p)"
    using assms by (cases "iq_events (po_queue p)") (auto simp: polled_ok_def)
  then show "po_delivered (queue_step Poll p) = po_delivered p @ take kMaxPollInputEvents (iq_events (po_queue p))"
    "iq_events (po_queue (queue_step Poll p)) = drop kMaxPollInputEvents (iq_events (po_queue p))"
    by (simp_all add: drain_def Let_def)
qed

lemma polls_deliver:
  assumes "polled_ok n p"
  shows "po_delivered (fold queue_step (replicate k Poll) p) = po_delivered p @ take (k * kMaxPollInputEvents) (iq_events (po_queue p)) \<and>
    iq_events (po_queue (fold queue_step (replicate k Poll) p)) = drop (k * kMaxPollInputEvents) (iq_events (po_queue p))"
  using assms
proof (induction k arbitrary: p)
  case (Suc k)
  from Suc.IH [OF poll_ok [OF Suc.prems]] show ?case
    by (simp add: poll_delivers [OF Suc.prems] take_add drop_drop add.commute del: queue_step.simps)
qed simp

text \<open>
  C4: input is never silently lost, and it arrives. After any sequence of pushes and polls the ring is within its hard
  ceiling and holds at most one motion per window; events are delivered at most once and in the order
  of their sequence numbers. Unless a push found the ring at the ceiling, the protected events delivered
  or pending are exactly those pushed, in order; if one did, an overflow is recorded. Unless an
  overflow is recorded, the latest motion of every window is delivered or pending. And what is pending
  is delivered: from any such state twenty polls without a push hand over every pending event, in
  order, and leave the ring empty.
\<close>

theorem input_not_lost:
  assumes "length ops < 2 ^ 64" "p = fold queue_step ops polled_start" "q = po_queue p"
  shows "length (iq_events q) \<le> kMaxInputQueueHardCeiling \<and> (\<forall>x. length (motions x (iq_events q)) \<le> 1) \<and>
    sorted_wrt (\<lambda>e f. ie_seq e < ie_seq f) (po_delivered p @ iq_events q) \<and>
    set (po_delivered p @ iq_events q) \<subseteq> set (po_pushed p) \<and>
    (if po_ceiling p then po_reported p \<or> iq_dropped q
     else protected_events (po_delivered p @ iq_events q) = protected_events (po_pushed p)) \<and>
    (po_reported p \<or> iq_dropped q \<or>
      (\<forall>x. motions x (po_pushed p) \<noteq> [] \<longrightarrow> last (motions x (po_pushed p)) \<in> set (po_delivered p @ iq_events q))) \<and>
    po_delivered (fold queue_step (replicate 20 Poll) p) = po_delivered p @ iq_events q \<and>
    iq_events (po_queue (fold queue_step (replicate 20 Poll) p)) = []"
proof -
  have ok: "polled_ok (length ops) p" using runs_ok [OF assms(1)] assms(2) by simp
  have len: "length (iq_events q) \<le> 20 * kMaxPollInputEvents"
    using ok by (simp add: polled_ok_def ring_ok_def assms(3) kMaxPollInputEvents_def kMaxInputQueueHardCeiling_def kMaxInputQueueEvents_def)
  note d = polls_deliver [OF ok, of 20, folded assms(3)]
  have "sorted_wrt (\<lambda>e f. ie_seq e < ie_seq f) (po_delivered p @ iq_events q)"
    using ok by (fastforce simp: polled_ok_def ring_ok_def sorted_wrt_append assms(3))
  moreover have "po_delivered (fold queue_step (replicate 20 Poll) p) = po_delivered p @ iq_events q"
    "iq_events (po_queue (fold queue_step (replicate 20 Poll) p)) = []" using d len by simp_all
  ultimately show ?thesis using ok unfolding polled_ok_def ring_ok_def assms(3) by auto
qed

definition sample_event :: "nat \<Rightarrow> input_event" where
  "sample_event kind = \<lparr>ie_xid = 0, ie_epoch = 0, ie_seq = 0, ie_kind = kind, ie_client_x = 3, ie_client_y = 4, ie_button = 0, ie_wheel = 0,
     ie_vk = 0, ie_scancode = 0, ie_modifiers = 0, ie_pressed = False, ie_root_x = 0, ie_root_y = 0, ie_req_w = 0, ie_req_h = 0,
     ie_host_request = 0\<rparr>"

definition sample_ops :: "queue_op list" where
  "sample_ops = [Push 5 1 (sample_event 1), Push 5 1 (sample_event 2), Push 5 1 (sample_event 1), Poll]"

theorem input_not_lost_witness:
  "map ie_kind (po_delivered (fold queue_step sample_ops polled_start)) = [2, 1] \<and>
   protected_events (po_delivered (fold queue_step sample_ops polled_start) @ iq_events (po_queue (fold queue_step sample_ops polled_start))) =
     protected_events (po_pushed (fold queue_step sample_ops polled_start)) \<and>
   iq_events (po_queue (fold queue_step (replicate 20 Poll) (fold queue_step sample_ops polled_start))) = []"
proof -
  have len: "length sample_ops < 2 ^ 64" by (simp add: sample_ops_def)
  have ck: "\<not> po_ceiling (fold queue_step sample_ops polled_start) \<and>
      map ie_kind (po_delivered (fold queue_step sample_ops polled_start)) = [2, 1]"
    by (simp add: sample_ops_def polled_start_def empty_queue_def enqueue_def drain_def stamped_def valid_event_def Let_def
        sample_event_def kMotion_def kInvalid_def kGeometryRequest_def kMaxInputQueueEvents_def kMaxInputQueueHardCeiling_def
        kMaxPollInputEvents_def u64_def drop_pending_motion_def)
  show ?thesis using input_not_lost [OF len refl refl] ck by (simp del: queue_step.simps fold_replicate)
qed

end
