(* ===== verification/Chrome_Paint.thy ===== *)
theory Chrome_Paint
  imports Memory_Wire
begin

text \<open>
  Painting the chrome of a placeholder window: the request with its validating decoder
  (\<open>SidecarPaintChromeRequest\<close>, src/vkrelay2/common/sidecar/sidecar_session.cpp) and the pixel store of the
  mock backend it is composited into (\<open>mock_paint_chrome\<close>, src/vkrelay2/common/vkrpc/vulkan_session.cpp).
\<close>

section \<open>The request\<close>

definition kMaxAuxChromeBackingStoreBytes :: nat where
  "kMaxAuxChromeBackingStoreBytes = 96 * 1024 * 1024"

definition kMaxAuxChromeJsonHeaderBytes :: nat where
  "kMaxAuxChromeJsonHeaderBytes = 4096"

definition kMaxAuxChromeWirePayloadBytes :: nat where
  "kMaxAuxChromeWirePayloadBytes = kMaxFrameBytes - kMaxAuxChromeJsonHeaderBytes - 1024"

definition kAuxChromeFormatBgra8 :: int where "kAuxChromeFormatBgra8 = 1"

definition kAuxChromeBytesPerPixel :: nat where "kAuxChromeBytesPerPixel = 4"

record paint_request =
  pr_xid :: nat
  pr_lifecycle_generation :: nat
  pr_seq :: nat
  pr_src_w :: nat
  pr_src_h :: nat
  pr_dirty_x :: int
  pr_dirty_y :: int
  pr_dirty_w :: nat
  pr_dirty_h :: nat
  pr_stride :: nat
  pr_format :: int
  pr_pixels :: string

definition paint_header :: "paint_request \<Rightarrow> jval" where
  "paint_header r = obj_of
     [(''xid'', handle_value (pr_xid r)), (''lifecycle_generation'', handle_value (pr_lifecycle_generation r)),
      (''seq'', handle_value (pr_seq r)), (''src_w'', handle_value (pr_src_w r)), (''src_h'', handle_value (pr_src_h r)),
      (''dirty_x'', JNum (double_of_int (pr_dirty_x r))), (''dirty_y'', JNum (double_of_int (pr_dirty_y r))),
      (''dirty_w'', handle_value (pr_dirty_w r)), (''dirty_h'', handle_value (pr_dirty_h r)),
      (''stride'', handle_value (pr_stride r)), (''format'', JNum (double_of_int (pr_format r))),
      (''payload_size'', handle_value (length (pr_pixels r)))]"

definition paint_to_wire :: "paint_request \<Rightarrow> string" where
  "paint_to_wire r = (let js = json_dump 0 (paint_header r) in store_le32 (u32 (length js)) @ js @ pr_pixels r)"

text \<open>The checks on the decoded header, in the order of the code; the tail is the rest of the body.\<close>

definition check_paint_header :: "jval \<Rightarrow> string \<Rightarrow> string + paint_request" where
  "check_paint_header h tail =
     (let format = get_int h ''format'' 0; dirty_x = get_i64 h ''dirty_x'' 0; dirty_y = get_i64 h ''dirty_y'' 0;
          src_w = get_handle h ''src_w''; src_h = get_handle h ''src_h''; dirty_w = get_handle h ''dirty_w'';
          dirty_h = get_handle h ''dirty_h''; stride = get_handle h ''stride''; payload_size = get_handle h ''payload_size''
      in if dirty_x < 0 \<or> dirty_x > 0x7FFFFFFF \<or> dirty_y < 0 \<or> dirty_y > 0x7FFFFFFF
         then Inl ''paint_chrome dirty origin out of range''
         else if format \<noteq> kAuxChromeFormatBgra8 then Inl ''paint_chrome unknown pixel format''
         else if src_w = 0 \<or> src_h = 0 \<or> dirty_w = 0 \<or> dirty_h = 0 then Inl ''paint_chrome zero dimension''
         else if src_w > 0x7FFFFFFF \<or> src_h > 0x7FFFFFFF \<or> dirty_w > 0x7FFFFFFF \<or> dirty_h > 0x7FFFFFFF \<or> stride > 0x7FFFFFFF
         then Inl ''paint_chrome dimension exceeds INT_MAX''
         else if src_w * src_h > kMaxAuxChromeBackingStoreBytes div kAuxChromeBytesPerPixel
         then Inl ''paint_chrome source backing store exceeds the cap''
         else if nat dirty_x + dirty_w > src_w \<or> nat dirty_y + dirty_h > src_h then Inl ''paint_chrome dirty rect outside source''
         else if stride < dirty_w * kAuxChromeBytesPerPixel then Inl ''paint_chrome stride smaller than a dirty row''
         else if payload_size > kMaxAuxChromeWirePayloadBytes then Inl ''paint_chrome payload exceeds the per-frame wire cap''
         else if payload_size \<noteq> stride * dirty_h then Inl ''paint_chrome payload_size does not match stride * dirty_h''
         else if length tail \<noteq> payload_size then Inl ''paint_chrome tail length does not match payload_size''
         else Inr \<lparr>pr_xid = get_handle h ''xid'', pr_lifecycle_generation = get_handle h ''lifecycle_generation'',
                   pr_seq = get_handle h ''seq'', pr_src_w = src_w, pr_src_h = src_h, pr_dirty_x = dirty_x, pr_dirty_y = dirty_y,
                   pr_dirty_w = dirty_w, pr_dirty_h = dirty_h, pr_stride = stride, pr_format = format, pr_pixels = tail\<rparr>)"

definition paint_from_wire :: "string \<Rightarrow> string + paint_request" where
  "paint_from_wire body =
     (if length body < 4 then Inl ''paint_chrome body shorter than 4-byte length prefix''
      else let json_len = load_le32 body in
        if json_len > kMaxAuxChromeJsonHeaderBytes then Inl ''paint_chrome json header exceeds cap''
        else if 4 + json_len > length body then Inl ''paint_chrome json header runs past end of body''
        else case json_parse (take json_len (drop 4 body)) of
               Inl e \<Rightarrow> Inl (''paint_chrome json header parse: '' @ what e)
             | Inr h \<Rightarrow> check_paint_header h (drop (4 + json_len) body))"

section \<open>The pixel store\<close>

record mock_chrome =
  mc_w :: nat
  mc_h :: nat
  mc_bgra :: string

abbreviation no_chrome :: mock_chrome where
  "no_chrome \<equiv> \<lparr>mc_w = 0, mc_h = 0, mc_bgra = []\<rparr>"

definition dst_off :: "paint_request \<Rightarrow> nat \<Rightarrow> nat" where
  "dst_off r row = (nat (pr_dirty_y r) + row) * (pr_src_w r * 4) + nat (pr_dirty_x r) * 4"

definition paint_row :: "paint_request \<Rightarrow> nat \<Rightarrow> string \<Rightarrow> string" where
  "paint_row r row bgra = overwrite bgra (dst_off r row) (take (pr_dirty_w r * 4) (drop (row * pr_stride r) (pr_pixels r)))"

definition mock_paint_chrome :: "paint_request \<Rightarrow> mock_chrome \<Rightarrow> mock_chrome" where
  "mock_paint_chrome r c =
     (let c1 = (if mc_w c \<noteq> pr_src_w r \<or> mc_h c \<noteq> pr_src_h r
                then \<lparr>mc_w = pr_src_w r, mc_h = pr_src_h r, mc_bgra = replicate (pr_src_w r * pr_src_h r * 4) (CHR 0x00)\<rparr> else c)
      in c1\<lparr>mc_bgra := fold (paint_row r) [0..<pr_dirty_h r] (mc_bgra c1)\<rparr>)"

text \<open>The pixel a debug query samples, as the 32-bit value of its four bytes.\<close>

definition sample_pixel :: "int \<Rightarrow> int \<Rightarrow> mock_chrome \<Rightarrow> nat option" where
  "sample_pixel x y c =
     (if x \<ge> 0 \<and> y \<ge> 0 \<and> nat x < mc_w c \<and> nat y < mc_h c
      then Some (load_le32 (drop ((nat y * mc_w c + nat x) * 4) (mc_bgra c))) else None)"

section \<open>The decoder accepts what the encoder writes\<close>

definition paint_fits :: "paint_request \<Rightarrow> bool" where
  "paint_fits r \<longleftrightarrow>
     pr_xid r < 2 ^ 64 \<and> pr_lifecycle_generation r < 2 ^ 64 \<and> pr_seq r < 2 ^ 64 \<and> pr_format r = kAuxChromeFormatBgra8 \<and>
     0 < pr_src_w r \<and> pr_src_w r < 2 ^ 31 \<and> 0 < pr_src_h r \<and> pr_src_h r < 2 ^ 31 \<and>
     0 < pr_dirty_w r \<and> 0 < pr_dirty_h r \<and> pr_stride r < 2 ^ 31 \<and> 0 \<le> pr_dirty_x r \<and> 0 \<le> pr_dirty_y r \<and>
     nat (pr_dirty_x r) + pr_dirty_w r \<le> pr_src_w r \<and> nat (pr_dirty_y r) + pr_dirty_h r \<le> pr_src_h r \<and>
     pr_src_w r * pr_src_h r * 4 \<le> kMaxAuxChromeBackingStoreBytes \<and> pr_dirty_w r * 4 \<le> pr_stride r \<and>
     length (pr_pixels r) = pr_stride r * pr_dirty_h r \<and> length (pr_pixels r) \<le> kMaxAuxChromeWirePayloadBytes"

lemma length_dump_int: "0 \<le> n \<Longrightarrow> n < 2 ^ 31 \<Longrightarrow> length (dump_to 0 d (JNum (double_of_int n))) \<le> 10"
  using length_nat_str [of "nat n" 10] double_of_int_exact [of n] by (simp add: dump_number_int int_str_def nat_less_iff)

lemma paint_header_json: "paint_header r = JObj
  [(''xid'', handle_value (pr_xid r)), (''lifecycle_generation'', handle_value (pr_lifecycle_generation r)),
   (''seq'', handle_value (pr_seq r)), (''src_w'', handle_value (pr_src_w r)), (''src_h'', handle_value (pr_src_h r)),
   (''dirty_x'', JNum (double_of_int (pr_dirty_x r))), (''dirty_y'', JNum (double_of_int (pr_dirty_y r))),
   (''dirty_w'', handle_value (pr_dirty_w r)), (''dirty_h'', handle_value (pr_dirty_h r)),
   (''stride'', handle_value (pr_stride r)), (''format'', JNum (double_of_int (pr_format r))),
   (''payload_size'', handle_value (length (pr_pixels r)))]"
  by (simp add: paint_header_def obj_of_eq)

lemma length_paint_header:
  assumes "paint_fits r"
  shows "length (json_dump 0 (paint_header r)) \<le> 400"
proof -
  have b: "pr_dirty_x r < 2 ^ 31" "pr_dirty_y r < 2 ^ 31" "pr_dirty_w r < 2 ^ 64" "pr_dirty_h r < 2 ^ 64"
    "length (pr_pixels r) < 2 ^ 64"
    using assms by (auto simp: paint_fits_def kMaxAuxChromeWirePayloadBytes_def kMaxFrameBytes_def)
  have h: "length (dump_to 0 1 (handle_value n)) \<le> 22"
    if "n \<in> {pr_xid r, pr_lifecycle_generation r, pr_seq r, pr_src_w r, pr_src_h r, pr_dirty_w r, pr_dirty_h r, pr_stride r,
              length (pr_pixels r)}" for n
    using that assms b by (intro length_dump_handle) (auto simp: paint_fits_def)
  have i: "length (dump_to 0 1 (JNum (double_of_int n))) \<le> 10" if "n \<in> {pr_dirty_x r, pr_dirty_y r, pr_format r}" for n
    using that assms b by (intro length_dump_int) (auto simp: paint_fits_def kAuxChromeFormatBgra8_def)
  show ?thesis
    using h [of "pr_xid r"] h [of "pr_lifecycle_generation r"] h [of "pr_seq r"] h [of "pr_src_w r"] h [of "pr_src_h r"]
      h [of "pr_dirty_w r"] h [of "pr_dirty_h r"] h [of "pr_stride r"] h [of "length (pr_pixels r)"]
      i [of "pr_dirty_x r"] i [of "pr_dirty_y r"] i [of "pr_format r"]
    by (simp add: json_dump_def paint_header_json escape_string_def escape_char_def del: dump_to.simps(3))
qed

lemma paint_header_exact: "paint_fits r \<Longrightarrow> json_exact (paint_header r)"
  using json_exact_int [of "pr_dirty_x r"] json_exact_int [of "pr_dirty_y r"] json_exact_int [of "pr_format r"]
  by (auto simp: paint_header_json paint_fits_def handle_value_def kAuxChromeFormatBgra8_def simp del: json_exact.simps(3))

lemma check_paint_header_fits:
  assumes "paint_fits r"
  shows "check_paint_header (paint_header r) (pr_pixels r) = Inr r"
proof -
  let ?h = "paint_header r"
  note fits = assms [unfolded paint_fits_def]
  have origin: "pr_dirty_x r < 2 ^ 31" "pr_dirty_y r < 2 ^ 31" using fits by auto
  have small: "length (pr_pixels r) < 2 ^ 64"
    by (rule le_less_trans [of _ kMaxAuxChromeWirePayloadBytes])
      (use fits in \<open>simp_all add: kMaxAuxChromeWirePayloadBytes_def kMaxFrameBytes_def\<close>)
  have "get_handle ?h ''xid'' = pr_xid r" "get_handle ?h ''lifecycle_generation'' = pr_lifecycle_generation r"
    "get_handle ?h ''seq'' = pr_seq r" "get_handle ?h ''src_w'' = pr_src_w r" "get_handle ?h ''src_h'' = pr_src_h r"
    "get_handle ?h ''dirty_w'' = pr_dirty_w r" "get_handle ?h ''dirty_h'' = pr_dirty_h r"
    "get_handle ?h ''stride'' = pr_stride r" "get_handle ?h ''payload_size'' = length (pr_pixels r)"
    by (rule get_handle_value; use fits small in \<open>simp add: paint_header_def json_find_obj_of\<close>)+
  moreover have "get_i64 ?h ''dirty_x'' 0 = pr_dirty_x r" "get_i64 ?h ''dirty_y'' 0 = pr_dirty_y r"
    by (rule get_i64_Some; use fits origin in \<open>simp add: paint_header_def json_find_obj_of\<close>)+
  moreover have "get_int ?h ''format'' 0 = pr_format r"
    by (rule get_int_Some) (use fits in \<open>simp_all add: paint_header_def json_find_obj_of i32_range_def kAuxChromeFormatBgra8_def\<close>)
  ultimately show ?thesis using fits origin
    by (simp add: check_paint_header_def Let_def kAuxChromeBytesPerPixel_def kMaxAuxChromeBackingStoreBytes_def mult.commute)
qed

lemma paint_roundtrip:
  assumes "paint_fits r"
  shows "paint_from_wire (paint_to_wire r) = Inr r"
proof -
  let ?js = "json_dump 0 (paint_header r)"
  have l: "length ?js \<le> 400" "u32 (length ?js) = length ?js"
    using length_paint_header [OF assms] by (simp_all add: u32_def)
  have "json_parse ?js = Inr (paint_header r)" using paint_header_exact [OF assms] by (rule json_parse_dump)
  then show ?thesis
    using l check_paint_header_fits [OF assms]
    by (simp add: paint_from_wire_def paint_to_wire_def Let_def kMaxAuxChromeJsonHeaderBytes_def load_store_le32)
qed

section \<open>Compositing a rectangle\<close>

lemma overwrite_nth:
  "off + length d \<le> length b \<Longrightarrow> j < length b \<Longrightarrow>
     overwrite b off d ! j = (if off \<le> j \<and> j < off + length d then d ! (j - off) else b ! j)"
  by (auto simp: overwrite_def nth_append min_def)

lemma overwrite_length: "off + length d \<le> length b \<Longrightarrow> length (overwrite b off d) = length b"
  by (simp add: overwrite_def)

definition paint_ok :: "paint_request \<Rightarrow> bool" where
  "paint_ok r \<longleftrightarrow>
     0 \<le> pr_dirty_x r \<and> 0 \<le> pr_dirty_y r \<and> 0 < pr_dirty_w r \<and> 0 < pr_dirty_h r \<and>
     nat (pr_dirty_x r) + pr_dirty_w r \<le> pr_src_w r \<and> nat (pr_dirty_y r) + pr_dirty_h r \<le> pr_src_h r \<and>
     pr_dirty_w r * 4 \<le> pr_stride r \<and> length (pr_pixels r) = pr_stride r * pr_dirty_h r \<and>
     pr_src_w r * pr_src_h r * 4 \<le> kMaxAuxChromeBackingStoreBytes"

lemma paint_from_wire_ok:
  assumes "paint_from_wire body = Inr r"
  shows "paint_ok r"
proof -
  obtain h tail where "check_paint_header h tail = Inr r"
    using assms by (auto simp: paint_from_wire_def Let_def split: if_splits sum.splits)
  then show ?thesis
    by (auto simp: check_paint_header_def Let_def paint_ok_def kAuxChromeBytesPerPixel_def kMaxAuxChromeBackingStoreBytes_def
        not_less split: if_splits) (simp add: mult.commute)
qed

lemma row_index:
  fixes y :: nat
  assumes "k < W" "a + n \<le> W"
  shows "Y * W + a \<le> y * W + k \<and> y * W + k < Y * W + a + n \<longleftrightarrow> y = Y \<and> a \<le> k \<and> k < a + n"
proof (cases y Y rule: linorder_cases)
  case less
  then have "Suc y * W \<le> Y * W" by (intro mult_le_mono1) simp
  then show ?thesis using assms less by auto
next
  case greater
  then have "Suc Y * W \<le> y * W" by (intro mult_le_mono1) simp
  then show ?thesis using assms greater by auto
qed auto

lemma row_bound:
  fixes y :: nat
  assumes "y < h" "a \<le> W"
  shows "y * W + a \<le> h * W"
proof -
  have "Suc y * W \<le> h * W" using assms(1) by (intro mult_le_mono1) simp
  then show ?thesis using assms(2) by simp
qed

definition in_dirty :: "paint_request \<Rightarrow> nat \<Rightarrow> nat \<Rightarrow> nat \<Rightarrow> bool" where
  "in_dirty r n y k \<longleftrightarrow>
     nat (pr_dirty_y r) \<le> y \<and> y < nat (pr_dirty_y r) + n \<and> nat (pr_dirty_x r) * 4 \<le> k \<and> k < (nat (pr_dirty_x r) + pr_dirty_w r) * 4"

lemma paint_rows:
  assumes ok: "paint_ok r" and len: "length b = pr_src_h r * (pr_src_w r * 4)" and n: "n \<le> pr_dirty_h r"
  defines "b' \<equiv> fold (paint_row r) [0..<n] b"
  shows "length b' = length b \<and> (\<forall>y<pr_src_h r. \<forall>k<pr_src_w r * 4. b' ! (y * (pr_src_w r * 4) + k) =
    (if in_dirty r n y k
     then pr_pixels r ! ((y - nat (pr_dirty_y r)) * pr_stride r + (k - nat (pr_dirty_x r) * 4)) else b ! (y * (pr_src_w r * 4) + k)))"
  using n unfolding b'_def
proof (induction n)
  case 0
  have "\<not> in_dirty r 0 y k" for y k by (simp add: in_dirty_def)
  then show ?case by simp
next
  case (Suc n)
  let ?W = "pr_src_w r * 4" and ?dx = "nat (pr_dirty_x r)" and ?dy = "nat (pr_dirty_y r)"
  define c where "c = fold (paint_row r) [0..<n] b"
  define d where "d = take (pr_dirty_w r * 4) (drop (n * pr_stride r) (pr_pixels r))"
  have IH: "length c = length b" "\<forall>y<pr_src_h r. \<forall>k<?W. c ! (y * ?W + k) =
    (if in_dirty r n y k then pr_pixels r ! ((y - ?dy) * pr_stride r + (k - ?dx * 4)) else b ! (y * ?W + k))"
    using Suc by (simp_all add: c_def)
  have px: "n * pr_stride r + pr_dirty_w r * 4 \<le> length (pr_pixels r)"
    using row_bound [of n "pr_dirty_h r" "pr_dirty_w r * 4" "pr_stride r"] ok Suc.prems by (simp add: paint_ok_def mult.commute)
  have dlen: "length d = pr_dirty_w r * 4" using px by (simp add: d_def)
  have w: "?dx * 4 + pr_dirty_w r * 4 \<le> ?W" using ok by (simp add: paint_ok_def)
  have fits: "dst_off r n + length d \<le> length c"
    using row_bound [of "?dy + n" "pr_src_h r" "?dx * 4 + pr_dirty_w r * 4" ?W] ok Suc.prems w IH(1) len
    by (simp add: dst_off_def dlen paint_ok_def)
  have run: "fold (paint_row r) [0..<Suc n] b = overwrite c (dst_off r n) d" by (simp add: c_def d_def paint_row_def)
  have "overwrite c (dst_off r n) d ! (y * ?W + k) =
    (if in_dirty r (Suc n) y k then pr_pixels r ! ((y - ?dy) * pr_stride r + (k - ?dx * 4)) else b ! (y * ?W + k))"
    if yk: "y < pr_src_h r" "k < ?W" for y k
  proof -
    have j: "y * ?W + k < length c" using row_bound [of y "pr_src_h r" "Suc k" ?W] yk IH(1) len by simp
    have idx: "dst_off r n \<le> y * ?W + k \<and> y * ?W + k < dst_off r n + length d \<longleftrightarrow>
        y = ?dy + n \<and> ?dx * 4 \<le> k \<and> k < ?dx * 4 + pr_dirty_w r * 4"
      unfolding dst_off_def dlen by (rule row_index [OF yk(2) w])
    show ?thesis
    proof (cases "y = ?dy + n \<and> ?dx * 4 \<le> k \<and> k < ?dx * 4 + pr_dirty_w r * 4")
      case True
      have o: "y * ?W + k - dst_off r n = k - ?dx * 4" using True by (simp add: dst_off_def)
      have "k - ?dx * 4 < pr_dirty_w r * 4" using True by linarith
      then have "d ! (k - ?dx * 4) = pr_pixels r ! (n * pr_stride r + (k - ?dx * 4))" using px unfolding d_def by (subst nth_take) simp_all
      moreover have "in_dirty r (Suc n) y k" "y - ?dy = n" using True by (auto simp: in_dirty_def)
      moreover have "overwrite c (dst_off r n) d ! (y * ?W + k) = d ! (k - ?dx * 4)"
        using True idx overwrite_nth [OF fits j] o by metis
      ultimately show ?thesis by simp
    next
      case False
      then have "in_dirty r (Suc n) y k \<longleftrightarrow> in_dirty r n y k" by (auto simp: in_dirty_def)
      moreover have "overwrite c (dst_off r n) d ! (y * ?W + k) = c ! (y * ?W + k)" using False idx overwrite_nth [OF fits j] by metis
      ultimately show ?thesis using IH(2) yk by simp
    qed
  qed
  then show ?case unfolding run using overwrite_length [OF fits] IH(1) by simp
qed

definition chrome_ok :: "mock_chrome \<Rightarrow> bool" where
  "chrome_ok c \<longleftrightarrow> length (mc_bgra c) = mc_w c * mc_h c * 4"

lemma load_le32_drop:
  "off + 4 \<le> length b \<Longrightarrow> load_le32 (drop off b) = load_le32 [b ! off, b ! (off + 1), b ! (off + 2), b ! (off + 3)]"
proof -
  assume "off + 4 \<le> length b"
  then have "drop off b = b ! off # b ! (off + 1) # b ! (off + 2) # b ! (off + 3) # drop (off + 4) b"
    by (simp add: Cons_nth_drop_Suc numeral_eq_Suc)
  then show ?thesis by (simp add: load_le32_def)
qed

text \<open>The pixel of the payload that lands at a position of the window.\<close>

definition payload_pixel :: "paint_request \<Rightarrow> nat \<Rightarrow> nat \<Rightarrow> nat" where
  "payload_pixel r x y =
     load_le32 (drop ((y - nat (pr_dirty_y r)) * pr_stride r + (x - nat (pr_dirty_x r)) * 4) (pr_pixels r))"

definition in_rect :: "paint_request \<Rightarrow> nat \<Rightarrow> nat \<Rightarrow> bool" where
  "in_rect r x y \<longleftrightarrow>
     nat (pr_dirty_x r) \<le> x \<and> x < nat (pr_dirty_x r) + pr_dirty_w r \<and> nat (pr_dirty_y r) \<le> y \<and> y < nat (pr_dirty_y r) + pr_dirty_h r"

lemma paint_sample:
  assumes ok: "paint_ok r" and c: "chrome_ok c"
  shows "chrome_ok (mock_paint_chrome r c) \<and> mc_w (mock_paint_chrome r c) = pr_src_w r \<and> mc_h (mock_paint_chrome r c) = pr_src_h r \<and>
    (\<forall>x<pr_src_w r. \<forall>y<pr_src_h r. sample_pixel (int x) (int y) (mock_paint_chrome r c) =
      Some (if in_rect r x y then payload_pixel r x y
            else if mc_w c = pr_src_w r \<and> mc_h c = pr_src_h r then the (sample_pixel (int x) (int y) c) else 0))"
proof -
  let ?W = "pr_src_w r * 4"
  define same where "same \<longleftrightarrow> mc_w c = pr_src_w r \<and> mc_h c = pr_src_h r"
  define b where "b = (if same then mc_bgra c else replicate (pr_src_w r * pr_src_h r * 4) (CHR 0x00))"
  define b' where "b' = fold (paint_row r) [0..<pr_dirty_h r] b"
  have blen: "length b = pr_src_h r * ?W" using c by (auto simp: b_def same_def chrome_ok_def)
  note rows = paint_rows [OF ok blen order_refl, folded b'_def]
  have m: "mock_paint_chrome r c = \<lparr>mc_w = pr_src_w r, mc_h = pr_src_h r, mc_bgra = b'\<rparr>"
    by (auto simp: mock_paint_chrome_def b'_def b_def same_def)
  have "sample_pixel (int x) (int y) (mock_paint_chrome r c) =
      Some (if in_rect r x y then payload_pixel r x y else if same then the (sample_pixel (int x) (int y) c) else 0)"
    if xy: "x < pr_src_w r" "y < pr_src_h r" for x y
  proof -
    define off where "off = y * ?W + x * 4"
    define src where "src = (y - nat (pr_dirty_y r)) * pr_stride r + (x - nat (pr_dirty_x r)) * 4"
    have o: "y * pr_src_w r * 4 + x * 4 = off" by (simp add: off_def)
    have fit: "off + 4 \<le> length b" using row_bound [of y "pr_src_h r" "x * 4 + 4" ?W] xy blen by (simp add: off_def)
    have byte: "b' ! (off + i) = (if in_rect r x y then pr_pixels r ! (src + i) else b ! (off + i))" if i: "i < 4" for i
    proof -
      have k: "x * 4 + i < ?W" using xy(1) i by simp
      have d: "in_dirty r (pr_dirty_h r) y (x * 4 + i) \<longleftrightarrow> in_rect r x y"
        using i by (auto simp: in_dirty_def in_rect_def)
      have e: "src + i = (y - nat (pr_dirty_y r)) * pr_stride r + (x * 4 + i - nat (pr_dirty_x r) * 4)" if "in_rect r x y"
      proof -
        have "nat (pr_dirty_x r) \<le> x" using that unfolding in_rect_def by blast
        then have "(x - nat (pr_dirty_x r)) * 4 + i = x * 4 + i - nat (pr_dirty_x r) * 4" by (simp only: diff_mult_distrib)
        then show ?thesis unfolding src_def by linarith
      qed
      have j: "off + i = y * ?W + (x * 4 + i)" by (simp add: off_def)
      show ?thesis using rows [THEN conjunct2] xy(2) k d e unfolding j by auto
    qed
    have new: "sample_pixel (int x) (int y) (mock_paint_chrome r c) = Some (load_le32 (drop off b'))"
      using xy by (simp add: m sample_pixel_def o)
    have fit': "off + 4 \<le> length b'" using fit rows by simp
    note bytes = byte [of 0, simplified] byte [of 1, simplified] byte [of 2, simplified] byte [of 3, simplified]
    show ?thesis
    proof (cases "in_rect r x y")
      case True
      have "(y - nat (pr_dirty_y r)) * pr_stride r + ((x - nat (pr_dirty_x r)) * 4 + 4) \<le> pr_dirty_h r * pr_stride r"
        using True ok by (intro row_bound) (auto simp: in_rect_def paint_ok_def)
      then have p: "src + 4 \<le> length (pr_pixels r)" using ok by (simp add: src_def paint_ok_def mult.commute)
      show ?thesis
        unfolding new load_le32_drop [OF fit'] using True bytes load_le32_drop [OF p] by (simp add: payload_pixel_def src_def [symmetric])
    next
      case False
      have old: "load_le32 (drop off b') = load_le32 (drop off b)"
        unfolding load_le32_drop [OF fit'] load_le32_drop [OF fit] using False bytes by simp
      have "same \<Longrightarrow> sample_pixel (int x) (int y) c = Some (load_le32 (drop off b))"
        using xy o by (auto simp: sample_pixel_def same_def b_def)
      moreover have "\<not> same \<Longrightarrow> load_le32 (drop off b) = 0"
        unfolding load_le32_drop [OF fit] using fit by (simp add: b_def load_le32_def)
      ultimately show ?thesis using False new old by auto
    qed
  qed
  then show ?thesis using rows blen by (simp add: m chrome_ok_def same_def mult.commute mult.left_commute)
qed

text \<open>
  C5: an accepted paint paints exactly its rectangle. Whatever bytes arrive, if the decoder accepts them
  then the window's pixel store gets the announced size, at most 96 MiB, every copied row stays inside
  store and payload, and afterwards each pixel of the rectangle is the payload's, every other pixel
  is what it was, or zero if the store was resized.
\<close>

theorem paint_exact:
  assumes "paint_from_wire body = Inr r" "chrome_ok c"
  shows "length (mc_bgra (mock_paint_chrome r c)) = pr_src_w r * pr_src_h r * 4 \<and>
    length (mc_bgra (mock_paint_chrome r c)) \<le> kMaxAuxChromeBackingStoreBytes \<and>
    (\<forall>row<pr_dirty_h r. dst_off r row + pr_dirty_w r * 4 \<le> pr_src_w r * pr_src_h r * 4 \<and>
       row * pr_stride r + pr_dirty_w r * 4 \<le> length (pr_pixels r)) \<and>
    (\<forall>x<pr_src_w r. \<forall>y<pr_src_h r. sample_pixel (int x) (int y) (mock_paint_chrome r c) =
      Some (if in_rect r x y then payload_pixel r x y
            else if mc_w c = pr_src_w r \<and> mc_h c = pr_src_h r then the (sample_pixel (int x) (int y) c) else 0))"
proof -
  have ok: "paint_ok r" using paint_from_wire_ok [OF assms(1)] .
  note s = paint_sample [OF ok assms(2)]
  have "dst_off r row + pr_dirty_w r * 4 \<le> pr_src_w r * pr_src_h r * 4 \<and> row * pr_stride r + pr_dirty_w r * 4 \<le> length (pr_pixels r)"
    if row: "row < pr_dirty_h r" for row
    using row_bound [of "nat (pr_dirty_y r) + row" "pr_src_h r" "nat (pr_dirty_x r) * 4 + pr_dirty_w r * 4" "pr_src_w r * 4"]
      row_bound [of row "pr_dirty_h r" "pr_dirty_w r * 4" "pr_stride r"] ok row
    by (simp add: paint_ok_def dst_off_def mult.commute mult.left_commute)
  then show ?thesis using s ok by (simp add: chrome_ok_def paint_ok_def)
qed

definition sample_paint :: paint_request where
  "sample_paint = \<lparr>pr_xid = 5, pr_lifecycle_generation = 1, pr_seq = 1, pr_src_w = 2, pr_src_h = 1, pr_dirty_x = 1, pr_dirty_y = 0,
     pr_dirty_w = 1, pr_dirty_h = 1, pr_stride = 4, pr_format = 1, pr_pixels = ''BGRA''\<rparr>"

theorem paint_exact_witness:
  "paint_from_wire (paint_to_wire sample_paint) = Inr sample_paint \<and>
   sample_pixel 0 0 (mock_paint_chrome sample_paint no_chrome) = Some 0 \<and>
   sample_pixel 1 0 (mock_paint_chrome sample_paint no_chrome) = Some (load_le32 ''BGRA'')"
proof -
  have "paint_fits sample_paint"
    by (simp add: paint_fits_def sample_paint_def kAuxChromeFormatBgra8_def kMaxAuxChromeBackingStoreBytes_def
        kMaxAuxChromeWirePayloadBytes_def kMaxFrameBytes_def kMaxAuxChromeJsonHeaderBytes_def)
  then have rt: "paint_from_wire (paint_to_wire sample_paint) = Inr sample_paint" by (rule paint_roundtrip)
  have "\<forall>x<2. \<forall>y<1. sample_pixel (int x) (int y) (mock_paint_chrome sample_paint no_chrome) =
      Some (if in_rect sample_paint x y then payload_pixel sample_paint x y else 0)"
    using paint_exact [OF rt, of no_chrome] by (simp add: chrome_ok_def sample_paint_def)
  then show ?thesis using rt by (simp add: numeral_2_eq_2 All_less_Suc in_rect_def payload_pixel_def sample_paint_def)
qed

end
