(* ===== verification/Sidecar_Messages.thy ===== *)
theory Sidecar_Messages
  imports Window_Registry Input_Queue Chrome_Paint
begin

text \<open>
  The messages of the sidecar plane (src/vkrelay2/common/sidecar/sidecar_session.cpp): the decoders of
  all requests and the encoders of all replies, that is the worker's side of the wire, and the sidecar's
  side of the operations that change the window table. Identifiers travel as decimal strings, 32-bit
  unsigned numbers as the signed number with the same bits.
\<close>

section \<open>Numbers on the wire\<close>

abbreviation JU32 :: "nat \<Rightarrow> jval" where
  "JU32 n \<equiv> JInt (i32 (int n))"

abbreviation get_u32 :: "jval \<Rightarrow> string \<Rightarrow> nat" where
  "get_u32 b k \<equiv> u32_of_int (get_int b k 0)"

abbreviation kSidecarProtocolVersion :: int where "kSidecarProtocolVersion \<equiv> 1"

abbreviation kMaxCursorDim :: nat where "kMaxCursorDim \<equiv> 256"

abbreviation kMaxCursorPayloadBytes :: nat where "kMaxCursorPayloadBytes \<equiv> kMaxCursorDim * kMaxCursorDim * 4"

abbreviation kMaxCursorJsonHeaderBytes :: nat where "kMaxCursorJsonHeaderBytes \<equiv> 1024"

abbreviation kCursorFormatBgra8 :: int where "kCursorFormatBgra8 \<equiv> 1"

abbreviation kMaxCaptureJsonHeaderBytes :: nat where "kMaxCaptureJsonHeaderBytes \<equiv> 4096"

abbreviation kMaxCapturePayloadBytes :: nat where
  "kMaxCapturePayloadBytes \<equiv> kMaxFrameBytes - kMaxCaptureJsonHeaderBytes - 1024"

abbreviation kCaptureFormatBgra8 :: int where "kCaptureFormatBgra8 \<equiv> 1"

section \<open>Negotiation and readiness\<close>

definition negotiate_request_from_body :: "jval \<Rightarrow> int" where
  "negotiate_request_from_body b = get_int b ''protocol_version'' 0"

text \<open>The reply: whether it is granted, the version of the worker, the reason.\<close>

definition negotiate_response_to_body :: "bool \<times> int \<times> string \<Rightarrow> jval" where
  "negotiate_response_to_body r =
     obj_of [(''ok'', JBool (fst r)), (''protocol_version'', JInt (fst (snd r))), (''reason'', JStr (snd (snd r)))]"

record ready_request =
  rd_scan_generation :: int
  rd_has_xcomposite :: bool
  rd_has_xtest :: bool
  rd_has_xfixes :: bool
  rd_initial_toplevels :: int
  rd_root_width :: nat
  rd_root_height :: nat
  rd_display_snapshot_id :: string

definition ready_request_from_body :: "jval \<Rightarrow> ready_request" where
  "ready_request_from_body b =
     \<lparr>rd_scan_generation = get_int b ''scan_generation'' 0, rd_has_xcomposite = get_bool b ''has_xcomposite'' False,
      rd_has_xtest = get_bool b ''has_xtest'' False, rd_has_xfixes = get_bool b ''has_xfixes'' False,
      rd_initial_toplevels = get_int b ''initial_toplevels'' 0, rd_root_width = get_u32 b ''root_width'',
      rd_root_height = get_u32 b ''root_height'', rd_display_snapshot_id = get_string b ''display_snapshot_id'' []\<rparr>"

definition ready_response_to_body :: "bool \<times> string \<Rightarrow> jval" where
  "ready_response_to_body r = obj_of [(''ok'', JBool (fst r)), (''reason'', JStr (snd r))]"

section \<open>The toplevel operations\<close>

record register_request =
  rq_xid :: nat
  rq_generation :: nat
  rq_override_redirect :: bool
  rq_info :: toplevel_info

definition register_to_body :: "register_request \<Rightarrow> jval" where
  "register_to_body r =
     (let i = rq_info r; g = ti_geometry i in
      obj_of [(''xid'', handle_value (rq_xid r)), (''generation'', handle_value (rq_generation r)), (''role'', JStr (ti_role i)),
        (''title'', JStr (ti_title i)), (''x'', JInt (tg_x g)), (''y'', JInt (tg_y g)), (''width'', JU32 (tg_width g)),
        (''height'', JU32 (tg_height g)), (''override_redirect'', JBool (rq_override_redirect r)),
        (''is_popup'', JBool (ti_is_popup i)), (''owner_xid'', handle_value (ti_owner_xid i)), (''popup_kind'', JU32 (ti_popup_kind i))])"

definition register_from_body :: "jval \<Rightarrow> register_request" where
  "register_from_body b =
     \<lparr>rq_xid = get_handle b ''xid'', rq_generation = get_handle b ''generation'',
      rq_override_redirect = get_bool b ''override_redirect'' False,
      rq_info = \<lparr>ti_role = get_string b ''role'' [], ti_title = get_string b ''title'' [],
        ti_geometry = \<lparr>tg_x = get_int b ''x'' 0, tg_y = get_int b ''y'' 0, tg_width = get_u32 b ''width'', tg_height = get_u32 b ''height''\<rparr>,
        ti_is_popup = get_bool b ''is_popup'' False, ti_owner_xid = get_handle b ''owner_xid'', ti_popup_kind = get_u32 b ''popup_kind''\<rparr>\<rparr>"

record update_request =
  uq_xid :: nat
  uq_generation :: nat
  uq_role :: string
  uq_geometry :: toplevel_geometry
  uq_z_order :: nat

definition update_to_body :: "update_request \<Rightarrow> jval" where
  "update_to_body r =
     (let g = uq_geometry r in
      obj_of [(''xid'', handle_value (uq_xid r)), (''generation'', handle_value (uq_generation r)), (''role'', JStr (uq_role r)),
        (''x'', JInt (tg_x g)), (''y'', JInt (tg_y g)), (''width'', JU32 (tg_width g)), (''height'', JU32 (tg_height g)),
        (''z_order'', JU32 (uq_z_order r))])"

definition update_from_body :: "jval \<Rightarrow> update_request" where
  "update_from_body b =
     \<lparr>uq_xid = get_handle b ''xid'', uq_generation = get_handle b ''generation'', uq_role = get_string b ''role'' [],
      uq_geometry = \<lparr>tg_x = get_int b ''x'' 0, tg_y = get_int b ''y'' 0, tg_width = get_u32 b ''width'', tg_height = get_u32 b ''height''\<rparr>,
      uq_z_order = get_u32 b ''z_order''\<rparr>"

text \<open>An unregistration is the window and its generation; a visibility change has the new state too.\<close>

definition unregister_to_body :: "nat \<times> nat \<Rightarrow> jval" where
  "unregister_to_body r = obj_of [(''xid'', handle_value (fst r)), (''generation'', handle_value (snd r))]"

definition unregister_from_body :: "jval \<Rightarrow> nat \<times> nat" where
  "unregister_from_body b = (get_handle b ''xid'', get_handle b ''generation'')"

definition visibility_to_body :: "nat \<times> nat \<times> nat \<Rightarrow> jval" where
  "visibility_to_body r =
     obj_of [(''xid'', handle_value (fst r)), (''generation'', handle_value (fst (snd r))), (''visibility_state'', JU32 (snd (snd r)))]"

definition visibility_from_body :: "jval \<Rightarrow> nat \<times> nat \<times> nat" where
  "visibility_from_body b = (get_handle b ''xid'', get_handle b ''generation'', get_u32 b ''visibility_state'')"

record toplevel_response =
  tp_ok :: bool
  tp_reason :: string
  tp_xid :: nat
  tp_applied :: bool
  tp_representation :: string
  tp_epoch :: nat

definition toplevel_response_to_body :: "toplevel_response \<Rightarrow> jval" where
  "toplevel_response_to_body r =
     obj_of [(''ok'', JBool (tp_ok r)), (''reason'', JStr (tp_reason r)), (''xid'', handle_value (tp_xid r)),
       (''applied'', JBool (tp_applied r)), (''representation'', JStr (tp_representation r)), (''epoch'', handle_value (tp_epoch r))]"

definition toplevel_response_from_body :: "jval \<Rightarrow> toplevel_response" where
  "toplevel_response_from_body b =
     \<lparr>tp_ok = get_bool b ''ok'' False, tp_reason = get_string b ''reason'' [], tp_xid = get_handle b ''xid'',
      tp_applied = get_bool b ''applied'' False, tp_representation = get_string b ''representation'' ''none'',
      tp_epoch = get_handle b ''epoch''\<rparr>"

section \<open>Chrome\<close>

record paint_response =
  pp_ok :: bool
  pp_reason :: string
  pp_xid :: nat
  pp_applied :: bool
  pp_representation :: string
  pp_shown :: bool
  pp_last_seq :: nat

definition paint_response_to_body :: "paint_response \<Rightarrow> jval" where
  "paint_response_to_body r =
     obj_of [(''ok'', JBool (pp_ok r)), (''reason'', JStr (pp_reason r)), (''xid'', handle_value (pp_xid r)),
       (''applied'', JBool (pp_applied r)), (''representation'', JStr (pp_representation r)), (''shown'', JBool (pp_shown r)),
       (''last_seq'', handle_value (pp_last_seq r))]"

text \<open>A debug query of the chrome or of the cursor: the window and the position to sample.\<close>

definition chrome_query_from_body :: "jval \<Rightarrow> nat \<times> int \<times> int" where
  "chrome_query_from_body b = (get_handle b ''xid'', get_int b ''sample_x'' 0, get_int b ''sample_y'' 0)"

record chrome_state =
  cs_ok :: bool
  cs_reason :: string
  cs_xid :: nat
  cs_representation :: string
  cs_shown :: bool
  cs_last_seq :: nat
  cs_has_pixel :: bool
  cs_pixel_bgra :: nat

definition chrome_state_to_body :: "chrome_state \<Rightarrow> jval" where
  "chrome_state_to_body r =
     obj_of [(''ok'', JBool (cs_ok r)), (''reason'', JStr (cs_reason r)), (''xid'', handle_value (cs_xid r)),
       (''representation'', JStr (cs_representation r)), (''shown'', JBool (cs_shown r)), (''last_seq'', handle_value (cs_last_seq r)),
       (''has_pixel'', JBool (cs_has_pixel r)), (''pixel_bgra'', handle_value (cs_pixel_bgra r))]"

section \<open>Input\<close>

definition event_to_value :: "input_event \<Rightarrow> jval" where
  "event_to_value e =
     obj_of [(''xid'', handle_value (ie_xid e)), (''epoch'', handle_value (ie_epoch e)), (''seq'', handle_value (ie_seq e)),
       (''kind'', JU32 (ie_kind e)), (''client_x'', JInt (ie_client_x e)), (''client_y'', JInt (ie_client_y e)),
       (''button'', JInt (ie_button e)), (''wheel'', JInt (ie_wheel e)), (''vk'', JInt (ie_vk e)), (''scancode'', JInt (ie_scancode e)),
       (''modifiers'', JU32 (ie_modifiers e)), (''pressed'', JBool (ie_pressed e)), (''root_x'', JInt (ie_root_x e)),
       (''root_y'', JInt (ie_root_y e)), (''req_w'', JU32 (ie_req_w e)), (''req_h'', JU32 (ie_req_h e)),
       (''host_request'', JU32 (ie_host_request e))]"

definition event_from_value :: "jval \<Rightarrow> input_event" where
  "event_from_value v =
     \<lparr>ie_xid = get_handle v ''xid'', ie_epoch = get_handle v ''epoch'', ie_seq = get_handle v ''seq'', ie_kind = get_u32 v ''kind'',
      ie_client_x = get_int v ''client_x'' 0, ie_client_y = get_int v ''client_y'' 0, ie_button = get_int v ''button'' 0,
      ie_wheel = get_int v ''wheel'' 0, ie_vk = get_int v ''vk'' 0, ie_scancode = get_int v ''scancode'' 0,
      ie_modifiers = get_u32 v ''modifiers'', ie_pressed = get_bool v ''pressed'' False, ie_root_x = get_int v ''root_x'' 0,
      ie_root_y = get_int v ''root_y'' 0, ie_req_w = get_u32 v ''req_w'', ie_req_h = get_u32 v ''req_h'',
      ie_host_request = get_u32 v ''host_request''\<rparr>"

definition poll_request_from_body :: "jval \<Rightarrow> nat" where
  "poll_request_from_body b = get_handle b ''since_seq''"

record poll_response =
  po_ok :: bool
  po_reason :: string
  po_events :: "input_event list"
  po_next_seq :: nat
  po_dropped :: bool

definition poll_response_to_body :: "poll_response \<Rightarrow> jval" where
  "poll_response_to_body r =
     obj_of [(''ok'', JBool (po_ok r)), (''reason'', JStr (po_reason r)), (''events'', JArr (map event_to_value (po_events r))),
       (''next_seq'', handle_value (po_next_seq r)), (''dropped'', JBool (po_dropped r))]"

definition poll_response_from_body :: "jval \<Rightarrow> poll_response" where
  "poll_response_from_body b =
     \<lparr>po_ok = get_bool b ''ok'' False, po_reason = get_string b ''reason'' [],
      po_events = (case json_find b ''events'' of Some (JArr vs) \<Rightarrow> map event_from_value vs | _ \<Rightarrow> []),
      po_next_seq = get_handle b ''next_seq'', po_dropped = get_bool b ''dropped'' False\<rparr>"

text \<open>A debug push: the window, the epoch and at most as many events as the ring takes.\<close>

definition enqueue_request_from_body :: "jval \<Rightarrow> nat \<times> nat \<times> input_event list" where
  "enqueue_request_from_body b =
     (get_handle b ''xid'', get_handle b ''epoch'',
      case json_find b ''events'' of Some (JArr vs) \<Rightarrow> map event_from_value (take kMaxInputQueueEvents vs) | _ \<Rightarrow> [])"

definition enqueue_response_to_body :: "bool \<times> string \<times> nat \<times> int \<Rightarrow> jval" where
  "enqueue_response_to_body r =
     (case r of (ok, reason, xid, enqueued) \<Rightarrow>
        obj_of [(''ok'', JBool ok), (''reason'', JStr reason), (''xid'', handle_value xid), (''enqueued'', JInt enqueued)])"

section \<open>The cursor\<close>

record cursor_request =
  cq_xid :: nat
  cq_epoch :: nat
  cq_width :: nat
  cq_height :: nat
  cq_xhot :: int
  cq_yhot :: int
  cq_format :: int
  cq_pixels :: string

definition cursor_to_wire :: "cursor_request \<Rightarrow> string" where
  "cursor_to_wire r =
     (let js = json_dump 0 (obj_of
        [(''xid'', handle_value (cq_xid r)), (''epoch'', handle_value (cq_epoch r)), (''width'', handle_value (cq_width r)),
         (''height'', handle_value (cq_height r)), (''xhot'', JInt (cq_xhot r)), (''yhot'', JInt (cq_yhot r)),
         (''format'', JInt (cq_format r)), (''payload_size'', handle_value (length (cq_pixels r)))])
      in store_le32 (u32 (length js)) @ js @ cq_pixels r)"

definition check_cursor_header :: "jval \<Rightarrow> string \<Rightarrow> string + cursor_request" where
  "check_cursor_header h tail =
     (let format = get_int h ''format'' 0; width = get_handle h ''width''; height = get_handle h ''height'';
          xhot = get_i64 h ''xhot'' 0; yhot = get_i64 h ''yhot'' 0; payload_size = get_handle h ''payload_size''
      in if format \<noteq> kCursorFormatBgra8 then Inl ''set_cursor unknown pixel format''
         else if width = 0 \<or> height = 0 then Inl ''set_cursor zero dimension''
         else if width > kMaxCursorDim \<or> height > kMaxCursorDim then Inl ''set_cursor dimension exceeds the cap''
         else if xhot < 0 \<or> xhot \<ge> int width \<or> yhot < 0 \<or> yhot \<ge> int height then Inl ''set_cursor hotspot out of range''
         else if payload_size \<noteq> width * height * 4 then Inl ''set_cursor payload_size does not match width*height*4''
         else if payload_size > kMaxCursorPayloadBytes then Inl ''set_cursor payload exceeds the cap''
         else if length tail \<noteq> payload_size then Inl ''set_cursor tail length does not match payload_size''
         else Inr \<lparr>cq_xid = get_handle h ''xid'', cq_epoch = get_handle h ''epoch'', cq_width = width, cq_height = height,
                   cq_xhot = xhot, cq_yhot = yhot, cq_format = format, cq_pixels = tail\<rparr>)"

definition cursor_from_wire :: "string \<Rightarrow> string + cursor_request" where
  "cursor_from_wire body =
     (if length body < 4 then Inl ''set_cursor body shorter than 4-byte length prefix''
      else let json_len = load_le32 body in
        if json_len > kMaxCursorJsonHeaderBytes then Inl ''set_cursor json header exceeds cap''
        else if 4 + json_len > length body then Inl ''set_cursor json header runs past end of body''
        else case json_parse (take json_len (drop 4 body)) of
               Inl e \<Rightarrow> Inl (''set_cursor json header parse: '' @ what e)
             | Inr h \<Rightarrow> check_cursor_header h (drop (4 + json_len) body))"

definition cursor_response_to_body :: "bool \<times> string \<times> nat \<times> bool \<Rightarrow> jval" where
  "cursor_response_to_body r =
     (case r of (ok, reason, xid, applied) \<Rightarrow>
        obj_of [(''ok'', JBool ok), (''reason'', JStr reason), (''xid'', handle_value xid), (''applied'', JBool applied)])"

definition cursor_query_from_body :: "jval \<Rightarrow> nat \<times> int \<times> int" where
  "cursor_query_from_body b = (get_handle b ''xid'', get_int b ''sample_x'' 0, get_int b ''sample_y'' 0)"

record cursor_state =
  cu_ok :: bool
  cu_reason :: string
  cu_xid :: nat
  cu_has_cursor :: bool
  cu_width :: nat
  cu_height :: nat
  cu_xhot :: int
  cu_yhot :: int
  cu_has_pixel :: bool
  cu_pixel_bgra :: nat

definition cursor_state_to_body :: "cursor_state \<Rightarrow> jval" where
  "cursor_state_to_body r =
     obj_of [(''ok'', JBool (cu_ok r)), (''reason'', JStr (cu_reason r)), (''xid'', handle_value (cu_xid r)),
       (''has_cursor'', JBool (cu_has_cursor r)), (''width'', handle_value (cu_width r)), (''height'', handle_value (cu_height r)),
       (''xhot'', JInt (cu_xhot r)), (''yhot'', JInt (cu_yhot r)), (''has_pixel'', JBool (cu_has_pixel r)),
       (''pixel_bgra'', handle_value (cu_pixel_bgra r))]"

section \<open>Enumerating the windows\<close>

definition enum_request_from_body :: "jval \<Rightarrow> bool" where
  "enum_request_from_body b = get_bool b ''include_actual'' False"

record window_info =
  wi_xid :: nat
  wi_representation :: string
  wi_toplevel_registered :: bool
  wi_has_surface :: bool
  wi_generation :: nat
  wi_epoch :: nat
  wi_last_paint_seq :: nat
  wi_shown :: bool
  wi_role :: string
  wi_title :: string
  wi_geometry :: toplevel_geometry
  wi_is_popup :: bool
  wi_owner_xid :: nat
  wi_popup_kind :: nat
  wi_z_order :: nat
  wi_visibility_state :: nat
  wi_has_actual :: bool
  wi_actual :: toplevel_geometry
  wi_frame :: toplevel_geometry
  wi_last_host_apply_seq :: nat
  wi_clamped :: bool
  wi_host_visible :: bool
  wi_host_iconic :: bool

definition window_info_to_value :: "window_info \<Rightarrow> jval" where
  "window_info_to_value w =
     (let g = wi_geometry w; a = wi_actual w; f = wi_frame w in
      obj_of [(''xid'', handle_value (wi_xid w)), (''representation'', JStr (wi_representation w)),
        (''toplevel_registered'', JBool (wi_toplevel_registered w)), (''has_surface'', JBool (wi_has_surface w)),
        (''generation'', handle_value (wi_generation w)), (''epoch'', handle_value (wi_epoch w)),
        (''last_paint_seq'', handle_value (wi_last_paint_seq w)), (''shown'', JBool (wi_shown w)), (''role'', JStr (wi_role w)),
        (''title'', JStr (wi_title w)), (''x'', JInt (tg_x g)), (''y'', JInt (tg_y g)), (''width'', JU32 (tg_width g)),
        (''height'', JU32 (tg_height g)), (''is_popup'', JBool (wi_is_popup w)), (''owner_xid'', handle_value (wi_owner_xid w)),
        (''popup_kind'', JU32 (wi_popup_kind w)), (''z_order'', JU32 (wi_z_order w)),
        (''visibility_state'', JU32 (wi_visibility_state w)), (''has_actual'', JBool (wi_has_actual w)),
        (''actual_x'', JInt (tg_x a)), (''actual_y'', JInt (tg_y a)), (''actual_width'', JU32 (tg_width a)),
        (''actual_height'', JU32 (tg_height a)), (''frame_x'', JInt (tg_x f)), (''frame_y'', JInt (tg_y f)),
        (''frame_width'', JU32 (tg_width f)), (''frame_height'', JU32 (tg_height f)),
        (''last_host_apply_seq'', handle_value (wi_last_host_apply_seq w)), (''clamped'', JBool (wi_clamped w)),
        (''host_visible'', JBool (wi_host_visible w)), (''host_iconic'', JBool (wi_host_iconic w))])"

definition enum_response_to_body :: "bool \<times> string \<times> window_info list \<Rightarrow> jval" where
  "enum_response_to_body r =
     (case r of (ok, reason, windows) \<Rightarrow>
        obj_of [(''ok'', JBool ok), (''reason'', JStr reason), (''windows'', JArr (map window_info_to_value windows))])"

section \<open>Capturing a window\<close>

record capture_request =
  xq_xid :: nat
  xq_layer :: string
  xq_expected_epoch :: nat
  xq_expected_lifecycle_generation :: nat
  xq_min_last_seq :: nat

definition capture_request_from_body :: "jval \<Rightarrow> capture_request" where
  "capture_request_from_body b =
     \<lparr>xq_xid = get_handle b ''xid'', xq_layer = get_string b ''layer'' [], xq_expected_epoch = get_handle b ''expected_epoch'',
      xq_expected_lifecycle_generation = get_handle b ''expected_lifecycle_generation'', xq_min_last_seq = get_handle b ''min_last_seq''\<rparr>"

record capture_response =
  xr_ok :: bool
  xr_status :: string
  xr_reason :: string
  xr_xid :: nat
  xr_layer :: string
  xr_representation :: string
  xr_generation :: nat
  xr_epoch :: nat
  xr_last_paint_seq :: nat
  xr_shown :: bool
  xr_xhot :: int
  xr_yhot :: int
  xr_width :: nat
  xr_height :: nat
  xr_stride :: nat
  xr_format :: int
  xr_needed_bytes :: nat
  xr_pixels :: string

definition capture_header :: "capture_response \<Rightarrow> jval" where
  "capture_header r =
     obj_of [(''ok'', JBool (xr_ok r)), (''status'', JStr (xr_status r)), (''reason'', JStr (xr_reason r)),
       (''xid'', handle_value (xr_xid r)), (''layer'', JStr (xr_layer r)), (''representation'', JStr (xr_representation r)),
       (''generation'', handle_value (xr_generation r)), (''epoch'', handle_value (xr_epoch r)),
       (''last_paint_seq'', handle_value (xr_last_paint_seq r)), (''shown'', JBool (xr_shown r)), (''xhot'', JInt (xr_xhot r)),
       (''yhot'', JInt (xr_yhot r)), (''width'', handle_value (xr_width r)), (''height'', handle_value (xr_height r)),
       (''stride'', handle_value (xr_stride r)), (''format'', JInt (xr_format r)), (''needed_bytes'', handle_value (xr_needed_bytes r))]"

definition capture_to_wire :: "capture_response \<Rightarrow> string" where
  "capture_to_wire r = (let js = json_dump 0 (capture_header r) in store_le32 (u32 (length js)) @ js @ xr_pixels r)"

definition check_capture_header :: "jval \<Rightarrow> string \<Rightarrow> string + capture_response" where
  "check_capture_header h tail =
     (let ok = get_bool h ''ok'' False; status = get_string h ''status'' []; format = get_int h ''format'' 0;
          width = get_handle h ''width''; height = get_handle h ''height''; stride = get_handle h ''stride'';
          r = \<lparr>xr_ok = ok, xr_status = status, xr_reason = get_string h ''reason'' [], xr_xid = get_handle h ''xid'',
               xr_layer = get_string h ''layer'' [], xr_representation = get_string h ''representation'' ''none'',
               xr_generation = get_handle h ''generation'', xr_epoch = get_handle h ''epoch'',
               xr_last_paint_seq = get_handle h ''last_paint_seq'', xr_shown = get_bool h ''shown'' False,
               xr_xhot = get_int h ''xhot'' 0, xr_yhot = get_int h ''yhot'' 0, xr_width = width, xr_height = height, xr_stride = stride,
               xr_format = format, xr_needed_bytes = get_handle h ''needed_bytes'', xr_pixels = tail\<rparr>
      in if status \<notin> {''ok'', ''empty'', ''absent'', ''mismatch'', ''too_large'', ''bad_layer''} then Inl ''capture unknown status''
         else if ok \<noteq> (status = ''ok'') then Inl ''capture ok/status inconsistent''
         else if width > 0x7FFFFFFF \<or> height > 0x7FFFFFFF \<or> stride > 0x7FFFFFFF then Inl ''capture dimension exceeds INT_MAX''
         else if ok then
           (if format \<noteq> kCaptureFormatBgra8 then Inl ''capture unknown pixel format''
            else if width = 0 \<or> height = 0 then Inl ''capture zero dimension''
            else if stride < width * 4 then Inl ''capture stride smaller than a row''
            else if height * stride > kMaxCapturePayloadBytes then Inl ''capture payload exceeds the frame cap''
            else if length tail \<noteq> height * stride then Inl ''capture tail length does not match height * stride''
            else Inr r)
         else if tail \<noteq> [] then Inl ''capture non-ok response carries a pixel tail'' else Inr r)"

definition capture_from_wire :: "string \<Rightarrow> string + capture_response" where
  "capture_from_wire body =
     (if length body < 4 then Inl ''capture body shorter than 4-byte length prefix''
      else let json_len = load_le32 body in
        if json_len > kMaxCaptureJsonHeaderBytes then Inl ''capture json header exceeds cap''
        else if 4 + json_len > length body then Inl ''capture json header runs past end of body''
        else case json_parse (take json_len (drop 4 body)) of
               Inl e \<Rightarrow> Inl (''capture json header parse: '' @ what e)
             | Inr h \<Rightarrow> check_capture_header h (drop (4 + json_len) body))"

end
