(* ===== verification/Sidecar_Plane.thy ===== *)
theory Sidecar_Plane
  imports Registry_Correct Sidecar_Messages
begin

text \<open>
  The mock backend of the worker as the two planes see it (src/vkrelay2/common/vkrpc/vulkan_session.cpp,
  class \<open>MockVulkanBackend\<close>): the handlers of the sidecar plane, the instance and surface handlers of the
  data plane, which share the window registry, and the dispatcher of the sidecar plane
  (\<open>serve_sidecar_rpc\<close>, src/vkrelay2/common/sidecar/sidecar_session.cpp).
\<close>

section \<open>State\<close>

record instance_obj =
  in_physical_device :: nat
  in_devices :: "nat set"
  in_surfaces :: "nat set"

record surface_obj =
  sf_instance :: nat
  sf_swapchains :: "nat set"
  sf_geometry_dirty :: bool
  sf_shown :: bool
  sf_platform :: string
  sf_xid :: nat
  sf_role_hint :: string

record mock_cursor =
  mk_w :: nat
  mk_h :: nat
  mk_xhot :: int
  mk_yhot :: int
  mk_bgra :: string

record mock_geometry =
  mg_geometry :: toplevel_geometry
  mg_seq :: nat

record mock_backend =
  mb_have_device :: bool
  mb_display_layout :: "display_layout option"
  mb_next_handle :: nat
  mb_instances :: "nat \<rightharpoonup> instance_obj"
  mb_surfaces :: "nat \<rightharpoonup> surface_obj"
  mb_registry :: registry
  mb_sidecar_ready :: bool
  mb_placeholders :: "nat set"
  mb_chrome :: "nat \<rightharpoonup> mock_chrome"
  mb_cursors :: "nat \<rightharpoonup> mock_cursor"
  mb_geometry :: "nat \<rightharpoonup> mock_geometry"
  mb_input_queue :: input_queue

definition new_backend :: "bool \<Rightarrow> display_layout option \<Rightarrow> mock_backend" where
  "new_backend have_device layout =
     \<lparr>mb_have_device = have_device, mb_display_layout = layout, mb_next_handle = 1, mb_instances = Map.empty, mb_surfaces = Map.empty,
      mb_registry = empty_registry, mb_sidecar_ready = False, mb_placeholders = {}, mb_chrome = Map.empty, mb_cursors = Map.empty,
      mb_geometry = Map.empty, mb_input_queue = empty_queue\<rparr>"

section \<open>Executing an effect\<close>

text \<open>The windows and the stores of a window that dies.\<close>

definition execute_kind :: "registry_effect \<Rightarrow> mock_backend \<Rightarrow> mock_backend" where
  "execute_kind eff s =
     (case ef_kind eff of
        CreatePlaceholder \<Rightarrow> s\<lparr>mb_placeholders := insert (ef_placeholder_id eff) (mb_placeholders s)\<rparr>
      | DestroyPlaceholder \<Rightarrow>
          s\<lparr>mb_placeholders := mb_placeholders s - {ef_placeholder_id eff}, mb_chrome := (mb_chrome s)(ef_xid eff := None),
            mb_cursors := (mb_cursors s)(ef_xid eff := None), mb_geometry := (mb_geometry s)(ef_xid eff := None)\<rparr>
      | PromotePlaceholderToSurface \<Rightarrow>
          s\<lparr>mb_placeholders := mb_placeholders s - {ef_placeholder_id eff}, mb_chrome := (mb_chrome s)(ef_xid eff := None),
            mb_cursors := (mb_cursors s)(ef_xid eff := None), mb_geometry := (mb_geometry s)(ef_xid eff := None)\<rparr>
      | ApplyGeometry \<Rightarrow> s
      | SetVisibility \<Rightarrow> s
      | NoEffect \<Rightarrow> s)"

definition record_placement :: "registry_effect \<Rightarrow> mock_backend \<Rightarrow> mock_backend" where
  "record_placement eff s =
     (let seq = (case mb_geometry s (ef_xid eff) of None \<Rightarrow> 0 | Some g \<Rightarrow> mg_seq g) in
      if ef_kind eff \<noteq> SetVisibility \<and> ef_host_apply_seq eff \<noteq> 0 \<and> ef_host_apply_seq eff > seq
      then s\<lparr>mb_geometry := (mb_geometry s)(ef_xid eff \<mapsto> \<lparr>mg_geometry = ef_geometry eff, mg_seq = ef_host_apply_seq eff\<rparr>)\<rparr>
      else s)"

definition mark_resized :: "registry_effect \<Rightarrow> mock_backend \<Rightarrow> mock_backend" where
  "mark_resized eff s =
     (if ef_kind eff = ApplyGeometry \<and> ef_apply_size eff
      then let surf = surface_for_xid (ef_xid eff) (mb_registry s) in
           if surf \<noteq> 0
           then case mb_surfaces s surf of
                  None \<Rightarrow> s
                | Some so \<Rightarrow> s\<lparr>mb_surfaces := (mb_surfaces s)(surf \<mapsto> so\<lparr>sf_geometry_dirty := True\<rparr>)\<rparr>
           else s
      else s)"

definition apply_mock_effect :: "registry_effect \<Rightarrow> mock_backend \<Rightarrow> mock_backend" where
  "apply_mock_effect eff s = mark_resized eff (record_placement eff (execute_kind eff s))"

text \<open>A registry operation followed by the execution of its effect, as every handler does.\<close>

definition run_registry :: "(registry \<Rightarrow> registry_effect \<times> registry) \<Rightarrow> mock_backend \<Rightarrow> registry_effect \<times> mock_backend" where
  "run_registry f s = (let (eff, r) = f (mb_registry s) in (eff, apply_mock_effect eff (s\<lparr>mb_registry := r\<rparr>)))"

section \<open>The sidecar plane\<close>

definition mock_negotiate :: "int \<Rightarrow> bool \<times> int \<times> string" where
  "mock_negotiate version =
     (if version < 1 then (False, kSidecarProtocolVersion, ''sidecar protocol version below the floor'')
      else (True, kSidecarProtocolVersion, ''ok''))"

definition mock_sidecar_ready :: "ready_request \<Rightarrow> mock_backend \<Rightarrow> (bool \<times> string) \<times> mock_backend" where
  "mock_sidecar_ready req s =
     (case (case mb_display_layout s of
              None \<Rightarrow> Inr ()
            | Some layout \<Rightarrow>
                validate_guest_display_state_against_layout
                  \<lparr>g_snapshot_id = rd_display_snapshot_id req, actual_root_width = rd_root_width req,
                   actual_root_height = rd_root_height req, g_output_model = SingleCanvas\<rparr> layout) of
        Inl reason \<Rightarrow> ((False, reason), s)
      | Inr _ \<Rightarrow> ((True, ''ok''), s\<lparr>mb_sidecar_ready := True\<rparr>))"

definition toplevel_reply :: "nat \<Rightarrow> registry_effect \<Rightarrow> mock_backend \<Rightarrow> toplevel_response" where
  "toplevel_reply xid eff s =
     \<lparr>tp_ok = True, tp_reason = ''ok'', tp_xid = xid, tp_applied = ef_applied eff,
      tp_representation = representation_name (representation_for_xid xid (mb_registry s)), tp_epoch = epoch_for_xid xid (mb_registry s)\<rparr>"

definition mock_register_toplevel :: "register_request \<Rightarrow> mock_backend \<Rightarrow> toplevel_response \<times> mock_backend" where
  "mock_register_toplevel req s =
     (let (eff, s') = run_registry (register_toplevel (rq_xid req) (rq_generation req) (rq_info req)) s
      in (toplevel_reply (rq_xid req) eff s', s'))"

definition mock_update_toplevel :: "update_request \<Rightarrow> mock_backend \<Rightarrow> toplevel_response \<times> mock_backend" where
  "mock_update_toplevel req s =
     (let (eff, s') = run_registry (update_toplevel (uq_xid req) (uq_generation req) (uq_role req) (uq_geometry req) (uq_z_order req)) s
      in (toplevel_reply (uq_xid req) eff s', s'))"

definition drop_popups :: "nat \<Rightarrow> mock_backend \<Rightarrow> mock_backend" where
  "drop_popups xid s =
     (let (effs, r) = take_orphaned_popups xid (mb_registry s) in fold apply_mock_effect effs (s\<lparr>mb_registry := r\<rparr>))"

definition mock_unregister_toplevel :: "nat \<times> nat \<Rightarrow> mock_backend \<Rightarrow> toplevel_response \<times> mock_backend" where
  "mock_unregister_toplevel req s =
     (let xid = fst req;
          (eff, s1) = run_registry (unregister_toplevel xid (snd req)) s;
          s2 = (if ef_applied eff then drop_popups xid (s1\<lparr>mb_cursors := (mb_cursors s1)(xid := None)\<rparr>) else s1)
      in (toplevel_reply xid eff s2, s2))"

definition mock_set_visibility :: "nat \<times> nat \<times> nat \<Rightarrow> mock_backend \<Rightarrow> toplevel_response \<times> mock_backend" where
  "mock_set_visibility req s =
     (case req of (xid, generation, state) \<Rightarrow>
        let (eff, s') = run_registry (set_visibility xid generation state) s in (toplevel_reply xid eff s', s'))"

definition mock_chrome_of :: "nat \<Rightarrow> mock_backend \<Rightarrow> mock_chrome" where
  "mock_chrome_of xid s = (case mb_chrome s xid of None \<Rightarrow> no_chrome | Some c \<Rightarrow> c)"

definition paint_chrome :: "paint_request \<Rightarrow> mock_backend \<Rightarrow> paint_response \<times> mock_backend" where
  "paint_chrome req s =
     (let d = accept_placeholder_paint (pr_xid req) (pr_lifecycle_generation req) (pr_seq req) (mb_registry s);
          s' = (if pd_accepted d
                then s\<lparr>mb_chrome := (mb_chrome s)(pr_xid req \<mapsto> mock_paint_chrome req (mock_chrome_of (pr_xid req) s)),
                       mb_registry := snd (commit_placeholder_paint (pr_xid req) (pr_lifecycle_generation req) (pr_seq req) (mb_registry s))\<rparr>
                else s)
      in (\<lparr>pp_ok = True, pp_reason = ''ok'', pp_xid = pr_xid req, pp_applied = pd_accepted d,
           pp_representation = representation_name (representation_for_xid (pr_xid req) (mb_registry s')),
           pp_shown = placeholder_shown (pr_xid req) (mb_registry s'), pp_last_seq = last_paint_seq (pr_xid req) (mb_registry s')\<rparr>, s'))"

definition debug_chrome_state :: "nat \<times> int \<times> int \<Rightarrow> mock_backend \<Rightarrow> chrome_state" where
  "debug_chrome_state req s =
     (case req of (xid, x, y) \<Rightarrow>
        let pixel = (case mb_chrome s xid of None \<Rightarrow> None | Some c \<Rightarrow> sample_pixel x y c) in
        \<lparr>cs_ok = True, cs_reason = ''ok'', cs_xid = xid,
         cs_representation = representation_name (representation_for_xid xid (mb_registry s)),
         cs_shown = placeholder_shown xid (mb_registry s), cs_last_seq = last_paint_seq xid (mb_registry s),
         cs_has_pixel = (pixel \<noteq> None), cs_pixel_bgra = (case pixel of None \<Rightarrow> 0 | Some p \<Rightarrow> p)\<rparr>)"

definition poll_input :: "nat \<Rightarrow> mock_backend \<Rightarrow> poll_response \<times> mock_backend" where
  "poll_input since_seq s =
     (let ((drained, next_seq, dropped), q) = drain since_seq (mb_input_queue s) in
      (\<lparr>po_ok = True, po_reason = ''ok'', po_events = filter (\<lambda>e. epoch_for_xid (ie_xid e) (mb_registry s) = ie_epoch e) drained,
        po_next_seq = next_seq, po_dropped = dropped\<rparr>, s\<lparr>mb_input_queue := q\<rparr>))"

definition debug_enqueue_input :: "nat \<times> nat \<times> input_event list \<Rightarrow> mock_backend \<Rightarrow> (bool \<times> string \<times> nat \<times> int) \<times> mock_backend" where
  "debug_enqueue_input req s =
     (case req of (xid, epoch, events) \<Rightarrow>
        ((True, ''ok'', xid, int (length events)), s\<lparr>mb_input_queue := fold (enqueue xid epoch) events (mb_input_queue s)\<rparr>))"

definition set_cursor :: "cursor_request \<Rightarrow> mock_backend \<Rightarrow> (bool \<times> string \<times> nat \<times> bool) \<times> mock_backend" where
  "set_cursor req s =
     (if \<not> toplevel_registered (cq_xid req) (mb_registry s) \<or> cq_epoch req \<noteq> epoch_for_xid (cq_xid req) (mb_registry s)
      then ((True, ''ok'', cq_xid req, False), s)
      else ((True, ''ok'', cq_xid req, True),
            s\<lparr>mb_cursors := (mb_cursors s)(cq_xid req \<mapsto>
              \<lparr>mk_w = cq_width req, mk_h = cq_height req, mk_xhot = cq_xhot req, mk_yhot = cq_yhot req, mk_bgra = cq_pixels req\<rparr>)\<rparr>))"

definition debug_cursor_state :: "nat \<times> int \<times> int \<Rightarrow> mock_backend \<Rightarrow> cursor_state" where
  "debug_cursor_state req s =
     (case req of (xid, x, y) \<Rightarrow>
       (case mb_cursors s xid of
          None \<Rightarrow> \<lparr>cu_ok = True, cu_reason = ''ok'', cu_xid = xid, cu_has_cursor = False, cu_width = 0, cu_height = 0,
                    cu_xhot = 0, cu_yhot = 0, cu_has_pixel = False, cu_pixel_bgra = 0\<rparr>
        | Some c \<Rightarrow>
            let pixel = sample_pixel x y \<lparr>mc_w = mk_w c, mc_h = mk_h c, mc_bgra = mk_bgra c\<rparr> in
            \<lparr>cu_ok = True, cu_reason = ''ok'', cu_xid = xid, cu_has_cursor = True, cu_width = mk_w c, cu_height = mk_h c,
             cu_xhot = mk_xhot c, cu_yhot = mk_yhot c, cu_has_pixel = (pixel \<noteq> None),
             cu_pixel_bgra = (case pixel of None \<Rightarrow> 0 | Some p \<Rightarrow> p)\<rparr>))"

text \<open>What the enumeration reports of one entry; the mock has no window, so what it reports as actual is what it applied.\<close>

definition window_report :: "bool \<Rightarrow> mock_backend \<Rightarrow> reg_entry \<Rightarrow> window_info" where
  "window_report include_actual s e =
     (let cell = (if include_actual then mb_geometry s (en_xid e) else None) in
      \<lparr>wi_xid = en_xid e, wi_representation = representation_name (en_representation e),
       wi_toplevel_registered = en_toplevel_registered e, wi_has_surface = (en_surface e \<noteq> 0), wi_generation = en_generation e,
       wi_epoch = en_representation_epoch e, wi_last_paint_seq = en_last_paint_seq e, wi_shown = en_shown e, wi_role = en_role e,
       wi_title = en_title e, wi_geometry = en_geometry e, wi_is_popup = en_is_popup e, wi_owner_xid = en_owner_xid e,
       wi_popup_kind = en_popup_kind e, wi_z_order = en_last_z_order e, wi_visibility_state = en_visibility_state e,
       wi_has_actual = (cell \<noteq> None), wi_actual = (case cell of None \<Rightarrow> no_geometry | Some g \<Rightarrow> mg_geometry g),
       wi_frame = no_geometry, wi_last_host_apply_seq = (case cell of None \<Rightarrow> 0 | Some g \<Rightarrow> mg_seq g), wi_clamped = False,
       wi_host_visible = (include_actual \<and> (en_visibility_state e = kVisible \<or> en_visibility_state e = kIconic)),
       wi_host_iconic = (include_actual \<and> en_visibility_state e = kIconic)\<rparr>)"

definition debug_enum_windows :: "bool \<Rightarrow> mock_backend \<Rightarrow> bool \<times> string \<times> window_info list" where
  "debug_enum_windows include_actual s = (True, ''ok'', map (window_report include_actual s) (registry_snapshot (mb_registry s)))"

text \<open>The pixels of a layer with their size and hotspot, if the layer has any.\<close>

definition capture_source :: "bool \<Rightarrow> nat \<Rightarrow> mock_backend \<Rightarrow> mock_cursor option" where
  "capture_source is_chrome xid s =
     (let src = (if is_chrome
                 then map_option (\<lambda>c. \<lparr>mk_w = mc_w c, mk_h = mc_h c, mk_xhot = 0, mk_yhot = 0, mk_bgra = mc_bgra c\<rparr>) (mb_chrome s xid)
                 else mb_cursors s xid)
      in case src of None \<Rightarrow> None | Some c \<Rightarrow> if mk_bgra c = [] then None else Some c)"

definition debug_capture_window :: "capture_request \<Rightarrow> mock_backend \<Rightarrow> capture_response" where
  "debug_capture_window req s =
     (let xid = xq_xid req; r = mb_registry s;
          is_chrome = (xq_layer req = ''chrome''); is_cursor = (xq_layer req = ''cursor'');
          none = \<lparr>xr_ok = False, xr_status = [], xr_reason = [], xr_xid = xid, xr_layer = xq_layer req, xr_representation = ''none'',
                  xr_generation = 0, xr_epoch = 0, xr_last_paint_seq = 0, xr_shown = False, xr_xhot = 0, xr_yhot = 0, xr_width = 0,
                  xr_height = 0, xr_stride = 0, xr_format = kCaptureFormatBgra8, xr_needed_bytes = 0, xr_pixels = []\<rparr>;
          rep = representation_for_xid xid r;
          resp = none\<lparr>xr_representation := representation_name rep, xr_generation := generation_for_xid xid r,
                      xr_epoch := epoch_for_xid xid r, xr_last_paint_seq := last_paint_seq xid r, xr_shown := placeholder_shown xid r\<rparr>
      in if \<not> is_chrome \<and> \<not> is_cursor then none\<lparr>xr_status := ''bad_layer'', xr_reason := ''unknown capture layer''\<rparr>
         else if rep = NoRep then resp\<lparr>xr_status := ''absent'', xr_reason := ''no live representation for xid''\<rparr>
         else if xq_expected_epoch req \<noteq> 0 \<and> xq_expected_epoch req \<noteq> xr_epoch resp \<or>
                 xq_expected_lifecycle_generation req \<noteq> 0 \<and> xq_expected_lifecycle_generation req \<noteq> xr_generation resp \<or>
                 xq_min_last_seq req \<noteq> 0 \<and> xr_last_paint_seq resp < xq_min_last_seq req
         then resp\<lparr>xr_status := ''mismatch'', xr_reason := ''lifecycle selector did not match current registry state''\<rparr>
         else case capture_source is_chrome xid s of
                None \<Rightarrow> resp\<lparr>xr_status := ''empty'', xr_reason := ''layer has no content''\<rparr>
              | Some c \<Rightarrow>
                  let w = mk_w c; h = mk_h c; stride = w * 4;
                      resp1 = resp\<lparr>xr_xhot := mk_xhot c, xr_yhot := mk_yhot c, xr_width := w, xr_height := h, xr_stride := u32 stride\<rparr>
                  in if h * stride > kMaxCapturePayloadBytes
                     then resp1\<lparr>xr_status := ''too_large'', xr_reason := ''source exceeds the frame cap'', xr_needed_bytes := h * stride\<rparr>
                     else resp1\<lparr>xr_ok := True, xr_status := ''ok'', xr_pixels := take (h * stride) (mk_bgra c)\<rparr>)"

section \<open>The data plane\<close>

text \<open>A reply of the data plane: whether it succeeded, the reason, and the handle it minted.\<close>

type_synonym handle_reply = "bool \<times> string \<times> nat"

definition mint_handle :: "mock_backend \<Rightarrow> nat \<times> mock_backend" where
  "mint_handle s = (mb_next_handle s, s\<lparr>mb_next_handle := u64 (mb_next_handle s + 1)\<rparr>)"

text \<open>Insertion that keeps an existing entry.\<close>

definition emplace :: "nat \<Rightarrow> 'a \<Rightarrow> (nat \<rightharpoonup> 'a) \<Rightarrow> (nat \<rightharpoonup> 'a)" where
  "emplace k v m = (case m k of None \<Rightarrow> m(k \<mapsto> v) | Some _ \<Rightarrow> m)"

definition create_instance :: "mock_backend \<Rightarrow> handle_reply \<times> mock_backend" where
  "create_instance s =
     (if \<not> mb_have_device s then ((False, ''no usable device selected for this worker'', 0), s)
      else let (instance, s1) = mint_handle s in
           ((True, ''ok'', instance),
            s1\<lparr>mb_instances := emplace instance \<lparr>in_physical_device = 0, in_devices = {}, in_surfaces = {}\<rparr> (mb_instances s1)\<rparr>))"

definition enumerate_physical_devices :: "nat \<Rightarrow> mock_backend \<Rightarrow> handle_reply \<times> mock_backend" where
  "enumerate_physical_devices instance s =
     (case mb_instances s instance of
        None \<Rightarrow> ((False, ''unknown instance handle'', 0), s)
      | Some i \<Rightarrow>
          if in_physical_device i = 0
          then let (h, s1) = mint_handle s in
               ((True, ''ok'', h), s1\<lparr>mb_instances := (mb_instances s1)(instance \<mapsto> i\<lparr>in_physical_device := h\<rparr>)\<rparr>)
          else ((True, ''ok'', in_physical_device i), s))"

definition destroy_instance :: "nat \<Rightarrow> mock_backend \<Rightarrow> (bool \<times> string) \<times> mock_backend" where
  "destroy_instance handle s =
     (case mb_instances s handle of
        None \<Rightarrow> ((False, ''unknown instance handle''), s)
      | Some i \<Rightarrow>
          if in_devices i \<noteq> {} then ((False, ''instance has live devices; destroy them first''), s)
          else if in_surfaces i \<noteq> {} then ((False, ''instance has live surfaces; destroy them first''), s)
          else ((True, ''ok''), s\<lparr>mb_instances := (mb_instances s)(handle := None)\<rparr>))"

record surface_request =
  su_instance :: nat
  su_platform :: string
  su_xid :: nat
  su_role_hint :: string

definition create_surface :: "surface_request \<Rightarrow> mock_backend \<Rightarrow> handle_reply \<times> mock_backend" where
  "create_surface req s =
     (case mb_instances s (su_instance req) of
        None \<Rightarrow> ((False, ''unknown instance handle'', 0), s)
      | Some i \<Rightarrow>
          let (surface, s1) = mint_handle s;
              so = \<lparr>sf_instance = su_instance req, sf_swapchains = {}, sf_geometry_dirty = False, sf_shown = False,
                    sf_platform = su_platform req, sf_xid = su_xid req, sf_role_hint = su_role_hint req\<rparr>;
              s2 = s1\<lparr>mb_surfaces := emplace surface so (mb_surfaces s1),
                      mb_instances := (mb_instances s1)(su_instance req \<mapsto> i\<lparr>in_surfaces := insert surface (in_surfaces i)\<rparr>)\<rparr>
          in ((True, ''ok'', surface), snd (run_registry (bind_surface (su_xid req) surface) s2)))"

definition destroy_surface :: "nat \<Rightarrow> mock_backend \<Rightarrow> (bool \<times> string) \<times> mock_backend" where
  "destroy_surface handle s =
     (case mb_surfaces s handle of
        None \<Rightarrow> ((False, ''unknown surface handle''), s)
      | Some so \<Rightarrow>
          if sf_swapchains so \<noteq> {} then ((False, ''surface has live swapchains; destroy them first''), s)
          else let s1 = (case mb_instances s (sf_instance so) of
                           None \<Rightarrow> s
                         | Some i \<Rightarrow> s\<lparr>mb_instances := (mb_instances s)(sf_instance so \<mapsto> i\<lparr>in_surfaces := in_surfaces i - {handle}\<rparr>)\<rparr>);
                   s2 = snd (run_registry (unbind_surface (sf_xid so) handle) s1)
               in ((True, ''ok''), s2\<lparr>mb_surfaces := (mb_surfaces s2)(handle := None)\<rparr>))"

section \<open>The dispatcher of the sidecar plane\<close>

datatype sidecar_op = OpNegotiate | OpReady | OpRegister | OpUpdate | OpUnregister | OpPaintChrome | OpChromeState | OpPollInput
  | OpSetCursor | OpEnqueueInput | OpCursorState | OpEnumWindows | OpCaptureWindow | OpSetVisibility

definition sidecar_ops :: "(nat \<times> sidecar_op) list" where
  "sidecar_ops = [(200, OpNegotiate), (201, OpReady), (202, OpRegister), (203, OpUpdate), (204, OpUnregister), (205, OpPaintChrome),
     (206, OpChromeState), (207, OpPollInput), (208, OpSetCursor), (209, OpEnqueueInput), (210, OpCursorState), (211, OpEnumWindows),
     (212, OpCaptureWindow), (213, OpSetVisibility)]"

text \<open>A JSON-bodied operation: the body is parsed first, and a reply is rendered by the encoder.\<close>

definition json_op :: "string \<Rightarrow> mock_backend \<Rightarrow> (jval \<Rightarrow> 'r \<times> mock_backend) \<Rightarrow> ('r \<Rightarrow> jval) \<Rightarrow> op_result \<times> mock_backend" where
  "json_op body s f enc =
     (case json_parse body of Inl _ \<Rightarrow> (BadBody, s) | Inr b \<Rightarrow> let (r, s') = f b in (Reply (enc r), s'))"

definition sidecar_handler :: "mock_backend op_handler" where
  "sidecar_handler op body s =
     (case map_of sidecar_ops op of
        None \<Rightarrow> (NoSuchOp, s)
      | Some OpNegotiate \<Rightarrow> json_op body s (\<lambda>b. (mock_negotiate (negotiate_request_from_body b), s)) negotiate_response_to_body
      | Some OpReady \<Rightarrow> json_op body s (\<lambda>b. mock_sidecar_ready (ready_request_from_body b) s) ready_response_to_body
      | Some OpRegister \<Rightarrow> json_op body s (\<lambda>b. mock_register_toplevel (register_from_body b) s) toplevel_response_to_body
      | Some OpUpdate \<Rightarrow> json_op body s (\<lambda>b. mock_update_toplevel (update_from_body b) s) toplevel_response_to_body
      | Some OpUnregister \<Rightarrow> json_op body s (\<lambda>b. mock_unregister_toplevel (unregister_from_body b) s) toplevel_response_to_body
      | Some OpSetVisibility \<Rightarrow> json_op body s (\<lambda>b. mock_set_visibility (visibility_from_body b) s) toplevel_response_to_body
      | Some OpPaintChrome \<Rightarrow>
          (case paint_from_wire body of
             Inl _ \<Rightarrow> (BadBody, s)
           | Inr req \<Rightarrow> let (r, s') = paint_chrome req s in (Reply (paint_response_to_body r), s'))
      | Some OpChromeState \<Rightarrow> json_op body s (\<lambda>b. (debug_chrome_state (chrome_query_from_body b) s, s)) chrome_state_to_body
      | Some OpPollInput \<Rightarrow> json_op body s (\<lambda>b. poll_input (poll_request_from_body b) s) poll_response_to_body
      | Some OpEnqueueInput \<Rightarrow> json_op body s (\<lambda>b. debug_enqueue_input (enqueue_request_from_body b) s) enqueue_response_to_body
      | Some OpSetCursor \<Rightarrow>
          (case cursor_from_wire body of
             Inl _ \<Rightarrow> (BadBody, s)
           | Inr req \<Rightarrow> let (r, s') = set_cursor req s in (Reply (cursor_response_to_body r), s'))
      | Some OpCursorState \<Rightarrow> json_op body s (\<lambda>b. (debug_cursor_state (cursor_query_from_body b) s, s)) cursor_state_to_body
      | Some OpEnumWindows \<Rightarrow> json_op body s (\<lambda>b. (debug_enum_windows (enum_request_from_body b) s, s)) enum_response_to_body
      | Some OpCaptureWindow \<Rightarrow>
          (case json_parse body of
             Inl _ \<Rightarrow> (BadBody, s)
           | Inr b \<Rightarrow> (ReplyRaw (capture_to_wire (debug_capture_window (capture_request_from_body b) s)), s)))"

text \<open>One request of the loop, with the status contract and the reply envelope of the RPC layer.\<close>

definition serve_sidecar_request :: "rpc_message \<Rightarrow> mock_backend \<Rightarrow> rpc_message \<times> mock_backend" where
  "serve_sidecar_request = serve_request sidecar_handler"

end
