(* ===== verification/Sidecar_System.thy ===== *)
theory Sidecar_System
  imports Sidecar_Plane
begin

text \<open>
  The two planes together: any sequence of sidecar requests and of instance and surface calls, and what
  every such sequence keeps. The calls on devices and swapchains are not modelled; what they change of
  this state, the device set of an instance and the swapchains and flags of a surface, changes arbitrarily.
\<close>

section \<open>Events\<close>

datatype plane_event = SidecarRpc rpc_message | CreateInstance | EnumerateDevices nat | DestroyInstance nat
  | CreateSurface surface_request | DestroySurface nat | ChangeDevices nat "nat set" | ChangeSwapchains nat "nat set" bool bool

fun plane_do :: "plane_event \<Rightarrow> mock_backend \<Rightarrow> mock_backend" where
  "plane_do (SidecarRpc req) s = snd (serve_sidecar_request req s)"
| "plane_do CreateInstance s = snd (create_instance s)"
| "plane_do (EnumerateDevices i) s = snd (enumerate_physical_devices i s)"
| "plane_do (DestroyInstance i) s = snd (destroy_instance i s)"
| "plane_do (CreateSurface req) s = snd (create_surface req s)"
| "plane_do (DestroySurface h) s = snd (destroy_surface h s)"
| "plane_do (ChangeDevices i ds) s =
     (case mb_instances s i of None \<Rightarrow> s | Some io \<Rightarrow> s\<lparr>mb_instances := (mb_instances s)(i \<mapsto> io\<lparr>in_devices := ds\<rparr>)\<rparr>)"
| "plane_do (ChangeSwapchains h scs dirty shown) s =
     (case mb_surfaces s h of
        None \<Rightarrow> s
      | Some so \<Rightarrow> s\<lparr>mb_surfaces := (mb_surfaces s)(h \<mapsto> so\<lparr>sf_swapchains := scs, sf_geometry_dirty := dirty, sf_shown := shown\<rparr>)\<rparr>)"

definition plane_run :: "plane_event list \<Rightarrow> mock_backend \<Rightarrow> mock_backend" where
  "plane_run evs s = fold plane_do evs s"

lemma plane_run_simps [simp]:
  "plane_run [] s = s" "plane_run (ev # evs) s = plane_run evs (plane_do ev s)"
  "plane_run (evs @ evs') s = plane_run evs' (plane_run evs s)"
  by (simp_all add: plane_run_def)

section \<open>What every handler keeps\<close>

text \<open>A relation between the state before and after that holds of every handler holds of the dispatcher.\<close>

locale plane_relation =
  fixes R :: "mock_backend \<Rightarrow> mock_backend \<Rightarrow> bool"
  assumes same: "R s s"
    and ready: "R s (snd (mock_sidecar_ready rd s))"
    and register: "R s (snd (mock_register_toplevel rq s))"
    and update: "R s (snd (mock_update_toplevel uq s))"
    and unregister: "R s (snd (mock_unregister_toplevel xg s))"
    and visibility: "R s (snd (mock_set_visibility xgv s))"
    and paint: "paint_from_wire body = Inr pr \<Longrightarrow> R s (snd (paint_chrome pr s))"
    and poll: "R s (snd (poll_input since s))"
    and enqueue: "R s (snd (debug_enqueue_input xee s))"
    and cursor: "cursor_from_wire body = Inr cq \<Longrightarrow> R s (snd (set_cursor cq s))"
begin

lemma json_op: "(\<And>b. R s (snd (f b))) \<Longrightarrow> R s (snd (json_op body s f enc))"
  by (cases "json_parse body") (auto simp: json_op_def same case_prod_beta Let_def)

lemma handler: "R s (snd (sidecar_handler op body s))"
proof (cases "map_of sidecar_ops op")
  case (Some o')
  show ?thesis
    by (cases o')
      (auto simp: sidecar_handler_def Some same paint cursor case_prod_beta Let_def
        intro!: json_op ready register update unregister visibility poll enqueue split: sum.split)
qed (simp add: sidecar_handler_def same)

lemma served: "R s (snd (serve_sidecar_request req s))"
  using handler [of s "rpc_op req" "rpc_body req"]
  by (simp add: serve_sidecar_request_def serve_request_def case_prod_beta Let_def same)

end

section \<open>What an effect has to say about the windows\<close>

text \<open>
  An operation of the registry tells the backend everything it has to do: a registered toplevel whose
  geometry is not what it was is placed by the effect, a window that stops being a placeholder is named
  by an effect that tears it down.
\<close>

definition tears_down :: "nat \<Rightarrow> registry_effect \<Rightarrow> bool" where
  "tears_down x eff \<longleftrightarrow> ef_xid eff = x \<and> (ef_kind eff = DestroyPlaceholder \<or> ef_kind eff = PromotePlaceholderToSurface)"

definition places :: "nat \<Rightarrow> registry_effect \<Rightarrow> bool" where
  "places x eff \<longleftrightarrow> ef_xid eff = x \<and> ef_kind eff \<noteq> SetVisibility \<and> ef_host_apply_seq eff \<noteq> 0"

definition tracks :: "registry \<Rightarrow> registry_effect \<times> registry \<Rightarrow> bool" where
  "tracks r er \<longleftrightarrow>
     (\<forall>x e'. find_entry x (snd er) = Some e' \<longrightarrow> en_toplevel_registered e' \<longrightarrow>
        places x (fst er) \<and> ef_geometry (fst er) = en_geometry e' \<or>
        \<not> places x (fst er) \<and> \<not> tears_down x (fst er) \<and>
        (\<exists>e. find_entry x r = Some e \<and> en_toplevel_registered e \<and> en_geometry e = en_geometry e')) \<and>
     (\<forall>x. representation_for_xid x r = Placeholder \<longrightarrow> representation_for_xid x (snd er) = Placeholder \<or> tears_down x (fst er))"

lemma find_counters [simp]:
  "find_entry x (r\<lparr>rg_next_epoch := a\<rparr>) = find_entry x r" "find_entry x (r\<lparr>rg_next_placeholder_id := a\<rparr>) = find_entry x r"
  "find_entry x (r\<lparr>rg_next_host_apply_seq := a\<rparr>) = find_entry x r"
  by (simp_all add: find_entry_def)

lemma next_seq: "has_room r \<Longrightarrow> u64 (Suc (rg_next_host_apply_seq r)) = Suc (rg_next_host_apply_seq r)"
  by (simp add: has_room_def u64_def)

lemmas track_defs = tracks_def tears_down_def places_def no_effect_def new_entry_def representation_for_xid_def at_entry_def
  stamp_geometry_placement_def mint_seq_def mint_epoch_def mint_placeholder_def case_prod_beta Let_def

lemma bind_surface_tracks: "has_room r \<Longrightarrow> tracks r (bind_surface xid surface r)"
  using next_seq [of r] by (cases "find_entry xid r") (auto simp: bind_surface_def track_defs)

lemma unbind_surface_tracks: "registry_ok r \<Longrightarrow> surface \<noteq> 0 \<Longrightarrow> tracks r (unbind_surface xid surface r)"
  using registry_okD(3) [of r xid] by (cases "find_entry xid r") (auto simp: unbind_surface_def track_defs)

lemma unregister_toplevel_tracks: "tracks r (unregister_toplevel xid generation r)"
  by (cases "find_entry xid r") (auto simp: unregister_toplevel_def track_defs)

lemma set_visibility_tracks: "has_room r \<Longrightarrow> tracks r (set_visibility xid generation state r)"
  using next_seq [of r] by (cases "find_entry xid r") (auto simp: set_visibility_def track_defs)

lemma update_toplevel_tracks: "has_room r \<Longrightarrow> tracks r (update_toplevel xid generation role geometry z_order r)"
  using next_seq [of r] by (cases "find_entry xid r") (auto simp: update_toplevel_def track_defs)

lemma register_toplevel_tracks:
  assumes ok: "registry_ok r" and room: "has_room r"
  shows "tracks r (register_toplevel xid generation ti r)"
proof (cases "xid = 0 \<or> stale xid generation r \<or> ti_is_popup ti \<and> \<not> owner_live (ti_owner_xid ti) r")
  case True
  then show ?thesis by (simp add: register_toplevel_def track_defs)
next
  case False
  note start = register_toplevel_def if_not_P [OF False]
  have rep: "en_surface e = 0" if "find_entry xid r = Some e" "en_representation e = Placeholder" for e
    using registry_okD(3) [OF ok that(1)] that(2) by simp
  show ?thesis
    unfolding start using next_seq [OF room] rep by (cases "find_entry xid r") (auto simp: track_defs)
qed

end
