(* ===== verification/Sidecar_Invariant.thy ===== *)
theory Sidecar_Invariant
  imports Sidecar_System
begin

text \<open>
  The well-formedness of the backend under both planes: the placeholder windows are those the registry
  asks for, a pixel store belongs to a placeholder, a registered toplevel has been placed where the
  registry says, a bound surface is alive and knows its window, and surfaces and instances refer to each
  other.
\<close>

section \<open>The invariant\<close>

definition surface_ids :: "mock_backend \<Rightarrow> nat \<Rightarrow> (nat \<times> nat) option" where
  "surface_ids s h = map_option (\<lambda>so. (sf_instance so, sf_xid so)) (mb_surfaces s h)"

definition instance_surfaces :: "mock_backend \<Rightarrow> nat \<Rightarrow> nat set option" where
  "instance_surfaces s i = map_option in_surfaces (mb_instances s i)"

definition windows_ok :: "mock_backend \<Rightarrow> bool" where
  "windows_ok s \<longleftrightarrow>
     registry_ok (mb_registry s) \<and> mb_placeholders s = placeholders (mb_registry s) \<and>
     (\<forall>x e. find_entry x (mb_registry s) = Some e \<longrightarrow> en_toplevel_registered e \<longrightarrow>
        (\<exists>g. mb_geometry s x = Some g \<and> mg_geometry g = en_geometry e)) \<and>
     (\<forall>x g. mb_geometry s x = Some g \<longrightarrow> mg_seq g \<le> rg_next_host_apply_seq (mb_registry s))"

definition stores_ok :: "mock_backend \<Rightarrow> bool" where
  "stores_ok s \<longleftrightarrow>
     (\<forall>x c. mb_chrome s x = Some c \<longrightarrow>
        representation_for_xid x (mb_registry s) = Placeholder \<and> chrome_ok c \<and> length (mc_bgra c) \<le> kMaxAuxChromeBackingStoreBytes) \<and>
     (\<forall>x c. mb_cursors s x = Some c \<longrightarrow> length (mk_bgra c) = mk_w c * mk_h c * 4 \<and> mk_w c \<le> kMaxCursorDim \<and> mk_h c \<le> kMaxCursorDim)"

definition objects_ok :: "mock_backend \<Rightarrow> bool" where
  "objects_ok s \<longleftrightarrow>
     0 < mb_next_handle s \<and>
     (\<forall>h i x. surface_ids s h = Some (i, x) \<longrightarrow> 0 < h \<and> h < mb_next_handle s \<and> (\<exists>hs. instance_surfaces s i = Some hs \<and> h \<in> hs)) \<and>
     (\<forall>i hs. instance_surfaces s i = Some hs \<longrightarrow> 0 < i \<and> i < mb_next_handle s \<and> (\<forall>h\<in>hs. \<exists>x. surface_ids s h = Some (i, x))) \<and>
     (\<forall>x e. find_entry x (mb_registry s) = Some e \<longrightarrow> en_surface e \<noteq> 0 \<longrightarrow> (\<exists>i. surface_ids s (en_surface e) = Some (i, x)))"

text \<open>The counters after \<open>n\<close> events.\<close>

definition counted :: "nat \<Rightarrow> mock_backend \<Rightarrow> bool" where
  "counted n s \<longleftrightarrow>
     rg_next_placeholder_id (mb_registry s) \<le> n \<and> rg_next_epoch (mb_registry s) \<le> n \<and>
     rg_next_host_apply_seq (mb_registry s) \<le> n \<and> mb_next_handle s \<le> Suc n"

definition plane_ok :: "nat \<Rightarrow> mock_backend \<Rightarrow> bool" where
  "plane_ok n s \<longleftrightarrow> windows_ok s \<and> stores_ok s \<and> objects_ok s \<and> counted n s"

lemma plane_ok_later: "plane_ok n s \<Longrightarrow> n \<le> m \<Longrightarrow> plane_ok m s"
  by (auto simp: plane_ok_def counted_def)

lemma counted_room: "counted n s \<Longrightarrow> n < 2 ^ 64 - 2 \<Longrightarrow> has_room (mb_registry s)"
  by (simp add: counted_def has_room_def)

section \<open>Executing one effect\<close>

lemma apply_effect_keeps [simp]:
  "mb_registry (apply_mock_effect eff s) = mb_registry s" "mb_instances (apply_mock_effect eff s) = mb_instances s"
  "mb_next_handle (apply_mock_effect eff s) = mb_next_handle s" "mb_input_queue (apply_mock_effect eff s) = mb_input_queue s"
  "mb_placeholders (apply_mock_effect eff s) = execute eff (mb_placeholders s)"
  "surface_ids (apply_mock_effect eff s) = surface_ids s" "instance_surfaces (apply_mock_effect eff s) = instance_surfaces s"
  by (auto simp: apply_mock_effect_def mark_resized_def record_placement_def execute_kind_def execute_def surface_ids_def instance_surfaces_def Let_def
      split: effect_kind.split option.split)

lemma apply_effect_chrome [simp]:
  "mb_chrome (apply_mock_effect eff s) x = (if tears_down x eff then None else mb_chrome s x)"
  "mb_cursors (apply_mock_effect eff s) x = (if tears_down x eff then None else mb_cursors s x)"
  by (auto simp: apply_mock_effect_def mark_resized_def record_placement_def execute_kind_def tears_down_def Let_def
      split: effect_kind.split option.split)

lemma apply_effect_geometry:
  "mb_geometry (apply_mock_effect eff s) x =
     (let cell = (if tears_down x eff then None else mb_geometry s x) in
      if places x eff \<and> (case cell of None \<Rightarrow> 0 | Some g \<Rightarrow> mg_seq g) < ef_host_apply_seq eff
      then Some \<lparr>mg_geometry = ef_geometry eff, mg_seq = ef_host_apply_seq eff\<rparr> else cell)"
  by (auto simp: apply_mock_effect_def mark_resized_def record_placement_def execute_kind_def tears_down_def places_def Let_def
      split: effect_kind.split option.split)

lemma run_registry_simps:
  "mb_registry (snd (run_registry f s)) = snd (f (mb_registry s))"
  "fst (run_registry f s) = fst (f (mb_registry s))"
  "snd (run_registry f s) = apply_mock_effect (fst (f (mb_registry s))) (s\<lparr>mb_registry := snd (f (mb_registry s))\<rparr>)"
  by (simp_all add: run_registry_def case_prod_beta Let_def)

lemma ids_update [simp]:
  "surface_ids (s\<lparr>mb_registry := r\<rparr>) = surface_ids s" "instance_surfaces (s\<lparr>mb_registry := r\<rparr>) = instance_surfaces s"
  by (simp_all add: surface_ids_def instance_surfaces_def fun_eq_iff)

lemma run_windows:
  assumes ok: "windows_ok s" and good: "good_step (mb_registry s) (f (mb_registry s))" and tr: "tracks (mb_registry s) (f (mb_registry s))"
  shows "windows_ok (snd (run_registry f s))"
proof -
  let ?r = "mb_registry s"
  obtain eff r' where f: "f ?r = (eff, r')" by fastforce
  define s1 where "s1 = s\<lparr>mb_registry := r'\<rparr>"
  have s': "snd (run_registry f s) = apply_mock_effect eff s1" by (simp add: run_registry_simps f s1_def)
  have good': "registry_ok r'" "placeholders r' = execute eff (placeholders ?r)" "seq_step ?r eff r'"
    using good by (simp_all add: good_step_def f)
  have seqs: "mg_seq g \<le> rg_next_host_apply_seq ?r" if "mb_geometry s x = Some g" for x g
    using ok that by (simp add: windows_ok_def)
  have newer: "places x eff \<Longrightarrow> rg_next_host_apply_seq ?r < ef_host_apply_seq eff" "ef_host_apply_seq eff \<le> rg_next_host_apply_seq r'"
    "rg_next_host_apply_seq ?r \<le> rg_next_host_apply_seq r'" for x
    using good'(3) by (auto simp: seq_step_def places_def split: if_splits)
  have cell: "mb_geometry (apply_mock_effect eff s1) x =
      (if places x eff then Some \<lparr>mg_geometry = ef_geometry eff, mg_seq = ef_host_apply_seq eff\<rparr>
       else if tears_down x eff then None else mb_geometry s x)" for x
    using newer(1) [of x] seqs [of x] by (force simp: apply_effect_geometry s1_def Let_def places_def split: option.split)
  have placed: "\<exists>g. mb_geometry (apply_mock_effect eff s1) x = Some g \<and> mg_geometry g = en_geometry e'"
    if e': "find_entry x r' = Some e'" "en_toplevel_registered e'" for x e'
  proof -
    consider "places x eff" "ef_geometry eff = en_geometry e'"
      | e where "\<not> places x eff" "\<not> tears_down x eff" "find_entry x ?r = Some e" "en_toplevel_registered e" "en_geometry e = en_geometry e'"
      using tr e' unfolding tracks_def f by fastforce
    then show ?thesis
    proof cases
      case (2 e)
      from ok 2(3,4) have "\<exists>g. mb_geometry s x = Some g \<and> mg_geometry g = en_geometry e" unfolding windows_ok_def by blast
      then show ?thesis using 2(1,2,5) by (simp add: cell)
    qed (simp add: cell)
  qed
  have "mg_seq g \<le> rg_next_host_apply_seq r'" if "mb_geometry (apply_mock_effect eff s1) x = Some g" for x g
    using that seqs [of x g] newer(2,3) by (auto simp: cell split: if_splits)
  then show ?thesis
    using ok good' placed unfolding s' by (simp add: windows_ok_def s1_def)
qed

lemma run_stores:
  assumes "stores_ok s" "tracks (mb_registry s) (f (mb_registry s))"
  shows "stores_ok (snd (run_registry f s))"
proof -
  have "representation_for_xid x (snd (f (mb_registry s))) = Placeholder \<or> tears_down x (fst (f (mb_registry s)))"
    if "mb_chrome s x = Some c" for x c
    using assms that unfolding tracks_def stores_ok_def by blast
  then show ?thesis using assms(1) by (fastforce simp: stores_ok_def run_registry_simps)
qed

lemma run_counted:
  assumes "counted n s" "good_step (mb_registry s) (f (mb_registry s))"
  shows "counted (Suc n) (snd (run_registry f s))"
  using assms by (auto simp: counted_def run_registry_simps good_step_def counters_step_def)

text \<open>An operation that binds no surface keeps the references between the objects.\<close>

definition no_new_surface :: "registry \<Rightarrow> registry \<Rightarrow> bool" where
  "no_new_surface r r' \<longleftrightarrow> (\<forall>x. surface_for_xid x r' \<in> {surface_for_xid x r, 0})"

lemma objects_ok_registry:
  assumes "objects_ok s" "no_new_surface (mb_registry s) r'"
  shows "objects_ok (s\<lparr>mb_registry := r'\<rparr>)"
proof -
  have "\<exists>i. surface_ids s (en_surface e') = Some (i, x)" if e': "find_entry x r' = Some e'" "en_surface e' \<noteq> 0" for x e'
  proof -
    have "surface_for_xid x (mb_registry s) = en_surface e'"
      using assms(2) e' by (auto simp: no_new_surface_def surface_for_xid_def at_entry_def dest!: spec [of _ x])
    then obtain e where "find_entry x (mb_registry s) = Some e" "en_surface e = en_surface e'"
      using e'(2) by (auto simp: surface_for_xid_def at_entry_def split: option.splits)
    then show ?thesis using assms(1) e'(2) unfolding objects_ok_def by metis
  qed
  then show ?thesis using assms(1) by (simp add: objects_ok_def)
qed

lemma objects_ok_apply [simp]: "objects_ok (apply_mock_effect eff s) = objects_ok s"
  by (simp add: objects_ok_def)


text \<open>A registry operation under the invariant, when it binds no surface.\<close>

lemma run_plane:
  assumes ok: "plane_ok n s" and good: "good_step (mb_registry s) (f (mb_registry s))"
    and tr: "tracks (mb_registry s) (f (mb_registry s))" and sf: "no_new_surface (mb_registry s) (snd (f (mb_registry s)))"
  shows "plane_ok (Suc n) (snd (run_registry f s))"
  using ok run_windows [of s f, OF _ good tr] run_stores [of s f, OF _ tr] run_counted [of n s f, OF _ good] objects_ok_registry [OF _ sf]
  by (simp add: plane_ok_def run_registry_simps(3))

section \<open>The surfaces of an operation\<close>

lemmas surface_defs = no_new_surface_def surface_for_xid_def at_entry_def stamp_geometry_placement_def mint_seq_def mint_epoch_def
  mint_placeholder_def case_prod_beta Let_def

lemma toplevel_surfaces:
  "no_new_surface r (snd (register_toplevel xid generation ti r))"
  "no_new_surface r (snd (update_toplevel xid generation role geometry z_order r))"
  "no_new_surface r (snd (set_visibility xid generation state r))"
  "no_new_surface r (snd (unregister_toplevel xid generation r))"
  "no_new_surface r (snd (unbind_surface xid surface r))"
  by (cases "find_entry xid r"; auto simp: register_toplevel_def update_toplevel_def set_visibility_def unregister_toplevel_def
      unbind_surface_def surface_defs new_entry_def)+

lemma bind_surfaces:
  "surface_for_xid x (snd (bind_surface xid surface r)) = (if x = xid \<and> xid \<noteq> 0 then surface else surface_for_xid x r)"
  by (cases "find_entry xid r") (auto simp: bind_surface_def surface_defs new_entry_def)

lemma commit_surfaces: "no_new_surface r (snd (commit_placeholder_paint xid generation sq r))"
  by (auto simp: commit_placeholder_paint_def paintable_def surface_defs split: option.split)

section \<open>The cascade\<close>

lemma apply_orphan:
  "apply_mock_effect (orphan_effect owner e) s =
     (if en_representation e = Placeholder
      then s\<lparr>mb_placeholders := mb_placeholders s - {en_placeholder_id e}, mb_chrome := (mb_chrome s)(en_xid e := None),
             mb_cursors := (mb_cursors s)(en_xid e := None), mb_geometry := (mb_geometry s)(en_xid e := None)\<rparr>
      else s)"
  by (simp add: apply_mock_effect_def mark_resized_def record_placement_def execute_kind_def orphan_effect_def no_effect_def Let_def)

text \<open>The windows of the orphans among some entries.\<close>

definition orphan_windows :: "reg_entry list \<Rightarrow> nat set" where
  "orphan_windows es = en_xid ` {e \<in> set es. en_representation e = Placeholder}"

lemma fold_orphans:
  "let s' = fold apply_mock_effect (map (orphan_effect owner) es) s in
     mb_registry s' = mb_registry s \<and> mb_instances s' = mb_instances s \<and> mb_next_handle s' = mb_next_handle s \<and>
     surface_ids s' = surface_ids s \<and>
     mb_placeholders s' = mb_placeholders s - en_placeholder_id ` {e \<in> set es. en_representation e = Placeholder} \<and>
     (\<forall>x. mb_chrome s' x = (if x \<in> orphan_windows es then None else mb_chrome s x)) \<and>
     (\<forall>x. mb_cursors s' x = (if x \<in> orphan_windows es then None else mb_cursors s x)) \<and>
     (\<forall>x. mb_geometry s' x = (if x \<in> orphan_windows es then None else mb_geometry s x))"
proof (induction es arbitrary: s)
  case (Cons e es)
  show ?case
    using Cons.IH [of "apply_mock_effect (orphan_effect owner e) s"]
    by (auto simp: Let_def apply_orphan orphan_windows_def surface_ids_def fun_eq_iff)
qed (simp add: orphan_windows_def)

lemma fold_effects_windows: "run_effects effs (mb_placeholders s) = Some W \<Longrightarrow> mb_placeholders (fold apply_mock_effect effs s) = W"
  by (induction effs arbitrary: s) (auto split: if_splits)

lemma drop_popups_ok:
  assumes ok: "plane_ok n s"
  shows "plane_ok n (drop_popups owner s)"
proof (cases "owner = 0")
  case True
  then show ?thesis using ok by (simp add: drop_popups_def take_orphaned_popups_def)
next
  case False
  let ?r = "mb_registry s" and ?own = "\<lambda>kv. owned_popup owner (snd kv)"
  define es where "es = map snd (filter ?own (rg_entries ?r))"
  define effs where "effs = map (orphan_effect owner) es"
  define r' where "r' = snd (take_orphaned_popups owner ?r)"
  define s1 where "s1 = s\<lparr>mb_registry := r'\<rparr>"
  define s' where "s' = fold apply_mock_effect effs s1"
  have run: "take_orphaned_popups owner ?r = (effs, r')"
    using False by (simp add: take_orphaned_popups_def effs_def es_def r'_def comp_def)
  have drop: "drop_popups owner s = s'" by (simp add: drop_popups_def run s1_def s'_def)
  have w: "windows_ok s" "stores_ok s" "objects_ok s" "counted n s" using ok by (simp_all add: plane_ok_def)
  have rok: "registry_ok ?r" "mb_placeholders s = placeholders ?r" using w(1) by (simp_all add: windows_ok_def)
  note good = take_orphaned_good [OF rok(1) run]
  have find': "find_entry k r' = Some e \<longleftrightarrow> find_entry k ?r = Some e \<and> \<not> owned_popup owner e" for k e using good False by blast
  have mem: "e \<in> set es \<longleftrightarrow> (\<exists>k. find_entry k ?r = Some e) \<and> owned_popup owner e" for e
  proof -
    have "distinct (map fst (rg_entries ?r))" using rok(1) by (simp add: registry_ok_def omap_ok_distinct)
    then show ?thesis by (force simp: es_def find_entry_def image_iff)
  qed
  have orphan: "x \<in> orphan_windows es \<longleftrightarrow> (\<exists>e. find_entry x ?r = Some e \<and> owned_popup owner e \<and> en_representation e = Placeholder)" for x
    using registry_okD(2) [OF rok(1)] unfolding orphan_windows_def by (auto simp: mem)
  note kept = fold_orphans [of owner es s1, folded effs_def, folded s'_def, unfolded Let_def]
  have regs: "mb_registry s' = r'" using kept by (simp add: s1_def)
  have win: "mb_placeholders s' = placeholders r'"
    unfolding s'_def by (rule fold_effects_windows) (use good rok(2) in \<open>simp add: s1_def\<close>)
  have cells: "mb_geometry s' x = mb_geometry s x" if e: "find_entry x r' = Some e" for x e
    using e kept find' [of x e] orphan [of x] by (auto simp: s1_def)
  have "windows_ok s'"
    unfolding windows_ok_def regs
  proof (intro conjI allI impI)
    show "registry_ok r'" using good by blast
    show "\<exists>g. mb_geometry s' x = Some g \<and> mg_geometry g = en_geometry e" if e: "find_entry x r' = Some e" "en_toplevel_registered e" for x e
      using w(1) e find' [of x e] unfolding cells [OF e(1)] windows_ok_def by blast
    show "mg_seq g \<le> rg_next_host_apply_seq r'" if g: "mb_geometry s' x = Some g" for x g
      using w(1) g kept good by (auto simp: windows_ok_def s1_def split: if_splits)
  qed (rule win)
  moreover have "stores_ok s'"
  proof -
    have "representation_for_xid x r' = Placeholder" if c: "mb_chrome s' x = Some c" for x c
    proof -
      have x: "x \<notin> orphan_windows es" "mb_chrome s x = Some c" using c kept by (auto simp: s1_def split: if_splits)
      then obtain e where "find_entry x ?r = Some e" "en_representation e = Placeholder"
        using w(2) by (fastforce simp: stores_ok_def representation_for_xid_def at_entry_def split: option.splits)
      then show ?thesis using x(1) orphan [of x] find' [of x e] by (simp add: representation_for_xid_def at_entry_def)
    qed
    then show ?thesis using w(2) kept by (auto simp: stores_ok_def regs s1_def)
  qed
  moreover have "objects_ok s'"
  proof -
    have "no_new_surface ?r r'"
      unfolding no_new_surface_def surface_for_xid_def at_entry_def
      by (intro allI) (metis (mono_tags, lifting) find' insertCI option.case_eq_if option.exhaust_sel)
    from objects_ok_registry [OF w(3) this] show ?thesis using kept by (simp add: objects_ok_def instance_surfaces_def s1_def)
  qed
  moreover have "counted n s'"
    using w(4) kept good run by (auto simp: counted_def regs s1_def r'_def take_orphaned_popups_def)
  ultimately show ?thesis unfolding drop plane_ok_def by blast
qed

section \<open>The sidecar plane\<close>

definition keeps_ok :: "mock_backend \<Rightarrow> mock_backend \<Rightarrow> bool" where
  "keeps_ok s s' \<longleftrightarrow> (\<forall>n < 2 ^ 64 - 2. plane_ok n s \<longrightarrow> plane_ok (Suc n) s')"

lemma keeps_ok_run:
  assumes "\<And>r. registry_ok r \<Longrightarrow> has_room r \<Longrightarrow> good_step r (f r)" "\<And>r. registry_ok r \<Longrightarrow> has_room r \<Longrightarrow> tracks r (f r)"
    and "\<And>r. no_new_surface r (snd (f r))"
  shows "keeps_ok s (snd (run_registry f s))"
  unfolding keeps_ok_def
proof (intro allI impI)
  fix n :: nat
  assume n: "n < 2 ^ 64 - 2" "plane_ok n s"
  then have "registry_ok (mb_registry s)" "has_room (mb_registry s)"
    using counted_room [of n s] by (simp_all add: plane_ok_def windows_ok_def)
  then show "plane_ok (Suc n) (snd (run_registry f s))" using assms by (intro run_plane [OF n(2)]) auto
qed

lemma keeps_ok_same: "mb_registry s' = mb_registry s \<Longrightarrow> mb_placeholders s' = mb_placeholders s \<Longrightarrow> mb_geometry s' = mb_geometry s \<Longrightarrow>
    mb_chrome s' = mb_chrome s \<Longrightarrow> mb_cursors s' = mb_cursors s \<Longrightarrow> mb_instances s' = mb_instances s \<Longrightarrow> mb_surfaces s' = mb_surfaces s \<Longrightarrow>
    mb_next_handle s' = mb_next_handle s \<Longrightarrow> keeps_ok s s'"
  by (simp add: keeps_ok_def plane_ok_def windows_ok_def stores_ok_def objects_ok_def surface_ids_def instance_surfaces_def counted_def)

lemma plane_ok_cursor_erased: "plane_ok n s \<Longrightarrow> plane_ok n (s\<lparr>mb_cursors := (mb_cursors s)(x := None)\<rparr>)"
  by (auto simp: plane_ok_def windows_ok_def stores_ok_def objects_ok_def surface_ids_def instance_surfaces_def counted_def)

lemma keeps_ok_unregister: "keeps_ok s (snd (mock_unregister_toplevel xg s))"
proof -
  have "keeps_ok s (snd (run_registry (unregister_toplevel (fst xg) (snd xg)) s))"
    by (rule keeps_ok_run) (simp_all add: unregister_toplevel_good unregister_toplevel_tracks toplevel_surfaces)
  then show ?thesis
    by (auto simp: keeps_ok_def mock_unregister_toplevel_def case_prod_beta Let_def intro!: drop_popups_ok plane_ok_cursor_erased)
qed

lemma cursor_from_wire_ok:
  assumes "cursor_from_wire body = Inr cq"
  shows "length (cq_pixels cq) = cq_width cq * cq_height cq * 4 \<and> cq_width cq \<le> kMaxCursorDim \<and> cq_height cq \<le> kMaxCursorDim"
proof -
  obtain h tail where "check_cursor_header h tail = Inr cq"
    using assms by (auto simp: cursor_from_wire_def Let_def split: if_splits sum.splits)
  then show ?thesis by (auto simp: check_cursor_header_def Let_def split: if_splits)
qed

lemma keeps_ok_cursor: "cursor_from_wire body = Inr cq \<Longrightarrow> keeps_ok s (snd (set_cursor cq s))"
  using cursor_from_wire_ok [of body cq]
  by (auto simp: keeps_ok_def set_cursor_def plane_ok_def windows_ok_def stores_ok_def objects_ok_def surface_ids_def instance_surfaces_def counted_def)

lemma accepted_placeholder:
  "pd_accepted (accept_placeholder_paint x g q r) \<Longrightarrow> representation_for_xid x r = Placeholder"
  by (auto simp: accept_placeholder_paint_def paintable_def representation_for_xid_def at_entry_def split: option.splits if_splits)

lemma commit_keeps:
  "representation_for_xid y (snd (commit_placeholder_paint x g q r)) = representation_for_xid y r"
  "find_entry y (snd (commit_placeholder_paint x g q r)) = Some e' \<Longrightarrow>
     \<exists>e. find_entry y r = Some e \<and> en_toplevel_registered e = en_toplevel_registered e' \<and> en_geometry e = en_geometry e'"
  by (auto simp: commit_placeholder_paint_def paintable_def representation_for_xid_def at_entry_def split: option.splits if_splits)

lemma keeps_ok_paint:
  assumes "paint_from_wire body = Inr pr"
  shows "keeps_ok s (snd (paint_chrome pr s))"
  unfolding keeps_ok_def
proof (intro allI impI)
  fix n :: nat
  assume n: "n < 2 ^ 64 - 2" "plane_ok n s"
  let ?r = "mb_registry s" and ?x = "pr_xid pr"
  let ?c = "commit_placeholder_paint ?x (pr_lifecycle_generation pr) (pr_seq pr) ?r"
  show "plane_ok (Suc n) (snd (paint_chrome pr s))"
  proof (cases "pd_accepted (accept_placeholder_paint ?x (pr_lifecycle_generation pr) (pr_seq pr) ?r)")
    case True
    define c where "c = mock_paint_chrome pr (mock_chrome_of ?x s)"
    define s' where "s' = s\<lparr>mb_chrome := (mb_chrome s)(?x \<mapsto> c), mb_registry := snd ?c\<rparr>"
    have s': "snd (paint_chrome pr s) = s'" using True by (simp add: paint_chrome_def Let_def s'_def c_def)
    have w: "windows_ok s" "stores_ok s" "objects_ok s" "counted n s" using n(2) by (simp_all add: plane_ok_def)
    have "chrome_ok (mock_chrome_of ?x s)" using w(2) by (auto simp: mock_chrome_of_def stores_ok_def chrome_ok_def split: option.split)
    then have c: "chrome_ok c" "length (mc_bgra c) \<le> kMaxAuxChromeBackingStoreBytes"
      using paint_sample [OF paint_from_wire_ok [OF assms], of "mock_chrome_of ?x s"] paint_from_wire_ok [OF assms]
      by (auto simp: c_def chrome_ok_def paint_ok_def)
    have good: "good_step ?r (no_effect, snd ?c)" using w(1) by (intro commit_paint_good) (simp add: windows_ok_def)
    have "windows_ok s'"
      unfolding windows_ok_def
    proof (intro conjI allI impI)
      show "registry_ok (mb_registry s')" "mb_placeholders s' = placeholders (mb_registry s')"
        using good w(1) by (simp_all add: s'_def good_step_def windows_ok_def execute_def no_effect_def)
      show "\<exists>g. mb_geometry s' x = Some g \<and> mg_geometry g = en_geometry e"
        if e: "find_entry x (mb_registry s') = Some e" "en_toplevel_registered e" for x e
        using w(1) e commit_keeps(2) [of x ?x "pr_lifecycle_generation pr" "pr_seq pr" ?r e] by (fastforce simp: s'_def windows_ok_def)
      show "mg_seq g \<le> rg_next_host_apply_seq (mb_registry s')" if g: "mb_geometry s' x = Some g" for x g
        using w(1) g good by (simp add: s'_def windows_ok_def good_step_def seq_step_def no_effect_def)
    qed
    moreover have "stores_ok s'"
      using w(2) c accepted_placeholder [OF True] by (auto simp: s'_def stores_ok_def commit_keeps(1))
    moreover have "objects_ok s'"
      using objects_ok_registry [OF w(3) commit_surfaces] by (simp add: s'_def objects_ok_def surface_ids_def instance_surfaces_def)
    moreover have "counted (Suc n) s'"
      using w(4) good by (auto simp: counted_def s'_def good_step_def counters_step_def)
    ultimately show ?thesis by (simp add: s' plane_ok_def)
  qed (use n plane_ok_later [of n s "Suc n"] in \<open>simp add: paint_chrome_def Let_def\<close>)
qed

lemma handler_runs:
  "snd (mock_register_toplevel rq s) = snd (run_registry (register_toplevel (rq_xid rq) (rq_generation rq) (rq_info rq)) s)"
  "snd (mock_update_toplevel uq s) =
     snd (run_registry (update_toplevel (uq_xid uq) (uq_generation uq) (uq_role uq) (uq_geometry uq) (uq_z_order uq)) s)"
  "snd (mock_set_visibility (x, g, v) s) = snd (run_registry (set_visibility x g v) s)"
  by (simp_all add: mock_register_toplevel_def mock_update_toplevel_def mock_set_visibility_def case_prod_beta Let_def)

interpretation ok: plane_relation keeps_ok
proof
  show "keeps_ok s s" for s by (rule keeps_ok_same) simp_all
  show "keeps_ok s (snd (mock_sidecar_ready rd s))" for rd s
    by (rule keeps_ok_same) (auto simp: mock_sidecar_ready_def split: sum.split)
  show "keeps_ok s (snd (mock_register_toplevel rq s))" for rq s
    unfolding handler_runs by (rule keeps_ok_run) (simp_all add: register_toplevel_good register_toplevel_tracks toplevel_surfaces)
  show "keeps_ok s (snd (mock_update_toplevel uq s))" for uq s
    unfolding handler_runs by (rule keeps_ok_run) (simp_all add: update_toplevel_good update_toplevel_tracks toplevel_surfaces)
  show "keeps_ok s (snd (mock_set_visibility xgv s))" for xgv s
    by (cases xgv, simp only: handler_runs, rule keeps_ok_run)
      (simp_all add: set_visibility_good set_visibility_tracks toplevel_surfaces)
  show "keeps_ok s (snd (poll_input since s))" for since s
    by (rule keeps_ok_same) (simp_all add: poll_input_def case_prod_beta)
  show "keeps_ok s (snd (debug_enqueue_input xee s))" for xee s
    by (rule keeps_ok_same) (simp_all add: debug_enqueue_input_def case_prod_beta)
qed (fact keeps_ok_unregister keeps_ok_paint keeps_ok_cursor)+

section \<open>The data plane\<close>

lemma plane_ok_split:
  assumes "plane_ok n s" "mb_registry s' = mb_registry s" "mb_placeholders s' = mb_placeholders s" "mb_geometry s' = mb_geometry s"
    "mb_chrome s' = mb_chrome s" "mb_cursors s' = mb_cursors s"
  shows "windows_ok s'" "stores_ok s'"
  using assms by (simp_all add: plane_ok_def windows_ok_def stores_ok_def)

lemma mint_handle_fresh:
  assumes "plane_ok n s" "n < 2 ^ 64 - 2"
  shows "mint_handle s = (mb_next_handle s, s\<lparr>mb_next_handle := Suc (mb_next_handle s)\<rparr>)"
  using assms by (simp add: mint_handle_def plane_ok_def counted_def u64_def)

text \<open>The references depend on the objects only through the two maps of handles.\<close>

lemma objects_ok_same:
  assumes "objects_ok s" "mb_registry s' = mb_registry s" "surface_ids s' = surface_ids s" "instance_surfaces s' = instance_surfaces s"
    "mb_next_handle s \<le> mb_next_handle s'"
  shows "objects_ok s'"
  using assms unfolding objects_ok_def by (auto intro: less_le_trans) (meson less_le_trans)+

lemma objects_ok_handles:
  assumes "objects_ok s"
  shows "mb_instances s i = Some io \<Longrightarrow> 0 < i \<and> i < mb_next_handle s" "mb_surfaces s h = Some so \<Longrightarrow> 0 < h \<and> h < mb_next_handle s"
  using assms by (auto simp: objects_ok_def surface_ids_def instance_surfaces_def)

lemma objects_okD:
  assumes "objects_ok s"
  shows "surface_ids s h = Some (i, x) \<Longrightarrow> 0 < h \<and> h < mb_next_handle s \<and> (\<exists>hs. instance_surfaces s i = Some hs \<and> h \<in> hs)"
    "instance_surfaces s i = Some hs \<Longrightarrow> 0 < i \<and> i < mb_next_handle s"
    "instance_surfaces s i = Some hs \<Longrightarrow> h \<in> hs \<Longrightarrow> \<exists>x. surface_ids s h = Some (i, x)"
    "find_entry x (mb_registry s) = Some e \<Longrightarrow> en_surface e \<noteq> 0 \<Longrightarrow> \<exists>i. surface_ids s (en_surface e) = Some (i, x)"
  using assms unfolding objects_ok_def by blast+

lemma objects_ok_new_instance:
  assumes ok: "objects_ok s" and s': "mb_registry s' = mb_registry s" "surface_ids s' = surface_ids s"
    "instance_surfaces s' = (instance_surfaces s)(mb_next_handle s \<mapsto> {})" "mb_next_handle s' = Suc (mb_next_handle s)"
  shows "objects_ok s'"
proof -
  have "instance_surfaces s (mb_next_handle s) = None"
    using objects_okD(2) [OF ok, of "mb_next_handle s"] by (cases "instance_surfaces s (mb_next_handle s)") auto
  then have "\<exists>hs. instance_surfaces s' i = Some hs \<and> h \<in> hs" if "surface_ids s h = Some (i, x)" for h i x
    using objects_okD(1) [OF ok that] s'(3) by auto
  moreover have "0 < i \<and> i < mb_next_handle s' \<and> (\<forall>h\<in>hs. \<exists>x. surface_ids s h = Some (i, x))" if "instance_surfaces s' i = Some hs" for i hs
    using that objects_okD(2,3) [OF ok, of i] ok s'(3,4) by (auto simp: less_Suc_eq objects_ok_def split: if_splits)
  moreover have "0 < h \<and> h < mb_next_handle s'" if "surface_ids s h = Some (i, x)" for h i x
    using objects_okD(1) [OF ok that] s'(4) by simp
  ultimately show ?thesis
    using objects_okD(4) [OF ok] unfolding objects_ok_def s'(1,2) by (simp add: s'(4))
qed

lemma keeps_ok_create_instance: "keeps_ok s (snd (create_instance s))"
  unfolding keeps_ok_def
proof (intro allI impI)
  fix n :: nat
  assume n: "n < 2 ^ 64 - 2" "plane_ok n s"
  let ?s' = "snd (create_instance s)"
  have ok: "objects_ok s" using n(2) by (simp add: plane_ok_def)
  have new: "mb_instances s (mb_next_handle s) = None"
    using objects_ok_handles(1) [OF ok, of "mb_next_handle s"] by (cases "mb_instances s (mb_next_handle s)") auto
  have "windows_ok ?s'" "stores_ok ?s'"
    by (rule plane_ok_split [OF n(2)]; simp add: create_instance_def mint_handle_def)+
  moreover have "objects_ok ?s'"
  proof (cases "mb_have_device s")
    case True
    then show ?thesis
      by (intro objects_ok_new_instance [OF ok])
        (simp_all add: create_instance_def mint_handle_fresh [OF n(2,1)] emplace_def new surface_ids_def instance_surfaces_def fun_eq_iff)
  qed (simp add: create_instance_def ok)
  moreover have "counted (Suc n) ?s'"
    using n(2) mint_handle_fresh [OF n(2,1)] by (simp add: create_instance_def plane_ok_def counted_def)
  ultimately show "plane_ok (Suc n) ?s'" by (simp add: plane_ok_def)
qed

lemma keeps_ok_enumerate: "keeps_ok s (snd (enumerate_physical_devices i s))"
  unfolding keeps_ok_def
proof (intro allI impI)
  fix n :: nat
  assume n: "n < 2 ^ 64 - 2" "plane_ok n s"
  let ?s' = "snd (enumerate_physical_devices i s)"
  have "windows_ok ?s'" "stores_ok ?s'"
    by (rule plane_ok_split [OF n(2)]; simp add: enumerate_physical_devices_def mint_handle_def split: option.split)+
  moreover have "objects_ok ?s'"
    by (rule objects_ok_same [of s])
      (use n(2) mint_handle_fresh [OF n(2,1)] in \<open>auto simp: plane_ok_def enumerate_physical_devices_def surface_ids_def instance_surfaces_def
         fun_eq_iff split: option.split\<close>)
  moreover have "counted (Suc n) ?s'"
    using n(2) mint_handle_fresh [OF n(2,1)] by (auto simp: enumerate_physical_devices_def plane_ok_def counted_def split: option.split)
  ultimately show "plane_ok (Suc n) ?s'" by (simp add: plane_ok_def)
qed

lemma objects_ok_drop_instance:
  assumes ok: "objects_ok s" and s': "mb_registry s' = mb_registry s" "surface_ids s' = surface_ids s"
    "instance_surfaces s i = Some {}" "instance_surfaces s' = (instance_surfaces s)(i := None)" "mb_next_handle s' = mb_next_handle s"
  shows "objects_ok s'"
proof -
  have "\<exists>hs. instance_surfaces s' j = Some hs \<and> h \<in> hs" if "surface_ids s h = Some (j, x)" for h j x
    using objects_okD(1) [OF ok that] s'(3,4) by auto
  moreover have "instance_surfaces s j = Some hs" if "instance_surfaces s' j = Some hs" for j hs
    using that s'(4) by (simp split: if_splits)
  ultimately show ?thesis using ok unfolding objects_ok_def s'(1,2,5) by blast
qed

lemma keeps_ok_destroy_instance: "keeps_ok s (snd (destroy_instance i s))"
  unfolding keeps_ok_def
proof (intro allI impI)
  fix n :: nat
  assume n: "n < 2 ^ 64 - 2" "plane_ok n s"
  let ?s' = "snd (destroy_instance i s)"
  have ok: "objects_ok s" using n(2) by (simp add: plane_ok_def)
  have "windows_ok ?s'" "stores_ok ?s'"
    by (rule plane_ok_split [OF n(2)]; simp add: destroy_instance_def split: option.split)+
  moreover have "objects_ok ?s'"
  proof (cases "\<exists>io. mb_instances s i = Some io \<and> in_devices io = {} \<and> in_surfaces io = {}")
    case True
    then show ?thesis
      by (elim exE, intro objects_ok_drop_instance [OF ok, of _ i])
        (auto simp: destroy_instance_def surface_ids_def instance_surfaces_def fun_eq_iff)
  next
    case False
    then have "?s' = s" by (auto simp: destroy_instance_def split: option.split)
    then show ?thesis using ok by simp
  qed
  moreover have "counted (Suc n) ?s'"
    using n(2) by (auto simp: destroy_instance_def plane_ok_def counted_def split: option.split)
  ultimately show "plane_ok (Suc n) ?s'" by (simp add: plane_ok_def)
qed

lemma objects_ok_new_surface:
  assumes ok: "objects_ok s" and inst: "instance_surfaces s i = Some hs"
    and s': "surface_ids s' = (surface_ids s)(mb_next_handle s \<mapsto> (i, x0))" "mb_next_handle s' = Suc (mb_next_handle s)"
      "instance_surfaces s' = (instance_surfaces s)(i \<mapsto> insert (mb_next_handle s) hs)"
    and bound: "\<And>x e. find_entry x (mb_registry s') = Some e \<Longrightarrow> en_surface e \<noteq> 0 \<Longrightarrow> \<exists>i. surface_ids s' (en_surface e) = Some (i, x)"
  shows "objects_ok s'"
proof -
  let ?h = "mb_next_handle s"
  have pos: "0 < ?h" using ok by (simp add: objects_ok_def)
  have "0 < h \<and> h < Suc ?h \<and> (\<exists>hs. instance_surfaces s' j = Some hs \<and> h \<in> hs)" if h: "surface_ids s' h = Some (j, x)" for h j x
  proof (cases "h = ?h")
    case True
    then show ?thesis using h pos s' by auto
  next
    case False
    then have "surface_ids s h = Some (j, x)" using h s'(1) by simp
    from objects_okD(1) [OF ok this] show ?thesis using inst s'(3) by auto
  qed
  moreover have "0 < j \<and> j < Suc ?h \<and> (\<forall>h\<in>hs'. \<exists>x. surface_ids s' h = Some (j, x))" if j: "instance_surfaces s' j = Some hs'" for j hs'
  proof -
    obtain hs0 where hs0: "instance_surfaces s j = Some hs0" "hs' \<subseteq> hs0 \<union> (if j = i then {?h} else {})"
      using j inst s'(3) by (cases "j = i") auto
    have "\<exists>x. surface_ids s' h = Some (j, x)" if h: "h \<in> hs'" for h
    proof (cases "h = ?h")
      case True
      have "?h \<notin> hs0" using objects_okD(3) [OF ok hs0(1), of ?h] objects_okD(1) [OF ok, of ?h] by fastforce
      then have "j = i" using hs0(2) h True by (auto split: if_splits)
      then show ?thesis using True s'(1) by simp
    next
      case False
      then have "h \<in> hs0" using hs0(2) h by (auto split: if_splits)
      from objects_okD(3) [OF ok hs0(1) this] show ?thesis using False s'(1) by simp
    qed
    then show ?thesis using objects_okD(2) [OF ok hs0(1)] by auto
  qed
  ultimately show ?thesis using bound unfolding objects_ok_def s'(2) by blast
qed

lemma objects_ok_drop_surface:
  assumes ok: "objects_ok s" and h0: "surface_ids s h = Some (i, x0)" and inst: "instance_surfaces s i = Some hs"
    and s': "surface_ids s' = (surface_ids s)(h := None)" "mb_next_handle s' = mb_next_handle s"
      "instance_surfaces s' = (instance_surfaces s)(i \<mapsto> hs - {h})"
    and bound: "\<And>x e. find_entry x (mb_registry s') = Some e \<Longrightarrow> en_surface e \<noteq> 0 \<Longrightarrow> \<exists>i. surface_ids s' (en_surface e) = Some (i, x)"
  shows "objects_ok s'"
proof -
  have "0 < k \<and> k < mb_next_handle s \<and> (\<exists>hs. instance_surfaces s' j = Some hs \<and> k \<in> hs)" if k: "surface_ids s' k = Some (j, x)" for k j x
  proof -
    have "k \<noteq> h" "surface_ids s k = Some (j, x)" using k s'(1) by (auto split: if_splits)
    then show ?thesis using objects_okD(1) [OF ok, of k j x] inst s'(3) by auto
  qed
  moreover have "0 < j \<and> j < mb_next_handle s \<and> (\<forall>k\<in>hs'. \<exists>x. surface_ids s' k = Some (j, x))" if j: "instance_surfaces s' j = Some hs'" for j hs'
  proof -
    obtain hs0 where hs0: "instance_surfaces s j = Some hs0" "hs' \<subseteq> hs0" "j = i \<longrightarrow> h \<notin> hs'"
      using j inst s'(3) by (cases "j = i") auto
    have "h \<notin> hs'"
      using hs0 objects_okD(3) [OF ok hs0(1), of h] h0 by auto
    then have "\<exists>x. surface_ids s' k = Some (j, x)" if "k \<in> hs'" for k
      using that hs0(2) objects_okD(3) [OF ok hs0(1), of k] s'(1) by auto
    then show ?thesis using objects_okD(2) [OF ok hs0(1)] by blast
  qed
  ultimately show ?thesis using bound ok unfolding objects_ok_def s'(2) by blast
qed

lemma keeps_ok_create_surface: "keeps_ok s (snd (create_surface req s))"
  unfolding keeps_ok_def
proof (intro allI impI)
  fix n :: nat
  assume n: "n < 2 ^ 64 - 2" "plane_ok n s"
  show "plane_ok (Suc n) (snd (create_surface req s))"
  proof (cases "mb_instances s (su_instance req)")
    case (Some io)
    let ?h = "mb_next_handle s" and ?r = "mb_registry s"
    define so where "so = \<lparr>sf_instance = su_instance req, sf_swapchains = {}, sf_geometry_dirty = False, sf_shown = False,
      sf_platform = su_platform req, sf_xid = su_xid req, sf_role_hint = su_role_hint req\<rparr>"
    define s2 where "s2 = s\<lparr>mb_next_handle := Suc ?h, mb_surfaces := (mb_surfaces s)(?h \<mapsto> so),
      mb_instances := (mb_instances s)(su_instance req \<mapsto> io\<lparr>in_surfaces := insert ?h (in_surfaces io)\<rparr>)\<rparr>"
    let ?f = "bind_surface (su_xid req) ?h"
    have w: "windows_ok s" "stores_ok s" "objects_ok s" "counted n s" using n(2) by (simp_all add: plane_ok_def)
    have h: "0 < ?h" using w(3) by (simp add: objects_ok_def)
    have new: "mb_surfaces s ?h = None"
      using w(3) objects_ok_handles(2) [of s ?h] by (cases "mb_surfaces s ?h") auto
    have s': "snd (create_surface req s) = snd (run_registry ?f s2)"
      using new by (simp add: create_surface_def Some mint_handle_fresh [OF n(2,1)] emplace_def s2_def so_def Let_def)
    have rok: "registry_ok ?r" "has_room ?r" "mb_registry s2 = ?r" using w n(1) counted_room by (auto simp: windows_ok_def s2_def)
    have w2: "windows_ok s2" "stores_ok s2" by (rule plane_ok_split [OF n(2)]; simp add: s2_def)+
    have good: "good_step (mb_registry s2) (?f (mb_registry s2))" "tracks (mb_registry s2) (?f (mb_registry s2))"
      using rok h by (simp_all add: bind_surface_good bind_surface_tracks)
    have ids: "surface_ids s2 k = (if k = ?h then Some (su_instance req, su_xid req) else surface_ids s k)" for k
      by (simp add: surface_ids_def s2_def so_def)
    have bound: "\<exists>i. surface_ids s2 (en_surface e) = Some (i, x)"
      if e: "find_entry x (snd (?f ?r)) = Some e" "en_surface e \<noteq> 0" for x e
    proof (cases "x = su_xid req \<and> su_xid req \<noteq> 0")
      case True
      then have "en_surface e = ?h" using bind_surfaces [of x "su_xid req" ?h ?r] e(1) by (simp add: surface_for_xid_def at_entry_def)
      then show ?thesis using True by (simp add: ids)
    next
      case False
      then have "surface_for_xid x ?r = en_surface e" using bind_surfaces [of x "su_xid req" ?h ?r] e(1) by (auto simp: surface_for_xid_def at_entry_def)
      then obtain e0 where "find_entry x ?r = Some e0" "en_surface e0 = en_surface e"
        using e(2) by (auto simp: surface_for_xid_def at_entry_def split: option.splits)
      then obtain i where i: "surface_ids s (en_surface e) = Some (i, x)" using w(3) e(2) unfolding objects_ok_def by metis
      then have "en_surface e \<noteq> ?h" using new by (auto simp: surface_ids_def)
      then show ?thesis using i by (simp add: ids)
    qed
    have "objects_ok (s2\<lparr>mb_registry := snd (?f ?r)\<rparr>)"
    proof (rule objects_ok_new_surface [OF w(3)])
      show "instance_surfaces s (su_instance req) = Some (in_surfaces io)" by (simp add: instance_surfaces_def Some)
      show "surface_ids (s2\<lparr>mb_registry := snd (?f ?r)\<rparr>) = (surface_ids s)(?h \<mapsto> (su_instance req, su_xid req))"
        by (simp add: fun_eq_iff ids)
    qed (use bound in \<open>simp_all add: s2_def instance_surfaces_def fun_eq_iff\<close>)
    moreover have "counted (Suc n) (snd (run_registry ?f s2))"
      using run_counted [of n "s2\<lparr>mb_next_handle := ?h\<rparr>" ?f] good w(4) rok(3)
      by (auto simp: counted_def run_registry_simps s2_def)
    ultimately show ?thesis
      unfolding s' plane_ok_def using run_windows [of s2 ?f, OF w2(1) good] run_stores [of s2 ?f, OF w2(2) good(2)] rok(3)
      by (simp add: run_registry_simps(3))
  qed (use n plane_ok_later [of n s "Suc n"] in \<open>simp add: create_surface_def\<close>)
qed

lemma unbind_unbound:
  "xid \<noteq> 0 \<Longrightarrow> surface \<noteq> 0 \<Longrightarrow> surface_for_xid xid (snd (unbind_surface xid surface r)) \<noteq> surface"
  by (auto simp: unbind_surface_def surface_for_xid_def at_entry_def split: option.splits)

lemma keeps_ok_destroy_surface: "keeps_ok s (snd (destroy_surface h s))"
  unfolding keeps_ok_def
proof (intro allI impI)
  fix n :: nat
  assume n: "n < 2 ^ 64 - 2" "plane_ok n s"
  show "plane_ok (Suc n) (snd (destroy_surface h s))"
  proof (cases "\<exists>so. mb_surfaces s h = Some so \<and> sf_swapchains so = {}")
    case True
    then obtain so where so: "mb_surfaces s h = Some so" "sf_swapchains so = {}" by blast
    let ?i = "sf_instance so" and ?x = "sf_xid so" and ?r = "mb_registry s"
    let ?f = "unbind_surface ?x h"
    have w: "windows_ok s" "stores_ok s" "objects_ok s" "counted n s" using n(2) by (simp_all add: plane_ok_def)
    have h0: "surface_ids s h = Some (?i, ?x)" by (simp add: surface_ids_def so)
    obtain hs where hs: "instance_surfaces s ?i = Some hs" "h \<in> hs" "0 < h" using objects_okD(1) [OF w(3) h0] by blast
    then obtain io where io: "mb_instances s ?i = Some io" "in_surfaces io = hs" by (auto simp: instance_surfaces_def)
    define s1 where "s1 = s\<lparr>mb_instances := (mb_instances s)(?i \<mapsto> io\<lparr>in_surfaces := hs - {h}\<rparr>)\<rparr>"
    define s2 where "s2 = snd (run_registry ?f s1)"
    define s' where "s' = s2\<lparr>mb_surfaces := (mb_surfaces s2)(h := None)\<rparr>"
    have s': "snd (destroy_surface h s) = s'"
      by (simp add: destroy_surface_def so io s'_def s2_def s1_def Let_def)
    have r1: "mb_registry s1 = ?r" by (simp add: s1_def)
    have rok: "registry_ok ?r" using w(1) by (simp add: windows_ok_def)
    have good: "good_step (mb_registry s1) (?f (mb_registry s1))" "tracks (mb_registry s1) (?f (mb_registry s1))"
      using rok hs(3) by (simp_all add: r1 unbind_surface_good unbind_surface_tracks)
    have w1: "windows_ok s1" "stores_ok s1" by (rule plane_ok_split [OF n(2)]; simp add: s1_def)+
    have "windows_ok s2" "stores_ok s2" "counted (Suc n) s2"
      unfolding s2_def using run_windows [of s1 ?f, OF w1(1) good] run_stores [of s1 ?f, OF w1(2) good(2)] run_counted [of n s1 ?f, OF _ good(1)] w(4)
      by (simp_all add: counted_def s1_def)
    then have "windows_ok s'" "stores_ok s'" "counted (Suc n) s'"
      by (simp_all add: s'_def windows_ok_def stores_ok_def counted_def)
    moreover have "objects_ok s'"
    proof (rule objects_ok_drop_surface [OF w(3) h0 hs(1)])
      have "surface_ids s2 = surface_ids s" "instance_surfaces s2 = (instance_surfaces s)(?i \<mapsto> hs - {h})" "mb_next_handle s2 = mb_next_handle s"
        by (simp_all add: s2_def run_registry_simps(3)) (simp_all add: s1_def surface_ids_def instance_surfaces_def fun_eq_iff)
      then show ids: "surface_ids s' = (surface_ids s)(h := None)" "mb_next_handle s' = mb_next_handle s"
        "instance_surfaces s' = (instance_surfaces s)(?i \<mapsto> hs - {h})"
        by (simp_all add: s'_def surface_ids_def instance_surfaces_def fun_eq_iff)
      show "\<exists>i. surface_ids s' (en_surface e) = Some (i, x)"
        if e: "find_entry x (mb_registry s') = Some e" "en_surface e \<noteq> 0" for x e
      proof -
        have find: "find_entry x (snd (?f ?r)) = Some e" using e(1) by (simp add: s'_def s2_def run_registry_simps(1) r1)
        then have "surface_for_xid x (snd (?f ?r)) = en_surface e" by (simp add: surface_for_xid_def at_entry_def)
        then have "surface_for_xid x ?r = en_surface e" using toplevel_surfaces(5) [of ?r ?x h, unfolded no_new_surface_def, rule_format, of x] e(2) by simp
        then obtain e0 where e0: "find_entry x ?r = Some e0" "en_surface e0 = en_surface e"
          using e(2) by (auto simp: surface_for_xid_def at_entry_def split: option.splits)
        then obtain i where i: "surface_ids s (en_surface e) = Some (i, x)" using objects_okD(4) [OF w(3) e0(1)] e(2) by auto
        moreover have "en_surface e \<noteq> h"
        proof
          assume "en_surface e = h"
          then have "x = ?x" using i h0 by simp
          moreover have "x \<noteq> 0" using registry_okD(1) [OF rok e0(1)] .
          ultimately show False
            using unbind_unbound [of ?x h ?r] hs(3) find \<open>en_surface e = h\<close> by (simp add: surface_for_xid_def at_entry_def)
        qed
        ultimately show ?thesis using ids(1) by simp
      qed
    qed
    ultimately show ?thesis by (simp add: s' plane_ok_def)
  next
    case False
    then have "snd (destroy_surface h s) = s" by (auto simp: destroy_surface_def split: option.split)
    then show ?thesis using n plane_ok_later [of n s "Suc n"] by simp
  qed
qed

section \<open>Every event, every run\<close>

lemma keeps_ok_change_devices: "keeps_ok s (plane_do (ChangeDevices i ds) s)"
  by (auto simp: keeps_ok_def plane_ok_def windows_ok_def stores_ok_def counted_def surface_ids_def instance_surfaces_def fun_eq_iff
      intro!: objects_ok_same [of s] split: option.split)

lemma keeps_ok_change_swapchains: "keeps_ok s (plane_do (ChangeSwapchains h scs dirty shown) s)"
  by (auto simp: keeps_ok_def plane_ok_def windows_ok_def stores_ok_def counted_def surface_ids_def instance_surfaces_def fun_eq_iff
      intro!: objects_ok_same [of s] split: option.split)

lemma plane_do_ok: "keeps_ok s (plane_do ev s)"
  using keeps_ok_change_devices keeps_ok_change_swapchains
  by (cases ev) (simp_all add: ok.served keeps_ok_create_instance keeps_ok_enumerate keeps_ok_destroy_instance
      keeps_ok_create_surface keeps_ok_destroy_surface del: plane_do.simps(7,8))

lemma new_backend_ok: "plane_ok 0 (new_backend d l)"
  by (simp add: plane_ok_def windows_ok_def stores_ok_def objects_ok_def counted_def new_backend_def empty_registry_def registry_ok_def
      omap_ok_def find_entry_def placeholders_def surface_ids_def instance_surfaces_def)

lemma plane_run_ok: "plane_ok n s \<Longrightarrow> n + length evs \<le> 2 ^ 64 - 2 \<Longrightarrow> plane_ok (n + length evs) (plane_run evs s)"
proof (induction evs arbitrary: n s)
  case (Cons ev evs)
  have "plane_ok (Suc n) (plane_do ev s)" using plane_do_ok [of s ev] Cons.prems by (simp add: keeps_ok_def)
  from Cons.IH [OF this] Cons.prems(2) show ?case by simp
qed simp

end
