(* ===== verification/Sidecar_Authored.thy ===== *)
theory Sidecar_Authored
  imports Sidecar_Invariant
begin

text \<open>
  The geometry the sidecar authored, read off the requests it sent and the answers it got: the geometry of
  the last register request, or of the last update request with an extent, that the worker answered as
  applied. The registry holds exactly this geometry for every registered toplevel.
\<close>

section \<open>The history\<close>

text \<open>The window and the geometry one event authors: the request is read from its bytes, the answer is the worker's.\<close>

fun authors :: "plane_event \<Rightarrow> mock_backend \<Rightarrow> (nat \<times> toplevel_geometry) option" where
  "authors (SidecarRpc req) s =
     (if rpc_status req \<noteq> 0 then None
      else case json_parse (rpc_body req) of
        Inl _ \<Rightarrow> None
      | Inr b \<Rightarrow>
          let rq = register_from_body b; uq = update_from_body b in
          if rpc_op req = 202 \<and> tp_applied (fst (mock_register_toplevel rq s)) then Some (rq_xid rq, ti_geometry (rq_info rq))
          else if rpc_op req = 203 \<and> tp_applied (fst (mock_update_toplevel uq s)) \<and>
                  0 < tg_width (uq_geometry uq) \<and> 0 < tg_height (uq_geometry uq)
          then Some (uq_xid uq, uq_geometry uq)
          else None)"
| "authors _ s = None"

definition author :: "plane_event \<Rightarrow> mock_backend \<Rightarrow> (nat \<rightharpoonup> toplevel_geometry) \<Rightarrow> (nat \<rightharpoonup> toplevel_geometry)" where
  "author ev s A = (case authors ev s of None \<Rightarrow> A | Some (x, g) \<Rightarrow> A(x \<mapsto> g))"

fun authored :: "plane_event list \<Rightarrow> mock_backend \<Rightarrow> (nat \<rightharpoonup> toplevel_geometry) \<Rightarrow> (nat \<rightharpoonup> toplevel_geometry)" where
  "authored [] s A = A"
| "authored (ev # evs) s A = authored evs (plane_do ev s) (author ev s A)"

section \<open>What an operation does to the geometries\<close>

definition placed :: "registry \<Rightarrow> nat \<rightharpoonup> toplevel_geometry" where
  "placed r x = (case find_entry x r of None \<Rightarrow> None | Some e \<Rightarrow> if en_toplevel_registered e then Some (en_geometry e) else None)"

lemmas placed_defs = placed_def map_le_def dom_def no_effect_def new_entry_def stamp_geometry_placement_def mint_seq_def mint_epoch_def
  mint_placeholder_def case_prod_beta Let_def

lemma bind_placed: "placed (snd (bind_surface xid surface r)) \<subseteq>\<^sub>m placed r"
  by (cases "find_entry xid r") (auto simp: bind_surface_def placed_defs)

lemma unbind_placed: "placed (snd (unbind_surface xid surface r)) \<subseteq>\<^sub>m placed r"
  by (cases "find_entry xid r") (auto simp: unbind_surface_def placed_defs)

lemma unregister_placed: "placed (snd (unregister_toplevel xid generation r)) \<subseteq>\<^sub>m placed r"
  by (cases "find_entry xid r") (auto simp: unregister_toplevel_def placed_defs)

lemma visibility_placed: "placed (snd (set_visibility xid generation state r)) \<subseteq>\<^sub>m placed r"
  by (cases "find_entry xid r") (auto simp: set_visibility_def placed_defs)

lemma commit_placed: "placed (snd (commit_placeholder_paint xid generation sq r)) \<subseteq>\<^sub>m placed r"
  by (auto simp: commit_placeholder_paint_def paintable_def placed_defs split: option.splits)

lemma orphans_placed:
  assumes "registry_ok r"
  shows "placed (snd (take_orphaned_popups owner r)) \<subseteq>\<^sub>m placed r"
proof -
  have "find_entry k (snd (take_orphaned_popups owner r)) = Some e \<Longrightarrow> find_entry k r = Some e" for k e
    using take_orphaned_good [OF assms prod.collapse [symmetric]] by blast
  then show ?thesis by (fastforce simp: placed_def map_le_def dom_def split: option.splits if_splits)
qed

text \<open>A register request that applies places the window; one that does not changes nothing.\<close>

lemma register_placed:
  "if ef_applied (fst (register_toplevel xid generation ti r))
   then placed (snd (register_toplevel xid generation ti r)) \<subseteq>\<^sub>m (placed r)(xid \<mapsto> ti_geometry ti)
   else snd (register_toplevel xid generation ti r) = r"
  by (cases "find_entry xid r") (auto simp: register_toplevel_def placed_defs)

text \<open>An update that applies and has an extent moves the window; any other keeps every geometry.\<close>

lemma update_placed:
  "if ef_applied (fst (update_toplevel xid generation role g z r)) \<and> 0 < tg_width g \<and> 0 < tg_height g
   then placed (snd (update_toplevel xid generation role g z r)) \<subseteq>\<^sub>m (placed r)(xid \<mapsto> g)
   else placed (snd (update_toplevel xid generation role g z r)) \<subseteq>\<^sub>m placed r"
  by (cases "find_entry xid r") (auto simp: update_toplevel_def placed_defs)

section \<open>The handlers\<close>

lemma drop_popups_placed: "registry_ok (mb_registry s) \<Longrightarrow> placed (mb_registry (drop_popups owner s)) \<subseteq>\<^sub>m placed (mb_registry s)"
proof -
  have "mb_registry (fold apply_mock_effect effs s') = mb_registry s'" for effs s' by (induction effs arbitrary: s') simp_all
  then show "registry_ok (mb_registry s) \<Longrightarrow> ?thesis"
    using orphans_placed [of "mb_registry s" owner] by (simp add: drop_popups_def case_prod_beta)
qed

lemma mock_unregister_placed:
  assumes "registry_ok (mb_registry s)" "has_room (mb_registry s)"
  shows "placed (mb_registry (snd (mock_unregister_toplevel xg s))) \<subseteq>\<^sub>m placed (mb_registry s)"
proof -
  let ?u = "unregister_toplevel (fst xg) (snd xg) (mb_registry s)"
  have "good_step (mb_registry s) ?u" using assms by (simp add: unregister_toplevel_good)
  then have ok: "registry_ok (snd ?u)" by (simp add: good_step_def)
  have "placed (mb_registry (drop_popups (fst xg) s1)) \<subseteq>\<^sub>m placed (mb_registry s)" if "mb_registry s1 = snd ?u" for s1
    by (rule map_le_trans [OF drop_popups_placed]) (simp_all add: that ok unregister_placed)
  then show ?thesis
    using unregister_placed by (simp add: mock_unregister_toplevel_def case_prod_beta Let_def run_registry_simps(1))
qed

text \<open>Every operation of the sidecar but the two that author a geometry.\<close>

lemma handler_placed:
  assumes "registry_ok (mb_registry s)" "has_room (mb_registry s)" "op \<notin> {202, 203}"
  shows "placed (mb_registry (snd (sidecar_handler op body s))) \<subseteq>\<^sub>m placed (mb_registry s)"
proof (cases "map_of sidecar_ops op")
  case (Some o')
  have other: "o' \<noteq> OpRegister" "o' \<noteq> OpUpdate" using Some assms(3) by (auto simp: sidecar_ops_def split: if_splits)
  have ready: "mb_registry (snd (mock_sidecar_ready rd s)) = mb_registry s" for rd by (simp add: mock_sidecar_ready_def split: sum.split)
  have paint: "placed (mb_registry (snd (paint_chrome pr s))) \<subseteq>\<^sub>m placed (mb_registry s)" for pr
    by (simp add: paint_chrome_def Let_def commit_placed)
  have visibility: "placed (mb_registry (snd (mock_set_visibility v s))) \<subseteq>\<^sub>m placed (mb_registry s)" for v
    by (cases v) (simp add: handler_runs run_registry_simps(1) visibility_placed)
  have cursor: "mb_registry (snd (set_cursor cq s)) = mb_registry s" for cq by (simp add: set_cursor_def)
  have input: "mb_registry (snd (poll_input since s)) = mb_registry s" "mb_registry (snd (debug_enqueue_input xee s)) = mb_registry s" for since xee
    by (simp_all add: poll_input_def debug_enqueue_input_def case_prod_beta)
  have op: "placed (mb_registry (snd (json_op body s f enc))) \<subseteq>\<^sub>m placed (mb_registry s)"
    if "\<And>b. placed (mb_registry (snd (f b))) \<subseteq>\<^sub>m placed (mb_registry s)" for f :: "jval \<Rightarrow> 'r \<times> mock_backend" and enc
    using that by (cases "json_parse body") (simp_all add: json_op_def case_prod_beta Let_def)
  show ?thesis
    using other by (cases o')
      (auto simp: sidecar_handler_def Some ready cursor input paint visibility mock_unregister_placed assms case_prod_beta Let_def
        intro!: op split: sum.split)
qed (simp add: sidecar_handler_def)

lemma reply_applied:
  "tp_applied (fst (mock_register_toplevel rq s)) = ef_applied (fst (register_toplevel (rq_xid rq) (rq_generation rq) (rq_info rq) (mb_registry s)))"
  "tp_applied (fst (mock_update_toplevel uq s)) =
     ef_applied (fst (update_toplevel (uq_xid uq) (uq_generation uq) (uq_role uq) (uq_geometry uq) (uq_z_order uq) (mb_registry s)))"
  by (simp_all add: mock_register_toplevel_def mock_update_toplevel_def toplevel_reply_def case_prod_beta Let_def run_registry_simps(2))

section \<open>The registry holds what was authored\<close>

lemma served_placed:
  assumes "registry_ok (mb_registry s)" "has_room (mb_registry s)" "placed (mb_registry s) \<subseteq>\<^sub>m A"
  shows "placed (mb_registry (snd (serve_sidecar_request req s))) \<subseteq>\<^sub>m author (SidecarRpc req) s A"
proof -
  let ?p = "\<lambda>s. placed (mb_registry s)" and ?h = "sidecar_handler (rpc_op req) (rpc_body req) s"
  have upd: "f \<subseteq>\<^sub>m A(x \<mapsto> g)" if "f \<subseteq>\<^sub>m (?p s)(x \<mapsto> g)" for f x g
    using that assms(3) by (rule map_le_trans [OF _ map_le_upd])
  have same: "f \<subseteq>\<^sub>m A" if "f \<subseteq>\<^sub>m ?p s" for f using that assms(3) by (rule map_le_trans)
  show ?thesis
  proof (cases "rpc_status req \<noteq> 0")
    case False
    have served: "snd (serve_sidecar_request req s) = snd ?h"
      using False by (simp add: serve_sidecar_request_def serve_request_def case_prod_beta Let_def)
    consider (bad) e where "rpc_op req \<in> {202, 203}" "json_parse (rpc_body req) = Inl e"
      | (register) b where "rpc_op req = 202" "json_parse (rpc_body req) = Inr b"
      | (update) b where "rpc_op req = 203" "json_parse (rpc_body req) = Inr b"
      | (other) "rpc_op req \<notin> {202, 203}"
      by (cases "json_parse (rpc_body req)") auto
    then show ?thesis
    proof cases
      case bad
      then have "snd ?h = s" "author (SidecarRpc req) s A = A"
        by (auto simp: sidecar_handler_def sidecar_ops_def json_op_def author_def)
      then show ?thesis using assms(3) by (simp add: served)
    next
      case (register b)
      then have "snd ?h = snd (mock_register_toplevel (register_from_body b) s)"
        by (simp add: sidecar_handler_def sidecar_ops_def json_op_def case_prod_beta Let_def)
      then show ?thesis
        using False register assms(3) register_placed [of "rq_xid (register_from_body b)" _ "rq_info (register_from_body b)" "mb_registry s"]
        by (auto simp: served handler_runs run_registry_simps(1) author_def reply_applied Let_def intro: upd split: if_splits)
    next
      case (update b)
      then have "snd ?h = snd (mock_update_toplevel (update_from_body b) s)"
        by (simp add: sidecar_handler_def sidecar_ops_def json_op_def case_prod_beta Let_def)
      then show ?thesis
        using False update update_placed [of "uq_xid (update_from_body b)" "uq_generation (update_from_body b)" "uq_role (update_from_body b)"
            "uq_geometry (update_from_body b)" "uq_z_order (update_from_body b)" "mb_registry s"]
        by (auto simp: served handler_runs run_registry_simps(1) author_def reply_applied Let_def intro: upd same split: if_splits)
    next
      case other
      then have "author (SidecarRpc req) s A = A" by (simp add: author_def Let_def split: sum.split)
      then show ?thesis using same [OF handler_placed [OF assms(1,2) other]] by (simp add: served)
    qed
  qed (use assms(3) in \<open>simp add: serve_sidecar_request_def serve_request_def author_def\<close>)
qed

lemma plane_do_placed:
  assumes "registry_ok (mb_registry s)" "has_room (mb_registry s)" "placed (mb_registry s) \<subseteq>\<^sub>m A"
  shows "placed (mb_registry (plane_do ev s)) \<subseteq>\<^sub>m author ev s A"
proof -
  have le: "f \<subseteq>\<^sub>m A" if "f \<subseteq>\<^sub>m placed (mb_registry s)" for f using that assms(3) by (rule map_le_trans)
  have surface: "placed (mb_registry (snd (create_surface req s))) \<subseteq>\<^sub>m placed (mb_registry s)" for req
    by (simp add: create_surface_def mint_handle_def Let_def run_registry_simps(1) bind_placed split: option.split)
  have destroy: "placed (mb_registry (snd (destroy_surface h s))) \<subseteq>\<^sub>m placed (mb_registry s)" for h
    by (simp add: destroy_surface_def Let_def run_registry_simps(1) unbind_placed split: option.split)
  show ?thesis
    using served_placed [OF assms] le [OF surface] le [OF destroy] assms(3)
    by (cases ev) (auto simp: author_def create_instance_def mint_handle_def enumerate_physical_devices_def destroy_instance_def Let_def
        split: option.split)
qed

lemma plane_run_placed:
  assumes "plane_ok n s" "n + length evs \<le> 2 ^ 64 - 2" "placed (mb_registry s) \<subseteq>\<^sub>m A"
  shows "placed (mb_registry (plane_run evs s)) \<subseteq>\<^sub>m authored evs s A"
  using assms
proof (induction evs arbitrary: n s A)
  case (Cons ev evs)
  have s: "registry_ok (mb_registry s)" "has_room (mb_registry s)"
    using Cons.prems(1,2) counted_room [of n s] by (simp_all add: plane_ok_def windows_ok_def)
  have "plane_ok (Suc n) (plane_do ev s)" using plane_do_ok [of s ev] Cons.prems by (simp add: keeps_ok_def)
  from Cons.IH [OF this _ plane_do_placed [OF s Cons.prems(3)]] Cons.prems(2) show ?case by simp
qed simp

end
