(* ===== verification/Sidecar_Codec.thy ===== *)
theory Sidecar_Codec
  imports Sidecar_Messages
begin

text \<open>
  Round trips of the sidecar messages that both sides encode and decode: the toplevel requests and their
  reply, the input events and the poll reply, and the cursor upload.
\<close>

section \<open>Fields\<close>

definition u32_ok :: "nat \<Rightarrow> bool" where "u32_ok n \<longleftrightarrow> n < 2 ^ 32"

definition u64_ok :: "nat \<Rightarrow> bool" where "u64_ok n \<longleftrightarrow> n < 2 ^ 64"

lemma u32_wire: "u32_ok n \<Longrightarrow> u32_of_int (i32 (int n)) = n"
  by (simp add: u32_ok_def u32_of_i32)

lemma get_handle_Some: "json_find b k = Some (handle_value n) \<Longrightarrow> u64_ok n \<Longrightarrow> get_handle b k = n"
  by (rule get_handle_value) (simp_all add: u64_ok_def)

lemmas fields = readers u32_wire get_handle_Some

definition geometry_ok :: "toplevel_geometry \<Rightarrow> bool" where
  "geometry_ok g \<longleftrightarrow> i32_range (tg_x g) \<and> i32_range (tg_y g) \<and> u32_ok (tg_width g) \<and> u32_ok (tg_height g)"

definition register_ok :: "register_request \<Rightarrow> bool" where
  "register_ok r \<longleftrightarrow> u64_ok (rq_xid r) \<and> u64_ok (rq_generation r) \<and> geometry_ok (ti_geometry (rq_info r)) \<and>
     u64_ok (ti_owner_xid (rq_info r)) \<and> u32_ok (ti_popup_kind (rq_info r))"

lemma register_rt: "register_ok r \<Longrightarrow> register_from_body (register_to_body r) = r"
  by (cases r; cases "rq_info r"; cases "ti_geometry (rq_info r)")
    (auto simp: register_from_body_def register_to_body_def register_ok_def geometry_ok_def Let_def fields)

definition update_ok :: "update_request \<Rightarrow> bool" where
  "update_ok r \<longleftrightarrow> u64_ok (uq_xid r) \<and> u64_ok (uq_generation r) \<and> geometry_ok (uq_geometry r) \<and> u32_ok (uq_z_order r)"

lemma update_rt: "update_ok r \<Longrightarrow> update_from_body (update_to_body r) = r"
  by (cases r; cases "uq_geometry r")
    (auto simp: update_from_body_def update_to_body_def update_ok_def geometry_ok_def Let_def fields)

lemma unregister_rt: "u64_ok x \<Longrightarrow> u64_ok g \<Longrightarrow> unregister_from_body (unregister_to_body (x, g)) = (x, g)"
  by (simp add: unregister_from_body_def unregister_to_body_def fields)

lemma visibility_rt: "u64_ok x \<Longrightarrow> u64_ok g \<Longrightarrow> u32_ok v \<Longrightarrow> visibility_from_body (visibility_to_body (x, g, v)) = (x, g, v)"
  by (simp add: visibility_from_body_def visibility_to_body_def fields)

lemma toplevel_response_rt:
  "u64_ok (tp_xid r) \<Longrightarrow> u64_ok (tp_epoch r) \<Longrightarrow> toplevel_response_from_body (toplevel_response_to_body r) = r"
  by (cases r) (simp add: toplevel_response_from_body_def toplevel_response_to_body_def fields)

section \<open>Events\<close>

definition event_ok :: "input_event \<Rightarrow> bool" where
  "event_ok e \<longleftrightarrow>
     u64_ok (ie_xid e) \<and> u64_ok (ie_epoch e) \<and> u64_ok (ie_seq e) \<and> u32_ok (ie_kind e) \<and> u32_ok (ie_modifiers e) \<and>
     u32_ok (ie_req_w e) \<and> u32_ok (ie_req_h e) \<and> u32_ok (ie_host_request e) \<and>
     list_all i32_range [ie_client_x e, ie_client_y e, ie_button e, ie_wheel e, ie_vk e, ie_scancode e, ie_root_x e, ie_root_y e]"

lemma event_rt: "event_ok e \<Longrightarrow> event_from_value (event_to_value e) = e"
  by (cases e) (simp add: event_from_value_def event_to_value_def event_ok_def fields)

lemma events_rt: "list_all event_ok es \<Longrightarrow> map event_from_value (map event_to_value es) = es"
  by (induction es) (simp_all add: event_rt)

lemma poll_response_rt:
  "list_all event_ok (po_events r) \<Longrightarrow> u64_ok (po_next_seq r) \<Longrightarrow> poll_response_from_body (poll_response_to_body r) = r"
  using events_rt [of "po_events r"]
  by (cases r) (simp add: poll_response_from_body_def poll_response_to_body_def fields)

section \<open>Text\<close>

lemma handle_exact [simp]: "json_exact (handle_value n)"
  by (simp add: handle_value_def)

lemma int_exact: "i32_range n \<Longrightarrow> json_exact (JInt n)"
  by (rule json_exact_int) (simp add: i32_range_def abs_less_iff)

lemma u32_exact: "json_exact (JU32 n)"
  by (rule int_exact) (rule i32_in_range)

lemma register_exact: "register_ok r \<Longrightarrow> json_exact (register_to_body r)"
  by (auto simp: register_to_body_def register_ok_def geometry_ok_def Let_def intro!: json_exact_obj_of int_exact u32_exact
      simp del: json_exact.simps(3))

lemma update_exact: "update_ok r \<Longrightarrow> json_exact (update_to_body r)"
  by (auto simp: update_to_body_def update_ok_def geometry_ok_def Let_def intro!: json_exact_obj_of int_exact u32_exact
      simp del: json_exact.simps(3))

lemma event_exact: "event_ok e \<Longrightarrow> json_exact (event_to_value e)"
  by (auto simp: event_to_value_def event_ok_def intro!: json_exact_obj_of int_exact u32_exact simp del: json_exact.simps(3))

section \<open>The cursor upload\<close>

definition cursor_ok :: "cursor_request \<Rightarrow> bool" where
  "cursor_ok r \<longleftrightarrow>
     u64_ok (cq_xid r) \<and> u64_ok (cq_epoch r) \<and> cq_format r = kCursorFormatBgra8 \<and> 0 < cq_width r \<and> cq_width r \<le> kMaxCursorDim \<and>
     0 < cq_height r \<and> cq_height r \<le> kMaxCursorDim \<and> 0 \<le> cq_xhot r \<and> cq_xhot r < int (cq_width r) \<and>
     0 \<le> cq_yhot r \<and> cq_yhot r < int (cq_height r) \<and> length (cq_pixels r) = cq_width r * cq_height r * 4"

lemma cursor_payload: "cursor_ok r \<Longrightarrow> length (cq_pixels r) \<le> kMaxCursorPayloadBytes"
  using mult_le_mono [of "cq_width r" kMaxCursorDim "cq_height r" kMaxCursorDim] by (simp add: cursor_ok_def mult.commute)

lemma cursor_rt:
  assumes ok: "cursor_ok r"
  shows "cursor_from_wire (cursor_to_wire r) = Inr r"
proof -
  note fits = ok [unfolded cursor_ok_def] and payload = cursor_payload [OF ok]
  define fs where "fs = [(''xid'', handle_value (cq_xid r)), (''epoch'', handle_value (cq_epoch r)), (''width'', handle_value (cq_width r)),
     (''height'', handle_value (cq_height r)), (''xhot'', JInt (cq_xhot r)), (''yhot'', JInt (cq_yhot r)),
     (''format'', JInt (cq_format r)), (''payload_size'', handle_value (length (cq_pixels r)))]"
  define h where "h = obj_of fs"
  have small: "u64_ok (cq_width r)" "u64_ok (cq_height r)" "u64_ok (length (cq_pixels r))" "u64_ok (cq_xid r)" "u64_ok (cq_epoch r)"
    "cq_xhot r < 2 ^ 31" "cq_yhot r < 2 ^ 31" "cq_format r = 1"
    using fits payload by (simp_all add: u64_ok_def)
  have "length (json_dump 0 h) \<le> 1024"
    using small(1-5) [unfolded u64_ok_def, THEN length_dump_handle, of 1] length_dump_int [of "cq_xhot r" 1] length_dump_int [of "cq_yhot r" 1]
      length_dump_int [of "cq_format r" 1] small(6-8) fits
    by (simp add: json_dump_def h_def fs_def obj_of_eq escape_string_def escape_char_def del: dump_to.simps(3))
  then have len: "length (json_dump 0 h) \<le> kMaxCursorJsonHeaderBytes" "u32 (length (json_dump 0 h)) = length (json_dump 0 h)"
    by (simp_all add: u32_def)
  have "json_exact h"
    using fits small(6,7) int_exact [of "cq_xhot r"] int_exact [of "cq_yhot r"] int_exact [of 1]
    by (auto simp: h_def fs_def i32_range_def intro!: json_exact_obj_of simp del: json_exact.simps(3))
  then have parse: "json_parse (json_dump 0 h) = Inr h" by (rule json_parse_dump)
  have "get_handle h ''xid'' = cq_xid r" "get_handle h ''epoch'' = cq_epoch r" "get_handle h ''width'' = cq_width r"
    "get_handle h ''height'' = cq_height r" "get_handle h ''payload_size'' = length (cq_pixels r)"
    by (rule get_handle_Some; use small in \<open>simp add: h_def fs_def json_find_obj_of\<close>)+
  moreover have "get_i64 h ''xhot'' 0 = cq_xhot r" "get_i64 h ''yhot'' 0 = cq_yhot r"
    by (rule get_i64_Some; use small(6,7) fits in \<open>simp add: h_def fs_def json_find_obj_of\<close>)+
  moreover have "get_int h ''format'' 0 = cq_format r"
    by (rule get_int_Some) (use small(8) in \<open>simp_all add: h_def fs_def json_find_obj_of i32_range_def\<close>)
  ultimately have "check_cursor_header h (cq_pixels r) = Inr r"
    using fits payload by (simp add: check_cursor_header_def Let_def)
  then show ?thesis
    using len parse by (simp add: cursor_from_wire_def cursor_to_wire_def h_def [unfolded fs_def, symmetric] Let_def load_store_le32)
qed

end
