(* ===== verification/Sidecar_Theorems.thy ===== *)
theory Sidecar_Theorems
  imports Sidecar_Authored Sidecar_Codec
begin

text \<open>
  What the two planes guarantee together: the windows the worker shows, the geometry it reports and the
  input it delivers, in every state that requests of any content and in any order can lead to.
\<close>

section \<open>Representations over time\<close>

text \<open>The representation epochs of a later registry: kept, dropped or new.\<close>

definition later :: "registry \<Rightarrow> registry \<Rightarrow> bool" where
  "later r r' \<longleftrightarrow> epoch_step r r' \<and> rg_next_epoch r \<le> rg_next_epoch r'"

lemma later_refl [simp]: "later r r"
  by (auto simp: later_def epoch_step_def)

lemma later_good: "good_step r er \<Longrightarrow> later r (snd er)"
  by (auto simp: later_def good_step_def counters_step_def)

lemma later_same_epoch:
  assumes "later r r'" "epoch_for_xid k r' = n" "n \<noteq> 0" "n \<le> rg_next_epoch r"
  shows "epoch_for_xid k r = n"
proof -
  have "epoch_for_xid k r' \<in> {epoch_for_xid k r, 0} \<or> rg_next_epoch r < epoch_for_xid k r'"
    using assms(1) by (simp add: later_def epoch_step_def)
  then show ?thesis using assms(2-) by auto
qed

lemma epoch_entry: "epoch_for_xid k r = n \<Longrightarrow> n \<noteq> 0 \<Longrightarrow> \<exists>e. find_entry k r = Some e \<and> en_representation_epoch e = n"
  by (auto simp: epoch_for_xid_def at_entry_def split: option.splits)

lemma later_trans:
  assumes ok: "registry_ok r" and 1: "later r r1" and 2: "later r1 r2"
  shows "later r r2"
proof -
  have n: "rg_next_epoch r \<le> rg_next_epoch r1" "rg_next_epoch r1 \<le> rg_next_epoch r2" using 1 2 by (simp_all add: later_def)
  have "epoch_for_xid k r2 \<in> {epoch_for_xid k r, 0} \<or> rg_next_epoch r < epoch_for_xid k r2" for k
  proof -
    have "epoch_for_xid k r2 \<in> {epoch_for_xid k r1, 0} \<or> rg_next_epoch r1 < epoch_for_xid k r2"
      "epoch_for_xid k r1 \<in> {epoch_for_xid k r, 0} \<or> rg_next_epoch r < epoch_for_xid k r1"
      using 1 2 by (simp_all add: later_def epoch_step_def)
    then show ?thesis using n by auto
  qed
  moreover have "en_placeholder_id e2 = en_placeholder_id e \<and> en_surface e2 \<in> {en_surface e, 0}"
    if e: "find_entry k r = Some e" "find_entry k r2 = Some e2" "en_representation_epoch e2 = en_representation_epoch e" for k e e2
  proof -
    let ?n = "en_representation_epoch e"
    have pos: "?n \<noteq> 0" "?n \<le> rg_next_epoch r1" using registry_okD(7,8) [OF ok e(1)] n by auto
    have "epoch_for_xid k r1 = ?n"
      by (rule later_same_epoch [OF 2 _ pos]) (simp add: epoch_for_xid_def at_entry_def e)
    then obtain e1 where e1: "find_entry k r1 = Some e1" "en_representation_epoch e1 = ?n" using epoch_entry pos(1) by blast
    have "en_placeholder_id e1 = en_placeholder_id e" "en_surface e1 \<in> {en_surface e, 0}"
      "en_placeholder_id e2 = en_placeholder_id e1" "en_surface e2 \<in> {en_surface e1, 0}"
      using 1 2 e e1 by (simp_all add: later_def epoch_step_def)
    then show ?thesis by auto
  qed
  ultimately show ?thesis using n unfolding later_def epoch_step_def by auto
qed

definition keeps_later :: "mock_backend \<Rightarrow> mock_backend \<Rightarrow> bool" where
  "keeps_later s s' \<longleftrightarrow> (\<forall>n < 2 ^ 64 - 2. plane_ok n s \<longrightarrow> later (mb_registry s) (mb_registry s'))"

lemma keeps_later_run:
  assumes "\<And>r. registry_ok r \<Longrightarrow> has_room r \<Longrightarrow> good_step r (f r)"
  shows "keeps_later s (snd (run_registry f s))"
  using later_good [OF assms] counted_room
  by (auto simp: keeps_later_def run_registry_simps(1) plane_ok_def windows_ok_def)

lemma keeps_later_same: "mb_registry s' = mb_registry s \<Longrightarrow> keeps_later s s'"
  by (simp add: keeps_later_def)

lemma drop_popups_later: "plane_ok n s \<Longrightarrow> later (mb_registry s) (mb_registry (drop_popups x s))"
proof -
  assume ok: "plane_ok n s"
  obtain effs r' where run: "take_orphaned_popups x (mb_registry s) = (effs, r')" by fastforce
  have "mb_registry (fold apply_mock_effect effs s1) = mb_registry s1" for s1 by (induction effs arbitrary: s1) simp_all
  then have "mb_registry (drop_popups x s) = r'" by (simp add: drop_popups_def run)
  moreover have "registry_ok (mb_registry s)" using ok by (simp add: plane_ok_def windows_ok_def)
  ultimately show ?thesis using take_orphaned_good [OF _ run] by (auto simp: later_def counters_step_def)
qed

lemma keeps_later_unregister: "keeps_later s (snd (mock_unregister_toplevel xg s))"
  unfolding keeps_later_def
proof (intro allI impI)
  fix n :: nat
  assume n: "n < 2 ^ 64 - 2" "plane_ok n s"
  let ?f = "unregister_toplevel (fst xg) (snd xg)"
  define s1 where "s1 = snd (run_registry ?f s)"
  have l1: "later (mb_registry s) (mb_registry s1)"
    using keeps_later_run [of ?f s] n unregister_toplevel_good unfolding s1_def keeps_later_def by blast
  have "keeps_ok s s1"
    unfolding s1_def by (rule keeps_ok_run) (simp_all add: unregister_toplevel_good unregister_toplevel_tracks toplevel_surfaces)
  then have ok1: "plane_ok (Suc n) (s1\<lparr>mb_cursors := (mb_cursors s1)(fst xg := None)\<rparr>)"
    using n by (auto simp: keeps_ok_def intro: plane_ok_cursor_erased)
  have "later (mb_registry s1) (mb_registry (snd (mock_unregister_toplevel xg s)))"
    using drop_popups_later [OF ok1, of "fst xg"] by (simp add: mock_unregister_toplevel_def case_prod_beta Let_def s1_def)
  then show "later (mb_registry s) (mb_registry (snd (mock_unregister_toplevel xg s)))"
    using later_trans [OF _ l1] n(2) by (simp add: plane_ok_def windows_ok_def)
qed

interpretation epochs: plane_relation keeps_later
proof
  show "keeps_later s s" for s by (rule keeps_later_same) simp
  show "keeps_later s (snd (mock_sidecar_ready rd s))" for rd s
    by (rule keeps_later_same) (auto simp: mock_sidecar_ready_def split: sum.split)
  show "keeps_later s (snd (mock_register_toplevel rq s))" for rq s
    unfolding handler_runs by (rule keeps_later_run) (rule register_toplevel_good)
  show "keeps_later s (snd (mock_update_toplevel uq s))" for uq s
    unfolding handler_runs by (rule keeps_later_run) (rule update_toplevel_good)
  show "keeps_later s (snd (mock_set_visibility xgv s))" for xgv s
    by (cases xgv, simp only: handler_runs, rule keeps_later_run) (rule set_visibility_good)
  show "keeps_later s (snd (paint_chrome pr s))" for pr s
    using later_good [OF commit_paint_good] by (auto simp: keeps_later_def paint_chrome_def Let_def plane_ok_def windows_ok_def)
  show "keeps_later s (snd (poll_input since s))" for since s
    by (rule keeps_later_same) (simp add: poll_input_def case_prod_beta)
  show "keeps_later s (snd (debug_enqueue_input xee s))" for xee s
    by (rule keeps_later_same) (simp add: debug_enqueue_input_def case_prod_beta)
  show "keeps_later s (snd (set_cursor cq s))" for cq s
    by (rule keeps_later_same) (simp add: set_cursor_def)
qed (fact keeps_later_unregister)

lemma keeps_later_create_surface: "keeps_later s (snd (create_surface req s))"
  unfolding keeps_later_def
proof (intro allI impI)
  fix n :: nat
  assume n: "n < 2 ^ 64 - 2" "plane_ok n s"
  have "registry_ok (mb_registry s)" "has_room (mb_registry s)" "0 < mb_next_handle s"
    using n counted_room [of n s] by (simp_all add: plane_ok_def windows_ok_def objects_ok_def)
  then have "good_step (mb_registry s) (bind_surface (su_xid req) (mb_next_handle s) (mb_registry s))"
    by (simp add: bind_surface_good)
  from later_good [OF this] show "later (mb_registry s) (mb_registry (snd (create_surface req s)))"
    by (simp add: create_surface_def mint_handle_def run_registry_simps(1) Let_def split: option.split)
qed

lemma keeps_later_destroy_surface: "keeps_later s (snd (destroy_surface h s))"
  unfolding keeps_later_def
proof (intro allI impI)
  fix n :: nat
  assume n: "n < 2 ^ 64 - 2" "plane_ok n s"
  have r: "registry_ok (mb_registry s)" using n by (simp add: plane_ok_def windows_ok_def)
  have "0 < h" if "mb_surfaces s h = Some so" for so
    using n that objects_ok_handles(2) [of s h so] by (simp add: plane_ok_def)
  then have "later (mb_registry s) (snd (unbind_surface x h (mb_registry s)))" if "mb_surfaces s h = Some so" for so x
    using later_good [OF unbind_surface_good [OF r]] that by blast
  then show "later (mb_registry s) (mb_registry (snd (destroy_surface h s)))"
    by (auto simp: destroy_surface_def run_registry_simps(1) Let_def split: option.split)
qed

lemma plane_do_later: "keeps_later s (plane_do ev s)"
  by (cases ev) (auto simp: epochs.served keeps_later_create_surface keeps_later_destroy_surface create_instance_def
      enumerate_physical_devices_def destroy_instance_def mint_handle_def intro!: keeps_later_same split: option.split)

lemma plane_run_later:
  "plane_ok n s \<Longrightarrow> n + length evs \<le> 2 ^ 64 - 2 \<Longrightarrow> later (mb_registry s) (mb_registry (plane_run evs s))"
proof (induction evs arbitrary: n s)
  case (Cons ev evs)
  have n: "n < 2 ^ 64 - 2" using Cons.prems(2) by simp
  have step: "plane_ok (Suc n) (plane_do ev s)" "later (mb_registry s) (mb_registry (plane_do ev s))"
    using plane_do_ok [of s ev, unfolded keeps_ok_def, rule_format, OF n Cons.prems(1)]
      plane_do_later [of s ev, unfolded keeps_later_def, rule_format, OF n Cons.prems(1)] by simp_all
  have "registry_ok (mb_registry s)" using Cons.prems(1) by (simp add: plane_ok_def windows_ok_def)
  from later_trans [OF this step(2) Cons.IH [OF step(1)]] show ?case using Cons.prems(2) by simp
qed simp

section \<open>The windows\<close>

lemma snapshot_entries:
  assumes "registry_ok r"
  shows "e \<in> set (registry_snapshot r) \<longleftrightarrow> find_entry (en_xid e) r = Some e"
proof -
  have mem: "find_entry k r = Some e' \<longleftrightarrow> (k, e') \<in> set (rg_entries r)" for k e'
    using assms by (simp add: find_entry_def registry_ok_def omap_ok_distinct)
  have "e \<in> set (registry_snapshot r) \<longleftrightarrow> (\<exists>k. find_entry k r = Some e)"
    unfolding mem registry_snapshot_def by force
  then show ?thesis using registry_okD(2) [OF assms, of _ e] by metis
qed

lemma placeholders_counted:
  assumes ok: "registry_ok r"
  shows "card (placeholders r) = placeholder_count r"
proof -
  define kvs where "kvs = filter (\<lambda>kv. en_representation (snd kv) = Placeholder) (rg_entries r)"
  have om: "omap_ok (rg_entries r)" using ok by (simp add: registry_ok_def)
  have mem: "find_entry k r = Some e \<longleftrightarrow> (k, e) \<in> set (rg_entries r)" for k e
    using om by (simp add: find_entry_def omap_ok_distinct)
  have "placeholders r = (\<lambda>kv. en_placeholder_id (snd kv)) ` set kvs"
  proof (rule set_eqI)
    fix p
    have "p \<in> placeholders r \<longleftrightarrow> (\<exists>k e. (k, e) \<in> set (rg_entries r) \<and> en_representation e = Placeholder \<and> en_placeholder_id e = p)"
      unfolding placeholders_def mem_Collect_eq mem [symmetric] using registry_okD(4) [OF ok] by blast
    then show "p \<in> placeholders r \<longleftrightarrow> p \<in> (\<lambda>kv. en_placeholder_id (snd kv)) ` set kvs"
      unfolding kvs_def by (auto simp: image_iff)
  qed
  moreover have "inj_on (\<lambda>kv. en_placeholder_id (snd kv)) (set kvs)"
  proof (rule inj_onI)
    fix a b
    assume ab: "a \<in> set kvs" "b \<in> set kvs" "en_placeholder_id (snd a) = en_placeholder_id (snd b)"
    then have f: "find_entry (fst a) r = Some (snd a)" "find_entry (fst b) r = Some (snd b)" "en_representation (snd a) = Placeholder"
      by (simp_all add: kvs_def mem)
    then have "en_placeholder_id (snd a) \<noteq> 0" using registry_okD(4) [OF ok f(1)] by simp
    then have "fst a = fst b" using ok f(1,2) ab(3) unfolding registry_ok_def by metis
    then show "a = b" using f(1,2) by (simp add: prod_eq_iff)
  qed
  moreover have "distinct kvs" unfolding kvs_def using omap_ok_distinct [OF om] by (simp add: distinct_map)
  moreover have "placeholder_count r = length kvs" by (simp add: placeholder_count_def kvs_def)
  ultimately show ?thesis by (simp add: card_image distinct_card)
qed

section \<open>A sample run\<close>

definition register_rpc :: "register_request \<Rightarrow> plane_event" where
  "register_rpc rq = SidecarRpc \<lparr>rpc_op = 202, rpc_request_id = 7, rpc_status = 0, rpc_body = json_dump 0 (register_to_body rq)\<rparr>"

lemma register_rpc_served: "register_ok rq \<Longrightarrow> plane_do (register_rpc rq) s = snd (mock_register_toplevel rq s)"
  by (simp add: register_rpc_def serve_sidecar_request_def serve_request_def sidecar_handler_def sidecar_ops_def json_op_def
      json_parse_dump register_exact register_rt case_prod_beta Let_def)

definition sample_toplevel :: register_request where
  "sample_toplevel = \<lparr>rq_xid = 5, rq_generation = 3, rq_override_redirect = False,
     rq_info = \<lparr>ti_role = ''app'', ti_title = [], ti_geometry = \<lparr>tg_x = 10, tg_y = - 20, tg_width = 300, tg_height = 200\<rparr>,
       ti_is_popup = False, ti_owner_xid = 0, ti_popup_kind = 0\<rparr>\<rparr>"

definition sample_entry :: reg_entry where
  "sample_entry = new_entry\<lparr>en_xid := 5, en_representation := Placeholder, en_placeholder_id := 1, en_toplevel_registered := True,
     en_generation := 3, en_representation_epoch := 1, en_role := ''app'',
     en_geometry := \<lparr>tg_x = 10, tg_y = - 20, tg_width = 300, tg_height = 200\<rparr>\<rparr>"

definition sample_state :: mock_backend where
  "sample_state = (new_backend True None)
     \<lparr>mb_registry := \<lparr>rg_entries = [(5, sample_entry)], rg_next_placeholder_id = 1, rg_next_epoch = 1, rg_next_host_apply_seq = 1\<rparr>,
      mb_placeholders := {1}, mb_geometry := [5 \<mapsto> \<lparr>mg_geometry = en_geometry sample_entry, mg_seq = 1\<rparr>]\<rparr>"

lemma sample_run: "plane_run [register_rpc sample_toplevel] (new_backend True None) = sample_state"
proof -
  have ok: "register_ok sample_toplevel"
    by (simp add: register_ok_def sample_toplevel_def u64_ok_def u32_ok_def geometry_ok_def i32_range_def)
  show ?thesis
    unfolding plane_run_simps register_rpc_served [OF ok]
    by (simp add: mock_register_toplevel_def sample_toplevel_def run_registry_def register_toplevel_def stale_def find_entry_def
        new_backend_def empty_registry_def Let_def new_entry_def mint_placeholder_def mint_epoch_def mint_seq_def u64_def
        stamp_geometry_placement_def put_entry_def no_effect_def apply_mock_effect_def execute_kind_def record_placement_def
        mark_resized_def sample_state_def sample_entry_def kVisible_def)
qed

text \<open>The same window moved and resized.\<close>

definition update_rpc :: "update_request \<Rightarrow> plane_event" where
  "update_rpc uq = SidecarRpc \<lparr>rpc_op = 203, rpc_request_id = 8, rpc_status = 0, rpc_body = json_dump 0 (update_to_body uq)\<rparr>"

lemma update_rpc_served: "update_ok uq \<Longrightarrow> plane_do (update_rpc uq) s = snd (mock_update_toplevel uq s)"
  by (simp add: update_rpc_def serve_sidecar_request_def serve_request_def sidecar_handler_def sidecar_ops_def json_op_def
      json_parse_dump update_exact update_rt case_prod_beta Let_def)

definition sample_move :: update_request where
  "sample_move = \<lparr>uq_xid = 5, uq_generation = 4, uq_role = [],
     uq_geometry = \<lparr>tg_x = - 5, tg_y = 40, tg_width = 640, tg_height = 480\<rparr>, uq_z_order = 0\<rparr>"

definition moved_entry :: reg_entry where
  "moved_entry = sample_entry\<lparr>en_generation := 4, en_geometry := uq_geometry sample_move, en_extent_authoritative := True\<rparr>"

lemma sample_moved: "mb_registry (plane_do (update_rpc sample_move) sample_state) =
    \<lparr>rg_entries = [(5, moved_entry)], rg_next_placeholder_id = 1, rg_next_epoch = 1, rg_next_host_apply_seq = 2\<rparr>"
proof -
  have ok: "update_ok sample_move" by (simp add: update_ok_def sample_move_def u64_ok_def u32_ok_def geometry_ok_def i32_range_def)
  show ?thesis
    unfolding update_rpc_served [OF ok]
    by (simp add: handler_runs run_registry_simps(1) update_toplevel_def sample_move_def stale_def find_entry_def sample_state_def
        moved_entry_def sample_entry_def new_entry_def Let_def mint_seq_def u64_def put_entry_def kZOrderNone_def no_effect_def)
qed

text \<open>
  C2: one representation per window, on both planes. After any sequence of sidecar requests, whatever
  their bytes, and of instance and surface calls, the placeholder windows of the backend are exactly those
  of the registry entries that are placeholders, as many as the registry counts; an entry is a surface
  exactly if a surface is bound, which is then alive, created for this window and listed by its live
  instance; pixels are kept of placeholders only, in a store of the right size and at most 96 MiB.
\<close>

theorem plane_invariant:
  assumes "length evs \<le> 2 ^ 64 - 2"
  shows "let s = plane_run evs (new_backend d l); r = mb_registry s in
    mb_placeholders s = en_placeholder_id ` {e \<in> set (registry_snapshot r). en_representation e = Placeholder} \<and>
    card (mb_placeholders s) = placeholder_count r \<and>
    (\<forall>e\<in>set (registry_snapshot r).
       (en_representation e = SurfaceRep \<longleftrightarrow> en_surface e \<noteq> 0) \<and>
       (en_surface e \<noteq> 0 \<longrightarrow> (\<exists>so io. mb_surfaces s (en_surface e) = Some so \<and> sf_xid so = en_xid e \<and>
          mb_instances s (sf_instance so) = Some io \<and> en_surface e \<in> in_surfaces io))) \<and>
    (\<forall>x c. mb_chrome s x = Some c \<longrightarrow> representation_for_xid x r = Placeholder \<and>
       length (mc_bgra c) = mc_w c * mc_h c * 4 \<and> length (mc_bgra c) \<le> kMaxAuxChromeBackingStoreBytes)"
proof -
  define s where "s = plane_run evs (new_backend d l)"
  let ?r = "mb_registry s"
  have "plane_ok (length evs) s" using plane_run_ok [OF new_backend_ok [of d l], of evs] assms by (simp add: s_def)
  then have w: "windows_ok s" "stores_ok s" "objects_ok s" by (simp_all add: plane_ok_def)
  then have r: "registry_ok ?r" "mb_placeholders s = placeholders ?r" by (simp_all add: windows_ok_def)
  note snap = snapshot_entries [OF r(1)]
  have win: "placeholders ?r = en_placeholder_id ` {e \<in> set (registry_snapshot ?r). en_representation e = Placeholder}"
    unfolding placeholders_def snap using registry_okD(2,4) [OF r(1)] by (auto simp: image_iff)
  have live: "\<exists>so io. mb_surfaces s (en_surface e) = Some so \<and> sf_xid so = en_xid e \<and>
      mb_instances s (sf_instance so) = Some io \<and> en_surface e \<in> in_surfaces io"
    if e: "e \<in> set (registry_snapshot ?r)" "en_surface e \<noteq> 0" for e
  proof -
    obtain i where i: "surface_ids s (en_surface e) = Some (i, en_xid e)" using objects_okD(4) [OF w(3)] e unfolding snap by blast
    with objects_okD(1) [OF w(3) i] show ?thesis by (auto simp: surface_ids_def instance_surfaces_def)
  qed
  show ?thesis
    unfolding s_def [symmetric] Let_def
  proof (intro conjI ballI allI)
    show "mb_placeholders s = en_placeholder_id ` {e \<in> set (registry_snapshot ?r). en_representation e = Placeholder}"
      using win r(2) by simp
    show "card (mb_placeholders s) = placeholder_count ?r" using placeholders_counted [OF r(1)] r(2) by simp
    show "en_representation e = SurfaceRep \<longleftrightarrow> en_surface e \<noteq> 0" if "e \<in> set (registry_snapshot ?r)" for e
      using that registry_okD(3) [OF r(1)] unfolding snap by blast
    show "en_surface e \<noteq> 0 \<longrightarrow> (\<exists>so io. mb_surfaces s (en_surface e) = Some so \<and> sf_xid so = en_xid e \<and>
        mb_instances s (sf_instance so) = Some io \<and> en_surface e \<in> in_surfaces io)" if "e \<in> set (registry_snapshot ?r)" for e
      using live that by blast
  qed (use w(2) in \<open>unfold stores_ok_def chrome_ok_def, blast\<close>)
qed

theorem plane_invariant_witness:
  "plane_run [register_rpc sample_toplevel] (new_backend True None) = sample_state \<and>
   mb_placeholders sample_state = en_placeholder_id ` {e \<in> set (registry_snapshot (mb_registry sample_state)). en_representation e = Placeholder} \<and>
   card (mb_placeholders sample_state) = placeholder_count (mb_registry sample_state) \<and> placeholder_count (mb_registry sample_state) = 1"
proof -
  have "placeholder_count (mb_registry sample_state) = 1"
    by (simp add: placeholder_count_def sample_state_def sample_entry_def)
  moreover have "length [register_rpc sample_toplevel] \<le> 2 ^ 64 - 2" by simp
  ultimately show ?thesis
    using plane_invariant [of "[register_rpc sample_toplevel]" True None] unfolding sample_run Let_def by blast
qed

text \<open>
  C13: the worker shows every window where the sidecar last put it. Over the requests and answers of any
  run, the authored geometry of a window is that of the last register request, or of the last update
  request with an extent, that was answered as applied. After the run the enumeration lists each window
  once, in the order of the window ids; for each registered toplevel it reports the authored geometry,
  and the same geometry as applied on the host, whichever of the two planes came first and however often
  the window changed its representation. An update of a registered toplevel with a newer generation is
  always answered as applied, so it is the authored one from then on.
\<close>

theorem enum_reports_authored:
  assumes "length evs \<le> 2 ^ 64 - 2"
  shows "let s = plane_run evs (new_backend d l); ws = snd (snd (debug_enum_windows True s)) in
    sorted_wrt (<) (map wi_xid ws) \<and>
    (\<forall>x. toplevel_registered x (mb_registry s) \<longrightarrow> (\<exists>w\<in>set ws. wi_xid w = x \<and> wi_toplevel_registered w)) \<and>
    (\<forall>w\<in>set ws. wi_toplevel_registered w \<longrightarrow>
       authored evs (new_backend d l) Map.empty (wi_xid w) = Some (wi_geometry w) \<and>
       wi_has_actual w \<and> wi_actual w = wi_geometry w) \<and>
    (\<forall>uq. toplevel_registered (uq_xid uq) (mb_registry s) \<longrightarrow> generation_for_xid (uq_xid uq) (mb_registry s) < uq_generation uq \<longrightarrow>
       tp_applied (fst (mock_update_toplevel uq s)))"
proof -
  define s where "s = plane_run evs (new_backend d l)"
  let ?r = "mb_registry s"
  have "plane_ok (length evs) s" using plane_run_ok [OF new_backend_ok [of d l], of evs] assms by (simp add: s_def)
  then have w: "windows_ok s" by (simp add: plane_ok_def)
  then have r: "registry_ok ?r" by (simp add: windows_ok_def)
  note snap = snapshot_entries [OF r]
  have "placed ?r \<subseteq>\<^sub>m authored evs (new_backend d l) Map.empty"
    unfolding s_def by (rule plane_run_placed [OF new_backend_ok])
      (use assms in \<open>simp_all add: map_le_def dom_def placed_def new_backend_def empty_registry_def find_entry_def\<close>)
  then have authored: "authored evs (new_backend d l) Map.empty x = Some (en_geometry e)"
    if "find_entry x ?r = Some e" "en_toplevel_registered e" for x e
    using that unfolding map_le_def dom_def by (auto simp: placed_def dest!: spec [of _ x])
  have ws: "snd (snd (debug_enum_windows True s)) = map (window_report True s) (registry_snapshot ?r)" by (simp add: debug_enum_windows_def)
  have "map wi_xid (map (window_report True s) (registry_snapshot ?r)) = map fst (rg_entries ?r)"
    using r registry_okD(2) [OF r] by (auto simp: window_report_def registry_snapshot_def Let_def find_entry_def registry_ok_def omap_ok_distinct)
  then have "sorted_wrt (<) (map wi_xid (map (window_report True s) (registry_snapshot ?r)))"
    using r by (simp only: registry_ok_def omap_ok_def)
  moreover have "\<exists>w\<in>set (map (window_report True s) (registry_snapshot ?r)). wi_xid w = x \<and> wi_toplevel_registered w"
    if x: "toplevel_registered x ?r" for x
  proof -
    obtain e where e: "find_entry x ?r = Some e" "en_toplevel_registered e"
      using x by (auto simp: toplevel_registered_def at_entry_def split: option.splits)
    then have "e \<in> set (registry_snapshot ?r)" "en_xid e = x" using registry_okD(2) [OF r e(1)] by (simp_all add: snap)
    then show ?thesis using e(2) by (auto simp: window_report_def Let_def)
  qed
  moreover have "authored evs (new_backend d l) Map.empty (wi_xid w) = Some (wi_geometry w) \<and> wi_has_actual w \<and> wi_actual w = wi_geometry w"
    if w': "w \<in> set (map (window_report True s) (registry_snapshot ?r))" "wi_toplevel_registered w" for w
  proof -
    obtain e where e: "w = window_report True s e" "find_entry (en_xid e) ?r = Some e" using w'(1) by (auto simp: snap)
    have reg: "en_toplevel_registered e" using w'(2) e(1) by (simp add: window_report_def Let_def)
    then obtain g where "mb_geometry s (en_xid e) = Some g" "mg_geometry g = en_geometry e"
      using w e(2) unfolding windows_ok_def by blast
    then show ?thesis using e(1) authored [OF e(2) reg] by (simp add: window_report_def Let_def)
  qed
  moreover have "tp_applied (fst (mock_update_toplevel uq s))"
    if u: "toplevel_registered (uq_xid uq) ?r" "generation_for_xid (uq_xid uq) ?r < uq_generation uq" for uq
  proof -
    obtain e where e: "find_entry (uq_xid uq) ?r = Some e"
      using u(1) by (auto simp: toplevel_registered_def at_entry_def split: option.splits)
    then show ?thesis
      using u(2) registry_okD(1) [OF r e]
      by (simp add: reply_applied update_toplevel_def stale_def generation_for_xid_def at_entry_def mint_seq_def Let_def)
  qed
  ultimately show ?thesis unfolding s_def [symmetric] Let_def ws by blast
qed

theorem enum_reports_authored_witness:
  "let evs = [register_rpc sample_toplevel, update_rpc sample_move]; s = plane_run evs (new_backend True None);
       ws = snd (snd (debug_enum_windows True s)) in
     map wi_xid ws = [5] \<and> wi_has_actual (hd ws) \<and> wi_actual (hd ws) = uq_geometry sample_move \<and>
     authored evs (new_backend True None) Map.empty 5 = Some (uq_geometry sample_move)"
proof -
  let ?evs = "[register_rpc sample_toplevel, update_rpc sample_move]"
  define s where "s = plane_run ?evs (new_backend True None)"
  define ws where "ws = snd (snd (debug_enum_windows True s))"
  have s: "mb_registry s = \<lparr>rg_entries = [(5, moved_entry)], rg_next_placeholder_id = 1, rg_next_epoch = 1, rg_next_host_apply_seq = 2\<rparr>"
    using sample_run sample_moved by (simp add: s_def)
  have one: "ws = [window_report True s moved_entry]" by (simp add: ws_def debug_enum_windows_def registry_snapshot_def s)
  have w: "wi_xid (hd ws) = 5" "wi_toplevel_registered (hd ws)" "wi_geometry (hd ws) = uq_geometry sample_move"
    by (simp_all add: one window_report_def Let_def moved_entry_def sample_entry_def)
  have "authored ?evs (new_backend True None) Map.empty (wi_xid (hd ws)) = Some (wi_geometry (hd ws)) \<and>
      wi_has_actual (hd ws) \<and> wi_actual (hd ws) = wi_geometry (hd ws)"
    using enum_reports_authored [of ?evs True None] w(2) unfolding s_def [symmetric] Let_def ws_def [symmetric] by (simp add: one)
  then show ?thesis using w one unfolding s_def [symmetric] ws_def [symmetric] Let_def by simp
qed

text \<open>
  C6: input is delivered only to the representation it was captured on. If an event that a poll returns
  carries the epoch its window had at some earlier moment, then the window has had that epoch at every
  moment in between, its placeholder window is the one of that moment, and its surface is the one of that
  moment or gone.
\<close>

theorem input_gate:
  assumes "length evs + length evs' \<le> 2 ^ 64 - 2" "ie_epoch ev \<noteq> 0"
    and "ev \<in> set (po_events (fst (poll_input since (plane_run (evs @ evs') (new_backend d l)))))"
    and "ie_epoch ev = epoch_for_xid (ie_xid ev) (mb_registry (plane_run evs (new_backend d l)))"
  shows "let s = plane_run evs (new_backend d l); r = mb_registry s; r' = mb_registry (plane_run evs' s); x = ie_xid ev in
    placeholder_id_for_xid x r' = placeholder_id_for_xid x r \<and> surface_for_xid x r' \<in> {surface_for_xid x r, 0} \<and>
    (\<forall>k\<le>length evs'. epoch_for_xid x (mb_registry (plane_run (take k evs') s)) = ie_epoch ev)"
proof -
  define s where "s = plane_run evs (new_backend d l)"
  let ?x = "ie_xid ev" and ?n = "length evs" and ?r = "mb_registry s"
  have ok: "plane_ok ?n s" using plane_run_ok [OF new_backend_ok [of d l], of evs] assms(1) by (simp add: s_def)
  have r: "registry_ok ?r" using ok by (simp add: plane_ok_def windows_ok_def)
  have now: "epoch_for_xid ?x (mb_registry (plane_run evs' s)) = ie_epoch ev"
    using assms(3) by (auto simp: poll_input_def case_prod_beta s_def)
  obtain e where e: "find_entry ?x ?r = Some e" "en_representation_epoch e = ie_epoch ev"
    using epoch_entry [of ?x ?r "ie_epoch ev"] assms(2,4) by (auto simp: s_def)
  obtain e' where e': "find_entry ?x (mb_registry (plane_run evs' s)) = Some e'" "en_representation_epoch e' = ie_epoch ev"
    using epoch_entry [OF now assms(2)] by blast
  have "later ?r (mb_registry (plane_run evs' s))" using plane_run_later [OF ok] assms(1) by simp
  then have "en_placeholder_id e' = en_placeholder_id e" "en_surface e' \<in> {en_surface e, 0}"
    using e e' by (simp_all add: later_def epoch_step_def)
  moreover have "epoch_for_xid ?x (mb_registry (plane_run (take k evs') s)) = ie_epoch ev" if k: "k \<le> length evs'" for k
  proof (rule later_same_epoch [OF _ now assms(2)])
    have ok1: "plane_ok (?n + k) (plane_run (take k evs') s)"
      using plane_run_ok [OF ok, of "take k evs'"] assms(1) k by simp
    have "plane_run evs' s = plane_run (drop k evs') (plane_run (take k evs') s)" by (metis append_take_drop_id plane_run_simps(3))
    then show "later (mb_registry (plane_run (take k evs') s)) (mb_registry (plane_run evs' s))"
      using plane_run_later [OF ok1, of "drop k evs'"] assms(1) k by simp
    have "later ?r (mb_registry (plane_run (take k evs') s))"
      using plane_run_later [OF ok, of "take k evs'"] assms(1) k by simp
    then show "ie_epoch ev \<le> rg_next_epoch (mb_registry (plane_run (take k evs') s))"
      using registry_okD(8) [OF r e(1)] e(2) by (simp add: later_def)
  qed
  ultimately show ?thesis
    using e(1) e'(1) unfolding s_def [symmetric] Let_def by (simp add: placeholder_id_for_xid_def surface_for_xid_def at_entry_def)
qed

definition sample_key :: input_event where
  "sample_key = \<lparr>ie_xid = 5, ie_epoch = 1, ie_seq = 1, ie_kind = 3, ie_client_x = 0, ie_client_y = 0, ie_button = 0, ie_wheel = 0,
     ie_vk = 65, ie_scancode = 30, ie_modifiers = 0, ie_pressed = True, ie_root_x = 0, ie_root_y = 0, ie_req_w = 0, ie_req_h = 0,
     ie_host_request = 0\<rparr>"

definition sample_push :: plane_event where
  "sample_push = SidecarRpc \<lparr>rpc_op = 209, rpc_request_id = 8, rpc_status = 0, rpc_body = json_dump 0 (obj_of
     [(''xid'', handle_value 5), (''epoch'', handle_value 1), (''events'', JArr [event_to_value sample_key])])\<rparr>"

lemma sample_pushed:
  "plane_do sample_push s = s\<lparr>mb_input_queue := enqueue 5 1 sample_key (mb_input_queue s)\<rparr>"
proof -
  have ev: "event_ok sample_key" by (simp add: event_ok_def sample_key_def u64_ok_def u32_ok_def i32_range_def)
  then have "json_exact (obj_of [(''xid'', handle_value 5), (''epoch'', handle_value 1), (''events'', JArr [event_to_value sample_key])])"
    by (auto intro!: json_exact_obj_of event_exact)
  moreover have "enqueue_request_from_body (obj_of [(''xid'', handle_value 5), (''epoch'', handle_value 1), (''events'', JArr [event_to_value sample_key])])
      = (5, 1, [sample_key])"
    using event_rt [OF ev] by (simp add: enqueue_request_from_body_def fields u64_ok_def kMaxInputQueueEvents_def)
  ultimately show ?thesis
    by (simp add: sample_push_def serve_sidecar_request_def serve_request_def sidecar_handler_def sidecar_ops_def json_op_def
        json_parse_dump debug_enqueue_input_def case_prod_beta Let_def)
qed

theorem input_gate_witness:
  "let s = plane_run [register_rpc sample_toplevel] (new_backend True None) in
     map ie_vk (po_events (fst (poll_input 0 (plane_run [sample_push] s)))) = [65] \<and>
     placeholder_id_for_xid 5 (mb_registry (plane_run [sample_push] s)) = placeholder_id_for_xid 5 (mb_registry s) \<and>
     placeholder_id_for_xid 5 (mb_registry s) = 1"
proof -
  let ?evs = "[register_rpc sample_toplevel]"
  have epoch: "epoch_for_xid 5 (mb_registry sample_state) = 1" "placeholder_id_for_xid 5 (mb_registry sample_state) = 1"
    by (simp_all add: epoch_for_xid_def placeholder_id_for_xid_def at_entry_def find_entry_def sample_state_def sample_entry_def)
  have polled: "po_events (fst (poll_input 0 (plane_run [sample_push] sample_state))) = [sample_key]"
    using epoch(1)
    by (simp add: sample_pushed poll_input_def drain_def enqueue_def sample_state_def new_backend_def empty_queue_def Let_def sample_key_def
        kInvalid_def kGeometryRequest_def kMotion_def kMaxInputQueueEvents_def kMaxPollInputEvents_def u64_def)
  have "placeholder_id_for_xid 5 (mb_registry (plane_run [sample_push] sample_state)) = placeholder_id_for_xid 5 (mb_registry sample_state)"
    using input_gate [of ?evs "[sample_push]" sample_key 0 True None] polled epoch
    unfolding Let_def sample_run plane_run_simps(3) by (simp add: sample_key_def)
  then show ?thesis using polled epoch(2) unfolding sample_run Let_def by (simp add: sample_key_def)
qed

section \<open>A cursor that outlives its window\<close>

text \<open>
  A popup with a surface and a cursor whose owner is unregistered: the cascade removes the popup from the
  registry without an effect on its stores, so the cursor is still there, and a later registration of the
  same window id starts with it.
\<close>

lemma drop_popups_surface:
  assumes r: "registry_ok (mb_registry s)" and e: "find_entry p (mb_registry s) = Some e" "owned_popup x e" "en_surface e \<noteq> 0" and x: "x \<noteq> 0"
  shows "find_entry p (mb_registry (drop_popups x s)) = None" "mb_cursors (drop_popups x s) p = mb_cursors s p"
proof -
  let ?r = "mb_registry s"
  define es where "es = map snd (filter (\<lambda>kv. owned_popup x (snd kv)) (rg_entries ?r))"
  define r' where "r' = snd (take_orphaned_popups x ?r)"
  have run: "take_orphaned_popups x ?r = (map (orphan_effect x) es, r')"
    using x by (simp add: take_orphaned_popups_def es_def r'_def comp_def)
  have drop: "drop_popups x s = fold apply_mock_effect (map (orphan_effect x) es) (s\<lparr>mb_registry := r'\<rparr>)"
    by (simp add: drop_popups_def run)
  note kept = fold_orphans [of x es "s\<lparr>mb_registry := r'\<rparr>", folded drop, unfolded Let_def]
  have "p \<notin> orphan_windows es"
  proof
    assume "p \<in> orphan_windows es"
    then obtain e' where "e' \<in> set (registry_snapshot ?r)" "en_xid e' = p" "en_representation e' = Placeholder"
      by (auto simp: orphan_windows_def es_def registry_snapshot_def)
    then show False using e registry_okD(3) [OF r e(1)] by (simp add: snapshot_entries [OF r])
  qed
  then show "mb_cursors (drop_popups x s) p = mb_cursors s p" using kept by simp
  have "find_entry p r' \<noteq> Some e'" for e' using take_orphaned_good [OF r run] e(1,2) x by auto
  then show "find_entry p (mb_registry (drop_popups x s)) = None" using kept by (cases "find_entry p r'") auto
qed

lemma orphan_cursor_survives:
  assumes "plane_ok n s" "n < 2 ^ 64 - 2" "ef_applied (fst (unregister_toplevel x g (mb_registry s)))" "x \<noteq> p"
    and e: "find_entry p (mb_registry s) = Some e" "owned_popup x e" "en_surface e \<noteq> 0" and c: "mb_cursors s p = Some c"
  shows "let s' = snd (mock_unregister_toplevel (x, g) s) in find_entry p (mb_registry s') = None \<and> mb_cursors s' p = Some c"
proof -
  let ?f = "unregister_toplevel x g"
  define s1 where "s1 = snd (run_registry ?f s)"
  define s2 where "s2 = s1\<lparr>mb_cursors := (mb_cursors s1)(x := None)\<rparr>"
  have x: "x \<noteq> 0" using assms(3) by (cases "x = 0") (simp_all add: unregister_toplevel_def no_effect_def)
  have s': "snd (mock_unregister_toplevel (x, g) s) = drop_popups x s2"
    using assms(3) by (simp add: mock_unregister_toplevel_def case_prod_beta Let_def s2_def s1_def run_registry_simps(2))
  have "keeps_ok s s1"
    unfolding s1_def by (rule keeps_ok_run) (simp_all add: unregister_toplevel_good unregister_toplevel_tracks toplevel_surfaces)
  then have "plane_ok (Suc n) s1" using assms(1,2) unfolding keeps_ok_def by blast
  then have "registry_ok (mb_registry s2)" by (simp add: s2_def plane_ok_def windows_ok_def)
  moreover have "find_entry p (mb_registry s2) = Some e"
    using e(1) assms(4) by (auto simp: s2_def s1_def run_registry_simps(1) unregister_toplevel_def Let_def split: option.split)
  moreover have "mb_cursors s2 p = Some c"
  proof -
    have "ef_xid (fst (?f (mb_registry s))) = x" using assms(3) by (auto simp: unregister_toplevel_def no_effect_def Let_def split: option.splits if_splits)
    then show ?thesis using c assms(4) by (simp add: s2_def s1_def run_registry_simps(3) tears_down_def)
  qed
  ultimately show ?thesis using drop_popups_surface [of s2 p e x] e(2,3) x by (simp add: s' Let_def)
qed

end
