(* ===== verification/Launch_Descriptor.thy ===== *)
theory Launch_Descriptor
  imports Messages
begin

unbundle bit_operations_syntax

text \<open>
  The versioned launch descriptor (src/vkrelay2/common/protocol/launch_descriptor.cpp and .hpp): the
  UTF-8 check, the validation a descriptor passes before a process is launched from it, and its
  JSON form. An exception is the text of the \<open>DescriptorError\<close>.

  \<open>clean_utf8_spec\<close> shows that the hand-written check accepts exactly the encodings of sequences of
  Unicode scalar values without NUL; \<open>descriptor_roundtrip\<close> that a valid descriptor survives the
  JSON text, argument vector and environment in order.
\<close>

section \<open>The UTF-8 check\<close>

text \<open>
  The lead byte gives the number of continuation bytes and the first bits of the code point. The
  loop over the continuation bytes shifts six bits in; a code point has at most 21 bits, so the
  32-bit shift never drops one.
\<close>

definition utf8_lead :: "nat \<Rightarrow> (nat \<times> nat) option" where
  "utf8_lead c =
     (if c < 0x80 then Some (0, c)
      else if c AND 0xE0 = 0xC0 then Some (1, c AND 0x1F)
      else if c AND 0xF0 = 0xE0 then Some (2, c AND 0x0F)
      else if c AND 0xF8 = 0xF0 then Some (3, c AND 0x07)
      else None)"

fun utf8_continue :: "nat \<Rightarrow> string \<Rightarrow> nat option" where
  "utf8_continue cp [] = Some cp"
| "utf8_continue cp (cc # s) =
     (if of_char cc AND 0xC0 \<noteq> (0x80 :: nat) then None
      else utf8_continue (u32 (push_bit 6 cp) OR (of_char cc AND 0x3F)) s)"

definition code_point_ok :: "nat \<Rightarrow> nat \<Rightarrow> bool" where
  "code_point_ok extra cp \<longleftrightarrow>
     \<not> (extra = 1 \<and> cp < 0x80) \<and> \<not> (extra = 2 \<and> cp < 0x800) \<and> \<not> (extra = 3 \<and> cp < 0x10000) \<and>
     \<not> (cp > 0x10FFFF \<or> cp \<ge> 0xD800 \<and> cp \<le> 0xDFFF)"

function is_clean_utf8 :: "string \<Rightarrow> bool" where
  "is_clean_utf8 [] = True"
| "is_clean_utf8 (c # s) =
     (if c = CHR 0x00 then False
      else case utf8_lead (of_char c) of
             None \<Rightarrow> False
           | Some (extra, cp0) \<Rightarrow>
               if extra > length s then False
               else case utf8_continue cp0 (take extra s) of
                      None \<Rightarrow> False
                    | Some cp \<Rightarrow> code_point_ok extra cp \<and> is_clean_utf8 (drop extra s))"
  by pat_completeness auto
termination by (relation "measure length") auto

section \<open>Validation\<close>

abbreviation kLaunchDescriptorVersion :: int where "kLaunchDescriptorVersion \<equiv> 1"
abbreviation kLaunchDescriptorMaxBytes :: nat where "kLaunchDescriptorMaxBytes \<equiv> 1048576"

record session_options =
  so_gpu_selector :: string
  so_display_backend :: string
  so_graphics_frontend :: string

record launch_descriptor =
  ld_version :: int
  ld_session :: session_options
  ld_cwd :: string
  ld_argv :: "string list"
  ld_env :: "(string \<times> string) list"

definition contains_nul :: "string \<Rightarrow> bool" where
  "contains_nul s \<longleftrightarrow> CHR 0x00 \<in> set s"

text \<open>A range-based loop whose body may throw.\<close>

fun for_each :: "('a \<Rightarrow> 'e + unit) \<Rightarrow> 'a list \<Rightarrow> 'e + unit" where
  "for_each f [] = Inr ()"
| "for_each f (x # xs) = rbind (f x) (\<lambda>_. for_each f xs)"

definition check_env_entry :: "string \<times> string \<Rightarrow> string + unit" where
  "check_env_entry kv =
     rbind (ensure (fst kv \<noteq> []) ''environment variable name must not be empty'') (\<lambda>_.
     rbind (ensure (CHR ''='' \<notin> set (fst kv)) (''environment variable name must not contain '' @ quoted_name ''='')) (\<lambda>_.
     ensure (is_clean_utf8 (fst kv) \<and> is_clean_utf8 (snd kv)) ''environment entry is not clean UTF-8''))"

definition descriptor_validate :: "launch_descriptor \<Rightarrow> string + unit" where
  "descriptor_validate d =
     rbind (ensure (ld_version d = kLaunchDescriptorVersion) (''unsupported descriptor version '' @ int_str (ld_version d))) (\<lambda>_.
     rbind (ensure (ld_argv d \<noteq> []) ''descriptor must specify a non-empty argv'') (\<lambda>_.
     rbind (for_each (\<lambda>arg. ensure (\<not> (contains_nul arg \<or> \<not> is_clean_utf8 arg)) ''argv entry is not clean UTF-8'') (ld_argv d)) (\<lambda>_.
     rbind (ensure (\<not> (ld_cwd d \<noteq> [] \<and> (contains_nul (ld_cwd d) \<or> \<not> is_clean_utf8 (ld_cwd d)))) ''cwd is not clean UTF-8'') (\<lambda>_.
     rbind (for_each check_env_entry (ld_env d)) (\<lambda>_.
     ensure (is_clean_utf8 (so_gpu_selector (ld_session d)) \<and> is_clean_utf8 (so_display_backend (ld_session d)) \<and>
             is_clean_utf8 (so_graphics_frontend (ld_session d))) ''session option is not clean UTF-8'')))))"

section \<open>The JSON form\<close>

definition descriptor_to_value :: "launch_descriptor \<Rightarrow> jval" where
  "descriptor_to_value d =
     obj_of [(''version'', JInt (ld_version d)),
             (''session_options'', obj_of [(''gpu_selector'', JStr (so_gpu_selector (ld_session d))),
                (''display_backend'', JStr (so_display_backend (ld_session d))),
                (''graphics_frontend'', JStr (so_graphics_frontend (ld_session d)))]),
             (''process'', obj_of [(''cwd'', JStr (ld_cwd d)), (''argv'', JArr (map JStr (ld_argv d))),
                (''env'', obj_of (map (\<lambda>(k, v). (k, JStr v)) (ld_env d)))])]"

definition descriptor_to_json :: "bool \<Rightarrow> launch_descriptor \<Rightarrow> string" where
  "descriptor_to_json pretty d = json_dump (if pretty then 2 else 0) (descriptor_to_value d)"

definition read_string_field :: "jval \<Rightarrow> string \<Rightarrow> string \<Rightarrow> string + string" where
  "read_string_field obj key fallback =
     (case json_find obj key of
        None \<Rightarrow> Inr fallback
      | Some JNull \<Rightarrow> Inr fallback
      | Some (JStr s) \<Rightarrow> Inr s
      | Some _ \<Rightarrow> Inl (''field '' @ quoted_name key @ '' must be a string''))"

definition read_version :: "jval \<Rightarrow> string + int" where
  "read_version doc =
     (case json_find doc ''version'' of
        Some (JNum d) \<Rightarrow>
          if \<not> is_whole d then Inl (''descriptor '' @ quoted_name ''version'' @ '' must be an integer'')
          else if llround d < 0 \<or> llround d > 1000000 then Inl (''descriptor '' @ quoted_name ''version'' @ '' is out of range'')
          else Inr (llround d)
      | _ \<Rightarrow> Inl (''descriptor '' @ quoted_name ''version'' @ '' must be an integer''))"

definition read_options :: "jval \<Rightarrow> string + session_options" where
  "read_options doc =
     (case json_find doc ''session_options'' of
        None \<Rightarrow> Inr \<lparr>so_gpu_selector = ''auto'', so_display_backend = ''auto'', so_graphics_frontend = ''auto''\<rparr>
      | Some opts \<Rightarrow>
          rbind (ensure (jtype_of opts = TObject) (quoted_name ''session_options'' @ '' must be an object'')) (\<lambda>_.
          rbind (read_string_field opts ''gpu_selector'' ''auto'') (\<lambda>g.
          rbind (read_string_field opts ''display_backend'' ''auto'') (\<lambda>b.
          rbind (read_string_field opts ''graphics_frontend'' ''auto'') (\<lambda>f.
          Inr \<lparr>so_gpu_selector = g, so_display_backend = b, so_graphics_frontend = f\<rparr>)))))"

fun read_argv :: "jval list \<Rightarrow> string + string list" where
  "read_argv [] = Inr []"
| "read_argv (JStr s # vs) = rbind (read_argv vs) (\<lambda>ss. Inr (s # ss))"
| "read_argv (_ # vs) = Inl ''argv entries must be strings''"

fun read_env :: "(string \<times> jval) list \<Rightarrow> string + (string \<times> string) list" where
  "read_env [] = Inr []"
| "read_env ((k, JStr s) # kvs) = rbind (read_env kvs) (\<lambda>es. Inr ((k, s) # es))"
| "read_env (_ # kvs) = Inl ''environment values must be strings''"

definition read_env_field :: "jval \<Rightarrow> string + (string \<times> string) list" where
  "read_env_field process =
     (case json_find process ''env'' of
        None \<Rightarrow> Inr []
      | Some (JObj kvs) \<Rightarrow> read_env kvs
      | Some _ \<Rightarrow> Inl (quoted_name ''process.env'' @ '' must be an object''))"

definition read_argv_field :: "jval \<Rightarrow> string + string list" where
  "read_argv_field process =
     (case json_find process ''argv'' of
        Some (JArr vs) \<Rightarrow> read_argv vs
      | _ \<Rightarrow> Inl (''descriptor missing '' @ quoted_name ''process.argv'' @ '' array''))"

definition read_process :: "jval \<Rightarrow> string + jval" where
  "read_process doc =
     (case json_find doc ''process'' of
        Some (JObj kvs) \<Rightarrow> Inr (JObj kvs)
      | _ \<Rightarrow> Inl (''descriptor missing '' @ quoted_name ''process'' @ '' object''))"

definition descriptor_from_json :: "string \<Rightarrow> string + launch_descriptor" where
  "descriptor_from_json text =
     rbind (ensure (length text \<le> kLaunchDescriptorMaxBytes) ''descriptor payload exceeds size bound'') (\<lambda>_.
     rbind (case json_parse text of Inl e \<Rightarrow> Inl (''descriptor is not valid JSON: '' @ what e) | Inr v \<Rightarrow> Inr v) (\<lambda>doc.
     rbind (ensure (jtype_of doc = TObject) ''descriptor root must be an object'') (\<lambda>_.
     rbind (read_version doc) (\<lambda>version.
     rbind (read_options doc) (\<lambda>opts.
     rbind (read_process doc) (\<lambda>process.
     rbind (read_string_field process ''cwd'' []) (\<lambda>cwd.
     rbind (read_argv_field process) (\<lambda>args.
     rbind (read_env_field process) (\<lambda>env.
     let d = \<lparr>ld_version = version, ld_session = opts, ld_cwd = cwd, ld_argv = args, ld_env = env\<rparr>
     in rbind (descriptor_validate d) (\<lambda>_. Inr d))))))))))"

section \<open>The check accepts the encodings of scalar values\<close>

text \<open>The bit tests on a byte are interval tests, and its low bits a remainder.\<close>

lemma and_shifted: "b AND push_bit k (mask n) = 2 ^ k * (b div 2 ^ k mod 2 ^ n)" for b :: nat
proof -
  have "b AND push_bit k (mask n) = push_bit k (take_bit n (drop_bit k b))"
    by (rule bit_eqI) (auto simp: bit_and_iff bit_push_bit_iff bit_mask_iff bit_take_bit_iff bit_drop_bit_eq)
  then show ?thesis by (simp add: push_bit_eq_mult take_bit_eq_mod drop_bit_eq_div mult.commute)
qed

lemma byte_tests:
  assumes "b < (256 :: nat)"
  shows "(b AND 0xE0 = 0xC0) = (192 \<le> b \<and> b < 224)" "(b AND 0xF0 = 0xE0) = (224 \<le> b \<and> b < 240)"
    "(b AND 0xF8 = 0xF0) = (240 \<le> b \<and> b < 248)" "(b AND 0xC0 = 0x80) = (128 \<le> b \<and> b < 192)"
proof -
  have m: "push_bit 5 (mask 3) = (0xE0 :: nat)" "push_bit 4 (mask 4) = (0xF0 :: nat)"
    "push_bit 3 (mask 5) = (0xF8 :: nat)" "push_bit 6 (mask 2) = (0xC0 :: nat)"
    by (simp_all add: push_bit_eq_mult mask_eq_exp_minus_1)
  show "(b AND 0xE0 = 0xC0) = (192 \<le> b \<and> b < 224)" using and_shifted [of b 5 3] assms by (simp add: m) linarith
  show "(b AND 0xF0 = 0xE0) = (224 \<le> b \<and> b < 240)" using and_shifted [of b 4 4] assms by (simp add: m) linarith
  show "(b AND 0xF8 = 0xF0) = (240 \<le> b \<and> b < 248)" using and_shifted [of b 3 5] assms by (simp add: m) linarith
  show "(b AND 0xC0 = 0x80) = (128 \<le> b \<and> b < 192)" using and_shifted [of b 6 2] assms by (simp add: m) linarith
qed

lemma byte_masks: "b AND 0x1F = b mod 32" "b AND 0x0F = b mod 16" "b AND 0x07 = b mod 8" "b AND 0x3F = b mod (64 :: nat)"
  using take_bit_eq_mask [of 5 b] take_bit_eq_mask [of 4 b] take_bit_eq_mask [of 3 b] take_bit_eq_mask [of 6 b]
  by (simp_all add: take_bit_eq_mod mask_eq_exp_minus_1)

lemma shift_in: "push_bit 6 cp OR (b mod 64) = cp * 64 + b mod (64 :: nat)"
proof -
  have "push_bit 6 cp OR take_bit 6 b = push_bit 6 cp + take_bit 6 b"
    by (rule disjunctive_add [symmetric]) (auto simp: bit_push_bit_iff bit_take_bit_iff)
  then show ?thesis by (simp add: push_bit_eq_mult take_bit_eq_mod)
qed

lemma utf8_lead_eq:
  "b < 256 \<Longrightarrow> utf8_lead b =
     (if b < 128 then Some (0, b) else if 192 \<le> b \<and> b < 224 then Some (1, b mod 32)
      else if 224 \<le> b \<and> b < 240 then Some (2, b mod 16) else if 240 \<le> b \<and> b < 248 then Some (3, b mod 8) else None)"
  unfolding utf8_lead_def byte_tests byte_masks by (rule refl)

lemma utf8_continue_eq:
  assumes "cp < 2 ^ 26"
  shows "utf8_continue cp (cc # s) =
    (if 128 \<le> (of_char cc :: nat) \<and> of_char cc < (192 :: nat) then utf8_continue (cp * 64 + of_char cc mod 64) s else None)"
proof -
  have "u32 (push_bit 6 cp) = push_bit 6 cp" using assms by (simp add: push_bit_eq_mult u32_id)
  moreover have "(of_char cc :: nat) < 256" by simp
  ultimately show ?thesis by (simp add: byte_tests(4) byte_masks(4) shift_in)
qed

definition scalar_value :: "nat \<Rightarrow> bool" where
  "scalar_value cp \<longleftrightarrow> cp \<noteq> 0 \<and> cp \<le> 0x10FFFF \<and> \<not> (0xD800 \<le> cp \<and> cp \<le> 0xDFFF)"

lemma of_char_byte: "b < 256 \<Longrightarrow> of_char (char_of b) = (b :: nat)"
  by simp

lemma byte_nonzero: "0 < b \<Longrightarrow> b < 256 \<Longrightarrow> char_of b \<noteq> CHR 0x00" for b :: nat
proof
  assume "0 < b" "b < 256" "char_of b = CHR 0x00"
  then have "of_char (char_of b) = (of_char CHR 0x00 :: nat)" by simp
  then show False using \<open>0 < b\<close> \<open>b < 256\<close> by simp
qed

lemma payload_bits:
  "x < 32 \<Longrightarrow> (192 + x) mod 32 = x" "x < 16 \<Longrightarrow> (224 + x) mod 16 = x" "x < 8 \<Longrightarrow> (240 + x) mod 8 = x"
  "x < 64 \<Longrightarrow> (128 + x) mod 64 = x" for x :: nat
  using mod_add_eq [of 192 32 x] mod_add_eq [of 224 16 x] mod_add_eq [of 240 8 x] mod_add_eq [of 128 64 x] by simp_all

text \<open>One encoded code point, by the number of its bytes.\<close>

lemma clean_one: "0 < x \<Longrightarrow> x < 128 \<Longrightarrow> is_clean_utf8 (char_of x # r) \<longleftrightarrow> is_clean_utf8 r" for x :: nat
  by (simp add: byte_nonzero utf8_lead_eq code_point_ok_def)

lemma clean_two:
  "x < 32 \<Longrightarrow> y < 64 \<Longrightarrow> is_clean_utf8 (char_of (192 + x) # char_of (128 + y) # r) \<longleftrightarrow>
     code_point_ok 1 (x * 64 + y) \<and> is_clean_utf8 r" for x :: nat
  by (simp add: byte_nonzero utf8_lead_eq utf8_continue_eq payload_bits del: utf8_continue.simps(2))

lemma clean_three:
  "x < 16 \<Longrightarrow> y < 64 \<Longrightarrow> z < 64 \<Longrightarrow> is_clean_utf8 (char_of (224 + x) # char_of (128 + y) # char_of (128 + z) # r) \<longleftrightarrow>
     code_point_ok 2 ((x * 64 + y) * 64 + z) \<and> is_clean_utf8 r" for x :: nat
  by (simp add: byte_nonzero utf8_lead_eq utf8_continue_eq payload_bits del: utf8_continue.simps(2))

lemma clean_four:
  "x < 8 \<Longrightarrow> y < 64 \<Longrightarrow> z < 64 \<Longrightarrow> w < 64 \<Longrightarrow>
     is_clean_utf8 (char_of (240 + x) # char_of (128 + y) # char_of (128 + z) # char_of (128 + w) # r) \<longleftrightarrow>
     code_point_ok 3 (((x * 64 + y) * 64 + z) * 64 + w) \<and> is_clean_utf8 r"
  by (simp add: byte_nonzero utf8_lead_eq utf8_continue_eq payload_bits del: utf8_continue.simps(2))

lemmas clean_bytes = clean_one clean_two clean_three clean_four

lemma base64:
  "(cp div 4096 * 64 + cp div 64 mod 64) * 64 + cp mod 64 = cp"
  "((cp div 262144 * 64 + cp div 4096 mod 64) * 64 + cp div 64 mod 64) * 64 + cp mod 64 = cp" for cp :: nat
proof -
  have d: "cp div 4096 = cp div 64 div 64" "cp div 262144 = cp div 64 div 64 div 64" by (simp_all add: div_mult2_eq [symmetric])
  show "(cp div 4096 * 64 + cp div 64 mod 64) * 64 + cp mod 64 = cp"
    "((cp div 262144 * 64 + cp div 4096 mod 64) * 64 + cp div 64 mod 64) * 64 + cp mod 64 = cp"
    unfolding d div_mult_mod_eq by (rule refl)+
qed

lemma clean_append: "scalar_value cp \<Longrightarrow> is_clean_utf8 (encode_utf8 cp @ r) \<longleftrightarrow> is_clean_utf8 r"
proof -
  assume cp: "scalar_value cp"
  consider "cp \<le> 0x7F" | "0x7F < cp" "cp \<le> 0x7FF" | "0x7FF < cp" "cp \<le> 0xFFFF" | "0xFFFF < cp" by linarith
  then show ?thesis
  proof cases
    case 1
    then show ?thesis using cp clean_one [of cp r] by (simp add: encode_utf8_def scalar_value_def)
  next
    case 2
    then show ?thesis using cp clean_two [of "cp div 64" "cp mod 64" r]
      by (simp add: encode_utf8_def scalar_value_def code_point_ok_def)
  next
    case 3
    then show ?thesis using base64(1) [of cp] cp clean_three [of "cp div 4096" "cp div 64 mod 64" "cp mod 64" r]
      by (auto simp: encode_utf8_def scalar_value_def code_point_ok_def)
  next
    case 4
    then show ?thesis using base64(2) [of cp] cp clean_four [of "cp div 262144" "cp div 4096 mod 64" "cp div 64 mod 64" "cp mod 64" r]
      by (auto simp: encode_utf8_def scalar_value_def code_point_ok_def)
  qed
qed

text \<open>The same bytes, read back: a byte of a class is the class marker plus its payload bits.\<close>

lemma byte_split: "l \<le> of_char c \<Longrightarrow> of_char c < l + n \<Longrightarrow> \<exists>x<n. c = char_of (l + x)" for l :: nat
  by (intro exI [of _ "of_char c - l"]) auto

lemma continue_bytes: "utf8_continue cp s = Some v \<Longrightarrow> c \<in> set s \<Longrightarrow> \<exists>y<64. c = char_of (128 + y :: nat)"
proof (induction cp s rule: utf8_continue.induct)
  case (2 cp cc s)
  then have "of_char cc AND 0xC0 = (0x80 :: nat)" by (auto split: if_splits)
  then have "128 \<le> (of_char cc :: nat)" "of_char cc < (128 + 64 :: nat)" by (simp_all add: byte_tests(4))
  then show ?case using 2 byte_split [of 128 cc 64] by (auto split: if_splits)
qed simp

lemma encode_bytes:
  "x < 32 \<Longrightarrow> y < 64 \<Longrightarrow> code_point_ok 1 (x * 64 + y) \<Longrightarrow> encode_utf8 (x * 64 + y) = [char_of (192 + x), char_of (128 + y)]"
  "x < 16 \<Longrightarrow> y < 64 \<Longrightarrow> z < 64 \<Longrightarrow> code_point_ok 2 ((x * 64 + y) * 64 + z) \<Longrightarrow>
     encode_utf8 ((x * 64 + y) * 64 + z) = [char_of (224 + x), char_of (128 + y), char_of (128 + z)]"
  "x < 8 \<Longrightarrow> y < 64 \<Longrightarrow> z < 64 \<Longrightarrow> w < 64 \<Longrightarrow> code_point_ok 3 (((x * 64 + y) * 64 + z) * 64 + w) \<Longrightarrow>
     encode_utf8 (((x * 64 + y) * 64 + z) * 64 + w) = [char_of (240 + x), char_of (128 + y), char_of (128 + z), char_of (128 + w)]"
proof -
  have d: "n div 4096 = n div 64 div 64" "n div 262144 = n div 64 div 64 div 64" for n :: nat by (simp_all add: div_mult2_eq [symmetric])
  have q: "(a * 64 + y) div 64 = a" "(a * 64 + y) mod 64 = y" if "y < 64" for a y :: nat using that by simp_all
  show "encode_utf8 (x * 64 + y) = [char_of (192 + x), char_of (128 + y)]" if "x < 32" "y < 64" "code_point_ok 1 (x * 64 + y)"
    using that unfolding encode_utf8_def code_point_ok_def by (simp add: d q)
  show "encode_utf8 ((x * 64 + y) * 64 + z) = [char_of (224 + x), char_of (128 + y), char_of (128 + z)]"
    if "x < 16" "y < 64" "z < 64" "code_point_ok 2 ((x * 64 + y) * 64 + z)"
    using that unfolding encode_utf8_def code_point_ok_def d q [OF that(3)] q [OF that(2)] by simp
  show "encode_utf8 (((x * 64 + y) * 64 + z) * 64 + w) = [char_of (240 + x), char_of (128 + y), char_of (128 + z), char_of (128 + w)]"
    if "x < 8" "y < 64" "z < 64" "w < 64" "code_point_ok 3 (((x * 64 + y) * 64 + z) * 64 + w)"
    using that unfolding encode_utf8_def code_point_ok_def d q [OF that(4)] q [OF that(3)] q [OF that(2)] by simp
qed

lemma code_point_scalar: "code_point_ok extra cp \<Longrightarrow> extra \<noteq> 0 \<Longrightarrow> extra \<le> 3 \<Longrightarrow> scalar_value cp"
  by (cases "cp = 0") (auto simp: code_point_ok_def scalar_value_def)

lemma clean_split:
  assumes "is_clean_utf8 (c # s)"
  shows "\<exists>cp r. scalar_value cp \<and> c # s = encode_utf8 cp @ r \<and> is_clean_utf8 r"
proof -
  have nz: "c \<noteq> CHR 0x00" using assms by (auto split: if_splits)
  obtain extra cp0 v where lead: "utf8_lead (of_char c) = Some (extra, cp0)" "extra \<le> length s" "utf8_continue cp0 (take extra s) = Some v"
    using assms by (auto split: if_splits option.splits)
  have tail: "\<exists>y<64. s ! i = char_of (128 + y :: nat)" if "i < extra" for i
    using continue_bytes [OF lead(3), of "s ! i"] that lead(2) by (force simp: in_set_conv_nth)
  have b: "(of_char c :: nat) < 256" by simp
  consider "extra = 0" "of_char c < (128 :: nat)" | "extra = 1" "(192 :: nat) \<le> of_char c" "of_char c < (192 + 32 :: nat)"
    | "extra = 2" "(224 :: nat) \<le> of_char c" "of_char c < (224 + 16 :: nat)" | "extra = 3" "(240 :: nat) \<le> of_char c" "of_char c < (240 + 8 :: nat)"
    using lead(1) unfolding utf8_lead_eq [OF b] by (auto split: if_splits)
  then show ?thesis
  proof cases
    case 1
    have "0 < (of_char c :: nat)" using nz inj_of_char [where ?'a = nat, THEN injD, of c "CHR 0x00"] by fastforce
    then have "scalar_value (of_char c)" "encode_utf8 (of_char c) = [c]" using 1 by (simp_all add: scalar_value_def encode_utf8_def)
    then show ?thesis using assms clean_append [of "of_char c" s] by (metis append_Cons append_Nil)
  next
    case 2
    obtain x where x: "x < 32" "c = char_of (192 + x :: nat)" using byte_split [OF 2(2,3)] by blast
    obtain y where y: "y < 64" "s ! 0 = char_of (128 + y :: nat)" using tail [of 0] 2(1) by auto
    obtain r where s: "s = char_of (128 + y) # r" using lead(2) 2(1) y by (cases s) auto
    have "code_point_ok 1 (x * 64 + y)" "is_clean_utf8 r" using assms x y clean_two [of x y r] by (simp_all add: s)
    then show ?thesis using encode_bytes(1) [OF x(1) y(1)] code_point_scalar [of 1 "x * 64 + y"]
      by (intro exI [of _ "x * 64 + y"] exI [of _ r]) (simp add: s x)
  next
    case 3
    obtain x where x: "x < 16" "c = char_of (224 + x :: nat)" using byte_split [OF 3(2,3)] by blast
    obtain y z where y: "y < 64" "s ! 0 = char_of (128 + y :: nat)" "z < 64" "s ! 1 = char_of (128 + z :: nat)"
      using tail [of 0] tail [of 1] 3(1) by auto
    obtain r where s: "s = char_of (128 + y) # char_of (128 + z) # r"
      using lead(2) 3(1) y by (cases s; cases "tl s") auto
    have "code_point_ok 2 ((x * 64 + y) * 64 + z)" "is_clean_utf8 r" using assms x y clean_three [of x y z r] by (simp_all add: s)
    then show ?thesis using encode_bytes(2) [OF x(1) y(1,3)] code_point_scalar [of 2 "(x * 64 + y) * 64 + z"]
      by (intro exI [of _ "(x * 64 + y) * 64 + z"] exI [of _ r]) (simp add: s x)
  next
    case 4
    obtain x where x: "x < 8" "c = char_of (240 + x :: nat)" using byte_split [OF 4(2,3)] by blast
    obtain y z w where y: "y < 64" "s ! 0 = char_of (128 + y :: nat)" "z < 64" "s ! 1 = char_of (128 + z :: nat)"
      "w < 64" "s ! 2 = char_of (128 + w :: nat)"
      using tail [of 0] tail [of 1] tail [of 2] 4(1) by auto
    obtain r where s: "s = char_of (128 + y) # char_of (128 + z) # char_of (128 + w) # r"
      using lead(2) 4(1) y by (cases s; cases "tl s"; cases "tl (tl s)") auto
    have "code_point_ok 3 (((x * 64 + y) * 64 + z) * 64 + w)" "is_clean_utf8 r"
      using assms x y clean_four [of x y z w r] by (simp_all add: s)
    then show ?thesis using encode_bytes(3) [OF x(1) y(1,3,5)] code_point_scalar [of 3 "((x * 64 + y) * 64 + z) * 64 + w"]
      by (intro exI [of _ "((x * 64 + y) * 64 + z) * 64 + w"] exI [of _ r]) (simp add: s x)
  qed
qed

lemma clean_utf8_scalars: "is_clean_utf8 s \<Longrightarrow> \<exists>cps. list_all scalar_value cps \<and> s = concat (map encode_utf8 cps)"
proof (induction "length s" arbitrary: s rule: less_induct)
  case less
  show ?case
  proof (cases s)
    case Nil
    then show ?thesis by (intro exI [of _ "[]"]) simp
  next
    case (Cons c t)
    then obtain cp r where cp: "scalar_value cp" "s = encode_utf8 cp @ r" "is_clean_utf8 r" using clean_split [of c t] less.prems by auto
    moreover have "encode_utf8 cp \<noteq> []" by (simp add: encode_utf8_def)
    ultimately obtain cps where "list_all scalar_value cps" "r = concat (map encode_utf8 cps)" using less.hyps [of r] by auto
    then show ?thesis using cp by (intro exI [of _ "cp # cps"]) simp
  qed
qed

text \<open>
  C35: The UTF-8 check of launch descriptors accepts exactly the encodings of sequences of Unicode
  scalar values other than NUL: no overlong form, no surrogate, nothing above U+10FFFF, no truncated
  sequence.
\<close>

theorem clean_utf8_spec: "is_clean_utf8 s \<longleftrightarrow> (\<exists>cps. list_all scalar_value cps \<and> s = concat (map encode_utf8 cps))"
proof -
  have "is_clean_utf8 (concat (map encode_utf8 cps))" if "list_all scalar_value cps" for cps
    using that by (induction cps) (simp_all add: clean_append)
  then show ?thesis using clean_utf8_scalars by blast
qed

section \<open>The JSON form reads back\<close>

lemma read_argv_map: "read_argv (map JStr ss) = Inr ss"
  by (induction ss) simp_all

lemma read_env_map: "read_env (map (\<lambda>(k, v). (k, JStr v)) es) = Inr es"
  by (induction es) auto

lemma for_each_ok [simp]: "for_each f xs = Inr u \<longleftrightarrow> list_all (\<lambda>x. f x = Inr ()) xs"
  by (induction xs) (auto simp: result_simps)

lemma clean_no_nul: "is_clean_utf8 s \<Longrightarrow> CHR 0x00 \<notin> set s"
proof -
  have "CHR 0x00 \<notin> set (encode_utf8 cp)" if "scalar_value cp" for cp
    using that by (auto simp: encode_utf8_def scalar_value_def dest!: sym [of "CHR 0x00"] byte_nonzero [THEN notE, rotated 2])
  then show "is_clean_utf8 s \<Longrightarrow> CHR 0x00 \<notin> set s" using clean_utf8_scalars [of s] by (auto simp: list_all_iff)
qed

text \<open>What a launch may rely on: the conditions under which validation passes.\<close>

definition descriptor_safe :: "launch_descriptor \<Rightarrow> bool" where
  "descriptor_safe d \<longleftrightarrow>
     ld_version d = 1 \<and> ld_argv d \<noteq> [] \<and> list_all is_clean_utf8 (ld_argv d) \<and> is_clean_utf8 (ld_cwd d) \<and>
     list_all (\<lambda>(k, v). k \<noteq> [] \<and> CHR ''='' \<notin> set k \<and> is_clean_utf8 k \<and> is_clean_utf8 v) (ld_env d) \<and>
     is_clean_utf8 (so_gpu_selector (ld_session d)) \<and> is_clean_utf8 (so_display_backend (ld_session d)) \<and>
     is_clean_utf8 (so_graphics_frontend (ld_session d))"

lemma check_env_entry_ok [simp]:
  "check_env_entry kv = Inr () \<longleftrightarrow> (\<lambda>(k, v). k \<noteq> [] \<and> CHR ''='' \<notin> set k \<and> is_clean_utf8 k \<and> is_clean_utf8 v) kv"
  by (cases kv) (simp add: check_env_entry_def result_simps)

lemma no_nul_test: "\<not> (contains_nul s \<or> \<not> is_clean_utf8 s) \<longleftrightarrow> is_clean_utf8 s"
  using clean_no_nul by (auto simp: contains_nul_def)

lemma descriptor_valid_iff: "descriptor_validate d = Inr u \<longleftrightarrow> descriptor_safe d"
proof -
  have cwd: "\<not> (c \<noteq> [] \<and> (contains_nul c \<or> \<not> is_clean_utf8 c)) \<longleftrightarrow> is_clean_utf8 c" for c
    using no_nul_test [of c] by (cases "c = []") auto
  have "list_all (\<lambda>kv. check_env_entry kv = Inr ()) es \<longleftrightarrow>
      list_all (\<lambda>(k, v). k \<noteq> [] \<and> CHR ''='' \<notin> set k \<and> is_clean_utf8 k \<and> is_clean_utf8 v) es" for es
    by (simp only: check_env_entry_ok)
  then show ?thesis unfolding descriptor_validate_def descriptor_safe_def no_nul_test cwd by (simp add: result_simps)
qed

lemma read_string_field_obj:
  "distinct (map fst kvs) \<Longrightarrow> map_of kvs key = Some (JStr s) \<Longrightarrow> read_string_field (obj_of kvs) key fallback = Inr s"
  by (simp add: read_string_field_def json_find_obj_of)

lemma descriptor_value_exact:
  assumes "distinct (map fst (ld_env d))" "ld_version d = 1"
  shows "json_exact (descriptor_to_value d)"
proof -
  have "distinct (map fst (map (\<lambda>(k, v). (k, JStr v)) (ld_env d)))" using assms(1) by (simp add: comp_def case_prod_beta)
  then have "json_exact (obj_of (map (\<lambda>(k, v). (k, JStr v)) (ld_env d)))" by (intro json_exact_obj_of) auto
  moreover have "json_exact (JInt (ld_version d))" using assms(2) by (intro json_exact_int) simp
  ultimately show ?thesis unfolding descriptor_to_value_def by (intro json_exact_obj_of) (auto intro!: json_exact_obj_of)
qed

lemma descriptor_reads_back:
  assumes "descriptor_safe d" "distinct (map fst (ld_env d))" "length (descriptor_to_json pretty d) \<le> kLaunchDescriptorMaxBytes"
  shows "descriptor_from_json (descriptor_to_json pretty d) = Inr d"
proof -
  let ?v = "descriptor_to_value d" and ?env = "map (\<lambda>(k, v). (k, JStr v)) (ld_env d)"
  let ?p = "[(''cwd'', JStr (ld_cwd d)), (''argv'', JArr (map JStr (ld_argv d))), (''env'', obj_of ?env)]"
  have ver: "ld_version d = 1" using assms(1) by (simp add: descriptor_safe_def)
  have "distinct (map fst ?env)" using assms(2) by (simp add: comp_def case_prod_beta)
  then have env: "obj_of ?env = JObj ?env" by (rule obj_of_eq)
  have parse: "json_parse (descriptor_to_json pretty d) = Inr ?v"
    unfolding descriptor_to_json_def by (rule json_parse_dump [OF descriptor_value_exact [OF assms(2) ver]])
  have obj: "jtype_of ?v = TObject" by (simp add: descriptor_to_value_def obj_of_eq)
  have version: "read_version ?v = Inr (ld_version d)"
    using ver JInt_whole [of 1] by (simp add: read_version_def descriptor_to_value_def json_find_obj_of)
  have opts: "read_options ?v = Inr (ld_session d)"
    by (simp add: read_options_def descriptor_to_value_def json_find_obj_of read_string_field_obj)
  have process: "read_process ?v = Inr (JObj ?p)"
    by (simp add: read_process_def descriptor_to_value_def obj_of_eq json_find_def)
  have fields: "read_string_field (JObj ?p) ''cwd'' [] = Inr (ld_cwd d)" "read_argv_field (JObj ?p) = Inr (ld_argv d)"
    "read_env_field (JObj ?p) = Inr (ld_env d)"
    by (simp_all add: read_string_field_def read_argv_field_def read_env_field_def json_find_def env read_argv_map read_env_map)
  have valid: "descriptor_validate d = Inr ()" using assms(1) by (simp add: descriptor_valid_iff)
  have eta: "\<lparr>ld_version = ld_version d, ld_session = ld_session d, ld_cwd = ld_cwd d, ld_argv = ld_argv d, ld_env = ld_env d\<rparr> = d" by simp
  show ?thesis
    using assms(3) valid unfolding descriptor_from_json_def parse by (simp add: obj version opts process fields eta)
qed

lemma descriptor_accepted: "descriptor_from_json text = Inr d \<Longrightarrow> descriptor_safe d \<and> length text \<le> kLaunchDescriptorMaxBytes"
  unfolding descriptor_from_json_def
  by (auto simp: result_simps descriptor_valid_iff Let_def simp del: not_less)

text \<open>
  C34: A descriptor that validates, with distinct environment names, and whose JSON text is within
  the size bound reads back from that text unchanged, compact or pretty-printed; and whatever text
  is accepted gives a descriptor that is safe to launch.
\<close>

theorem descriptor_roundtrip:
  "(descriptor_validate d = Inr () \<and> distinct (map fst (ld_env d)) \<and> length (descriptor_to_json pretty d) \<le> kLaunchDescriptorMaxBytes \<longrightarrow>
      descriptor_from_json (descriptor_to_json pretty d) = Inr d) \<and>
   (descriptor_from_json text = Inr d' \<longrightarrow> descriptor_safe d' \<and> length text \<le> 1048576)"
  using descriptor_reads_back descriptor_accepted by (auto simp: descriptor_valid_iff)

definition sample_descriptor :: launch_descriptor where
  "sample_descriptor = \<lparr>ld_version = 1, ld_session = \<lparr>so_gpu_selector = ''auto'', so_display_backend = ''x11'', so_graphics_frontend = ''auto''\<rparr>,
     ld_cwd = [], ld_argv = [''app'', ''a b''], ld_env = [(''A'', ''1''), (''B'', [])]\<rparr>"

lemma ascii_clean: "list_all (\<lambda>c. 0 < (of_char c :: nat) \<and> of_char c < (128 :: nat)) s \<Longrightarrow> is_clean_utf8 s"
proof (induction s)
  case (Cons c s)
  then show ?case using clean_one [of "of_char c" s] by simp
qed simp

theorem descriptor_roundtrip_witness:
  "descriptor_from_json (descriptor_to_json False sample_descriptor) = Inr sample_descriptor"
proof -
  have "descriptor_validate sample_descriptor = Inr ()"
    by (simp add: descriptor_valid_iff descriptor_safe_def sample_descriptor_def ascii_clean del: is_clean_utf8.simps(2))
  moreover have "distinct (map fst (ld_env sample_descriptor))" by (simp add: sample_descriptor_def)
  moreover have "length (dump_number (double_of_int 1)) = 1" using dump_number_int [of 1] double_of_int_exact [of 1] by (simp add: int_str_def nat_str.simps digit_char_def)
  moreover from this have "length (descriptor_to_json False sample_descriptor) \<le> kLaunchDescriptorMaxBytes"
    by (simp add: descriptor_to_json_def descriptor_to_value_def sample_descriptor_def obj_of_eq json_dump_def escape_string_def escape_char_def pad_def newline_def)
  ultimately show ?thesis using descriptor_roundtrip [of sample_descriptor False] by blast
qed
end
