(* ===== verification/Acquire_Poll.thy ===== *)
theory Acquire_Poll
  imports Prelude
begin

text \<open>
  The interruptible acquire of the worker (src/vkrelay2/windows/worker/acquire_poll.hpp). The three
  template parameters, the host acquire, the abort flag and the clock, are functions on a world
  state, so that a call may observe time passing and a teardown beginning. The loop may run
  forever (an infinite wait on a surface that never yields an image), so it is a partial function:
  not returning is \<^term>\<open>None\<close>.

  \<open>poll_acquire_rounds\<close> characterises the loop by its rounds; \<open>poll_acquire_finite\<close> shows that a
  finite wait returns, and when it may report a timeout.
\<close>

section \<open>The loop\<close>

record 'w acquire_host =
  try_acquire :: "nat \<Rightarrow> 'w \<Rightarrow> int \<times> 'w"
  is_aborting :: "'w \<Rightarrow> bool \<times> 'w"
  now_ns :: "'w \<Rightarrow> nat \<times> 'w"

record acquire_poll_outcome =
  ao_result :: int
  ao_aborted :: bool

abbreviation kInfiniteTimeout :: nat where "kInfiniteTimeout \<equiv> 18446744073709551615"

text \<open>One pass of the loop body: it returns, or the host quantum elapsed and the loop goes on.\<close>

datatype 'w acquire_round = Done acquire_poll_outcome 'w | Again 'w

definition try_for :: "'w acquire_host \<Rightarrow> int \<Rightarrow> nat \<Rightarrow> 'w \<Rightarrow> 'w acquire_round" where
  "try_for host timeout_result host_to w =
     (let (r, w') = try_acquire host host_to w in
      if r \<noteq> timeout_result then Done \<lparr>ao_result = r, ao_aborted = False\<rparr> w' else Again w')"

definition acquire_pass :: "'w acquire_host \<Rightarrow> nat \<Rightarrow> nat \<Rightarrow> int \<Rightarrow> nat \<Rightarrow> 'w \<Rightarrow> 'w acquire_round" where
  "acquire_pass host guest_timeout_ns quantum_ns timeout_result start w =
     (let (aborting, w1) = is_aborting host w in
      if aborting then Done \<lparr>ao_result = 0, ao_aborted = True\<rparr> w1
      else if guest_timeout_ns = kInfiniteTimeout then try_for host timeout_result quantum_ns w1
      else let (now, w2) = now_ns host w1;
               elapsed = u64_of_int (int now - int start)
           in if elapsed \<ge> guest_timeout_ns then Done \<lparr>ao_result = timeout_result, ao_aborted = False\<rparr> w2
              else let remaining = guest_timeout_ns - elapsed
                   in try_for host timeout_result (if remaining < quantum_ns then remaining else quantum_ns) w2)"

partial_function (option) acquire_loop ::
  "'w acquire_host \<Rightarrow> nat \<Rightarrow> nat \<Rightarrow> int \<Rightarrow> nat \<Rightarrow> 'w \<Rightarrow> (acquire_poll_outcome \<times> 'w) option" where
  "acquire_loop host guest_timeout_ns quantum_ns timeout_result start w =
     (case acquire_pass host guest_timeout_ns quantum_ns timeout_result start w of
        Done out w' \<Rightarrow> Some (out, w')
      | Again w' \<Rightarrow> acquire_loop host guest_timeout_ns quantum_ns timeout_result start w')"

definition poll_acquire :: "nat \<Rightarrow> nat \<Rightarrow> int \<Rightarrow> 'w acquire_host \<Rightarrow> 'w \<Rightarrow> (acquire_poll_outcome \<times> 'w) option" where
  "poll_acquire guest_timeout_ns quantum_ns timeout_result host w =
     (if guest_timeout_ns = 0
      then let (r, w') = try_acquire host 0 w in Some (\<lparr>ao_result = r, ao_aborted = False\<rparr>, w')
      else if guest_timeout_ns = kInfiniteTimeout
      then acquire_loop host guest_timeout_ns quantum_ns timeout_result 0 w
      else let (start, w') = now_ns host w
           in acquire_loop host guest_timeout_ns quantum_ns timeout_result start w')"

section \<open>Rounds\<close>

text \<open>\<open>rounds n w w'\<close>: from \<open>w\<close> the loop goes on \<open>n\<close> times and is then in \<open>w'\<close>.\<close>

fun rounds :: "('w \<Rightarrow> 'w acquire_round) \<Rightarrow> nat \<Rightarrow> 'w \<Rightarrow> 'w \<Rightarrow> bool" where
  "rounds pass 0 w w' \<longleftrightarrow> w = w'"
| "rounds pass (Suc n) w w' \<longleftrightarrow> (\<exists>w1. pass w = Again w1 \<and> rounds pass n w1 w')"

lemma acquire_loop_decides:
  "rounds (acquire_pass host g q t start) n w w' \<Longrightarrow> acquire_pass host g q t start w' = Done out w'' \<Longrightarrow>
     acquire_loop host g q t start w = Some (out, w'')"
proof (induction n arbitrary: w)
  case 0
  then show ?case by (subst acquire_loop.simps) simp
next
  case (Suc n)
  then obtain w1 where "acquire_pass host g q t start w = Again w1" "acquire_loop host g q t start w1 = Some (out, w'')" by auto
  then show ?case by (subst acquire_loop.simps) simp
qed

lemma acquire_loop_rounds:
  assumes "acquire_loop host g q t start w = Some (out, w'')"
  shows "\<exists>n w'. rounds (acquire_pass host g q t start) n w w' \<and> acquire_pass host g q t start w' = Done out w''"
proof -
  let ?P = "\<lambda>host g q t start w y. \<exists>n w'. rounds (acquire_pass host g q t start) n w w' \<and> acquire_pass host g q t start w' = Done (fst y) (snd y)"
  have "?P host g q t start w (out, w'')"
  proof (rule acquire_loop.raw_induct [of ?P, OF _ assms])
    fix loop :: "'a acquire_host \<Rightarrow> nat \<Rightarrow> nat \<Rightarrow> int \<Rightarrow> nat \<Rightarrow> 'a \<Rightarrow> (acquire_poll_outcome \<times> 'a) option" and host g q t start w y
    assume ih: "\<And>host g q t start w y. loop host g q t start w = Some y \<Longrightarrow> ?P host g q t start w y"
      and step: "(case acquire_pass host g q t start w of Done out w' \<Rightarrow> Some (out, w') | Again x \<Rightarrow> loop host g q t start x) = Some y"
    show "?P host g q t start w y"
    proof (cases "acquire_pass host g q t start w")
      case (Done o' v)
      then show ?thesis using step by (intro exI [of _ 0] exI [of _ w]) auto
    next
      case (Again v)
      then obtain n w' where "rounds (acquire_pass host g q t start) n v w'" "acquire_pass host g q t start w' = Done (fst y) (snd y)"
        using step ih [of host g q t start v y] by auto
      then show ?thesis using Again by (intro exI [of _ "Suc n"] exI [of _ w']) simp
    qed
  qed
  then show ?thesis by simp
qed

section \<open>A finite wait returns\<close>

text \<open>
  What the loop relies on of the host: the clock reads the time of the world and does not go back,
  stays inside 64 bits, and a host acquire that reports a timeout took at least the time it was
  given.
\<close>

definition host_keeps_time :: "'w acquire_host \<Rightarrow> ('w \<Rightarrow> nat) \<Rightarrow> int \<Rightarrow> bool" where
  "host_keeps_time host time timeout_result \<longleftrightarrow>
     (\<forall>w. time w < 2 ^ 64 \<and>
       time w \<le> fst (now_ns host w) \<and> fst (now_ns host w) \<le> time (snd (now_ns host w)) \<and>
       time w \<le> time (snd (is_aborting host w)) \<and>
       (\<forall>n. fst (try_acquire host n w) = timeout_result \<longrightarrow> time w + n \<le> time (snd (try_acquire host n w))))"

lemma again_takes_time:
  assumes "host_keeps_time host time t" "acquire_pass host g q t start w = Again w'" "start \<le> time w" "g \<noteq> kInfiniteTimeout" "0 < q"
  shows "time w < time w' \<and> time w < start + g"
proof -
  obtain ab w1 now w2 where o: "is_aborting host w = (ab, w1)" "now_ns host w1 = (now, w2)" by force
  have t: "time w \<le> time w1" "time w1 \<le> now" "now \<le> time w2" "time w2 < 2 ^ 64"
    using assms(1) o unfolding host_keeps_time_def by (metis fst_conv snd_conv)+
  have e: "u64_of_int (int now - int start) = now - start"
    using t assms(3) by (simp add: u64_of_int_def nat_diff_distrib of_nat_diff [symmetric] zmod_int [symmetric] del: of_nat_diff)
  define n where "n = (if g - (now - start) < q then g - (now - start) else q)"
  have live: "\<not> ab" "now - start < g" using assms(2,4) o e by (auto simp: acquire_pass_def Let_def split: if_splits)
  have n: "0 < n" "try_for host t n w2 = Again w'"
    using assms(2,4,5) o e live by (simp_all add: n_def acquire_pass_def Let_def)
  have "try_acquire host n w2 = (t, w')" using n(2) by (auto simp: try_for_def split: prod.splits if_splits)
  then have "time w2 + n \<le> time w'" using assms(1) unfolding host_keeps_time_def by (metis fst_conv snd_conv)
  then show ?thesis using t n(1) live assms(3) by linarith
qed

text \<open>As long as the loop goes on, time passes; so it goes on only finitely often before the budget is spent.\<close>

lemma rounds_bounded:
  assumes "host_keeps_time host time t" "g \<noteq> kInfiniteTimeout" "0 < q" "start \<le> time w"
  shows "\<exists>n w' out w''. rounds (acquire_pass host g q t start) n w w' \<and> acquire_pass host g q t start w' = Done out w''"
  using assms(4)
proof (induction "start + g - time w" arbitrary: w rule: less_induct)
  case less
  show ?case
  proof (cases "acquire_pass host g q t start w")
    case (Done out w'')
    then show ?thesis by (intro exI [of _ 0]) auto
  next
    case (Again v)
    have tm: "time w < time v" "time w < start + g" using again_takes_time [OF assms(1) Again less.prems assms(2,3)] by auto
    have "start + g - time v < start + g - time w" "start \<le> time v" using tm less.prems by linarith+
    then obtain n w' out w'' where "rounds (acquire_pass host g q t start) n v w'" "acquire_pass host g q t start w' = Done out w''"
      using less.hyps [of v] by blast
    then show ?thesis using Again by (intro exI [of _ "Suc n"] exI [of _ w']) auto
  qed
qed

text \<open>What the last pass says: an abort, a result of the host other than a timeout, or a budget that is spent.\<close>

lemma done_honest:
  assumes "host_keeps_time host time t" "acquire_pass host g q t start w = Done out w'" "start \<le> time w"
  shows "ao_aborted out \<or> ao_result out \<noteq> t \<or> (g \<noteq> kInfiniteTimeout \<and> start + g \<le> time w')"
proof -
  obtain ab w1 now w2 where o: "is_aborting host w = (ab, w1)" "now_ns host w1 = (now, w2)" by force
  have t: "time w \<le> time w1" "time w1 \<le> now" "now \<le> time w2" "time w2 < 2 ^ 64"
    using assms(1) o unfolding host_keeps_time_def by (metis fst_conv snd_conv)+
  have e: "u64_of_int (int now - int start) = now - start"
    using t assms(3) by (simp add: u64_of_int_def nat_diff_distrib of_nat_diff [symmetric] zmod_int [symmetric] del: of_nat_diff)
  have tr: "ao_result out \<noteq> t" if "try_for host t n v = Done out w'" for n v
    using that by (auto simp: try_for_def split: prod.splits if_splits)
  show ?thesis
  proof (cases "ab \<or> g = kInfiniteTimeout")
    case True
    then show ?thesis using assms(2) o tr by (auto simp: acquire_pass_def split: if_splits)
  next
    case False
    then show ?thesis using assms(2,3) o t tr by (auto simp: acquire_pass_def e Let_def split: if_splits)
  qed
qed

lemma rounds_keep_start:
  "host_keeps_time host time t \<Longrightarrow> g \<noteq> kInfiniteTimeout \<Longrightarrow> 0 < q \<Longrightarrow> rounds (acquire_pass host g q t start) n w w' \<Longrightarrow>
     start \<le> time w \<Longrightarrow> start \<le> time w'"
proof (induction n arbitrary: w)
  case (Suc n)
  then obtain v where v: "acquire_pass host g q t start w = Again v" "rounds (acquire_pass host g q t start) n v w'" by auto
  have "start \<le> time v" using again_takes_time [OF Suc.prems(1) v(1) Suc.prems(5,2,3)] Suc.prems(5) by linarith
  then show ?case using Suc.IH [OF Suc.prems(1-3) v(2)] by blast
qed simp

text \<open>
  C36: A wait with a finite budget and a positive quantum always returns, on a host whose clock does
  not go back and whose timeouts take their time; and it reports a timeout to the guest only when
  the whole budget has passed, never for an image, an error or an abort.
\<close>

theorem poll_acquire_finite:
  assumes "host_keeps_time host time t" "0 < g" "g < kInfiniteTimeout" "0 < q"
  shows "\<exists>out w'. poll_acquire g q t host w = Some (out, w') \<and>
    (ao_aborted out \<or> ao_result out \<noteq> t \<or> time w + g \<le> time w')"
proof -
  have fin: "g \<noteq> kInfiniteTimeout" using assms(3) by simp
  obtain start v where v: "now_ns host w = (start, v)" by force
  then have le: "time w \<le> start" "start \<le> time v"
    using assms(1) unfolding host_keeps_time_def by (metis fst_conv snd_conv)+
  obtain n u out w' where r: "rounds (acquire_pass host g q t start) n v u" "acquire_pass host g q t start u = Done out w'"
    using rounds_bounded [OF assms(1) fin assms(4) le(2)] by blast
  have "start \<le> time u" by (rule rounds_keep_start [OF assms(1) fin assms(4) r(1) le(2)])
  then have "ao_aborted out \<or> ao_result out \<noteq> t \<or> start + g \<le> time w'" using done_honest [OF assms(1) r(2)] by blast
  moreover have "poll_acquire g q t host w = Some (out, w')"
    using assms(2,3) v acquire_loop_decides [OF r] by (simp add: poll_acquire_def)
  ultimately show ?thesis using le by auto
qed

text \<open>A host on which no image ever comes: each wait takes the time it was given.\<close>

definition clock64 :: "nat \<Rightarrow> nat" where
  "clock64 w = min w (2 ^ 64 - 1)"

definition idle_host :: "nat acquire_host" where
  "idle_host = \<lparr>try_acquire = (\<lambda>n w. if w + n < 2 ^ 64 then (2, w + n) else (0, w)), is_aborting = (\<lambda>w. (False, w)), now_ns = (\<lambda>w. (clock64 w, w))\<rparr>"

theorem poll_acquire_finite_witness:
  "\<exists>out w'. poll_acquire 120 50 2 idle_host 7 = Some (out, w') \<and> (ao_aborted out \<or> ao_result out \<noteq> 2 \<or> clock64 7 + 120 \<le> clock64 w')"
  by (rule poll_acquire_finite) (auto simp: host_keeps_time_def idle_host_def clock64_def)

text \<open>An infinite wait is never answered with a timeout the host did not end with.\<close>

lemma poll_acquire_infinite:
  assumes "poll_acquire kInfiniteTimeout q t host w = Some (out, w')"
  shows "ao_aborted out \<or> ao_result out \<noteq> t"
proof -
  obtain n u where "acquire_pass host kInfiniteTimeout q t 0 u = Done out w'"
    using acquire_loop_rounds [of host kInfiniteTimeout q t 0 w] assms by (auto simp: poll_acquire_def)
  then show ?thesis by (auto simp: acquire_pass_def try_for_def split: prod.splits if_splits)
qed

end
