(* ===== verification/Draw_Validation.thy ===== *)
theory Draw_Validation
  imports Prelude
begin

unbundle bit_operations_syntax

text \<open>
  The structural checks shared by the driver and both worker backends: indirect draws and dispatches
  (src/vkrelay2/common/vkrpc/indirect_draw_validation.h) and pipeline specialization constants
  (src/vkrelay2/common/vkrpc/pipeline_specialization_validation.h). A predicate that fails writes a
  reason; the model returns it as \<^term>\<open>Inl\<close>. The comparisons are written as in the source, with the
  64-bit subtraction and division that keep every sum inside the type; the theorems compare them
  with the same conditions over unbounded integers.
\<close>

section \<open>Indirect draws\<close>

record buffer_obj =
  bo_device :: nat
  bo_bound_memory :: nat
  bo_usage :: nat
  bo_size :: nat

record indirect_buffer =
  ib_live :: bool
  ib_bound :: bool
  ib_has_indirect_usage :: bool
  ib_size :: nat

definition live_device_buffer :: "(nat \<rightharpoonup> buffer_obj) \<Rightarrow> nat \<Rightarrow> nat \<Rightarrow> buffer_obj option" where
  "live_device_buffer buffers handle device =
     (case buffers handle of Some b \<Rightarrow> if bo_device b = device then Some b else None | None \<Rightarrow> None)"

definition indirect_buffer_state :: "buffer_obj option \<Rightarrow> nat \<Rightarrow> indirect_buffer" where
  "indirect_buffer_state buffer indirect_usage =
     (case buffer of
        None \<Rightarrow> \<lparr>ib_live = False, ib_bound = False, ib_has_indirect_usage = False, ib_size = 0\<rparr>
      | Some b \<Rightarrow> \<lparr>ib_live = True, ib_bound = (bo_bound_memory b \<noteq> 0),
                   ib_has_indirect_usage = (bo_usage b AND indirect_usage \<noteq> 0), ib_size = bo_size b\<rparr>)"

definition indirect_buffer_ok :: "indirect_buffer \<Rightarrow> string \<Rightarrow> string \<Rightarrow> string \<Rightarrow> string + unit" where
  "indirect_buffer_ok buffer live_reason bound_reason usage_reason =
     rbind (ensure (ib_live buffer) live_reason) (\<lambda>_.
     rbind (ensure (ib_bound buffer) bound_reason) (\<lambda>_.
     ensure (ib_has_indirect_usage buffer) usage_reason))"

abbreviation max_u64 :: nat where "max_u64 \<equiv> 18446744073709551615"
abbreviation max_u32 :: nat where "max_u32 \<equiv> 4294967295"

definition indirect_range_ok :: "nat \<Rightarrow> nat \<Rightarrow> nat \<Rightarrow> nat \<Rightarrow> nat \<Rightarrow> string \<Rightarrow> string \<Rightarrow> string + unit" where
  "indirect_range_ok buffer_size offset repeats stride command_size overflow_reason range_reason =
     rbind (ensure (\<not> (repeats \<noteq> 0 \<and> stride > (max_u64 - offset) div repeats)) overflow_reason) (\<lambda>_.
     let last = u64 (offset + u64 (repeats * stride)) in
     rbind (ensure (\<not> command_size > max_u64 - last) overflow_reason) (\<lambda>_.
     ensure (\<not> u64 (last + command_size) > buffer_size) range_reason))"

definition dispatch_indirect_ok :: "indirect_buffer \<Rightarrow> nat \<Rightarrow> string + unit" where
  "dispatch_indirect_ok buffer offset =
     rbind (ensure (\<not> (\<not> ib_live buffer \<or> \<not> ib_bound buffer)) ''dispatch_indirect buffer is not live/bound on the device'') (\<lambda>_.
     rbind (ensure (ib_has_indirect_usage buffer) ''dispatch_indirect buffer lacks INDIRECT_BUFFER usage'') (\<lambda>_.
     ensure (\<not> (offset mod 4 \<noteq> 0 \<or> offset > ib_size buffer \<or> 12 > ib_size buffer - offset))
       ''dispatch_indirect offset misaligned or out of range''))"

definition core_indirect_draw_ok :: "indirect_buffer \<Rightarrow> nat \<Rightarrow> int \<Rightarrow> int \<Rightarrow> nat \<Rightarrow> bool \<Rightarrow> string + unit" where
  "core_indirect_draw_ok buffer offset draw_count stride command_size multi_draw_indirect_enabled =
     rbind (indirect_buffer_ok buffer ''indirect draw buffer is not live on the device''
              ''indirect draw buffer is not bound to memory'' ''indirect draw buffer lacks INDIRECT_BUFFER usage'') (\<lambda>_.
     rbind (ensure (\<not> (draw_count < 0 \<or> nat draw_count > max_u32)) ''indirect drawCount is outside the uint32 range'') (\<lambda>_.
     rbind (ensure (\<not> (stride < 0 \<or> nat stride > max_u32)) ''indirect draw stride is outside the uint32 range'') (\<lambda>_.
     rbind (ensure (\<not> (draw_count > 1 \<and> \<not> multi_draw_indirect_enabled))
              ''indirect drawCount > 1 requires the enabled multiDrawIndirect feature'') (\<lambda>_.
     rbind (ensure (offset mod 4 = 0) ''indirect draw offset is not 4-byte aligned'') (\<lambda>_.
     if draw_count = 0 then Inr ()
     else
       rbind (ensure (\<not> (draw_count > 1 \<and> (nat stride mod 4 \<noteq> 0 \<or> nat stride < command_size)))
                ''multi-draw indirect stride is misaligned or smaller than the command'') (\<lambda>_.
       indirect_range_ok (ib_size buffer) offset (nat draw_count - 1) (nat stride) command_size
         ''indirect draw range overflows'' ''indirect draw range exceeds the buffer''))))))"

definition core_indirect_count_draw_ok ::
  "bool \<Rightarrow> indirect_buffer \<Rightarrow> indirect_buffer \<Rightarrow> nat \<Rightarrow> nat \<Rightarrow> int \<Rightarrow> int \<Rightarrow> nat \<Rightarrow> string + unit" where
  "core_indirect_count_draw_ok command_enabled buffer count_buffer offset count_buffer_offset max_draw_count stride command_size =
     rbind (ensure command_enabled ''indirect-count draw requires the enabled core feature or KHR extension'') (\<lambda>_.
     rbind (indirect_buffer_ok buffer ''indirect-count draw buffer is not live on the device''
              ''indirect-count draw buffer is not bound to memory'' ''indirect-count draw buffer lacks INDIRECT_BUFFER usage'') (\<lambda>_.
     rbind (indirect_buffer_ok count_buffer ''indirect-count count buffer is not live on the device''
              ''indirect-count count buffer is not bound to memory'' ''indirect-count count buffer lacks INDIRECT_BUFFER usage'') (\<lambda>_.
     rbind (ensure (offset mod 4 = 0) ''indirect-count draw offset is not 4-byte aligned'') (\<lambda>_.
     rbind (ensure (count_buffer_offset mod 4 = 0) ''indirect-count countBufferOffset is not 4-byte aligned'') (\<lambda>_.
     rbind (ensure (\<not> (count_buffer_offset > ib_size count_buffer \<or> 4 > ib_size count_buffer - count_buffer_offset))
              ''indirect-count four-byte count slot exceeds the count buffer'') (\<lambda>_.
     rbind (ensure (\<not> (max_draw_count < 0 \<or> nat max_draw_count > max_u32)) ''indirect-count maxDrawCount is outside the uint32 range'') (\<lambda>_.
     rbind (ensure (\<not> (stride < 0 \<or> nat stride > max_u32)) ''indirect-count stride is outside the uint32 range'') (\<lambda>_.
     rbind (ensure (\<not> (nat stride mod 4 \<noteq> 0 \<or> nat stride < command_size))
              ''indirect-count stride is misaligned or smaller than the command'') (\<lambda>_.
     if max_draw_count = 0 then Inr ()
     else indirect_range_ok (ib_size buffer) offset (nat max_draw_count - 1) (nat stride) command_size
            ''indirect-count draw range overflows'' ''indirect-count draw range exceeds the buffer'')))))))))"

section \<open>Specialization constants\<close>

abbreviation kMaxSpecializationMapEntriesPerStage :: nat where "kMaxSpecializationMapEntriesPerStage \<equiv> 256"
abbreviation kMaxSpecializationMapEntriesPerRequest :: nat where "kMaxSpecializationMapEntriesPerRequest \<equiv> 512"
abbreviation kMaxSpecializationDataBytesPerStage :: nat where "kMaxSpecializationDataBytesPerStage \<equiv> 65536"

record specialization_entry =
  sp_constant_id :: int
  sp_offset :: int
  sp_size :: int

record specialization_info =
  si_present :: bool
  si_map_entries :: "specialization_entry list"
  si_data :: string

text \<open>The first loop: the shape of each stage's descriptor (\<^term>\<open>None\<close> is a null pointer) and the totals.\<close>

fun specialization_totals :: "specialization_info option list \<Rightarrow> nat \<Rightarrow> nat \<Rightarrow> string + nat \<times> nat" where
  "specialization_totals [] total_entries total_data = Inr (total_entries, total_data)"
| "specialization_totals (None # infos) total_entries total_data = Inl ''pipeline specialization descriptor is null''"
| "specialization_totals (Some info # infos) total_entries total_data =
     (let entries = length (si_map_entries info); bytes = length (si_data info) in
      if \<not> si_present info \<and> (si_map_entries info \<noteq> [] \<or> si_data info \<noteq> [])
      then Inl ''absent pipeline specialization carries entries or data''
      else if entries > kMaxSpecializationMapEntriesPerStage
      then Inl ''pipeline specialization map entry count exceeds per-stage cap''
      else if bytes > kMaxSpecializationDataBytesPerStage
      then Inl ''pipeline specialization data size exceeds per-stage cap''
      else if total_entries > max_u64 - entries \<or> total_data > max_u64 - bytes
      then Inl ''pipeline specialization request totals overflow''
      else specialization_totals infos (total_entries + entries) (total_data + bytes))"

definition specialization_entry_ok :: "nat \<Rightarrow> specialization_entry \<Rightarrow> string + unit" where
  "specialization_entry_ok data_size entry =
     rbind (ensure (\<not> (sp_constant_id entry < 0 \<or> nat (sp_constant_id entry) > max_u32)) ''pipeline specialization constantID is outside uint32'') (\<lambda>_.
     rbind (ensure (\<not> (sp_offset entry < 0 \<or> nat (sp_offset entry) > max_u32)) ''pipeline specialization offset is outside uint32'') (\<lambda>_.
     rbind (ensure (\<not> sp_size entry < 0) ''pipeline specialization size is negative or not representable'') (\<lambda>_.
     rbind (ensure (\<not> nat (sp_offset entry) \<ge> data_size) ''pipeline specialization offset must be less than dataSize'') (\<lambda>_.
     ensure (\<not> nat (sp_size entry) > data_size - nat (sp_offset entry)) ''pipeline specialization size exceeds dataSize minus offset''))))"

fun adjacent_equal :: "'a list \<Rightarrow> bool" where
  "adjacent_equal (x # y # xs) \<longleftrightarrow> x = y \<or> adjacent_equal (y # xs)"
| "adjacent_equal xs \<longleftrightarrow> False"

fun specialization_entries_ok :: "nat \<Rightarrow> specialization_entry list \<Rightarrow> string + unit" where
  "specialization_entries_ok data_size [] = Inr ()"
| "specialization_entries_ok data_size (e # es) = rbind (specialization_entry_ok data_size e) (\<lambda>_. specialization_entries_ok data_size es)"

fun specialization_stages_ok :: "specialization_info option list \<Rightarrow> string + unit" where
  "specialization_stages_ok (Some info # infos) =
     rbind (specialization_entries_ok (length (si_data info)) (si_map_entries info)) (\<lambda>_.
     rbind (ensure (\<not> adjacent_equal (sort (map sp_constant_id (si_map_entries info))))
              ''pipeline specialization constantID values must be unique'') (\<lambda>_.
     specialization_stages_ok infos))"
| "specialization_stages_ok _ = Inr ()"

definition pipeline_specialization_ok :: "specialization_info option list \<Rightarrow> nat \<Rightarrow> string + unit" where
  "pipeline_specialization_ok infos max_request_data_bytes =
     rbind (specialization_totals infos 0 0) (\<lambda>(total_entries, total_data).
     rbind (ensure (\<not> total_entries > kMaxSpecializationMapEntriesPerRequest)
              ''pipeline specialization map entry count exceeds request cap'') (\<lambda>_.
     rbind (ensure (\<not> total_data > max_request_data_bytes) ''pipeline specialization data size exceeds request cap'') (\<lambda>_.
     specialization_stages_ok infos)))"

definition pipeline_entry_point_name_ok :: "string \<Rightarrow> string + unit" where
  "pipeline_entry_point_name_ok name = ensure (\<not> length name > 4096) ''pipeline stage entry-point name exceeds 4096-byte cap''"

section \<open>The range check is exact\<close>

text \<open>The guarded 64-bit computation accepts exactly when the unbounded end of the range fits the buffer.\<close>

lemma indirect_range_exact:
  assumes "buffer_size \<le> max_u64" "offset \<le> max_u64"
  shows "indirect_range_ok buffer_size offset repeats stride command_size o_reason r_reason = Inr () \<longleftrightarrow>
    offset + repeats * stride + command_size \<le> buffer_size"
proof -
  have fits: "\<not> (repeats \<noteq> 0 \<and> stride > (max_u64 - offset) div repeats) \<longleftrightarrow> offset + repeats * stride \<le> max_u64"
  proof (cases "repeats = 0")
    case False
    then have "stride \<le> (max_u64 - offset) div repeats \<longleftrightarrow> stride * repeats \<le> max_u64 - offset"
      by (simp add: less_eq_div_iff_mult_less_eq)
    then show ?thesis using False assms(2) by (auto simp: mult.commute)
  qed (use assms in simp)
  show ?thesis
  proof (cases "offset + repeats * stride \<le> max_u64")
    case True
    then have l: "u64 (offset + u64 (repeats * stride)) = offset + repeats * stride" by (simp add: u64_id)
    show ?thesis
    proof (cases "offset + repeats * stride + command_size \<le> max_u64")
      case True
      then have "u64 (offset + repeats * stride + command_size) = offset + repeats * stride + command_size"
        "\<not> command_size > max_u64 - (offset + repeats * stride)" by (simp_all add: u64_id)
      then show ?thesis using \<open>offset + repeats * stride \<le> max_u64\<close>
        unfolding indirect_range_ok_def fits l Let_def by (simp add: result_simps not_less)
    next
      case False
      then have "command_size > max_u64 - (offset + repeats * stride)" using \<open>offset + repeats * stride \<le> max_u64\<close> by (subst less_diff_conv2) auto
      then show ?thesis using False assms(1) unfolding indirect_range_ok_def fits l Let_def by (simp add: result_simps)
    qed
  next
    case False
    then show ?thesis using assms(1) unfolding indirect_range_ok_def fits by (auto simp: result_simps)
  qed
qed

definition command_bytes :: "nat \<Rightarrow> nat \<Rightarrow> nat \<Rightarrow> nat \<Rightarrow> nat set" where
  "command_bytes offset stride command_size i = {offset + i * stride ..< offset + i * stride + command_size}"

lemma last_command_bounds:
  assumes "0 < command_size" "0 < n"
  shows "offset + (n - 1) * stride + command_size \<le> limit \<longleftrightarrow> (\<forall>i<n. command_bytes offset stride command_size i \<subseteq> {..<limit})"
proof
  assume le: "offset + (n - 1) * stride + command_size \<le> limit"
  have "command_bytes offset stride command_size i \<subseteq> {..<limit}" if "i < n" for i
  proof -
    have "i * stride \<le> (n - 1) * stride" using that by (intro mult_le_mono1) simp
    then have "offset + i * stride + command_size \<le> limit" using le by linarith
    then show ?thesis by (auto simp: command_bytes_def)
  qed
  then show "\<forall>i<n. command_bytes offset stride command_size i \<subseteq> {..<limit}" by blast
next
  assume all: "\<forall>i<n. command_bytes offset stride command_size i \<subseteq> {..<limit}"
  have "offset + (n - 1) * stride + command_size - 1 \<in> command_bytes offset stride command_size (n - 1)"
    using assms by (simp add: command_bytes_def)
  moreover have "n - 1 < n" using assms by simp
  ultimately have "offset + (n - 1) * stride + command_size - 1 \<in> {..<limit}" using all by blast
  then show "offset + (n - 1) * stride + command_size \<le> limit" using assms by auto
qed

text \<open>
  C37: An indirect draw is accepted exactly when its buffer is live, bound and usable, count and stride
  are 32-bit, more than one draw has the feature and separated aligned commands, and the bytes of
  every command the host may read lie inside the buffer, computed without wrap-around; every
  accepted command is then inside the buffer and 4-byte aligned.
\<close>

theorem indirect_draw_exact:
  assumes "offset \<le> max_u64" "ib_size buffer \<le> max_u64" "0 < command_size"
  shows "core_indirect_draw_ok buffer offset draw_count stride command_size multi = Inr () \<longleftrightarrow>
    ib_live buffer \<and> ib_bound buffer \<and> ib_has_indirect_usage buffer \<and> 0 \<le> draw_count \<and> draw_count < 2 ^ 32 \<and>
    0 \<le> stride \<and> stride < 2 ^ 32 \<and> 4 dvd offset \<and>
    (1 < draw_count \<longrightarrow> multi \<and> 4 dvd stride \<and> int command_size \<le> stride) \<and>
    (\<forall>i<nat draw_count. command_bytes offset (nat stride) command_size i \<subseteq> {..<ib_size buffer})"
proof -
  have s: "nat stride mod 4 = 0 \<longleftrightarrow> 4 dvd stride" if "0 \<le> stride"
    using that by (metis dvd_eq_mod_eq_0 int_dvd_int_iff int_nat_eq of_nat_numeral)
  have r: "nat n > max_u32 \<longleftrightarrow> \<not> n < 2 ^ 32" if "0 \<le> n" for n using that by (simp add: nat_less_iff zless_nat_conj not_less) linarith
  have accept: "core_indirect_draw_ok buffer offset draw_count stride command_size multi = Inr () \<longleftrightarrow>
    (ib_live buffer \<and> ib_bound buffer \<and> ib_has_indirect_usage buffer) \<and> draw_count < 2 ^ 32 \<and> stride < 2 ^ 32 \<and>
    (1 < draw_count \<longrightarrow> multi) \<and> 4 dvd offset \<and>
    (draw_count = 0 \<or> (1 < draw_count \<longrightarrow> 4 dvd stride \<and> command_size \<le> nat stride) \<and>
       offset + (nat draw_count - 1) * nat stride + command_size \<le> ib_size buffer)"
    if "0 \<le> draw_count" "0 \<le> stride"
    using r [OF that(1)] r [OF that(2)] s [OF that(2)] that
    unfolding core_indirect_draw_ok_def indirect_buffer_ok_def dvd_eq_mod_eq_0
    by (cases "draw_count = 0") (simp_all only: result_simps ensure_simps rbind_eq_Inr indirect_range_exact [OF assms(2,1)] if_True if_False, auto)
  show ?thesis
  proof (cases "0 \<le> draw_count \<and> 0 \<le> stride")
    case True
    then have c: "command_size \<le> nat stride \<longleftrightarrow> int command_size \<le> stride" by linarith
    show ?thesis
    proof (cases "draw_count = 0")
      case False
      then show ?thesis using True accept c last_command_bounds [OF assms(3), of "nat draw_count" offset "nat stride" "ib_size buffer"] by auto
    qed (use True accept in auto)
  next
    case False
    then show ?thesis unfolding core_indirect_draw_ok_def by (auto simp: result_simps)
  qed
qed

definition sample_indirect :: indirect_buffer where
  "sample_indirect = indirect_buffer_state (live_device_buffer [7 \<mapsto> \<lparr>bo_device = 1, bo_bound_memory = 3, bo_usage = 0x100, bo_size = 64\<rparr>] 7 1) 0x100"

theorem indirect_draw_exact_witness:
  "core_indirect_draw_ok sample_indirect 4 3 20 20 True = Inr () \<and> core_indirect_draw_ok sample_indirect 8 3 20 20 True \<noteq> Inr ()"
proof -
  have buf: "ib_live sample_indirect" "ib_bound sample_indirect" "ib_has_indirect_usage sample_indirect" "ib_size sample_indirect = 64"
    by (simp_all add: sample_indirect_def indirect_buffer_state_def live_device_buffer_def)
  have "\<forall>i<3. command_bytes 4 20 20 i \<subseteq> {..<64}" by (auto simp: command_bytes_def)
  moreover have "67 \<in> command_bytes 8 20 20 2" by (simp add: command_bytes_def)
  then have "\<not> command_bytes 8 20 20 2 \<subseteq> {..<64}" by (auto dest: subsetD)
  then have "\<not> (\<forall>i<3. command_bytes 8 20 20 i \<subseteq> {..<64})" by (intro notI) (drule spec [of _ 2], simp)
  ultimately show ?thesis
    using indirect_draw_exact [of 4 sample_indirect 20 3 20 True] indirect_draw_exact [of 8 sample_indirect 20 3 20 True] buf by simp
qed

text \<open>The count-sourced draws and the indirect dispatch read only inside their buffers too.\<close>

lemma indirect_count_safe:
  assumes "core_indirect_count_draw_ok en buffer count_buffer offset coff max_draws stride command_size = Inr ()"
    and "offset \<le> max_u64" "ib_size buffer \<le> max_u64" "0 < command_size" "i < nat max_draws"
  shows "command_bytes offset (nat stride) command_size i \<subseteq> {..<ib_size buffer} \<and> coff + 4 \<le> ib_size count_buffer \<and> en"
proof -
  have nz: "max_draws \<noteq> 0" "0 < nat max_draws" using assms(5) by auto
  have "en" "\<not> (coff > ib_size count_buffer \<or> 4 > ib_size count_buffer - coff)"
    "indirect_range_ok (ib_size buffer) offset (nat max_draws - 1) (nat stride) command_size
       ''indirect-count draw range overflows'' ''indirect-count draw range exceeds the buffer'' = Inr ()"
    using assms(1) nz(1) unfolding core_indirect_count_draw_ok_def by (simp_all only: result_simps ensure_simps rbind_eq_Inr if_False) blast+
  then show ?thesis
    using assms(5) last_command_bounds [OF assms(4) nz(2), of offset "nat stride" "ib_size buffer"]
    by (auto simp: indirect_range_exact [OF assms(3,2)])
qed

lemma dispatch_indirect_exact:
  "dispatch_indirect_ok buffer offset = Inr () \<longleftrightarrow>
     ib_live buffer \<and> ib_bound buffer \<and> ib_has_indirect_usage buffer \<and> 4 dvd offset \<and> offset + 12 \<le> ib_size buffer"
  unfolding dispatch_indirect_ok_def dvd_eq_mod_eq_0 by (auto simp: result_simps)

section \<open>Accepted specializations\<close>

lemma adjacent_equal_sorted: "sorted xs \<Longrightarrow> adjacent_equal xs \<longleftrightarrow> \<not> distinct xs"
  by (induction xs rule: adjacent_equal.induct) (auto simp: order_antisym)

definition stage_shape :: "specialization_info \<Rightarrow> bool" where
  "stage_shape info \<longleftrightarrow> (si_present info \<or> si_map_entries info = [] \<and> si_data info = []) \<and>
     length (si_map_entries info) \<le> 256 \<and> length (si_data info) \<le> 65536"

definition stage_bounds :: "specialization_info \<Rightarrow> bool" where
  "stage_bounds info \<longleftrightarrow> distinct (map sp_constant_id (si_map_entries info)) \<and>
     list_all (\<lambda>e. 0 \<le> sp_constant_id e \<and> sp_constant_id e < 2 ^ 32 \<and> 0 \<le> sp_offset e \<and> sp_offset e < 2 ^ 32 \<and> 0 \<le> sp_size e \<and>
       sp_offset e < int (length (si_data info)) \<and> sp_offset e + sp_size e \<le> int (length (si_data info))) (si_map_entries info)"

lemma specialization_entry_exact:
  "specialization_entry_ok n e = Inr () \<longleftrightarrow>
     0 \<le> sp_constant_id e \<and> sp_constant_id e < 2 ^ 32 \<and> 0 \<le> sp_offset e \<and> sp_offset e < 2 ^ 32 \<and> 0 \<le> sp_size e \<and>
     sp_offset e < int n \<and> sp_offset e + sp_size e \<le> int n"
  unfolding specialization_entry_ok_def by (auto simp: result_simps not_less nat_less_iff nat_le_iff)

lemma specialization_entries_exact: "specialization_entries_ok n es = Inr () \<longleftrightarrow> list_all (\<lambda>e. specialization_entry_ok n e = Inr ()) es"
  by (induction es) (auto simp: result_simps)

lemma specialization_stages_exact: "specialization_stages_ok (map Some infos) = Inr () \<longleftrightarrow> list_all stage_bounds infos"
  by (induction infos)
    (auto simp: result_simps specialization_entries_exact specialization_entry_exact stage_bounds_def adjacent_equal_sorted)

lemma specialization_totals_exact:
  "n + sum_list (map (\<lambda>i. length (si_map_entries i)) infos) \<le> max_u64 \<Longrightarrow> m + sum_list (map (\<lambda>i. length (si_data i)) infos) \<le> max_u64 \<Longrightarrow>
   specialization_totals (map Some infos) n m = Inr t \<longleftrightarrow>
     list_all stage_shape infos \<and>
     t = (n + sum_list (map (\<lambda>i. length (si_map_entries i)) infos), m + sum_list (map (\<lambda>i. length (si_data i)) infos))"
proof (induction infos arbitrary: n m)
  case (Cons i infos)
  have "\<not> (n > max_u64 - length (si_map_entries i) \<or> m > max_u64 - length (si_data i))" using Cons.prems by (auto simp: not_less le_diff_conv2)
  then have "specialization_totals (map Some (i # infos)) n m = Inr t \<longleftrightarrow>
      stage_shape i \<and> specialization_totals (map Some infos) (n + length (si_map_entries i)) (m + length (si_data i)) = Inr t"
    by (auto simp: stage_shape_def Let_def)
  then show ?case using Cons.IH [of "n + length (si_map_entries i)" "m + length (si_data i)"] Cons.prems by (simp add: add.assoc)
qed auto

text \<open>
  A request is accepted exactly when every stage has a legal shape, unique 32-bit constant ids and
  every constant inside the stage's data, and the request stays within its caps.
\<close>

lemma specialization_exact:
  assumes "sum_list (map (\<lambda>i. length (si_map_entries i)) infos) \<le> max_u64" "sum_list (map (\<lambda>i. length (si_data i)) infos) \<le> max_u64"
  shows "pipeline_specialization_ok (map Some infos) cap = Inr () \<longleftrightarrow>
    list_all stage_shape infos \<and> list_all stage_bounds infos \<and>
    sum_list (map (\<lambda>i. length (si_map_entries i)) infos) \<le> 512 \<and> sum_list (map (\<lambda>i. length (si_data i)) infos) \<le> cap"
  using specialization_totals_exact [of 0 infos 0] assms
  by (auto simp: pipeline_specialization_ok_def result_simps specialization_stages_exact not_less)

end
