(* ===== verification/Caps_Cache.thy ===== *)
theory Caps_Cache
  imports Prelude "HOL-Library.Product_Lexorder"
begin

text \<open>
  The surface-capabilities cache of the driver (src/vkrelay2/linux/icd/icd_caps_cache.h): which
  swapchains present to which surface, and the capabilities remembered per physical device and
  surface until a signal invalidates them. The capabilities are a type parameter, as in the source.

  \<open>caps_cache_fresh\<close> shows that a lookup serves exactly the latest store that no signal of its
  surface has overtaken.
\<close>

section \<open>The cache\<close>

record 'c caps_cache =
  cc_enabled :: bool
  cc_swapchain_surface :: "nat \<rightharpoonup> nat"
  cc_live :: "nat \<rightharpoonup> nat set"
  cc_cache :: "((nat \<times> nat) \<times> 'c) list"
  cc_hits :: nat
  cc_misses :: nat
  cc_invalidations :: nat

definition new_caps_cache :: "bool \<Rightarrow> 'c caps_cache" where
  "new_caps_cache enabled = \<lparr>cc_enabled = enabled, cc_swapchain_surface = Map.empty, cc_live = Map.empty, cc_cache = [],
     cc_hits = 0, cc_misses = 0, cc_invalidations = 0\<rparr>"

definition invalidate_surface :: "nat \<Rightarrow> 'c caps_cache \<Rightarrow> 'c caps_cache" where
  "invalidate_surface surface c =
     c\<lparr>cc_cache := filter (\<lambda>((pd, s), v). s \<noteq> surface) (cc_cache c),
       cc_invalidations := u64 (cc_invalidations c + length (filter (\<lambda>((pd, s), v). s = surface) (cc_cache c)))\<rparr>"

definition on_swapchain_created :: "nat \<Rightarrow> nat \<Rightarrow> 'c caps_cache \<Rightarrow> 'c caps_cache" where
  "on_swapchain_created swapchain surface c =
     invalidate_surface surface
       (c\<lparr>cc_swapchain_surface := (cc_swapchain_surface c)(swapchain \<mapsto> surface),
          cc_live := (cc_live c)(surface \<mapsto> insert swapchain (case cc_live c surface of None \<Rightarrow> {} | Some l \<Rightarrow> l))\<rparr>)"

definition on_swapchain_destroyed :: "nat \<Rightarrow> 'c caps_cache \<Rightarrow> 'c caps_cache" where
  "on_swapchain_destroyed swapchain c =
     (case cc_swapchain_surface c swapchain of
        None \<Rightarrow> c
      | Some surface \<Rightarrow>
          invalidate_surface surface
            (c\<lparr>cc_swapchain_surface := (cc_swapchain_surface c)(swapchain := None),
               cc_live := (case cc_live c surface of
                             None \<Rightarrow> cc_live c
                           | Some l \<Rightarrow> (cc_live c)(surface := if l - {swapchain} = {} then None else Some (l - {swapchain})))\<rparr>))"

definition on_surface_destroyed :: "nat \<Rightarrow> 'c caps_cache \<Rightarrow> 'c caps_cache" where
  "on_surface_destroyed surface c =
     invalidate_surface surface
       (c\<lparr>cc_swapchain_surface := (\<lambda>sc. if cc_swapchain_surface c sc = Some surface then None else cc_swapchain_surface c sc),
          cc_live := (cc_live c)(surface := None)\<rparr>)"

definition surface_of :: "nat \<Rightarrow> 'c caps_cache \<Rightarrow> nat" where
  "surface_of swapchain c = (case cc_swapchain_surface c swapchain of None \<Rightarrow> 0 | Some surface \<Rightarrow> surface)"

definition invalidate_swapchain :: "nat \<Rightarrow> 'c caps_cache \<Rightarrow> 'c caps_cache" where
  "invalidate_swapchain swapchain c =
     (let surface = surface_of swapchain c in if surface \<noteq> 0 then invalidate_surface surface c else c)"

definition is_live :: "nat \<Rightarrow> 'c caps_cache \<Rightarrow> bool" where
  "is_live surface c = (case cc_live c surface of None \<Rightarrow> False | Some l \<Rightarrow> l \<noteq> {})"

definition caps_lookup :: "nat \<Rightarrow> nat \<Rightarrow> 'c caps_cache \<Rightarrow> 'c option \<times> 'c caps_cache" where
  "caps_lookup physical_device surface c =
     (if \<not> cc_enabled c \<or> \<not> is_live surface c then (None, c\<lparr>cc_misses := u64 (cc_misses c + 1)\<rparr>)
      else case map_of (cc_cache c) (physical_device, surface) of
             None \<Rightarrow> (None, c\<lparr>cc_misses := u64 (cc_misses c + 1)\<rparr>)
           | Some v \<Rightarrow> (Some v, c\<lparr>cc_hits := u64 (cc_hits c + 1)\<rparr>))"

definition caps_store :: "nat \<Rightarrow> nat \<Rightarrow> 'c \<Rightarrow> 'c caps_cache \<Rightarrow> 'c caps_cache" where
  "caps_store physical_device surface caps c =
     (if \<not> cc_enabled c \<or> \<not> is_live surface c then c
      else c\<lparr>cc_cache := omap_put (physical_device, surface) caps (cc_cache c)\<rparr>)"

section \<open>Runs\<close>

datatype 'c caps_op = SwapchainCreated nat nat | SwapchainDestroyed nat | SurfaceDestroyed nat
  | SwapchainSignal nat | SurfaceSignal nat | StoreCaps nat nat 'c | LookupCaps nat nat

fun caps_exec :: "'c caps_op \<Rightarrow> 'c caps_cache \<Rightarrow> 'c caps_cache" where
  "caps_exec (SwapchainCreated sc s) c = on_swapchain_created sc s c"
| "caps_exec (SwapchainDestroyed sc) c = on_swapchain_destroyed sc c"
| "caps_exec (SurfaceDestroyed s) c = on_surface_destroyed s c"
| "caps_exec (SwapchainSignal sc) c = invalidate_swapchain sc c"
| "caps_exec (SurfaceSignal s) c = invalidate_surface s c"
| "caps_exec (StoreCaps pd s v) c = caps_store pd s v c"
| "caps_exec (LookupCaps pd s) c = snd (caps_lookup pd s c)"

text \<open>The driver tracks a swapchain under the handle the worker minted for it: a handle that is in use is not minted again.\<close>

fun fresh_handles :: "'c caps_op list \<Rightarrow> 'c caps_cache \<Rightarrow> bool" where
  "fresh_handles [] c \<longleftrightarrow> True"
| "fresh_handles (op # ops) c \<longleftrightarrow>
     (case op of SwapchainCreated sc s \<Rightarrow> cc_swapchain_surface c sc = None | _ \<Rightarrow> True) \<and> fresh_handles ops (caps_exec op c)"

text \<open>The operations that replace or drop what is remembered for a device and a surface.\<close>

fun touches :: "nat \<Rightarrow> nat \<Rightarrow> 'c caps_op \<Rightarrow> 'c caps_cache \<Rightarrow> bool" where
  "touches pd s (SwapchainCreated sc s') c \<longleftrightarrow> s' = s"
| "touches pd s (SwapchainDestroyed sc) c \<longleftrightarrow> cc_swapchain_surface c sc = Some s"
| "touches pd s (SurfaceDestroyed s') c \<longleftrightarrow> s' = s"
| "touches pd s (SwapchainSignal sc) c \<longleftrightarrow> cc_swapchain_surface c sc = Some s \<and> s \<noteq> 0"
| "touches pd s (SurfaceSignal s') c \<longleftrightarrow> s' = s"
| "touches pd s (StoreCaps pd' s' v) c \<longleftrightarrow> pd' = pd \<and> s' = s"
| "touches pd s (LookupCaps pd' s') c \<longleftrightarrow> False"

fun quiet :: "nat \<Rightarrow> nat \<Rightarrow> 'c caps_op list \<Rightarrow> 'c caps_cache \<Rightarrow> bool" where
  "quiet pd s [] c \<longleftrightarrow> True"
| "quiet pd s (op # ops) c \<longleftrightarrow> \<not> touches pd s op c \<and> quiet pd s ops (caps_exec op c)"

section \<open>The invariant\<close>

definition presenting :: "(nat \<rightharpoonup> nat) \<Rightarrow> nat \<Rightarrow> nat set" where
  "presenting owner s = {sc. owner sc = Some s}"

definition caps_ok :: "'c caps_cache \<Rightarrow> bool" where
  "caps_ok c \<longleftrightarrow>
     (\<forall>s. cc_live c s = (if presenting (cc_swapchain_surface c) s = {} then None else Some (presenting (cc_swapchain_surface c) s))) \<and>
     (\<forall>pd s v. map_of (cc_cache c) (pd, s) = Some v \<longrightarrow> cc_enabled c \<and> presenting (cc_swapchain_surface c) s \<noteq> {})"

lemma presenting_simps:
  "owner sc = None \<Longrightarrow> presenting (owner(sc \<mapsto> s)) s' = (if s' = s then insert sc (presenting owner s) else presenting owner s')"
  "presenting (owner(sc := None)) s' = presenting owner s' - {sc}"
  "presenting (\<lambda>sc. if owner sc = Some s then None else owner sc) s' = (if s' = s then {} else presenting owner s')"
  by (auto simp: presenting_def)

lemma presenting_other:
  "owner sc = Some s \<Longrightarrow> s' \<noteq> s \<Longrightarrow> presenting owner s' - {sc} = presenting owner s'"
  "owner sc = Some s \<Longrightarrow> s' \<noteq> s \<Longrightarrow> presenting owner s' \<subseteq> {sc} \<longleftrightarrow> presenting owner s' = {}"
  by (auto simp: presenting_def)

lemma presenting_some: "owner sc = Some s \<Longrightarrow> sc \<in> presenting owner s"
  by (simp add: presenting_def)

lemma map_of_invalidated:
  "map_of (filter (\<lambda>((pd, s), v). s \<noteq> surface) m) (pd, s) = (if s = surface then None else map_of m (pd, s))"
  by (induction m) auto

lemma invalidate_simps [simp]:
  "cc_enabled (invalidate_surface s c) = cc_enabled c" "cc_live (invalidate_surface s c) = cc_live c"
  "cc_swapchain_surface (invalidate_surface s c) = cc_swapchain_surface c"
  "map_of (cc_cache (invalidate_surface s' c)) (pd, s) = (if s = s' then None else map_of (cc_cache c) (pd, s))"
  by (simp_all add: invalidate_surface_def map_of_invalidated)

lemma is_live_iff: "caps_ok c \<Longrightarrow> is_live s c \<longleftrightarrow> presenting (cc_swapchain_surface c) s \<noteq> {}"
  by (simp add: is_live_def caps_ok_def)

lemma caps_ok_created: "caps_ok c \<Longrightarrow> cc_swapchain_surface c sc = None \<Longrightarrow> caps_ok (on_swapchain_created sc s c)"
  unfolding caps_ok_def on_swapchain_created_def by (simp add: presenting_simps)

lemma caps_ok_destroyed: "caps_ok c \<Longrightarrow> caps_ok (on_swapchain_destroyed sc c)"
proof (cases "cc_swapchain_surface c sc")
  case (Some s)
  moreover assume "caps_ok c"
  moreover have "presenting (cc_swapchain_surface c) s \<noteq> {}" using presenting_some [of "cc_swapchain_surface c" sc s, OF Some] by blast
  ultimately show ?thesis
    unfolding caps_ok_def on_swapchain_destroyed_def by (simp add: presenting_simps presenting_other [of "cc_swapchain_surface c" sc s, OF Some])
qed (simp add: on_swapchain_destroyed_def)

lemma caps_ok_exec:
  assumes "caps_ok c" "fresh_handles [op] c"
  shows "caps_ok (caps_exec op c)"
proof (cases op)
  case (SwapchainCreated sc s)
  then show ?thesis using assms caps_ok_created by simp
next
  case (SwapchainDestroyed sc)
  then show ?thesis using assms caps_ok_destroyed by simp
next
  case (SurfaceDestroyed s)
  then show ?thesis using assms(1) unfolding caps_ok_def by (simp add: on_surface_destroyed_def presenting_simps)
next
  case (SwapchainSignal sc)
  then show ?thesis using assms(1) unfolding caps_ok_def by (simp add: invalidate_swapchain_def Let_def)
next
  case (SurfaceSignal s)
  then show ?thesis using assms(1) unfolding caps_ok_def by simp
next
  case (StoreCaps pd s v)
  then show ?thesis using assms(1) is_live_iff [OF assms(1), of s] unfolding caps_ok_def
    by (auto simp: caps_store_def map_of_omap_put)
next
  case (LookupCaps pd s)
  then show ?thesis using assms(1) unfolding caps_ok_def by (simp add: caps_lookup_def split: option.splits)
qed

section \<open>What a lookup serves\<close>

lemma lookup_value: "caps_ok c \<Longrightarrow> fst (caps_lookup pd s c) = map_of (cc_cache c) (pd, s)"
  using is_live_iff [of c s] by (auto simp: caps_lookup_def caps_ok_def split: option.splits)

lemma enabled_exec [simp]: "cc_enabled (caps_exec op c) = cc_enabled c"
  by (cases op) (simp_all add: on_swapchain_created_def on_swapchain_destroyed_def on_surface_destroyed_def invalidate_swapchain_def
    caps_store_def caps_lookup_def Let_def split: option.splits)

lemma cache_exec:
  assumes "caps_ok c"
  shows "map_of (cc_cache (caps_exec op c)) (pd, s) =
    (if touches pd s op c then (case op of StoreCaps pd' s' v \<Rightarrow> if cc_enabled c \<and> is_live s c then Some v else None | _ \<Rightarrow> None)
     else map_of (cc_cache c) (pd, s))"
proof (cases op)
  case (StoreCaps pd' s' v)
  have "map_of (cc_cache c) (pd, s) = None" if "\<not> (cc_enabled c \<and> is_live s c)"
    using that assms is_live_iff [OF assms] unfolding caps_ok_def by (metis not_Some_eq)
  then show ?thesis using StoreCaps by (auto simp: caps_store_def map_of_omap_put)
next
  case (SwapchainDestroyed sc)
  then show ?thesis by (auto simp: on_swapchain_destroyed_def split: option.splits)
qed (simp_all add: on_swapchain_created_def on_surface_destroyed_def invalidate_swapchain_def surface_of_def caps_lookup_def Let_def
  split: option.splits)

lemma fresh_append: "fresh_handles (ops @ ops') c \<longleftrightarrow> fresh_handles ops c \<and> fresh_handles ops' (fold caps_exec ops c)"
  by (induction ops arbitrary: c) auto

lemma quiet_append: "quiet pd s (ops @ ops') c \<longleftrightarrow> quiet pd s ops c \<and> quiet pd s ops' (fold caps_exec ops c)"
  by (induction ops arbitrary: c) auto

lemma caps_run_ok: "fresh_handles ops c \<Longrightarrow> caps_ok c \<Longrightarrow> caps_ok (fold caps_exec ops c)"
proof (induction ops arbitrary: c)
  case (Cons op ops)
  then have "fresh_handles [op] c" by simp
  then show ?case using Cons caps_ok_exec [of c op] by simp
qed simp

lemma enabled_run [simp]: "cc_enabled (fold caps_exec ops c) = cc_enabled c"
  by (induction ops arbitrary: c) simp_all

lemma new_caps_ok: "caps_ok (new_caps_cache enabled)"
  by (simp add: caps_ok_def new_caps_cache_def presenting_def)

text \<open>The store that a run remembers for a key: the last one on a live surface that nothing has overtaken.\<close>

definition served_by :: "nat \<Rightarrow> nat \<Rightarrow> 'c \<Rightarrow> 'c caps_op list \<Rightarrow> 'c caps_cache \<Rightarrow> bool" where
  "served_by pd s v ops c \<longleftrightarrow>
     (\<exists>pre post. ops = pre @ StoreCaps pd s v # post \<and> is_live s (fold caps_exec pre c) \<and>
        quiet pd s post (fold caps_exec (pre @ [StoreCaps pd s v]) c))"

lemma served_snoc:
  "served_by pd s v (ops @ [op]) c \<longleftrightarrow>
     op = StoreCaps pd s v \<and> is_live s (fold caps_exec ops c) \<or>
     \<not> touches pd s op (fold caps_exec ops c) \<and> served_by pd s v ops c"
proof
  assume "served_by pd s v (ops @ [op]) c"
  then obtain pre post where p: "ops @ [op] = pre @ StoreCaps pd s v # post" "is_live s (fold caps_exec pre c)"
    "quiet pd s post (fold caps_exec (pre @ [StoreCaps pd s v]) c)" by (auto simp: served_by_def)
  show "op = StoreCaps pd s v \<and> is_live s (fold caps_exec ops c) \<or>
     \<not> touches pd s op (fold caps_exec ops c) \<and> served_by pd s v ops c"
  proof (cases post rule: rev_cases)
    case Nil
    then show ?thesis using p by simp
  next
    case (snoc post' op')
    then have "ops = pre @ StoreCaps pd s v # post'" "op' = op" using p(1) by simp_all
    then show ?thesis using p(2,3) snoc by (auto simp: served_by_def quiet_append)
  qed
next
  assume r: "op = StoreCaps pd s v \<and> is_live s (fold caps_exec ops c) \<or>
     \<not> touches pd s op (fold caps_exec ops c) \<and> served_by pd s v ops c"
  show "served_by pd s v (ops @ [op]) c"
  proof (cases "op = StoreCaps pd s v \<and> is_live s (fold caps_exec ops c)")
    case True
    then show ?thesis unfolding served_by_def by (intro exI [of _ ops] exI [of _ "[]"]) simp
  next
    case False
    then obtain pre post where "ops = pre @ StoreCaps pd s v # post" "is_live s (fold caps_exec pre c)"
      "quiet pd s post (fold caps_exec (pre @ [StoreCaps pd s v]) c)" "\<not> touches pd s op (fold caps_exec ops c)"
      using r by (auto simp: served_by_def)
    then show ?thesis unfolding served_by_def by (intro exI [of _ pre] exI [of _ "post @ [op]"]) (simp add: quiet_append)
  qed
qed

lemma cache_run:
  assumes "fresh_handles ops (new_caps_cache enabled)"
  shows "map_of (cc_cache (fold caps_exec ops (new_caps_cache enabled))) (pd, s) = Some v \<longleftrightarrow>
    enabled \<and> served_by pd s v ops (new_caps_cache enabled)"
  using assms
proof (induction ops rule: rev_induct)
  case Nil
  then show ?case by (simp add: new_caps_cache_def served_by_def)
next
  case (snoc op ops)
  let ?c = "fold caps_exec ops (new_caps_cache enabled)"
  have f: "fresh_handles ops (new_caps_cache enabled)" using snoc.prems by (simp add: fresh_append)
  have ok: "caps_ok ?c" by (rule caps_run_ok [OF f new_caps_ok])
  have en: "cc_enabled ?c = enabled" by (simp add: new_caps_cache_def)
  show ?case
    using snoc.IH [OF f] cache_exec [OF ok, of op pd s] en
    by (auto simp: served_snoc split: caps_op.splits)
qed

text \<open>
  C38: In any run with fresh swapchain handles, a lookup returns capabilities exactly if the cache is
  enabled and they are those of a store made while the surface had a live swapchain, with no signal,
  swapchain or surface event of that surface and no other store for the same key since.
\<close>

theorem caps_cache_fresh:
  assumes "fresh_handles ops (new_caps_cache enabled)"
  shows "fst (caps_lookup pd s (fold caps_exec ops (new_caps_cache enabled))) = Some v \<longleftrightarrow>
    enabled \<and> served_by pd s v ops (new_caps_cache enabled)"
  using lookup_value [OF caps_run_ok [OF assms new_caps_ok], of pd s] cache_run [OF assms, of pd s v] by simp

theorem caps_cache_fresh_witness:
  "fst (caps_lookup 1 5 (fold caps_exec [SwapchainCreated 9 5, StoreCaps 1 5 ''caps''] (new_caps_cache True))) = Some ''caps'' \<and>
   \<not> served_by 1 5 ''caps'' [SwapchainCreated 9 5, StoreCaps 1 5 ''caps'', SwapchainSignal 9] (new_caps_cache True)"
proof -
  let ?ops = "[SwapchainCreated 9 5, StoreCaps 1 5 ''caps'']"
  have f: "fresh_handles ?ops (new_caps_cache True)" "fresh_handles (?ops @ [SwapchainSignal 9]) (new_caps_cache True)"
    by (simp_all add: new_caps_cache_def)
  have "served_by 1 5 ''caps'' ([SwapchainCreated 9 5] @ [StoreCaps 1 5 ''caps'']) (new_caps_cache True)"
    unfolding served_snoc by (simp add: is_live_def on_swapchain_created_def new_caps_cache_def)
  moreover have "fst (caps_lookup 1 5 (fold caps_exec (?ops @ [SwapchainSignal 9]) (new_caps_cache True))) = None"
    by (simp add: new_caps_cache_def on_swapchain_created_def caps_store_def is_live_def invalidate_swapchain_def surface_of_def
      invalidate_surface_def caps_lookup_def Let_def)
  ultimately show ?thesis
    using caps_cache_fresh [OF f(1), of 1 5 "''caps''"] caps_cache_fresh [OF f(2), of 1 5 "''caps''"] by simp
qed

end
