(* ===== verification/Command_Line.thy ===== *)
theory Command_Line
  imports Prelude
begin

text \<open>
  Command lines (src/vkrelay2/common/argv/command_line.cpp and argv_split.cpp): quoting an argument,
  joining the arguments of a process, and splitting the launcher's own arguments at the first
  double dash. The other side, the splitting of a command line by the operating system
  (\<open>CommandLineToArgvW\<close> and the C runtime), is a parameter with its documented rules, which treat the
  program name apart; \<open>command_line_roundtrip\<close> shows that under those rules a program name and any
  arguments survive. The conversions between UTF-8 and UTF-16 are calls of the operating system and
  are not modelled.
\<close>

abbreviation QUOTE :: char where "QUOTE \<equiv> CHR 0x22"
abbreviation BACKSLASH :: char where "BACKSLASH \<equiv> CHR 0x5C"
abbreviation SPACE :: char where "SPACE \<equiv> CHR 0x20"
abbreviation TAB :: char where "TAB \<equiv> CHR 0x09"

section \<open>Quoting and joining\<close>

text \<open>The loop over the argument; \<open>n\<close> counts the backslashes just passed.\<close>

fun quote_chars :: "nat \<Rightarrow> string \<Rightarrow> string" where
  "quote_chars n [] = replicate (n * 2) BACKSLASH"
| "quote_chars n (c # s) =
     (if c = BACKSLASH then quote_chars (n + 1) s
      else if c = QUOTE then replicate (n * 2 + 1) BACKSLASH @ QUOTE # quote_chars 0 s
      else replicate n BACKSLASH @ c # quote_chars 0 s)"

definition quote_argument :: "string \<Rightarrow> string" where
  "quote_argument arg =
     (if arg \<noteq> [] \<and> set arg \<inter> {SPACE, TAB, CHR 0x0A, CHR 0x0B, QUOTE} = {} then arg
      else QUOTE # quote_chars 0 arg @ [QUOTE])"

fun join_arguments :: "string list \<Rightarrow> string" where
  "join_arguments [] = []"
| "join_arguments (a # as) = SPACE # quote_argument a @ join_arguments as"

definition build_command_line :: "string list \<Rightarrow> string" where
  "build_command_line args = (case args of [] \<Rightarrow> [] | a # as \<Rightarrow> quote_argument a @ join_arguments as)"

section \<open>The launcher's own arguments\<close>

record split_args =
  sa_options :: "string list"
  sa_app_argv :: "string list"
  sa_has_separator :: bool

fun split_step :: "string \<Rightarrow> split_args \<times> bool \<Rightarrow> split_args \<times> bool" where
  "split_step token (r, after) =
     (if \<not> after \<and> token = ''--'' then (r\<lparr>sa_has_separator := True\<rparr>, True)
      else if after then (r\<lparr>sa_app_argv := sa_app_argv r @ [token]\<rparr>, after)
      else (r\<lparr>sa_options := sa_options r @ [token]\<rparr>, after))"

definition split_on_double_dash :: "string list \<Rightarrow> split_args" where
  "split_on_double_dash args = fst (fold split_step args (\<lparr>sa_options = [], sa_app_argv = [], sa_has_separator = False\<rparr>, False))"

lemma split_after: "fold split_step args (r, True) = (r\<lparr>sa_app_argv := sa_app_argv r @ args\<rparr>, True)"
  by (induction args arbitrary: r) simp_all

text \<open>The application gets exactly what stands after the first double dash, later ones included.\<close>

lemma split_exact:
  "split_on_double_dash args =
     \<lparr>sa_options = takeWhile (\<lambda>t. t \<noteq> ''--'') args, sa_app_argv = tl (dropWhile (\<lambda>t. t \<noteq> ''--'') args), sa_has_separator = (''--'' \<in> set args)\<rparr>"
proof -
  have "fst (fold split_step args (\<lparr>sa_options = os, sa_app_argv = [], sa_has_separator = False\<rparr>, False)) =
      \<lparr>sa_options = os @ takeWhile (\<lambda>t. t \<noteq> ''--'') args, sa_app_argv = tl (dropWhile (\<lambda>t. t \<noteq> ''--'') args), sa_has_separator = (''--'' \<in> set args)\<rparr>" for os
    by (induction args arbitrary: os) (simp_all add: split_after)
  then show ?thesis by (simp add: split_on_double_dash_def)
qed

section \<open>The rules of the operating system\<close>

text \<open>
  \<open>scan q acc s\<close> is the rest of the argument vector when \<open>acc\<close> of the current argument has been
  collected, \<open>q\<close> says whether a quoted part is open, and \<open>s\<close> is what is left of the command line. The
  documented rules: \<open>2n\<close> backslashes and a quotation mark give \<open>n\<close> backslashes and open or close a
  quoted part; \<open>2n + 1\<close> backslashes and a quotation mark give \<open>n\<close> backslashes and the mark itself;
  other backslashes are literal; a space or a tab outside quotes ends the argument.
\<close>

definition argv_rules :: "(bool \<Rightarrow> string \<Rightarrow> string \<Rightarrow> string list) \<Rightarrow> bool" where
  "argv_rules scan \<longleftrightarrow>
     (\<forall>q acc n s. (q \<longrightarrow> (s \<noteq> [] \<longrightarrow> hd s \<noteq> QUOTE)) \<longrightarrow>
        scan q acc (replicate (2 * n) BACKSLASH @ QUOTE # s) = scan (\<not> q) (acc @ replicate n BACKSLASH) s) \<and>
     (\<forall>q acc n s. scan q acc (replicate (2 * n + 1) BACKSLASH @ QUOTE # s) = scan q (acc @ replicate n BACKSLASH @ [QUOTE]) s) \<and>
     (\<forall>q acc n c s. c \<notin> {BACKSLASH, QUOTE} \<longrightarrow> (q \<or> c \<notin> {SPACE, TAB}) \<longrightarrow>
        scan q acc (replicate n BACKSLASH @ c # s) = scan q (acc @ replicate n BACKSLASH @ [c]) s) \<and>
     (\<forall>acc n s. s \<noteq> [] \<longrightarrow> hd s \<notin> {SPACE, TAB} \<longrightarrow>
        scan False acc (replicate n BACKSLASH @ SPACE # s) = (acc @ replicate n BACKSLASH) # scan False [] s) \<and>
     (\<forall>acc n. scan False acc (replicate n BACKSLASH) = [acc @ replicate n BACKSLASH])"

lemmas argv_toggle = argv_rules_def [THEN iffD1, THEN conjunct1, rule_format]
lemmas argv_literal_quote = argv_rules_def [THEN iffD1, THEN conjunct2, THEN conjunct1, rule_format]
lemmas argv_literal = argv_rules_def [THEN iffD1, THEN conjunct2, THEN conjunct2, THEN conjunct1, rule_format]
lemmas argv_space = argv_rules_def [THEN iffD1, THEN conjunct2, THEN conjunct2, THEN conjunct2, THEN conjunct1, rule_format]
lemmas argv_end = argv_rules_def [THEN iffD1, THEN conjunct2, THEN conjunct2, THEN conjunct2, THEN conjunct2, rule_format]

text \<open>What may follow a quoted argument: the end of the command line, or a space and another argument.\<close>

definition next_argument :: "string \<Rightarrow> bool" where
  "next_argument t \<longleftrightarrow> t = [] \<or> (\<exists>s. t = SPACE # s \<and> s \<noteq> [] \<and> hd s \<notin> {SPACE, TAB})"

lemma scan_quoted:
  assumes "argv_rules scan" "next_argument t"
  shows "scan True acc (quote_chars n s @ QUOTE # t) = scan False (acc @ replicate n BACKSLASH @ s) t"
proof (induction n s arbitrary: acc rule: quote_chars.induct)
  case (1 n)
  have "hd t \<noteq> QUOTE" if "t \<noteq> []" using assms(2) that by (auto simp: next_argument_def)
  then show ?case using argv_toggle [OF assms(1), of True t acc n] by (simp add: mult.commute)
next
  case (2 n c s)
  consider (slash) "c = BACKSLASH" | (quote) "c = QUOTE" | (other) "c \<notin> {BACKSLASH, QUOTE}" by blast
  then show ?case
  proof cases
    case slash
    then show ?thesis using "2.IH"(1) [of acc] by (simp add: replicate_app_Cons_same)
  next
    case quote
    then show ?thesis
      using argv_literal_quote [OF assms(1), of True acc n "quote_chars 0 s @ QUOTE # t"] "2.IH"(2) [of "acc @ replicate n BACKSLASH @ [QUOTE]"]
      by (simp add: mult.commute)
  next
    case other
    then show ?thesis
      using argv_literal [OF assms(1) other, of True acc n "quote_chars 0 s @ QUOTE # t"] "2.IH"(3) [of "acc @ replicate n BACKSLASH @ [c]"]
      by simp
  qed
qed

text \<open>An argument that needs no quotes is read literally.\<close>

lemma scan_plain:
  assumes "argv_rules scan" "set s \<inter> {SPACE, TAB, QUOTE} = {}" "next_argument t"
  shows "scan False acc (replicate n BACKSLASH @ s @ t) =
    (if t = [] then [acc @ replicate n BACKSLASH @ s] else (acc @ replicate n BACKSLASH @ s) # scan False [] (tl t))"
  using assms(2)
proof (induction s arbitrary: n acc)
  case Nil
  then show ?case
    using assms(3) argv_end [OF assms(1), of acc n] argv_space [OF assms(1), of "tl t" acc n] by (auto simp: next_argument_def)
next
  case (Cons c s)
  show ?case
  proof (cases "c = BACKSLASH")
    case True
    then show ?thesis using Cons.IH [of acc "Suc n"] Cons.prems by (simp add: replicate_app_Cons_same)
  next
    case False
    then have "scan False acc (replicate n BACKSLASH @ c # s @ t) = scan False (acc @ replicate n BACKSLASH @ [c]) (s @ t)"
      using Cons.prems by (intro argv_literal [OF assms(1)]) auto
    then show ?thesis using Cons.IH [of "acc @ replicate n BACKSLASH @ [c]" 0] Cons.prems by simp
  qed
qed

lemma quote_argument_hd: "quote_argument a \<noteq> [] \<and> hd (quote_argument a) \<notin> {SPACE, TAB}"
  by (cases a) (auto simp: quote_argument_def)

lemma scan_argument:
  assumes "argv_rules scan" "next_argument t"
  shows "scan False [] (quote_argument a @ t) = a # (if t = [] then [] else scan False [] (tl t))"
proof (cases "a \<noteq> [] \<and> set a \<inter> {SPACE, TAB, CHR 0x0A, CHR 0x0B, QUOTE} = {}")
  case True
  then have "set a \<inter> {SPACE, TAB, QUOTE} = {}" "quote_argument a = a" by (auto simp: quote_argument_def)
  then show ?thesis using scan_plain [OF assms(1) _ assms(2), of a "[]" 0] by simp
next
  case False
  then have q: "quote_argument a = QUOTE # quote_chars 0 a @ [QUOTE]" unfolding quote_argument_def by (rule if_not_P)
  have "scan False [] (QUOTE # quote_chars 0 a @ QUOTE # t) = scan True [] (quote_chars 0 a @ QUOTE # t)"
    using argv_toggle [OF assms(1), of False "quote_chars 0 a @ QUOTE # t" "[]" 0] by simp
  also have "\<dots> = scan False a t" using scan_quoted [OF assms, of "[]" 0 a] by simp
  also have "\<dots> = a # (if t = [] then [] else scan False [] (tl t))" using scan_plain [OF assms(1) _ assms(2), of "[]" a 0] by simp
  finally show ?thesis by (simp add: q)
qed

lemma join_next: "next_argument (join_arguments as)"
  using quote_argument_hd by (cases as) (auto simp: next_argument_def)

lemma scan_joined: "argv_rules scan \<Longrightarrow> scan False [] (quote_argument a @ join_arguments as) = a # as"
proof (induction as arbitrary: a)
  case Nil
  then show ?case using scan_argument [OF Nil, of "[]" a] by (simp add: next_argument_def)
next
  case (Cons b as)
  then show ?case using scan_argument [OF Cons.prems join_next, of a "b # as"] by simp
qed

text \<open>
  The program name is read by rules of its own, in which a backslash never escapes anything: a name
  in quotation marks ends at the next mark, and one without ends at white space. What follows it is
  read by the rules above.
\<close>

definition after_program :: "(bool \<Rightarrow> string \<Rightarrow> string \<Rightarrow> string list) \<Rightarrow> string \<Rightarrow> string list" where
  "after_program scan t = (if t = [] then [] else scan False [] (tl t))"

definition command_rules :: "(string \<Rightarrow> string list) \<Rightarrow> (bool \<Rightarrow> string \<Rightarrow> string \<Rightarrow> string list) \<Rightarrow> bool" where
  "command_rules split scan \<longleftrightarrow>
     argv_rules scan \<and>
     (\<forall>p t. QUOTE \<notin> set p \<longrightarrow> next_argument t \<longrightarrow> split (QUOTE # p @ QUOTE # t) = p # after_program scan t) \<and>
     (\<forall>p t. p \<noteq> [] \<longrightarrow> QUOTE \<notin> set p \<longrightarrow> (\<forall>c\<in>set p. 32 < (of_char c :: nat)) \<longrightarrow> next_argument t \<longrightarrow>
        split (p @ t) = p # after_program scan t)"

text \<open>A path of a program: no quotation mark, no control character, and not the path of a directory.\<close>

definition program_name :: "string \<Rightarrow> bool" where
  "program_name p \<longleftrightarrow> p \<noteq> [] \<and> last p \<noteq> BACKSLASH \<and> QUOTE \<notin> set p \<and> (\<forall>c\<in>set p. 32 \<le> (of_char c :: nat))"

lemma quote_chars_plain:
  "QUOTE \<notin> set s \<Longrightarrow> s \<noteq> [] \<Longrightarrow> last s \<noteq> BACKSLASH \<Longrightarrow> quote_chars n s = replicate n BACKSLASH @ s"
proof (induction n s rule: quote_chars.induct)
  case (2 n c s)
  then show ?case by (cases s) (auto simp: replicate_app_Cons_same)
qed simp

lemma scan_tail: "argv_rules scan \<Longrightarrow> after_program scan (join_arguments as) = as"
  by (cases as) (simp_all add: after_program_def scan_joined)

text \<open>
  C39: Under the documented rules by which the operating system splits a command line, the line built
  from a program name and arguments splits into that name and these arguments again. The arguments
  may contain any spaces, quotation marks and backslashes, and may be empty; the name may contain
  spaces and backslashes, as the path of a program does.
\<close>

theorem command_line_roundtrip:
  assumes "command_rules split scan" "program_name a"
  shows "split (build_command_line (a # as)) = a # as"
proof -
  have r: "argv_rules scan"
    "\<And>p t. QUOTE \<notin> set p \<Longrightarrow> next_argument t \<Longrightarrow> split (QUOTE # p @ QUOTE # t) = p # after_program scan t"
    "\<And>p t. p \<noteq> [] \<Longrightarrow> QUOTE \<notin> set p \<Longrightarrow> \<forall>c\<in>set p. 32 < (of_char c :: nat) \<Longrightarrow> next_argument t \<Longrightarrow>
       split (p @ t) = p # after_program scan t"
    using assms(1) by (auto simp: command_rules_def)
  have a: "a \<noteq> []" "last a \<noteq> BACKSLASH" "QUOTE \<notin> set a" "\<forall>c\<in>set a. 32 \<le> (of_char c :: nat)"
    using assms(2) by (simp_all add: program_name_def)
  show ?thesis
  proof (cases "set a \<inter> {SPACE, TAB, CHR 0x0A, CHR 0x0B, QUOTE} = {}")
    case True
    have "of_char c \<noteq> (32 :: nat)" if "c \<in> set a" for c
    proof
      assume "of_char c = (32 :: nat)"
      then have "of_char c = (of_char SPACE :: nat)" by simp
      then have "c = SPACE" by (simp only: of_char_eq_iff)
      then show False using True that by blast
    qed
    then have "\<forall>c\<in>set a. 32 < (of_char c :: nat)" using a(4) by (metis le_neq_implies_less)
    then have "split (a @ join_arguments as) = a # after_program scan (join_arguments as)" using r(3) a(1,3) join_next by blast
    then show ?thesis using True a(1) scan_tail [OF r(1)] by (simp add: build_command_line_def quote_argument_def)
  next
    case False
    then have "quote_argument a = QUOTE # quote_chars 0 a @ [QUOTE]" by (auto simp: quote_argument_def)
    then show ?thesis
      using r(2) [OF a(3) join_next, of as] quote_chars_plain [OF a(3,1,2), of 0] scan_tail [OF r(1), of as]
      by (simp add: build_command_line_def)
  qed
qed

text \<open>A splitter that obeys the rules, so that they are consistent.\<close>

fun demo_scan :: "nat \<Rightarrow> bool \<Rightarrow> string \<Rightarrow> string \<Rightarrow> string list" where
  "demo_scan n q acc [] = [acc @ replicate n BACKSLASH]"
| "demo_scan n q acc (c # s) =
     (if c = BACKSLASH then demo_scan (n + 1) q acc s
      else if c = QUOTE
      then if even n then demo_scan 0 (\<not> q) (acc @ replicate (n div 2) BACKSLASH) s
           else demo_scan 0 q (acc @ replicate (n div 2) BACKSLASH @ [QUOTE]) s
      else if \<not> q \<and> c \<in> {SPACE, TAB} then (acc @ replicate n BACKSLASH) # demo_scan 0 False [] s
      else demo_scan 0 q (acc @ replicate n BACKSLASH @ [c]) s)"

lemma demo_backslashes: "demo_scan k q acc (replicate n BACKSLASH @ s) = demo_scan (k + n) q acc s"
  by (induction n arbitrary: k) simp_all

lemma demo_rules: "argv_rules (demo_scan 0)"
proof -
  have "demo_scan 0 False acc (replicate n BACKSLASH) = [acc @ replicate n BACKSLASH]" for acc n
    using demo_backslashes [of 0 False acc n "[]"] by simp
  then show ?thesis unfolding argv_rules_def by (auto simp add: demo_backslashes simp del: replicate.simps)
qed

definition demo_split :: "string \<Rightarrow> string list" where
  "demo_split s =
     (if s \<noteq> [] \<and> hd s = QUOTE
      then let p = takeWhile (\<lambda>c. c \<noteq> QUOTE) (tl s) in p # after_program (demo_scan 0) (drop (length p + 2) s)
      else let p = takeWhile (\<lambda>c. 32 < (of_char c :: nat)) s in p # after_program (demo_scan 0) (drop (length p) s))"

lemma demo_command_rules: "command_rules demo_split (demo_scan 0)"
proof -
  have t: "takeWhile (\<lambda>c. 32 < (of_char c :: nat)) t = []" if "next_argument t" for t
    using that by (auto simp: next_argument_def)
  have q: "takeWhile (\<lambda>c. c \<noteq> QUOTE) (p @ QUOTE # t) = p" if "QUOTE \<notin> set p" for p t
    using that by (induction p) auto
  show ?thesis
    unfolding command_rules_def
  proof (intro conjI allI impI demo_rules)
    fix p t assume "QUOTE \<notin> set p" "next_argument t"
    then show "demo_split (QUOTE # p @ QUOTE # t) = p # after_program (demo_scan 0) t" by (simp add: demo_split_def q)
  next
    fix p t assume p: "p \<noteq> []" "QUOTE \<notin> set p" "\<forall>c\<in>set p. 32 < (of_char c :: nat)" "next_argument t"
    have "takeWhile (\<lambda>c. 32 < (of_char c :: nat)) (p @ t) = p" using p(3) t [OF p(4)] by (simp add: takeWhile_append2)
    moreover have "hd (p @ t) \<noteq> QUOTE" using p(1,2) by (cases p) auto
    ultimately show "demo_split (p @ t) = p # after_program (demo_scan 0) t" using p(1) by (simp add: demo_split_def)
  qed
qed

theorem command_line_roundtrip_witness:
  "demo_split (build_command_line [''C:'' @ [BACKSLASH] @ ''a b.exe'', [], [BACKSLASH, QUOTE, BACKSLASH]]) =
     [''C:'' @ [BACKSLASH] @ ''a b.exe'', [], [BACKSLASH, QUOTE, BACKSLASH]]"
  by (rule command_line_roundtrip [OF demo_command_rules]) (simp add: program_name_def)

end
