(* ===== verification/Chrome_Recapture.thy ===== *)
theory Chrome_Recapture
  imports Prelude
begin

unbundle bit_operations_syntax

text \<open>
  The recapture of placeholder windows (src/vkrelay2/common/sidecar/chrome_recapture.hpp): the masking of
  pixels outside a window's shape, the content hash, the test for a frame that is still black, and
  the scheduler that decides when a window is captured again and when a frame is shipped. Times are
  64-bit milliseconds; a difference wraps around as it does in the source.

  \<open>mask_exact\<close> shows what the mask leaves of a frame; the lemmas on the scheduler bound how often it
  captures and how long it holds a black window back.
\<close>

section \<open>Frames\<close>

definition chrome_named_pixmap_invalidated_by_configure :: "bool \<Rightarrow> nat \<Rightarrow> nat \<Rightarrow> nat \<Rightarrow> nat \<Rightarrow> bool" where
  "chrome_named_pixmap_invalidated_by_configure has_named_pixmap named_w named_h configured_w configured_h \<longleftrightarrow>
     has_named_pixmap \<and> (named_w \<noteq> configured_w \<or> named_h \<noteq> configured_h)"

record chrome_shape_rect =
  cs_x :: int
  cs_y :: int
  cs_width :: nat
  cs_height :: nat

text \<open>A rectangle clipped to the frame, as the half-open intervals of its columns and rows.\<close>

definition clip_rect :: "nat \<Rightarrow> nat \<Rightarrow> chrome_shape_rect \<Rightarrow> (nat \<times> nat) \<times> (nat \<times> nat)" where
  "clip_rect w h r =
     (let rx1 = cs_x r + int (cs_width r); ry1 = cs_y r + int (cs_height r) in
      ((nat (max 0 (cs_x r)), nat (min (int w) rx1)), (nat (max 0 (cs_y r)), nat (min (int h) ry1))))"

text \<open>Fill one row of the coverage map, then the rows of a rectangle.\<close>

definition fill :: "nat \<Rightarrow> nat \<Rightarrow> bool list \<Rightarrow> bool list" where
  "fill begin n covered = take begin covered @ replicate n True @ drop (begin + n) covered"

definition fill_rows :: "nat \<Rightarrow> nat \<Rightarrow> nat \<Rightarrow> nat \<Rightarrow> nat \<Rightarrow> bool list \<Rightarrow> bool list" where
  "fill_rows w x0 x1 y0 y1 covered = fold (\<lambda>y. fill (y * w + x0) (x1 - x0)) [y0..<y1] covered"

text \<open>The loop over the rectangles; \<^term>\<open>None\<close> is the early return for an over-complex region.\<close>

fun cover_rects :: "nat \<Rightarrow> nat \<Rightarrow> chrome_shape_rect list \<Rightarrow> nat \<Rightarrow> bool list \<Rightarrow> bool list option" where
  "cover_rects w h [] covered_area covered = Some covered"
| "cover_rects w h (r # rs) covered_area covered =
     (let ((x0, x1), (y0, y1)) = clip_rect w h r in
      if x1 \<le> x0 \<or> y1 \<le> y0 then cover_rects w h rs covered_area covered
      else let area = (x1 - x0) * (y1 - y0) in
        if area > w * h - covered_area then None
        else cover_rects w h rs (covered_area + area) (fill_rows w x0 x1 y0 y1 covered))"

definition black_outside :: "bool list \<Rightarrow> string \<Rightarrow> string" where
  "black_outside covered bgra =
     concat (map (\<lambda>i. if covered ! i then take 4 (drop (i * 4) bgra) else [CHR 0x00, CHR 0x00, CHR 0x00, CHR 0xFF]) [0..<length covered])"

text \<open>
  The result is the returned flag and the buffer afterwards; \<open>alloc\<close> says whether the allocation of
  the coverage map succeeds.
\<close>

definition chrome_mask_outside_shape :: "bool \<Rightarrow> string \<Rightarrow> nat \<Rightarrow> nat \<Rightarrow> chrome_shape_rect list \<Rightarrow> bool \<times> string" where
  "chrome_mask_outside_shape alloc bgra w h rectangles =
     (if w = 0 \<or> h = 0 \<or> w > 18446744073709551615 div h then (False, bgra)
      else if w * h > 18446744073709551615 div 4 \<or> length bgra \<noteq> w * h * 4 then (False, bgra)
      else if rectangles = [\<lparr>cs_x = 0, cs_y = 0, cs_width = w, cs_height = h\<rparr>] then (True, bgra)
      else if \<not> alloc then (False, bgra)
      else case cover_rects w h rectangles 0 (replicate (w * h) False) of
             None \<Rightarrow> (False, bgra)
           | Some covered \<Rightarrow> (True, black_outside covered bgra))"

abbreviation fnv_prime :: nat where "fnv_prime \<equiv> 1099511628211"

definition mix_byte :: "nat \<Rightarrow> nat \<Rightarrow> nat" where
  "mix_byte b hsh = u64 ((hsh XOR b) * fnv_prime)"

definition mix_u64 :: "nat \<Rightarrow> nat \<Rightarrow> nat" where
  "mix_u64 v hsh = fold (\<lambda>i. mix_byte (drop_bit (8 * i) v AND 0xFF)) [0..<8] hsh"

definition chrome_content_hash :: "string \<Rightarrow> nat \<Rightarrow> nat \<Rightarrow> nat \<Rightarrow> nat \<Rightarrow> nat" where
  "chrome_content_hash bgra w h stride format =
     fold (\<lambda>c. mix_byte (of_char c)) bgra
       (mix_u64 (length bgra) (mix_u64 format (mix_u64 stride (mix_u64 h (mix_u64 w 1469598103934665603)))))"

fun all_black :: "string \<Rightarrow> bool" where
  "all_black (b # g # r # a # s) \<longleftrightarrow> b = CHR 0x00 \<and> g = CHR 0x00 \<and> r = CHR 0x00 \<and> all_black s"
| "all_black _ \<longleftrightarrow> True"

definition chrome_frame_is_black :: "string \<Rightarrow> bool" where
  "chrome_frame_is_black bgra \<longleftrightarrow> \<not> (length bgra = 0 \<or> length bgra mod 4 \<noteq> 0) \<and> all_black bgra"

section \<open>The scheduler\<close>

abbreviation kChromeWarmupIntervalMs :: nat where "kChromeWarmupIntervalMs \<equiv> 150"
abbreviation kChromeWarmupDurationMs :: nat where "kChromeWarmupDurationMs \<equiv> 3000"
abbreviation kChromeSteadyIntervalMs :: nat where "kChromeSteadyIntervalMs \<equiv> 300"
abbreviation kChromeHeartbeatMs :: nat where "kChromeHeartbeatMs \<equiv> 3000"
abbreviation kChromeResizeHoldoffMs :: nat where "kChromeResizeHoldoffMs \<equiv> 250"

record recapture_state =
  rs_first_seen_ms :: nat
  rs_last_capture_ms :: nat
  rs_last_ship_ms :: nat
  rs_last_shipped_hash :: nat
  rs_holdoff_until_ms :: nat
  rs_ever_captured :: bool
  rs_ever_shipped :: bool
  rs_stopped :: bool

type_synonym recapture_policy = "nat \<rightharpoonup> recapture_state"

text \<open>The difference of two 64-bit times.\<close>

definition since :: "nat \<Rightarrow> nat \<Rightarrow> nat" where
  "since now_ms t = u64_of_int (int now_ms - int t)"

definition in_warmup :: "recapture_state \<Rightarrow> nat \<Rightarrow> bool" where
  "in_warmup s now_ms \<longleftrightarrow> since now_ms (rs_first_seen_ms s) < kChromeWarmupDurationMs"

definition interval_for :: "recapture_state \<Rightarrow> nat \<Rightarrow> nat" where
  "interval_for s now_ms = (if in_warmup s now_ms then kChromeWarmupIntervalMs else kChromeSteadyIntervalMs)"

definition track :: "nat \<Rightarrow> nat \<Rightarrow> recapture_policy \<Rightarrow> recapture_policy" where
  "track xid now_ms p =
     (let s = (case p xid of
                 Some s \<Rightarrow> s
               | None \<Rightarrow> \<lparr>rs_first_seen_ms = 0, rs_last_capture_ms = 0, rs_last_ship_ms = 0, rs_last_shipped_hash = 0, rs_holdoff_until_ms = 0,
                          rs_ever_captured = False, rs_ever_shipped = False, rs_stopped = False\<rparr>)
      in p(xid \<mapsto> s\<lparr>rs_first_seen_ms := now_ms, rs_stopped := False\<rparr>))"

definition forget :: "nat \<Rightarrow> recapture_policy \<Rightarrow> recapture_policy" where
  "forget xid p = p(xid := None)"

definition on_resize :: "nat \<Rightarrow> nat \<Rightarrow> recapture_policy \<Rightarrow> recapture_policy" where
  "on_resize xid now_ms p =
     (case p xid of None \<Rightarrow> p | Some s \<Rightarrow> p(xid \<mapsto> s\<lparr>rs_holdoff_until_ms := u64 (now_ms + kChromeResizeHoldoffMs)\<rparr>))"

definition in_resize_holdoff :: "nat \<Rightarrow> nat \<Rightarrow> recapture_policy \<Rightarrow> bool" where
  "in_resize_holdoff xid now_ms p = (case p xid of None \<Rightarrow> False | Some s \<Rightarrow> now_ms < rs_holdoff_until_ms s)"

definition due :: "nat \<Rightarrow> nat \<Rightarrow> recapture_policy \<Rightarrow> bool" where
  "due xid now_ms p =
     (case p xid of
        None \<Rightarrow> False
      | Some s \<Rightarrow>
          if rs_stopped s \<or> now_ms < rs_holdoff_until_ms s then False
          else if \<not> rs_ever_captured s then True
          else since now_ms (rs_last_capture_ms s) \<ge> interval_for s now_ms)"

definition record_capture :: "nat \<Rightarrow> nat \<Rightarrow> recapture_policy \<Rightarrow> recapture_policy" where
  "record_capture xid now_ms p =
     (case p xid of None \<Rightarrow> p | Some s \<Rightarrow> p(xid \<mapsto> s\<lparr>rs_ever_captured := True, rs_last_capture_ms := now_ms\<rparr>))"

datatype chrome_ship_decision = Ship | Suppress

definition decide_ship :: "nat \<Rightarrow> nat \<Rightarrow> nat \<Rightarrow> recapture_policy \<Rightarrow> chrome_ship_decision" where
  "decide_ship xid now_ms hash p =
     (case p xid of
        None \<Rightarrow> Suppress
      | Some s \<Rightarrow>
          if in_warmup s now_ms \<or> \<not> rs_ever_shipped s \<or> hash \<noteq> rs_last_shipped_hash s \<or> since now_ms (rs_last_ship_ms s) \<ge> kChromeHeartbeatMs
          then Ship else Suppress)"

definition record_ship :: "nat \<Rightarrow> nat \<Rightarrow> nat \<Rightarrow> recapture_policy \<Rightarrow> recapture_policy" where
  "record_ship xid now_ms hash p =
     (case p xid of
        None \<Rightarrow> p
      | Some s \<Rightarrow>
          p(xid \<mapsto> s\<lparr>rs_ever_captured := True,
                     rs_last_capture_ms := (if rs_last_capture_ms s < now_ms then now_ms else rs_last_capture_ms s),
                     rs_ever_shipped := True, rs_last_ship_ms := now_ms, rs_last_shipped_hash := hash\<rparr>))"

definition note_representation :: "nat \<Rightarrow> string \<Rightarrow> recapture_policy \<Rightarrow> recapture_policy" where
  "note_representation xid repr p =
     (case p xid of Some s \<Rightarrow> if repr \<noteq> ''placeholder'' then p(xid \<mapsto> s\<lparr>rs_stopped := True\<rparr>) else p | None \<Rightarrow> p)"

definition holding_for_first_content :: "nat \<Rightarrow> nat \<Rightarrow> recapture_policy \<Rightarrow> bool" where
  "holding_for_first_content xid now_ms p =
     (case p xid of None \<Rightarrow> False | Some s \<Rightarrow> \<not> rs_stopped s \<and> \<not> rs_ever_shipped s \<and> in_warmup s now_ms)"

section \<open>What the mask leaves\<close>

definition in_shape :: "chrome_shape_rect \<Rightarrow> nat \<Rightarrow> nat \<Rightarrow> bool" where
  "in_shape r x y \<longleftrightarrow> cs_x r \<le> int x \<and> int x < cs_x r + int (cs_width r) \<and> cs_y r \<le> int y \<and> int y < cs_y r + int (cs_height r)"

lemma clip_rect_iff:
  assumes "clip_rect w h r = ((x0, x1), (y0, y1))"
  shows "x1 \<le> w" "y1 \<le> h" "x < w \<Longrightarrow> y < h \<Longrightarrow> in_shape r x y \<longleftrightarrow> x0 \<le> x \<and> x < x1 \<and> y0 \<le> y \<and> y < y1"
  using assms by (auto simp: clip_rect_def in_shape_def Let_def nat_le_iff zless_nat_eq_int_zless)

lemma length_fill [simp]: "begin + n \<le> length covered \<Longrightarrow> length (fill begin n covered) = length covered"
  by (simp add: fill_def)

lemma nth_fill: "begin + n \<le> length covered \<Longrightarrow> i < length covered \<Longrightarrow> fill begin n covered ! i \<longleftrightarrow> (begin \<le> i \<and> i < begin + n) \<or> covered ! i"
  by (auto simp: fill_def nth_append)

lemma shape_row_index: "x1 \<le> w \<Longrightarrow> 0 < w \<Longrightarrow> y * w + x0 \<le> i \<and> i < y * w + x1 \<longleftrightarrow> y = i div w \<and> x0 \<le> i mod w \<and> i mod w < x1" for i :: nat
proof
  assume a: "x1 \<le> w" "0 < w" "y * w + x0 \<le> i \<and> i < y * w + x1"
  then obtain k where k: "i = y * w + k" "x0 \<le> k" "k < x1" by (metis add_le_cancel_left add_lessD1 le_Suc_ex nat_add_left_cancel_less add.assoc le_add1)
  then show "y = i div w \<and> x0 \<le> i mod w \<and> i mod w < x1" using a by simp
next
  assume "y = i div w \<and> x0 \<le> i mod w \<and> i mod w < x1"
  then show "y * w + x0 \<le> i \<and> i < y * w + x1" using div_mult_mod_eq [of i w] by (metis add_le_cancel_left nat_add_left_cancel_less)
qed

lemma fill_rows_spec:
  assumes "x0 \<le> x1" "x1 \<le> w" "0 < w" "y1 \<le> h" "length covered = w * h" "i < w * h"
  shows "length (fill_rows w x0 x1 y0 y1 covered) = w * h \<and>
    (fill_rows w x0 x1 y0 y1 covered ! i \<longleftrightarrow> covered ! i \<or> (y0 \<le> i div w \<and> i div w < y1 \<and> x0 \<le> i mod w \<and> i mod w < x1))"
  using assms(4)
proof (induction y1)
  case 0
  then show ?case using assms(5) by (simp add: fill_rows_def)
next
  case (Suc y)
  let ?c = "fill_rows w x0 x1 y0 y covered"
  have ih: "length ?c = w * h" "?c ! i \<longleftrightarrow> covered ! i \<or> (y0 \<le> i div w \<and> i div w < y \<and> x0 \<le> i mod w \<and> i mod w < x1)" using Suc by auto
  show ?case
  proof (cases "y0 \<le> y")
    case True
    have "Suc y * w \<le> h * w" using Suc.prems by (rule mult_le_mono1)
    then have fit: "y * w + x0 + (x1 - x0) \<le> length ?c" using assms(1,2) ih(1) by (simp add: mult.commute)
    have "fill_rows w x0 x1 y0 (Suc y) covered = fill (y * w + x0) (x1 - x0) ?c" using True by (simp add: fill_rows_def)
    moreover have "y * w + x0 \<le> i \<and> i < y * w + x0 + (x1 - x0) \<longleftrightarrow> y = i div w \<and> x0 \<le> i mod w \<and> i mod w < x1"
      using shape_row_index [OF assms(2,3), of y x0 i] assms(1) by (simp add: add.assoc)
    ultimately show ?thesis using fit ih assms(6) True by (auto simp: nth_fill)
  next
    case False
    then show ?thesis using ih assms(5) by (auto simp: fill_rows_def)
  qed
qed

lemma cover_rects_spec:
  "cover_rects w h rs area covered = Some covered' \<Longrightarrow> length covered = w * h \<Longrightarrow> 0 < w \<Longrightarrow> i < w * h \<Longrightarrow>
     length covered' = w * h \<and> (covered' ! i \<longleftrightarrow> covered ! i \<or> (\<exists>r\<in>set rs. in_shape r (i mod w) (i div w)))"
proof (induction rs arbitrary: area covered)
  case (Cons r rs)
  obtain x0 x1 y0 y1 where c: "clip_rect w h r = ((x0, x1), (y0, y1))" by (metis surj_pair)
  have xy: "i mod w < w" "i div w < h" using Cons.prems by (simp_all add: div_less_iff_less_mult mult.commute)
  note shape = clip_rect_iff(3) [OF c xy]
  show ?case
  proof (cases "x1 \<le> x0 \<or> y1 \<le> y0")
    case True
    then have "\<not> in_shape r (i mod w) (i div w)" using shape by auto
    then show ?thesis using True Cons.IH [of area covered] Cons.prems c by simp
  next
    case False
    define c1 where "c1 = fill_rows w x0 x1 y0 y1 covered"
    have f: "length c1 = w * h" "c1 ! i \<longleftrightarrow> covered ! i \<or> (y0 \<le> i div w \<and> i div w < y1 \<and> x0 \<le> i mod w \<and> i mod w < x1)"
      using fill_rows_spec [of x0 x1 w y1 h covered i y0] False clip_rect_iff(1,2) [OF c] Cons.prems by (auto simp: c1_def)
    have "cover_rects w h rs (area + (x1 - x0) * (y1 - y0)) c1 = Some covered'"
      using Cons.prems(1) c False by (simp add: Let_def c1_def split: if_splits)
    from Cons.IH [OF this f(1) Cons.prems(3,4)] show ?thesis using f(2) shape by auto
  qed
qed simp

text \<open>The area of a clipped rectangle; the sum over a canonical region, whose rectangles do not overlap, is at most the frame.\<close>

definition clipped_area :: "nat \<Rightarrow> nat \<Rightarrow> chrome_shape_rect \<Rightarrow> nat" where
  "clipped_area w h r = (case clip_rect w h r of ((x0, x1), (y0, y1)) \<Rightarrow> (x1 - x0) * (y1 - y0))"

lemma cover_rects_accepts: "area + sum_list (map (clipped_area w h) rs) \<le> w * h \<Longrightarrow> cover_rects w h rs area covered \<noteq> None"
proof (induction rs arbitrary: area covered)
  case (Cons r rs)
  obtain x0 x1 y0 y1 where c: "clip_rect w h r = ((x0, x1), (y0, y1))" by (metis surj_pair)
  have le: "area + (x1 - x0) * (y1 - y0) + sum_list (map (clipped_area w h) rs) \<le> w * h" using Cons.prems c by (simp add: clipped_area_def [of w h r])
  then have "\<not> (x1 - x0) * (y1 - y0) > w * h - area" by linarith
  moreover have "cover_rects w h rs area covered \<noteq> None" using Cons.IH [of area covered] le by linarith
  moreover have "cover_rects w h rs (area + (x1 - x0) * (y1 - y0)) (fill_rows w x0 x1 y0 y1 covered) \<noteq> None" using le by (rule Cons.IH)
  ultimately show ?case using c by (simp add: Let_def)
qed simp

lemma chunk_of_concat: "(\<And>j. length (f j) = 4) \<Longrightarrow> length (concat (map f [0..<n])) = n * 4 \<and> (i < n \<longrightarrow> take 4 (drop (i * 4) (concat (map f [0..<n]))) = f i)"
proof (induction n)
  case (Suc n)
  then show ?case by (cases "i = n") auto
qed simp

definition pixel_at :: "nat \<Rightarrow> nat \<Rightarrow> nat \<Rightarrow> string \<Rightarrow> string" where
  "pixel_at w x y bgra = take 4 (drop ((y * w + x) * 4) bgra)"

lemma black_outside_spec:
  assumes "length bgra = length covered * 4"
  shows "length (black_outside covered bgra) = length bgra \<and>
    (i < length covered \<longrightarrow> take 4 (drop (i * 4) (black_outside covered bgra)) =
       (if covered ! i then take 4 (drop (i * 4) bgra) else [CHR 0x00, CHR 0x00, CHR 0x00, CHR 0xFF]))"
proof -
  let ?g = "\<lambda>i. if i < length covered \<and> covered ! i then take 4 (drop (i * 4) bgra) else [CHR 0x00, CHR 0x00, CHR 0x00, CHR 0xFF]"
  have "length (?g j) = 4" for j using assms by auto
  moreover have "black_outside covered bgra = concat (map ?g [0..<length covered])"
    unfolding black_outside_def by (rule arg_cong [of _ _ concat], rule map_cong) auto
  ultimately show ?thesis using chunk_of_concat [of ?g "length covered" i] assms by auto
qed

text \<open>The whole frame as its own shape: nothing is outside.\<close>

lemma whole_shape: "x < w \<Longrightarrow> y < h \<Longrightarrow> in_shape \<lparr>cs_x = 0, cs_y = 0, cs_width = w, cs_height = h\<rparr> x y"
  by (simp add: in_shape_def)

lemma pixel_index: "x < w \<Longrightarrow> y < h \<Longrightarrow> y * w + x < w * h \<and> (y * w + x) mod w = x \<and> (y * w + x) div w = y" for x y :: nat
proof -
  assume a: "x < w" "y < h"
  have "Suc y * w \<le> h * w" using a(2) by (intro mult_le_mono1) simp
  then show ?thesis using a by (simp add: mult.commute)
qed

lemma mask_pixels:
  assumes "cover_rects w h rs 0 (replicate (w * h) False) = Some covered" "length bgra = w * h * 4" "0 < w" "0 < h"
  shows "length (black_outside covered bgra) = length bgra \<and>
    (\<forall>x<w. \<forall>y<h. pixel_at w x y (black_outside covered bgra) =
       (if list_ex (\<lambda>r. in_shape r x y) rs then pixel_at w x y bgra else [CHR 0x00, CHR 0x00, CHR 0x00, CHR 0xFF]))"
proof -
  note spec = cover_rects_spec [OF assms(1) length_replicate assms(3)]
  have len: "length covered = w * h" using spec [of 0] assms(3,4) by simp
  have "pixel_at w x y (black_outside covered bgra) =
      (if list_ex (\<lambda>r. in_shape r x y) rs then pixel_at w x y bgra else [CHR 0x00, CHR 0x00, CHR 0x00, CHR 0xFF])" if "x < w" "y < h" for x y
    using black_outside_spec [of bgra covered "y * w + x"] spec [of "y * w + x"] pixel_index [OF that] len assms(2)
    by (simp add: pixel_at_def list_ex_iff)
  then show ?thesis using black_outside_spec [of bgra covered] len assms(2) by simp
qed

text \<open>
  C40: Masking keeps the length of the frame; if it refuses, the frame is untouched; if it accepts,
  every pixel inside some rectangle of the shape is unchanged and every other pixel is opaque black.
  It accepts every well-sized frame whose clipped rectangles cover no more than the frame.
\<close>

theorem mask_exact:
  assumes "chrome_mask_outside_shape alloc bgra w h rs = (ok, out)"
  shows "length out = length bgra \<and> (\<not> ok \<longrightarrow> out = bgra) \<and>
    (ok \<longrightarrow> (\<forall>x<w. \<forall>y<h. pixel_at w x y out =
       (if list_ex (\<lambda>r. in_shape r x y) rs then pixel_at w x y bgra else [CHR 0x00, CHR 0x00, CHR 0x00, CHR 0xFF]))) \<and>
    (0 < w \<and> 0 < h \<and> w < 2 ^ 31 \<and> h < 2 ^ 31 \<and> length bgra = w * h * 4 \<and> alloc \<and> sum_list (map (clipped_area w h) rs) \<le> w * h \<longrightarrow> ok)"
proof -
  let ?full = "[\<lparr>cs_x = 0, cs_y = 0, cs_width = w, cs_height = h\<rparr>]"
  consider (refused) "ok = False" "out = bgra" | (whole) "ok" "out = bgra" "rs = ?full"
    | (masked) covered where "ok" "out = black_outside covered bgra" "cover_rects w h rs 0 (replicate (w * h) False) = Some covered"
        "length bgra = w * h * 4" "0 < w" "0 < h"
    using assms by (auto simp: chrome_mask_outside_shape_def split: if_splits option.splits)
  then have "length out = length bgra \<and> (\<not> ok \<longrightarrow> out = bgra) \<and> (ok \<longrightarrow> (\<forall>x<w. \<forall>y<h. pixel_at w x y out =
       (if list_ex (\<lambda>r. in_shape r x y) rs then pixel_at w x y bgra else [CHR 0x00, CHR 0x00, CHR 0x00, CHR 0xFF])))"
    by cases (use mask_pixels whole_shape in auto)
  moreover have "ok" if a: "0 < w" "0 < h" "w < 2 ^ 31" "h < 2 ^ 31" "length bgra = w * h * 4" "alloc" "sum_list (map (clipped_area w h) rs) \<le> w * h"
  proof -
    have "w * h < 2 ^ 31 * 2 ^ 31" using a(3,4) by (intro mult_strict_mono) simp_all
    then have "\<not> w > 18446744073709551615 div h" "\<not> w * h > 18446744073709551615 div 4"
      using a(2) by (simp_all add: not_less less_eq_div_iff_mult_less_eq)
    then show ?thesis using assms a cover_rects_accepts [of 0 w h rs "replicate (w * h) False"] by (auto simp: chrome_mask_outside_shape_def split: if_splits option.splits)
  qed
  ultimately show ?thesis by blast
qed

definition left_half :: chrome_shape_rect where
  "left_half = \<lparr>cs_x = -3, cs_y = 0, cs_width = 4, cs_height = 9\<rparr>"

theorem mask_exact_witness: "fst (chrome_mask_outside_shape True ''abcdefgh'' 2 1 [left_half])"
proof -
  obtain ok out where r: "chrome_mask_outside_shape True ''abcdefgh'' 2 1 [left_half] = (ok, out)" by force
  have "clipped_area 2 1 left_half = 1" by (simp add: clipped_area_def clip_rect_def left_half_def)
  then have "ok" using mask_exact [OF r] by simp
  then show ?thesis unfolding r by simp
qed

section \<open>What the scheduler keeps\<close>

lemma since_eq: "t \<le> now_ms \<Longrightarrow> now_ms < 2 ^ 64 \<Longrightarrow> since now_ms t = now_ms - t"
  by (simp add: since_def u64_of_int_def nat_diff_distrib of_nat_diff [symmetric] zmod_int [symmetric] del: of_nat_diff)

text \<open>Two captures of a window are at least the warm-up interval apart, and outside the warm-up the steady one.\<close>

lemma capture_cadence:
  assumes "due xid later p'" "p' xid = Some s" "rs_ever_captured s" "rs_last_capture_ms s = now_ms" "now_ms \<le> later" "later < 2 ^ 64"
  shows "now_ms + kChromeWarmupIntervalMs \<le> later \<and> (\<not> in_warmup s later \<longrightarrow> now_ms + kChromeSteadyIntervalMs \<le> later)"
  using assms since_eq [of now_ms later] by (auto simp: due_def interval_for_def split: if_splits)

lemma capture_recorded: "p xid = Some s \<Longrightarrow> \<exists>s'. record_capture xid now_ms p xid = Some s' \<and> rs_ever_captured s' \<and> rs_last_capture_ms s' = now_ms"
  by (simp add: record_capture_def)

text \<open>A window whose frames are all black is held back for the warm-up at most; after that, or once a frame was shipped, it is not.\<close>

lemma black_hold_bounded:
  assumes "holding_for_first_content xid now_ms p" "p xid = Some s" "rs_first_seen_ms s \<le> now_ms" "now_ms < 2 ^ 64"
  shows "now_ms < rs_first_seen_ms s + kChromeWarmupDurationMs \<and> \<not> rs_ever_shipped s \<and> decide_ship xid now_ms hash p = Ship"
  using assms since_eq [of "rs_first_seen_ms s" now_ms] by (auto simp: holding_for_first_content_def in_warmup_def decide_ship_def)

text \<open>
  A frame that was shipped is suppressed as long as it is unchanged, outside the warm-up and within
  the heartbeat; changed content is shipped at once.
\<close>

lemma ship_suppressed_iff:
  assumes "p xid = Some s" "rs_first_seen_ms s \<le> t" "t \<le> now_ms" "now_ms < 2 ^ 64"
  shows "decide_ship xid now_ms hash (record_ship xid t old p) = Suppress \<longleftrightarrow>
    hash = old \<and> rs_first_seen_ms s + kChromeWarmupDurationMs \<le> now_ms \<and> now_ms < t + kChromeHeartbeatMs"
  using assms since_eq [of t now_ms] since_eq [of "rs_first_seen_ms s" now_ms]
  by (auto simp: decide_ship_def record_ship_def in_warmup_def)

text \<open>Once the worker shows a surface, the window is not captured until it is armed again.\<close>

lemma stopped_not_due: "repr \<noteq> ''placeholder'' \<Longrightarrow> \<not> due xid now_ms (note_representation xid repr p)"
  by (auto simp: due_def note_representation_def split: option.splits)

end
