(* ===== verification/Window_Placement.thy ===== *)
theory Window_Placement
  imports Prelude
begin

unbundle bit_operations_syntax

text \<open>
  The pure placement helpers: which self-mapped windows are popups
  (src/vkrelay2/common/sidecar/popup_classify.h and popup_lifecycle.hpp), where a toplevel is put and
  how it is kept on screen (src/vkrelay2/common/sidecar/window_placement.hpp), and the one seam
  between guest root coordinates and host window frames
  (src/vkrelay2/windows/worker/windowing/coordinate_map.h). Coordinates are C++ \<open>int\<close> values of pixels;
  the model computes with unbounded integers, which is what the source computes as long as the
  desktop stays inside the 32-bit range. \<open>AdjustWindowRectExForDpi\<close> of the operating system is a
  parameter.
\<close>

section \<open>Popups\<close>

definition popup_size_ok :: "nat \<Rightarrow> nat \<Rightarrow> bool" where
  "popup_size_ok width height \<longleftrightarrow> width \<ge> 4 \<and> height \<ge> 4"

definition is_fullscreen_toplevel :: "nat \<Rightarrow> nat \<Rightarrow> nat \<Rightarrow> nat \<Rightarrow> bool" where
  "is_fullscreen_toplevel width height root_width root_height \<longleftrightarrow> width \<ge> root_width \<and> height \<ge> root_height"

definition is_known_toolkit_junk :: "string \<Rightarrow> bool" where
  "is_known_toolkit_junk wm_class \<longleftrightarrow> list_ex (\<lambda>marker. list_ex (prefix marker) (suffixes wm_class)) [''x11argb'']"

datatype popup_remap_action = UpdateGeometry | SetVisible | PaintChrome

definition popup_remap_actions :: "popup_remap_action list" where
  "popup_remap_actions = [UpdateGeometry, SetVisible, PaintChrome]"

section \<open>Placement on the root\<close>

text \<open>The property payload as 32-bit words; a missing property is the empty list.\<close>

definition wm_hints_has_explicit_position :: "nat list \<Rightarrow> bool" where
  "wm_hints_has_explicit_position ws = (case ws of [] \<Rightarrow> False | w # _ \<Rightarrow> w AND (push_bit 0 1 OR push_bit 2 1) \<noteq> 0)"

definition centered_client_origin :: "int \<Rightarrow> int \<Rightarrow> int \<Rightarrow> int \<Rightarrow> int \<times> int" where
  "centered_client_origin root_w root_h client_w client_h =
     ((if root_w > client_w then (root_w - client_w) div 2 else 0), (if root_h > client_h then (root_h - client_h) div 2 else 0))"

text \<open>Both axes run the same chain of tests.\<close>

definition clamp_origin_axis :: "int \<Rightarrow> int \<Rightarrow> int \<Rightarrow> int" where
  "clamp_origin_axis root_size x w = (if w \<ge> root_size then 0 else if x < 0 then 0 else if x > root_size - w then root_size - w else x)"

definition clamp_client_origin_to_root :: "int \<Rightarrow> int \<Rightarrow> int \<Rightarrow> int \<Rightarrow> int \<Rightarrow> int \<Rightarrow> int \<times> int" where
  "clamp_client_origin_to_root root_w root_h x y w h = (clamp_origin_axis root_w x w, clamp_origin_axis root_h y h)"

definition clamp_frame_axis :: "int \<Rightarrow> int \<Rightarrow> int \<Rightarrow> int \<Rightarrow> int" where
  "clamp_frame_axis fl fr wl wr =
     (let fw = fr - fl; ww = wr - wl in
      if fw \<ge> ww then wl
      else let left = (if fl < wl then wl else fl) in if left + fw > wr then wr - fw else left)"

definition clamp_frame_to_work_area :: "int \<Rightarrow> int \<Rightarrow> int \<Rightarrow> int \<Rightarrow> int \<Rightarrow> int \<Rightarrow> int \<Rightarrow> int \<Rightarrow> int \<times> int" where
  "clamp_frame_to_work_area fl ft fr fb wl wt wr wb = (clamp_frame_axis fl fr wl wr, clamp_frame_axis ft fb wt wb)"

definition surface_extent_ceiling_axis :: "nat \<Rightarrow> nat \<Rightarrow> nat" where
  "surface_extent_ceiling_axis guest_extent host_max_extent =
     (if guest_extent = 0 then host_max_extent else if guest_extent < host_max_extent then guest_extent else host_max_extent)"

record min_max_cap =
  max_size_x :: int
  max_size_y :: int
  max_track_x :: int
  max_track_y :: int

definition cap_maxsize_to_client :: "int \<Rightarrow> int \<Rightarrow> int \<Rightarrow> int \<Rightarrow> int \<Rightarrow> int \<Rightarrow> int \<Rightarrow> int \<Rightarrow> min_max_cap" where
  "cap_maxsize_to_client client_cap_w client_cap_h frame_extra_w frame_extra_h def_max_x def_max_y def_track_x def_track_y =
     (if client_cap_w \<le> 0 \<or> client_cap_h \<le> 0 \<or> frame_extra_w < 0 \<or> frame_extra_h < 0
      then \<lparr>max_size_x = def_max_x, max_size_y = def_max_y, max_track_x = def_track_x, max_track_y = def_track_y\<rparr>
      else let outer_w = client_cap_w + frame_extra_w; outer_h = client_cap_h + frame_extra_h in
        \<lparr>max_size_x = (if outer_w < def_max_x then outer_w else def_max_x), max_size_y = (if outer_h < def_max_y then outer_h else def_max_y),
         max_track_x = outer_w, max_track_y = outer_h\<rparr>)"

section \<open>Guest coordinates and host frames\<close>

record win_rect =
  wr_left :: int
  wr_top :: int
  wr_right :: int
  wr_bottom :: int

record frame_insets =
  fi_left :: int
  fi_top :: int
  fi_right :: int
  fi_bottom :: int
  fi_valid :: bool

record root_client_geometry =
  rg_root_x :: int
  rg_root_y :: int
  rg_client_w :: int
  rg_client_h :: int

text \<open>What the window system answers for a live window: its frame, its client rectangle, and the client origin on the screen.\<close>

definition read_real_frame_insets :: "(win_rect \<times> win_rect \<times> int \<times> int) option \<Rightarrow> frame_insets" where
  "read_real_frame_insets answer =
     (case answer of
        None \<Rightarrow> \<lparr>fi_left = 0, fi_top = 0, fi_right = 0, fi_bottom = 0, fi_valid = False\<rparr>
      | Some (frame, client, ox, oy) \<Rightarrow>
          let client_w = wr_right client - wr_left client; client_h = wr_bottom client - wr_top client;
              l = ox - wr_left frame; t = oy - wr_top frame;
              r = wr_right frame - (ox + client_w); b = wr_bottom frame - (oy + client_h)
          in \<lparr>fi_left = l, fi_top = t, fi_right = r, fi_bottom = b, fi_valid = (l \<ge> 0 \<and> t \<ge> 0 \<and> r \<ge> 0 \<and> b \<ge> 0)\<rparr>)"

definition map_root_client_to_win32_frame_with_insets :: "int \<Rightarrow> int \<Rightarrow> int \<Rightarrow> int \<Rightarrow> int \<times> int \<Rightarrow> frame_insets \<Rightarrow> win_rect" where
  "map_root_client_to_win32_frame_with_insets root_x root_y client_w client_h work_origin insets =
     (let client_x = fst work_origin + root_x; client_y = snd work_origin + root_y in
      \<lparr>wr_left = client_x - fi_left insets, wr_top = client_y - fi_top insets,
       wr_right = client_x + client_w + fi_right insets, wr_bottom = client_y + client_h + fi_bottom insets\<rparr>)"

text \<open>\<open>adjust\<close> is \<open>AdjustWindowRectExForDpi\<close> at the window's style, extended style and DPI.\<close>

definition map_root_client_to_win32_frame :: "(win_rect \<Rightarrow> win_rect) \<Rightarrow> int \<Rightarrow> int \<Rightarrow> int \<Rightarrow> int \<Rightarrow> int \<times> int \<Rightarrow> win_rect" where
  "map_root_client_to_win32_frame adjust root_x root_y client_w client_h work_origin =
     (let inset = adjust \<lparr>wr_left = 0, wr_top = 0, wr_right = client_w, wr_bottom = client_h\<rparr>;
          client_x = fst work_origin + root_x; client_y = snd work_origin + root_y in
      \<lparr>wr_left = client_x + wr_left inset, wr_top = client_y + wr_top inset,
       wr_right = client_x + wr_right inset, wr_bottom = client_y + wr_bottom inset\<rparr>)"

definition read_real_root_client_geometry :: "(win_rect \<times> int \<times> int) option \<Rightarrow> int \<times> int \<Rightarrow> root_client_geometry" where
  "read_real_root_client_geometry answer host_origin =
     (case answer of
        None \<Rightarrow> \<lparr>rg_root_x = 0, rg_root_y = 0, rg_client_w = 0, rg_client_h = 0\<rparr>
      | Some (client, ox, oy) \<Rightarrow>
          \<lparr>rg_root_x = ox - fst host_origin, rg_root_y = oy - snd host_origin,
           rg_client_w = wr_right client - wr_left client, rg_client_h = wr_bottom client - wr_top client\<rparr>)"

definition map_win32_frame_to_root_client :: "(win_rect \<Rightarrow> win_rect) \<Rightarrow> win_rect \<Rightarrow> int \<times> int \<Rightarrow> root_client_geometry" where
  "map_win32_frame_to_root_client adjust frame work_origin =
     (let probe = adjust \<lparr>wr_left = 0, wr_top = 0, wr_right = 0, wr_bottom = 0\<rparr>;
          client_w = (wr_right frame - wr_left frame) - (wr_right probe - wr_left probe);
          client_h = (wr_bottom frame - wr_top frame) - (wr_bottom probe - wr_top probe);
          client_x = wr_left frame - wr_left probe; client_y = wr_top frame - wr_top probe in
      \<lparr>rg_root_x = client_x - fst work_origin, rg_root_y = client_y - snd work_origin,
       rg_client_w = (if client_w < 0 then 0 else client_w), rg_client_h = (if client_h < 0 then 0 else client_h)\<rparr>)"

section \<open>What placement keeps\<close>

text \<open>A client that fits ends up on the root, and one that already is there does not move.\<close>

lemma clamp_origin_axis_bounds:
  assumes "0 \<le> w"
  shows "0 \<le> clamp_origin_axis root_size x w" "w < root_size \<Longrightarrow> clamp_origin_axis root_size x w + w \<le> root_size"
    "0 \<le> x \<Longrightarrow> x + w \<le> root_size \<Longrightarrow> clamp_origin_axis root_size x w = x"
    "clamp_origin_axis root_size (clamp_origin_axis root_size x w) w = clamp_origin_axis root_size x w"
  using assms by (auto simp: clamp_origin_axis_def)

lemma clamp_frame_axis_bounds:
  assumes "fl \<le> fr" "wl \<le> wr"
  shows "wl \<le> clamp_frame_axis fl fr wl wr" "fr - fl \<le> wr - wl \<Longrightarrow> clamp_frame_axis fl fr wl wr + (fr - fl) \<le> wr"
    "wl \<le> fl \<Longrightarrow> fr \<le> wr \<Longrightarrow> clamp_frame_axis fl fr wl wr = fl"
  using assms by (auto simp: clamp_frame_axis_def Let_def)

lemma centered_axis: "clamp_origin_axis r (if r > w then (r - w) div 2 else 0) w = (if r > w then (r - w) div 2 else 0)"
proof (cases "r > w")
  case True
  then have "\<not> (r - w) div 2 < 0" "\<not> (r - w) div 2 > r - w" by linarith+
  then show ?thesis using True by (simp add: clamp_origin_axis_def)
qed (simp add: clamp_origin_axis_def)

lemma centered_needs_no_clamp:
  "centered_client_origin root_w root_h w h = (x, y) \<Longrightarrow> clamp_client_origin_to_root root_w root_h x y w h = (x, y)"
  by (auto simp only: centered_client_origin_def clamp_client_origin_to_root_def centered_axis prod.inject)

text \<open>With the cap applied, neither a maximize nor a drag gives a client larger than the guest root.\<close>

lemma capped_client_fits:
  assumes "0 < cw" "0 < ch" "0 \<le> ew" "0 \<le> eh" "c = cap_maxsize_to_client cw ch ew eh dx dy tx ty"
  shows "max_size_x c - ew \<le> cw \<and> max_size_y c - eh \<le> ch \<and> max_track_x c - ew = cw \<and> max_track_y c - eh = ch"
  using assms by (simp add: cap_maxsize_to_client_def Let_def)

text \<open>
  The frame of a window grows its client by insets that do not depend on the client: the
  documented behaviour of \<open>AdjustWindowRectExForDpi\<close> for one style, extended style and DPI.
\<close>

definition fixed_insets :: "(win_rect \<Rightarrow> win_rect) \<Rightarrow> frame_insets \<Rightarrow> bool" where
  "fixed_insets adjust ins \<longleftrightarrow>
     (\<forall>r. adjust r = \<lparr>wr_left = wr_left r - fi_left ins, wr_top = wr_top r - fi_top ins,
                      wr_right = wr_right r + fi_right ins, wr_bottom = wr_bottom r + fi_bottom ins\<rparr>)"

lemma coordinate_roundtrip:
  assumes "fixed_insets adjust ins" "0 \<le> w" "0 \<le> h"
  shows "map_win32_frame_to_root_client adjust (map_root_client_to_win32_frame adjust x y w h org) org =
      \<lparr>rg_root_x = x, rg_root_y = y, rg_client_w = w, rg_client_h = h\<rparr> \<and>
    map_root_client_to_win32_frame adjust x y w h org = map_root_client_to_win32_frame_with_insets x y w h org ins"
  using assms by (simp add: fixed_insets_def map_win32_frame_to_root_client_def map_root_client_to_win32_frame_def
    map_root_client_to_win32_frame_with_insets_def Let_def)

text \<open>Insets measured on a window that was placed with them are the same insets, so placing it again does not move it.\<close>

lemma measured_insets_stable:
  assumes "frame = map_root_client_to_win32_frame_with_insets x y w h org ins"
    and "client = \<lparr>wr_left = 0, wr_top = 0, wr_right = w, wr_bottom = h\<rparr>"
    and "answer = Some (frame, client, fst org + x, snd org + y)"
  shows "map_root_client_to_win32_frame_with_insets x y w h org (read_real_frame_insets answer) = frame \<and>
    read_real_root_client_geometry (Some (client, fst org + x, snd org + y)) org = \<lparr>rg_root_x = x, rg_root_y = y, rg_client_w = w, rg_client_h = h\<rparr>"
  using assms by (simp add: map_root_client_to_win32_frame_with_insets_def read_real_frame_insets_def read_real_root_client_geometry_def Let_def)

end
