(* ===== verification/Spec2Isabelle.thy ===== *)
theory Spec2Isabelle
  imports Session_Service Memory_Theorems Sidecar_Theorems
    Launch_Descriptor Acquire_Poll Draw_Validation Caps_Cache
    Command_Line Chrome_Recapture Window_Placement
begin

text \<open>
  vkrelay2 runs graphical applications of a Linux guest on the GPU and the desktop of a Windows host.
  All sources are under src/vkrelay2.

  \<^bold>\<open>The parts and how they interact.\<close> A daemon on the host (windows/supervisor) accepts control
  sessions: JSON messages in length-prefixed frames (common/protocol, common/transport,
  common/control). A session opens with a handshake that advertises a display snapshot, and may then
  list and select GPUs, launch a worker bound to the handshake's identity and to a snapshot, and
  close it. The worker (windows/worker) serves two planes. On the data plane the guest's Vulkan driver
  (linux/icd) sends binary RPC frames (common/vkrpc), among them the bytes of host-visible memory that
  the application wrote through a mapped pointer. On the sidecar plane a guest process
  (linux/sidecar) registers toplevel windows, moves and paints them, and polls input
  (common/sidecar); the worker joins both planes in a registry of windows.

  \<^bold>\<open>Conventions.\<close> Prelude.thy has the result type of fallible code (\<open>rbind\<close>, \<open>ensure\<close>), the wrap-around
  of fixed-width integers (\<open>u32\<close>, \<open>u64\<close>, \<open>i32\<close>, \<open>i64\<close>), decimal numbers, association lists in
  insertion order and ordered maps. A struct or class is a record, an enumeration a datatype, a
  throwing function returns a sum, a stateful method maps the state to its result and the new
  state, and code that several threads run under a mutex is a transition system whose steps are the
  critical sections. What the operating system, a socket or a driver answers is an input.

  \<^bold>\<open>Theories and sources.\<close>
  \<^item> Json_Number, Json, Json_Correct: common/util/json.cpp. \<open>json_roundtrip\<close>: printing and parsing are
    inverse; \<open>json_parse_total\<close>: parsing always returns and its fuel is never exhausted. The locales
    \<open>keyed_store\<close>, \<open>codec\<close> and \<open>codec_stack\<close> carry the round trips of all messages.
  \<^item> Wire, Transport, Transport_Correct: common/protocol/wire.cpp and common/transport/transport.cpp.
    \<open>frame_decode_spec\<close>, \<open>channel_delivers\<close>, \<open>handshake_agrees\<close>: frames survive any cutting of the
    stream into chunks (locale \<open>stream_codec\<close>), and the two sides of a handshake agree.
  \<^item> Display_Layout, Display_Correct, Display_Codec: common/display/display_layout.cpp. The validator
    characterised, the placement of windows, the coordinate transforms, the JSON codec.
  \<^item> Gpu, Messages, Messages_Correct: common/protocol/gpu.cpp and messages.cpp. Selector grammar and
    selection; every message struct with its encoder and tolerant decoder.
  \<^item> Launch_Descriptor, Command_Line: common/protocol/launch_descriptor.cpp, common/argv. The UTF-8 check
    equals the encodings of scalar values (\<open>clean_utf8_spec\<close>); descriptors and command lines survive
    their text forms (\<open>descriptor_roundtrip\<close>, \<open>command_line_roundtrip\<close>). How the operating system splits a
    command line is a parameter with its documented rules, those of the program name apart from those
    of the arguments (\<open>command_rules\<close>).
  \<^item> Control, Snapshot_Cache, Session_Service: common/control/control_service.cpp and
    windows/supervisor/display_snapshot_cache.cpp. \<open>launches_bound_to_handshake\<close>; the cache refines the
    list of captures (\<open>snapshot_cache_refines\<close>); the locales \<open>snapshot_source\<close> and \<open>launch_source\<close> are
    what a session relies on, interpreted by the cache and the supervisor.
  \<^item> Lifecycle, Supervisor, Supervisor_Correct, Supervisor_Props:
    common/protocol/worker_lifecycle.cpp and windows/supervisor/worker_supervisor.cpp. The invariant over all
    interleavings, one registration per token, authenticated close, silent workers killed whatever
    the other threads do meanwhile.
  \<^item> Rpc: common/vkrpc/rpc.cpp with the call and serve loops of vulkan_session.cpp. \<open>rpc_call_served\<close>.
  \<^item> Memory_Tracker, Soft_Dirty, Memory_Wire, Memory_Link: linux/icd/icd_memory.h, icd_softdirty.h, the
    upload path of icd.cpp, and the memory operations of vulkan_session.cpp. Memory_Correct and
    Memory_Sweep hold the lemmas on snapshots, frames and commits (locale \<open>scatter\<close>); Memory_System puts
    application, driver, worker and kernel together. Each call has a fate: carried, lost before the
    worker sees it, or applied with its answer lost; FreeMemory is a step with its upload, its calls,
    the fallback and the exceptions it swallows. Two ghost fields record that an answer was lost and
    that a free swallowed an exception of its upload. \<open>submit_syncs\<close>: where neither happened, after a
    submit that reports success the worker holds what the application wrote; \<open>mirror_is_worker\<close>,
    \<open>sweep_frames_bounded\<close>, \<open>split_is_snapshot\<close>, \<open>read_dirty_exact\<close>.
  \<^item> Caps_Cache, Acquire_Poll, Draw_Validation: linux/icd/icd_caps_cache.h,
    windows/worker/acquire_poll.hpp, common/vkrpc/indirect_draw_validation.h and
    pipeline_specialization_validation.h. What a lookup may serve, that a finite acquire returns, and that
    the overflow-guarded range checks are exact.
  \<^item> Window_Registry, Registry_Correct, Input_Queue, Chrome_Paint: common/sidecar/window_registry.hpp and
    input_queue.hpp, the paint request and the pixel store. \<open>input_not_lost\<close>, \<open>paint_exact\<close>.
  \<^item> Sidecar_Messages, Sidecar_Codec, Sidecar_Plane: common/sidecar/sidecar_session.cpp and the window half of
    the mock backend in common/vkrpc/vulkan_session.cpp. Sidecar_System, Sidecar_Invariant and
    Sidecar_Theorems run both planes in any order: the locale \<open>plane_relation\<close> gives, for each relation
    that single operations keep, that runs keep it. Sidecar_Authored reads the geometry the sidecar
    authored off the requests and the answers of a run. \<open>plane_invariant\<close>, \<open>input_gate\<close>,
    \<open>enum_reports_authored\<close>.
  \<^item> Chrome_Recapture, Window_Placement: common/sidecar/chrome_recapture.hpp, popup_classify.h,
    popup_lifecycle.hpp, window_placement.hpp and windows/worker/windowing/coordinate_map.h.

  \<^bold>\<open>Bounds and fuel.\<close> The JSON parser starts with three units of fuel per character and three more,
  enough for every text (\<open>parse_enough_fuel\<close>). Runs of the supervisor and of the two planes are
  bounded by the \<open>2 ^ 64\<close> values of the counters that mint tokens, epochs and handles; the statements
  say so. The acquire loop is a partial function, and that it returns is a theorem. Numbers in JSON
  are exact below \<open>10 ^ 15\<close>, which the round trips require of numeric fields.

  \<^bold>\<open>Where the code departs from its comments.\<close> \<open>placement_can_land_in_a_hole\<close>,
  \<open>parse_selector_throws_iff\<close>, \<open>given_up_worker_recorded_crashed\<close>, \<open>flush_two_ranges_refused\<close> and
  \<open>free_flush_stale\<close> state behaviour that a comment or a neighbouring branch does not intend.

  \<^bold>\<open>Granularity.\<close> A few steps are coarser than the code. A registration attempt reads the stopping flag in
  the same step as the session table, although the code reads the flag before it takes the mutex. The
  preparation of a session and its insertion are two steps of the transition system, but the
  whole call \<open>sup_launch_session\<close> runs them one after the other and lets other threads in only while it
  waits. A capture for a handshake is one step although the probe runs before the lock. Creating and destroying a surface
  are one step each, although the code changes the tables of surfaces and instances outside
  the mutex of the registry. The memory of the mock backend starts as zeros, as the mock sizes it on first
  use; that of the real backend starts undefined until the first upload. Checks that only a
  value outside an enumeration, or a null pointer in place of a buffer, can fail have no counterpart,
  since the types exclude such values.

  \<^bold>\<open>Not modelled.\<close> The real Vulkan backend, the Vulkan entry points of the driver other than mapped
  memory, and the device, swapchain and command handlers of the mock backend: they forward to or
  imitate a GPU driver whose behaviour is outside the sources. The sidecar's X event loop, the
  worker's window thread, process spawning, sockets, logging, profiling and the command-line front
  ends are calls of operating systems around the modelled parts. Data races are visible only
  where one mutex orders the accesses; the one place where the two planes touch a table under
  different locks is not expressed. Writes of the GPU into mapped memory are outside the memory
  system.
\<close>

end
